(* ===== verification/Prelude.thy ===== *)
theory Prelude
  imports Main "HOL-Library.Word"
begin

text \<open>
  Shared foundations of the model of the OS/2 EMX pthreads library.

  A C function is a program over a state \<open>'s\<close>: it returns a value and a new state
  (\<open>Ret\<close>), leaves for good because the process or the thread ends (\<open>Stop\<close>), runs into
  undefined behaviour such as the dereference of a null pointer (\<open>Fault\<close>), or never
  returns (\<open>None\<close>).  \<open>bindM\<close> runs one program after another; the conditional collections
  \<open>run_simps\<close> let the simplifier execute a program on a symbolic state.

  The theory also holds the chains of the library's linked lists (\<open>chain\<close>, a path of
  links that ends in the null pointer) with the facts every list component uses.
\<close>

unbundle bit_operations_syntax

named_theorems run_simps \<open>equations that execute a program on a symbolic state\<close>

section \<open>Outcomes and programs\<close>

datatype fault = Null_Deref | Wild_Deref | Out_Of_Bounds | Bad_Union

datatype stop = Exit_Process int | End_Thread

datatype ('a, 's) res = Ret 'a 's | Stop stop 's | Fault fault

type_synonym ('a, 's) prog = "'s \<Rightarrow> ('a, 's) res option"

definition retM :: "'a \<Rightarrow> ('a, 's) prog" where
  "retM x s = Some (Ret x s)"

definition stopM :: "stop \<Rightarrow> ('a, 's) prog" where
  "stopM e s = Some (Stop e s)"

definition faultM :: "fault \<Rightarrow> ('a, 's) prog" where
  "faultM e s = Some (Fault e)"

definition bindM :: "('a, 's) prog \<Rightarrow> ('a \<Rightarrow> ('b, 's) prog) \<Rightarrow> ('b, 's) prog" where
  "bindM m f s =
     (case m s of
        None \<Rightarrow> None
      | Some r \<Rightarrow>
          (case r of
             Ret x s' \<Rightarrow> f x s'
           | Stop e s' \<Rightarrow> Some (Stop e s')
           | Fault e \<Rightarrow> Some (Fault e)))"

definition seqM :: "('a, 's) prog \<Rightarrow> ('b, 's) prog \<Rightarrow> ('b, 's) prog" where
  "seqM m n = bindM m (\<lambda>_. n)"

definition getM :: "('s \<Rightarrow> 'a) \<Rightarrow> ('a, 's) prog" where
  "getM g s = Some (Ret (g s) s)"

definition modM :: "('s \<Rightarrow> 's) \<Rightarrow> (unit, 's) prog" where
  "modM g s = Some (Ret () (g s))"

definition whenM :: "bool \<Rightarrow> (unit, 's) prog \<Rightarrow> (unit, 's) prog" where
  "whenM b m = (if b then m else retM ())"

text \<open>A counted \<open>for\<close> loop, and a \<open>for\<close> loop whose body may leave it early.\<close>

primrec forM :: "'i list \<Rightarrow> ('i \<Rightarrow> (unit, 's) prog) \<Rightarrow> (unit, 's) prog" where
  "forM [] f = retM ()"
| "forM (i # is) f = seqM (f i) (forM is f)"

primrec untilM :: "'i list \<Rightarrow> ('i \<Rightarrow> (bool, 's) prog) \<Rightarrow> (bool, 's) prog" where
  "untilM [] f = retM False"
| "untilM (i # is) f = bindM (f i) (\<lambda>b. if b then retM True else untilM is f)"

text \<open>Running a program \<open>n\<close> times and collecting the results.\<close>

primrec collectM :: "nat \<Rightarrow> ('a, 's) prog \<Rightarrow> ('a list, 's) prog" where
  "collectM 0 m = retM []"
| "collectM (Suc n) m = bindM m (\<lambda>x. bindM (collectM n m) (\<lambda>xs. retM (x # xs)))"

subsection \<open>Execution rules\<close>

lemma bindM_ret [simp, run_simps]: "bindM (retM x) f = f x"
  by (rule ext) (simp add: bindM_def retM_def)

lemma bindM_get [simp, run_simps]: "bindM (getM g) f s = f (g s) s"
  by (simp add: bindM_def getM_def)

lemma bindM_assoc [run_simps]: "bindM (bindM m f) g = bindM m (\<lambda>x. bindM (f x) g)"
  by (rule ext) (simp add: bindM_def split: option.split res.split)

lemma seqM_mod [simp, run_simps]: "seqM (modM g) n s = n (g s)"
  by (simp add: seqM_def bindM_def modM_def)

lemma seqM_ret [simp, run_simps]: "seqM (retM x) n = n"
  by (simp add: seqM_def)

lemma bindM_stop [simp, run_simps]: "bindM (stopM e) f = stopM e"
  by (rule ext) (simp add: bindM_def stopM_def)

lemma seqM_stop [simp, run_simps]: "seqM (stopM e) f = stopM e"
  by (simp add: seqM_def)

lemma bindM_fault [simp, run_simps]: "bindM (faultM e) f = faultM e"
  by (rule ext) (simp add: bindM_def faultM_def)

lemma seqM_fault [simp, run_simps]: "seqM (faultM e) f = faultM e"
  by (simp add: seqM_def)

lemma seqM_seq [run_simps]: "seqM (seqM a b) c = seqM a (seqM b c)"
  by (simp add: seqM_def bindM_assoc)

lemma bindM_seq [run_simps]: "bindM (seqM a b) f = seqM a (bindM b f)"
  by (simp add: seqM_def bindM_assoc)

lemma seqM_bind [run_simps]: "seqM (bindM a f) c = bindM a (\<lambda>x. seqM (f x) c)"
  by (simp add: seqM_def bindM_assoc)

lemma bindM_run: "m s = Some (Ret x s') \<Longrightarrow> bindM m f s = f x s'"
  by (simp add: bindM_def)

lemma seqM_run: "m s = Some (Ret x s') \<Longrightarrow> seqM m n s = n s'"
  by (simp add: seqM_def bindM_def)

lemma whenM_simps [simp, run_simps]: "whenM True m = m" "whenM False m = retM ()"
  by (simp_all add: whenM_def)

lemma bindM_if [run_simps]: "bindM (if b then m else n) f = (if b then bindM m f else bindM n f)"
  by simp

lemma seqM_if [run_simps]: "seqM (if b then m else n) f = (if b then seqM m f else seqM n f)"
  by simp

lemma if_app [run_simps]: "(if b then m else n) s = (if b then m s else n s)"
  by simp

text \<open>Inversion: how a composed program came to return.\<close>

lemma bindM_RetE [elim!]:
  assumes "bindM m f s = Some (Ret y t)"
  obtains x s' where "m s = Some (Ret x s')" "f x s' = Some (Ret y t)"
  using assms by (auto simp: bindM_def split: option.splits res.splits)

lemma seqM_RetE [elim!]:
  assumes "seqM m n s = Some (Ret y t)"
  obtains x s' where "m s = Some (Ret x s')" "n s' = Some (Ret y t)"
  using assms by (auto simp: seqM_def)

lemma retM_Ret [simp]: "retM x s = Some (Ret y t) \<longleftrightarrow> y = x \<and> t = s"
  by (auto simp: retM_def)

lemma getM_Ret [simp]: "getM g s = Some (Ret y t) \<longleftrightarrow> y = g s \<and> t = s"
  by (auto simp: getM_def)

lemma modM_Ret [simp]: "modM g s = Some (Ret y t) \<longleftrightarrow> t = g s"
  by (auto simp: modM_def)

lemma faultM_Ret [simp]: "faultM e s \<noteq> Some (Ret y t)"
  by (simp add: faultM_def)

lemma stopM_Ret [simp]: "stopM e s \<noteq> Some (Ret y t)"
  by (simp add: stopM_def)

text \<open>Loops over \<open>bindM\<close> may be defined with \<^theory_text>\<open>partial_function (option)\<close>.\<close>

lemma bindM_mono [partial_function_mono]:
  fixes B :: "('x \<Rightarrow> 'y option) \<Rightarrow> ('a, 's) prog"
    and C :: "('x \<Rightarrow> 'y option) \<Rightarrow> 'a \<Rightarrow> ('b, 's) prog"
  assumes B: "\<And>s. mono_option (\<lambda>f. B f s)"
    and C: "\<And>x s. mono_option (\<lambda>f. C f x s)"
  shows "mono_option (\<lambda>f. bindM (B f) (C f) s)"
proof (rule monotoneI)
  fix f g :: "'x \<Rightarrow> 'y option"
  assume fg: "fun_ord option_ord f g"
  have B': "option_ord (B f s) (B g s)"
    using B [of s] fg by (rule monotoneD [where f = "\<lambda>f. B f s"])
  have C': "option_ord (C f x t) (C g x t)" for x t
    using C [of x t] fg by (rule monotoneD [where f = "\<lambda>f. C f x t"])
  show "option_ord (bindM (B f) (C f) s) (bindM (B g) (C g) s)"
  proof (cases "B f s")
    case None
    then show ?thesis by (simp add: bindM_def flat_ord_def)
  next
    case (Some r)
    with B' have "B g s = Some r" by (simp add: flat_ord_def)
    with Some show ?thesis
      using C' by (cases r) (auto simp: bindM_def flat_ord_def)
  qed
qed

lemma seqM_mono [partial_function_mono]:
  assumes B: "\<And>s. mono_option (\<lambda>f. B f s)"
    and C: "\<And>s. mono_option (\<lambda>f. C f s)"
  shows "mono_option (\<lambda>f. seqM (B f) (C f) s)"
  unfolding seqM_def by (rule bindM_mono [OF B C])

lemma if_app_mono [partial_function_mono]:
  assumes "mono_option (\<lambda>f. B f s)" and "mono_option (\<lambda>f. C f s)"
  shows "mono_option (\<lambda>f. (if b then B f else C f) s)"
  using assms by (cases b) simp_all

section \<open>Addresses and linked lists\<close>

text \<open>
  Addresses are natural numbers and \<open>NULL\<close> is 0.  A link map gives the successor stored
  in each allocated node.  \<open>seg lk p xs q\<close> says that following the links from \<open>p\<close> visits
  exactly the nodes \<open>xs\<close> and arrives at \<open>q\<close>; \<open>chain lk p xs\<close> is such a path to \<open>NULL\<close>.
\<close>

type_synonym addr = nat

abbreviation NULL :: addr where
  "NULL \<equiv> 0"

primrec seg :: "(addr \<Rightarrow> addr option) \<Rightarrow> addr \<Rightarrow> addr list \<Rightarrow> addr \<Rightarrow> bool" where
  "seg lk p [] q \<longleftrightarrow> p = q"
| "seg lk p (x # xs) q \<longleftrightarrow>
     p = x \<and> x \<noteq> NULL \<and> (case lk x of None \<Rightarrow> False | Some r \<Rightarrow> seg lk r xs q)"

definition chain :: "(addr \<Rightarrow> addr option) \<Rightarrow> addr \<Rightarrow> addr list \<Rightarrow> bool" where
  "chain lk p xs = seg lk p xs NULL"

lemma seg_append: "seg lk p (xs @ ys) q \<longleftrightarrow> (\<exists>r. seg lk p xs r \<and> seg lk r ys q)"
  by (induction xs arbitrary: p) (auto split: option.splits)

lemma seg_upd_notin [simp]: "x \<notin> set xs \<Longrightarrow> seg (lk(x := v)) p xs q = seg lk p xs q"
  by (induction xs arbitrary: p) (auto split: option.splits)

lemma seg_cong: "(\<And>x. x \<in> set xs \<Longrightarrow> lk x = lk' x) \<Longrightarrow> seg lk p xs q = seg lk' p xs q"
  by (induction xs arbitrary: p) (auto split: option.splits)

lemma seg_notnull: "seg lk p xs q \<Longrightarrow> NULL \<notin> set xs"
  by (induction xs arbitrary: p) (auto split: option.splits)

lemma seg_alloc: "seg lk p xs q \<Longrightarrow> x \<in> set xs \<Longrightarrow> lk x \<noteq> None"
  by (induction xs arbitrary: p) (auto split: option.splits)

lemma chain_Nil [simp]: "chain lk p [] \<longleftrightarrow> p = NULL"
  by (simp add: chain_def)

lemma chain_Cons [simp]:
  "chain lk p (x # xs) \<longleftrightarrow>
     p = x \<and> x \<noteq> NULL \<and> (\<exists>r. lk x = Some r \<and> chain lk r xs)"
  by (auto simp: chain_def split: option.splits)

lemma chain_NULL [simp]: "chain lk NULL xs \<longleftrightarrow> xs = []"
  by (cases xs) auto

lemma chain_upd_notin [simp]: "x \<notin> set xs \<Longrightarrow> chain (lk(x := v)) p xs = chain lk p xs"
  by (simp add: chain_def)

lemma chain_cong: "(\<And>x. x \<in> set xs \<Longrightarrow> lk x = lk' x) \<Longrightarrow> chain lk p xs = chain lk' p xs"
  unfolding chain_def by (rule seg_cong)

lemma chain_append: "chain lk p (xs @ ys) \<longleftrightarrow> (\<exists>r. seg lk p xs r \<and> chain lk r ys)"
  by (simp add: chain_def seg_append)

lemma chain_notnull: "chain lk p xs \<Longrightarrow> NULL \<notin> set xs"
  unfolding chain_def by (rule seg_notnull)

lemma chain_alloc: "chain lk p xs \<Longrightarrow> x \<in> set xs \<Longrightarrow> lk x \<noteq> None"
  unfolding chain_def by (rule seg_alloc)

lemma chain_unique: "chain lk p xs \<Longrightarrow> chain lk p ys \<Longrightarrow> xs = ys"
proof (induction xs arbitrary: p ys)
  case Nil
  then show ?case by simp
next
  case (Cons x xs)
  then show ?case by (cases ys) auto
qed

lemma chain_hd_notin: "chain lk r xs \<Longrightarrow> lk x = Some r \<Longrightarrow> x \<notin> set xs"
proof
  assume c: "chain lk r xs" and x: "lk x = Some r" and "x \<in> set xs"
  then obtain ys zs where xs: "xs = ys @ x # zs"
    by (meson split_list)
  then have "chain lk r zs"
    using c x by (auto simp: chain_append)
  with c have "xs = zs" by (rule chain_unique)
  with xs show False by simp
qed

lemma chain_distinct: "chain lk p xs \<Longrightarrow> distinct xs"
proof (induction xs arbitrary: p)
  case Nil
  then show ?case by simp
next
  case (Cons x xs)
  then show ?case by (auto dest: chain_hd_notin)
qed

text \<open>Appending a fresh node at the end, and bypassing a node, on the link map.\<close>

lemma seg_chain_snoc:
  assumes "chain lk p (xs @ [y])" and "x \<noteq> NULL" and "x \<notin> set (xs @ [y])"
  shows "chain (lk(y := Some x, x := Some NULL)) p ((xs @ [y]) @ [x])"
proof -
  from assms(1) have y: "seg lk p xs y" and "y \<noteq> NULL"
    by (auto simp: chain_append)
  moreover have "y \<notin> set xs"
    using chain_distinct [OF assms(1)] by simp
  ultimately show ?thesis
    using assms(2,3) by (auto simp: chain_append seg_append)
qed

lemma chain_bypass:
  assumes c: "chain lk p (xs @ y # x # zs)" and n: "lk x = Some n"
  shows "chain (lk(y := Some n)) p (xs @ y # zs)"
proof -
  have d: "distinct (xs @ y # x # zs)" by (rule chain_distinct [OF c])
  from c have "seg lk p xs y" "y \<noteq> NULL" "chain lk n zs"
    using n by (auto simp: chain_append)
  with d show ?thesis by (auto simp: chain_append)
qed

end
