(* ===== verification/World.thy ===== *)
theory World
  imports Prelude
begin

text \<open>
  The data of the library: the constants and structures of \<^verbatim>\<open>pthread.h\<close> and
  \<^verbatim>\<open>pthread_private.h\<close>, the process state the library's functions read and write (\<open>world\<close>),
  and the services they call but do not implement (\<open>os\<close>).

  The state keeps one heap per structure type, from addresses to values, one heap for
  pointer variables (a \<^verbatim>\<open>pthread_mutex_t\<close> is such a variable) and one for integer
  variables; the global variables; and the emx per-thread data (\<^verbatim>\<open>*_threadstore()\<close> and
  \<^verbatim>\<open>errno\<close>) indexed by OS/2 thread identifiers.  \<open>kern\<close> is the state of the operating
  system, of arbitrary type \<open>'k\<close>: the library reaches it only through \<open>os\<close>.

  An \<open>os\<close> operation that cannot block maps the caller's thread identifier and \<open>kern\<close> to a
  result and a new \<open>kern\<close>.  One that can block, or that runs code of the application (a
  signal handler, a destructor), is a program over the whole state, since other threads
  and the callee may change everything meanwhile.
\<close>

section \<open>Constants\<close>

type_synonym tid = nat
type_synonym hmtx = nat
type_synonym hev = nat
type_synonym apiret = int
type_synonym u32 = "32 word"

text \<open>Error numbers of \<^verbatim>\<open><errno.h>\<close>; only their being positive and distinct matters.\<close>

abbreviation EPERM :: int where "EPERM \<equiv> 1"
abbreviation ENOENT :: int where "ENOENT \<equiv> 2"
abbreviation ESRCH :: int where "ESRCH \<equiv> 3"
abbreviation EINTR :: int where "EINTR \<equiv> 4"
abbreviation ENOEXEC :: int where "ENOEXEC \<equiv> 8"
abbreviation EBADF :: int where "EBADF \<equiv> 9"
abbreviation EAGAIN :: int where "EAGAIN \<equiv> 11"
abbreviation ENOMEM :: int where "ENOMEM \<equiv> 12"
abbreviation EACCES :: int where "EACCES \<equiv> 13"
abbreviation EBUSY :: int where "EBUSY \<equiv> 16"
abbreviation EINVAL :: int where "EINVAL \<equiv> 22"
abbreviation ENFILE :: int where "ENFILE \<equiv> 23"
abbreviation ENOSYS :: int where "ENOSYS \<equiv> 35"
abbreviation ENAMETOOLONG :: int where "ENAMETOOLONG \<equiv> 36"
abbreviation EDEADLK :: int where "EDEADLK \<equiv> 45"
abbreviation ENOLCK :: int where "ENOLCK \<equiv> 46"
abbreviation EOPNOTSUPP :: int where "EOPNOTSUPP \<equiv> 63"
abbreviation ETIMEDOUT :: int where "ETIMEDOUT \<equiv> 78"
abbreviation ETIME :: int where "ETIME \<equiv> ETIMEDOUT"

text \<open>Timeouts and return codes of the OS/2 control program.\<close>

abbreviation SEM_IMMEDIATE_RETURN :: u32 where "SEM_IMMEDIATE_RETURN \<equiv> 0"
abbreviation SEM_INDEFINITE_WAIT :: u32 where "SEM_INDEFINITE_WAIT \<equiv> 0xFFFFFFFF"
abbreviation ERROR_SEM_BUSY :: apiret where "ERROR_SEM_BUSY \<equiv> 301"
abbreviation ERROR_TIMEOUT :: apiret where "ERROR_TIMEOUT \<equiv> 640"
abbreviation ERROR_NOT_OWNER :: apiret where "ERROR_NOT_OWNER \<equiv> 288"
abbreviation ERROR_INVALID_HANDLE :: apiret where "ERROR_INVALID_HANDLE \<equiv> 6"

text \<open>\<^verbatim>\<open>pthread.h\<close>\<close>

definition PTHREAD_DESTRUCTOR_ITERATIONS :: nat where
  "PTHREAD_DESTRUCTOR_ITERATIONS = 4"

definition PTHREAD_KEYS_MAX :: nat where
  "PTHREAD_KEYS_MAX = 256"

definition PTHREAD_STACK_MIN :: u32 where
  "PTHREAD_STACK_MIN = 1024"

definition PTHREAD_DETACHED :: u32 where
  "PTHREAD_DETACHED = 0x1"

definition PTHREAD_INHERIT_SCHED :: u32 where
  "PTHREAD_INHERIT_SCHED = 0x4"

definition PTHREAD_CREATE_DETACHED :: int where
  "PTHREAD_CREATE_DETACHED = 1"

definition PTHREAD_CREATE_JOINABLE :: int where
  "PTHREAD_CREATE_JOINABLE = 0"

definition PTHREAD_NEEDS_INIT :: int where
  "PTHREAD_NEEDS_INIT = 0"

definition PTHREAD_DONE_INIT :: int where
  "PTHREAD_DONE_INIT = 1"

definition MUTEX_TYPE_FAST :: u32 where
  "MUTEX_TYPE_FAST = 1"

definition MUTEX_TYPE_COUNTING_FAST :: u32 where
  "MUTEX_TYPE_COUNTING_FAST = 2"

definition MUTEX_TYPE_MAX :: u32 where
  "MUTEX_TYPE_MAX = 3"

text \<open>\<^verbatim>\<open>pthread_private.h\<close>\<close>

definition MUTEX_FLAGS_INITED :: u32 where
  "MUTEX_FLAGS_INITED = 0x02"

definition COND_TYPE_FAST :: u32 where
  "COND_TYPE_FAST = 0"

definition COND_FLAGS_INITED :: u32 where
  "COND_FLAGS_INITED = 0x02"

definition PTHREAD_CREATE_RUNNING :: int where
  "PTHREAD_CREATE_RUNNING = 0"

definition PTHREAD_CREATE_SUSPENDED :: int where
  "PTHREAD_CREATE_SUSPENDED = 1"

definition PTHREAD_STACK_DEFAULT :: u32 where
  "PTHREAD_STACK_DEFAULT = 65536"

definition PTHREAD_DEFAULT_PRIORITY :: int where
  "PTHREAD_DEFAULT_PRIORITY = 64"

definition PTHREAD_MAX_PRIORITY :: int where
  "PTHREAD_MAX_PRIORITY = 126"

definition PTHREAD_MIN_PRIORITY :: int where
  "PTHREAD_MIN_PRIORITY = 0"

lemmas type_consts = MUTEX_TYPE_FAST_def MUTEX_TYPE_COUNTING_FAST_def MUTEX_TYPE_MAX_def
  COND_TYPE_FAST_def

lemma mutex_types_distinct [simp]:
  "MUTEX_TYPE_COUNTING_FAST \<noteq> MUTEX_TYPE_FAST" "MUTEX_TYPE_FAST \<noteq> MUTEX_TYPE_COUNTING_FAST"
  "MUTEX_TYPE_FAST \<noteq> 0" "MUTEX_TYPE_COUNTING_FAST \<noteq> 0"
  "\<not> MUTEX_TYPE_MAX \<le> MUTEX_TYPE_FAST" "\<not> MUTEX_TYPE_MAX \<le> MUTEX_TYPE_COUNTING_FAST"
  by (simp_all add: type_consts word_le_def)

text \<open>Signals.  \<^verbatim>\<open>NSIG\<close> is the number of entries of the two signal tables of the library.\<close>

abbreviation NSIG :: nat where "NSIG \<equiv> 22"
abbreviation SIGABRT :: int where "SIGABRT \<equiv> 6"
abbreviation SIGKILL :: int where "SIGKILL \<equiv> 9"
abbreviation SIGALRM :: int where "SIGALRM \<equiv> 14"

abbreviation SA_SYSV :: u32 where "SA_SYSV \<equiv> 2"
abbreviation SA_ACK :: u32 where "SA_ACK \<equiv> 4"

section \<open>Structures\<close>

record pthread_queue =
  q_next :: addr
  q_last :: addr
  q_data :: addr

record pthread_mutex =
  m_type :: u32
  m_mutex :: hmtx
  m_owner :: addr
  m_count :: int
  m_prioceiling :: int
  m_flags :: u32

record pthread_mutex_attr =
  ma_type :: u32
  ma_prioceiling :: int
  ma_flags :: u32

record pthread_cond =
  c_type :: u32
  c_event :: hev
  c_data :: addr
  c_flags :: u32
  c_onwait :: u32

record pthread_cond_attr =
  ca_type :: u32
  ca_flags :: u32

record pthread_cleanup =
  cl_next :: addr
  cl_routine :: addr
  cl_arg :: addr

datatype sched_policy = SCHED_RR | SCHED_IO | SCHED_FIFO | SCHED_OTHER

record pthread_attr =
  schedparam_policy :: sched_policy
  at_prio :: int
  at_suspend :: int
  at_flags :: u32
  arg_attr :: addr
  cleanup_attr :: addr
  stackaddr_attr :: addr
  stacksize_attr :: u32

record pthread_key =
  k_count :: int
  k_destructor :: addr

datatype pthread_state =
    PS_RUNNING
  | PS_SIGTHREAD
  | PS_MUTEX_WAIT
  | PS_COND_WAIT
  | PS_FDLR_WAIT
  | PS_FDLW_WAIT
  | PS_FDR_WAIT
  | PS_FDW_WAIT
  | PS_SELECT_WAIT
  | PS_SLEEP_WAIT
  | PS_WAIT_WAIT
  | PS_SIGWAIT
  | PS_JOIN
  | PS_SUSPENDED
  | PS_DEAD
  | PS_STATE_MAX

text \<open>The wait data of a thread is a union; a value says which member was written last.\<close>

datatype wait_data =
    W_None
  | W_Mutex addr
  | W_Cond addr
  | W_Fd (w_fd: int) (w_branch: int) (w_fname: string)
  | W_Abort hev

datatype handler = SIG_DFL | SIG_IGN | SIG_ERR | SIG_ACK | Handler addr

record sigact =
  sa_handler :: handler
  sa_mask :: u32
  sa_flags :: u32

text \<open>The members of emx's \<^verbatim>\<open>thread_data\<close> that the library uses.\<close>

record thread_data =
  signals :: "nat \<Rightarrow> sigact"
  sig_pending :: u32
  sig_blocked :: u32

record pthread =
  th_self :: tid
  threadid :: tid
  nxt :: addr
  start_routine :: addr
  th_arg :: addr
  th_attr :: pthread_attr
  parent_thread :: addr
  th_state :: pthread_state
  th_queue :: addr
  qnxt :: addr
  th_data :: wait_data
  th_flags :: int
  pthread_priority :: int
  th_ret :: addr
  specific_data :: addr
  specific_data_count :: int
  tp :: thread_data
  pend :: int
  alarm_event :: hev
  alarm_timer :: nat
  alarm_timeout :: u32
  th_cleanup :: addr
  th_fname :: string
  th_lineno :: int
  th_dlerror :: string

text \<open>
  \<^verbatim>\<open>struct _create\<close> of \<^verbatim>\<open>uthread_create.c\<close>, a local variable of the creating call.  Its member
  \<^verbatim>\<open>attr\<close> points to the global default attributes or to an attribute object.
\<close>

datatype attr_ref = Default_Attr | Attr_At addr

record create_info =
  ci_newthread :: addr
  ci_parent :: addr
  ci_creator :: addr
  ci_attr :: attr_ref
  ci_start_routine :: addr
  ci_start_arg :: addr
  ci_ack :: hev

text \<open>
  \<^verbatim>\<open>struct _thread_select_st\<close> of \<^verbatim>\<open>uthread_select.c\<close>, which a call of \<^verbatim>\<open>pthread_select\<close> shares with the
  thread that polls for it.  A set of file descriptors is a set of integers.
\<close>

record select_st =
  sel_nfds :: int
  sel_isrdfds :: bool
  sel_readfds :: addr
  sel_iswrfds :: bool
  sel_writefds :: addr
  sel_isexfds :: bool
  sel_exceptfds :: addr
  sel_istimeout :: bool
  sel_timeout :: "int \<times> int"
  sel_event :: hev
  sel_result :: int
  sel_errno :: int
  sel_done :: int

text \<open>\<^verbatim>\<open>FILELOCK\<close> of OS/2, a range of a file.\<close>

record filelock =
  lOffset :: int
  lRange :: u32

text \<open>\<^verbatim>\<open>struct pthread_once\<close> is a state word followed by a mutex variable; the variable lives in
  the heap of pointer variables, at the address of the second member.\<close>

record pthread_once =
  once_state :: int

definition once_mutex :: "addr \<Rightarrow> addr" where
  "once_mutex p = p + 4"

definition pthread_attr_default :: pthread_attr where
  "pthread_attr_default =
     \<lparr>schedparam_policy = SCHED_RR, at_prio = PTHREAD_DEFAULT_PRIORITY,
      at_suspend = PTHREAD_CREATE_RUNNING, at_flags = 0,
      arg_attr = NULL, cleanup_attr = NULL, stackaddr_attr = NULL,
      stacksize_attr = PTHREAD_STACK_DEFAULT\<rparr>"

definition pthread_mutexattr_default :: pthread_mutex_attr where
  "pthread_mutexattr_default = \<lparr>ma_type = MUTEX_TYPE_FAST, ma_prioceiling = 0, ma_flags = 0\<rparr>"

definition pthread_condattr_default :: pthread_cond_attr where
  "pthread_condattr_default = \<lparr>ca_type = COND_TYPE_FAST, ca_flags = 0\<rparr>"

section \<open>The state of the process\<close>

record 'k world =
  kern :: 'k
  cur :: tid
  threadstore :: "tid \<Rightarrow> addr"
  errnos :: "tid \<Rightarrow> int"
  threads :: "addr \<Rightarrow> pthread option"
  mutexes :: "addr \<Rightarrow> pthread_mutex option"
  conds :: "addr \<Rightarrow> pthread_cond option"
  attrs :: "addr \<Rightarrow> pthread_attr option"
  mattrs :: "addr \<Rightarrow> pthread_mutex_attr option"
  cattrs :: "addr \<Rightarrow> pthread_cond_attr option"
  cleanups :: "addr \<Rightarrow> pthread_cleanup option"
  queues :: "addr \<Rightarrow> pthread_queue option"
  onces :: "addr \<Rightarrow> pthread_once option"
  arrays :: "addr \<Rightarrow> (nat \<Rightarrow> addr) option"
  creations :: "addr \<Rightarrow> create_info option"
  selections :: "addr \<Rightarrow> select_st option"
  fdsets :: "addr \<Rightarrow> int set option"
  timevals :: "addr \<Rightarrow> (int \<times> int) option"
  ptrs :: "addr \<Rightarrow> addr option"
  ints :: "addr \<Rightarrow> int option"
  sigsets :: "addr \<Rightarrow> u32 option"
  sigacts :: "addr \<Rightarrow> sigact option"
  thread_link_list :: addr
  thread_initial :: addr
  thread_dead :: addr
  signals_blocked :: int
  key_table :: "nat \<Rightarrow> pthread_key"
  doloaddll :: bool
  so_cancel :: addr
  thread_critical :: hmtx

section \<open>The services the library calls\<close>

datatype emx_handler = Emx_Sighandler | Emx_Ack

text \<open>The functions the library starts OS threads in.\<close>

datatype thread_entry = Thread_Create2 | Thread_Select

record 'k os =
  malloc :: "tid \<Rightarrow> 'k \<Rightarrow> addr \<times> 'k"
  junk_thread :: "'k world \<Rightarrow> pthread"
  junk_mutex :: "'k world \<Rightarrow> pthread_mutex"
  junk_cond :: "'k world \<Rightarrow> pthread_cond"
  junk_select :: "'k world \<Rightarrow> select_st"
  alarm_slot :: "addr \<Rightarrow> addr"
  call_handler :: "addr \<Rightarrow> int \<Rightarrow> (unit, 'k world) prog"
  call_fun :: "addr \<Rightarrow> addr \<Rightarrow> (addr, 'k world) prog"
  call_init :: "addr \<Rightarrow> (unit, 'k world) prog"
  call_so_cancel :: "addr \<Rightarrow> int \<Rightarrow> tid \<Rightarrow> 'k \<Rightarrow> int \<times> 'k"
  sigmask :: "int \<Rightarrow> u32"
  set_blocked :: "u32 \<Rightarrow> u32"
  DosCreateMutexSem :: "tid \<Rightarrow> 'k \<Rightarrow> (apiret \<times> hmtx) \<times> 'k"
  DosRequestMutexSem :: "hmtx \<Rightarrow> u32 \<Rightarrow> (apiret, 'k world) prog"
  DosReleaseMutexSem :: "hmtx \<Rightarrow> tid \<Rightarrow> 'k \<Rightarrow> apiret \<times> 'k"
  DosCloseMutexSem :: "hmtx \<Rightarrow> tid \<Rightarrow> 'k \<Rightarrow> apiret \<times> 'k"
  DosCreateEventSem :: "u32 \<Rightarrow> tid \<Rightarrow> 'k \<Rightarrow> (apiret \<times> hev) \<times> 'k"
  DosPostEventSem :: "hev \<Rightarrow> tid \<Rightarrow> 'k \<Rightarrow> apiret \<times> 'k"
  DosWaitEventSem :: "hev \<Rightarrow> u32 \<Rightarrow> (apiret, 'k world) prog"
  DosCloseEventSem :: "hev \<Rightarrow> tid \<Rightarrow> 'k \<Rightarrow> apiret \<times> 'k"
  DosEnterCritSec :: "tid \<Rightarrow> 'k \<Rightarrow> unit \<times> 'k"
  DosExitCritSec :: "tid \<Rightarrow> 'k \<Rightarrow> unit \<times> 'k"
  DosEnterMustComplete :: "tid \<Rightarrow> 'k \<Rightarrow> unit \<times> 'k"
  DosExitMustComplete :: "tid \<Rightarrow> 'k \<Rightarrow> unit \<times> 'k"
  beginthread :: "thread_entry \<Rightarrow> u32 \<Rightarrow> addr \<Rightarrow> tid \<Rightarrow> 'k \<Rightarrow> int \<times> 'k"
  DosSuspendThread :: "tid \<Rightarrow> (apiret, 'k world) prog"
  DosResumeThread :: "tid \<Rightarrow> tid \<Rightarrow> 'k \<Rightarrow> apiret \<times> 'k"
  DosKillThread :: "tid \<Rightarrow> tid \<Rightarrow> 'k \<Rightarrow> apiret \<times> 'k"
  DosWaitThread :: "tid \<Rightarrow> (apiret, 'k world) prog"
  DosSleep :: "u32 \<Rightarrow> (apiret, 'k world) prog"
  DosSetPriority :: "tid \<Rightarrow> 'k \<Rightarrow> apiret \<times> 'k"
  DosLoadModule :: "nat \<Rightarrow> string \<Rightarrow> tid \<Rightarrow> 'k \<Rightarrow> (apiret \<times> string \<times> addr) \<times> 'k"
  DosFreeModule :: "addr \<Rightarrow> tid \<Rightarrow> 'k \<Rightarrow> apiret \<times> 'k"
  DosQueryModuleName :: "addr \<Rightarrow> nat \<Rightarrow> tid \<Rightarrow> 'k \<Rightarrow> (apiret \<times> string) \<times> 'k"
  DosQueryProcAddr :: "addr \<Rightarrow> string \<Rightarrow> tid \<Rightarrow> 'k \<Rightarrow> (apiret \<times> addr) \<times> 'k"
  DosAsyncTimer :: "u32 \<Rightarrow> hev \<Rightarrow> tid \<Rightarrow> 'k \<Rightarrow> (apiret \<times> nat) \<times> 'k"
  DosStopTimer :: "nat \<Rightarrow> tid \<Rightarrow> 'k \<Rightarrow> apiret \<times> 'k"
  DosSetFileLocks :: "int \<Rightarrow> filelock \<Rightarrow> filelock \<Rightarrow> u32 \<Rightarrow> u32 \<Rightarrow> (apiret, 'k world) prog"
  DosGetInfoBlocks :: "tid \<Rightarrow> 'k \<Rightarrow> u32 \<times> 'k"
  libc_signal :: "int \<Rightarrow> emx_handler \<Rightarrow> tid \<Rightarrow> 'k \<Rightarrow> unit \<times> 'k"
  libc_sigprocmask :: "int \<Rightarrow> addr \<Rightarrow> tid \<Rightarrow> 'k \<Rightarrow> unit \<times> 'k"
  libc_kill :: "int \<Rightarrow> (unit, 'k world) prog"
  libc_alarm :: "u32 \<Rightarrow> tid \<Rightarrow> 'k \<Rightarrow> unit \<times> 'k"
  libc_sleep :: "u32 \<Rightarrow> (u32, 'k world) prog"
  libc_read :: "int \<Rightarrow> addr \<Rightarrow> u32 \<Rightarrow> (int, 'k world) prog"
  libc_write :: "int \<Rightarrow> addr \<Rightarrow> u32 \<Rightarrow> (int, 'k world) prog"
  libc_tell :: "int \<Rightarrow> tid \<Rightarrow> 'k \<Rightarrow> int \<times> 'k"
  libc_select :: "int \<Rightarrow> int set option \<Rightarrow> int set option \<Rightarrow> int set option \<Rightarrow> int \<times> int \<Rightarrow>
    (int \<times> int set option \<times> int set option \<times> int set option, 'k world) prog"
  libc_fionread :: "int \<Rightarrow> tid \<Rightarrow> 'k \<Rightarrow> (int \<times> int) \<times> 'k"
  gettimeofday :: "tid \<Rightarrow> 'k \<Rightarrow> (u32 \<times> u32) \<times> 'k"

text \<open>
  \<open>alarm_slot E p\<close> is the address of the member \<^verbatim>\<open>alarm_thread\<close> of the thread structure at \<open>p\<close>: the
  library hands that address to \<^verbatim>\<open>pthread_create\<close>, so the member lives in the heap of pointer variables.
  \<open>junk_thread\<close> and its like are the contents of fresh memory.
\<close>

end
