(* ===== verification/Access.thy ===== *)
theory Access
  imports World
begin

text \<open>
  The primitive programs every component is written with: reading and writing structures
  through addresses, \<^verbatim>\<open>errno\<close>, calls into the operating system, \<^verbatim>\<open>free\<close>, the macros of
  \<^verbatim>\<open>pthread_private.h\<close> that block signals, enter critical sections and record a new thread
  state.  A read through \<open>NULL\<close> or through an address at which no such structure is
  allocated is a \<open>Fault\<close>.
\<close>

section \<open>Memory\<close>

definition load :: "('w \<Rightarrow> addr \<Rightarrow> 'a option) \<Rightarrow> addr \<Rightarrow> ('a, 'w) prog" where
  "load h p s =
     (if p = NULL then Some (Fault Null_Deref)
      else case h s p of None \<Rightarrow> Some (Fault Wild_Deref) | Some v \<Rightarrow> Some (Ret v s))"

definition alter ::
  "('w \<Rightarrow> addr \<Rightarrow> 'a option) \<Rightarrow>
   (((addr \<Rightarrow> 'a option) \<Rightarrow> addr \<Rightarrow> 'a option) \<Rightarrow> 'w \<Rightarrow> 'w) \<Rightarrow>
   addr \<Rightarrow> ('a \<Rightarrow> 'a) \<Rightarrow> (unit, 'w) prog" where
  "alter h hu p f =
     bindM (load h p) (\<lambda>v. modM (\<lambda>s. hu (\<lambda>_. (h s)(p := Some (f v))) s))"

text \<open>\<open>free (NULL)\<close> does nothing; freeing what is not allocated is undefined.\<close>

definition free ::
  "('w \<Rightarrow> addr \<Rightarrow> 'a option) \<Rightarrow>
   (((addr \<Rightarrow> 'a option) \<Rightarrow> addr \<Rightarrow> 'a option) \<Rightarrow> 'w \<Rightarrow> 'w) \<Rightarrow>
   addr \<Rightarrow> (unit, 'w) prog" where
  "free h hu p =
     (if p = NULL then retM ()
      else bindM (load h p) (\<lambda>_. modM (\<lambda>s. hu (\<lambda>_. (h s)(p := None)) s)))"

abbreviation upd_thread :: "addr \<Rightarrow> (pthread \<Rightarrow> pthread) \<Rightarrow> (unit, 'k world) prog" where
  "upd_thread p f \<equiv> alter threads threads_update p f"

abbreviation upd_mutex :: "addr \<Rightarrow> (pthread_mutex \<Rightarrow> pthread_mutex) \<Rightarrow> (unit, 'k world) prog" where
  "upd_mutex p f \<equiv> alter mutexes mutexes_update p f"

abbreviation upd_cond :: "addr \<Rightarrow> (pthread_cond \<Rightarrow> pthread_cond) \<Rightarrow> (unit, 'k world) prog" where
  "upd_cond p f \<equiv> alter conds conds_update p f"

abbreviation upd_queue :: "addr \<Rightarrow> (pthread_queue \<Rightarrow> pthread_queue) \<Rightarrow> (unit, 'k world) prog" where
  "upd_queue p f \<equiv> alter queues queues_update p f"

abbreviation upd_array :: "addr \<Rightarrow> ((nat \<Rightarrow> addr) \<Rightarrow> nat \<Rightarrow> addr) \<Rightarrow> (unit, 'k world) prog" where
  "upd_array p f \<equiv> alter arrays arrays_update p f"

abbreviation store_ptr :: "addr \<Rightarrow> addr \<Rightarrow> (unit, 'k world) prog" where
  "store_ptr p v \<equiv> alter ptrs ptrs_update p (\<lambda>_. v)"

abbreviation store_int :: "addr \<Rightarrow> int \<Rightarrow> (unit, 'k world) prog" where
  "store_int p v \<equiv> alter ints ints_update p (\<lambda>_. v)"

text \<open>The block an allocation returned, with its contents.\<close>

definition fresh :: "('w \<Rightarrow> addr \<Rightarrow> 'a option) \<Rightarrow>
   (((addr \<Rightarrow> 'a option) \<Rightarrow> addr \<Rightarrow> 'a option) \<Rightarrow> 'w \<Rightarrow> 'w) \<Rightarrow>
   addr \<Rightarrow> 'a \<Rightarrow> (unit, 'w) prog" where
  "fresh h hu p v = modM (\<lambda>s. hu (\<lambda>_. (h s)(p := Some v)) s)"

lemma load_run [simp, run_simps]:
  "p \<noteq> NULL \<Longrightarrow> h s p = Some v \<Longrightarrow> bindM (load h p) f s = f v s"
  by (simp add: load_def bindM_def)

lemma load_null [simp, run_simps]: "load h NULL = faultM Null_Deref"
  by (rule ext) (simp add: load_def faultM_def)

lemma load_Ret [simp]: "load h p s = Some (Ret v t) \<longleftrightarrow> p \<noteq> NULL \<and> h s p = Some v \<and> t = s"
  by (auto simp: load_def split: option.splits)

lemma alter_run [simp, run_simps]:
  "p \<noteq> NULL \<Longrightarrow> h s p = Some v \<Longrightarrow>
     seqM (alter h hu p f) n s = n (hu (\<lambda>_. (h s)(p := Some (f v))) s)"
  by (simp add: alter_def seqM_def bindM_assoc) (simp add: bindM_def modM_def)

lemma alter_end [simp, run_simps]:
  "p \<noteq> NULL \<Longrightarrow> h s p = Some v \<Longrightarrow>
     alter h hu p f s = Some (Ret () (hu (\<lambda>_. (h s)(p := Some (f v))) s))"
  by (simp add: alter_def modM_def)

lemma alter_null [simp, run_simps]: "alter h hu NULL f = faultM Null_Deref"
  by (simp add: alter_def)

lemma alter_Ret [simp]:
  "alter h hu p f s = Some (Ret x t) \<longleftrightarrow>
     p \<noteq> NULL \<and> (\<exists>v. h s p = Some v \<and> t = hu (\<lambda>_. (h s)(p := Some (f v))) s)"
  by (auto simp: alter_def)

lemma free_null [simp, run_simps]: "free h hu NULL = retM ()"
  by (simp add: free_def)

lemma free_run [simp, run_simps]:
  "p \<noteq> NULL \<Longrightarrow> h s p = Some v \<Longrightarrow> seqM (free h hu p) n s = n (hu (\<lambda>_. (h s)(p := None)) s)"
  by (simp add: free_def seqM_def bindM_assoc) (simp add: bindM_def modM_def)

lemma fresh_run [simp, run_simps]:
  "seqM (fresh h hu p v) n s = n (hu (\<lambda>_. (h s)(p := Some v)) s)"
  by (simp add: fresh_def)

section \<open>The calling thread, errno and the operating system\<close>

text \<open>The macro \<^verbatim>\<open>_thread_run\<close>: the thread structure of the running OS thread.\<close>

definition run :: "'k world \<Rightarrow> addr" where
  "run s = threadstore s (cur s)"

definition thread_run :: "(addr, 'k world) prog" where
  "thread_run = getM run"

definition set_thread_run :: "addr \<Rightarrow> (unit, 'k world) prog" where
  "set_thread_run p = modM (\<lambda>s. s\<lparr>threadstore := (threadstore s)(cur s := p)\<rparr>)"

definition set_errno :: "int \<Rightarrow> (unit, 'k world) prog" where
  "set_errno e = modM (\<lambda>s. s\<lparr>errnos := (errnos s)(cur s := e)\<rparr>)"

abbreviation with_errno :: "int \<Rightarrow> 'k world \<Rightarrow> 'k world" where
  "with_errno e s \<equiv> s\<lparr>errnos := (errnos s)(cur s := e)\<rparr>"

definition errno :: "'k world \<Rightarrow> int" where
  "errno s = errnos s (cur s)"

definition kcall :: "(tid \<Rightarrow> 'k \<Rightarrow> 'a \<times> 'k) \<Rightarrow> ('a, 'k world) prog" where
  "kcall f s = (case f (cur s) (kern s) of (r, k) \<Rightarrow> Some (Ret r (s\<lparr>kern := k\<rparr>)))"

text \<open>What a non-blocking call returns and leaves behind.\<close>

definition kres :: "(tid \<Rightarrow> 'k \<Rightarrow> 'a \<times> 'k) \<Rightarrow> 'k world \<Rightarrow> 'a" where
  "kres f s = fst (f (cur s) (kern s))"

definition kst :: "(tid \<Rightarrow> 'k \<Rightarrow> 'a \<times> 'k) \<Rightarrow> 'k world \<Rightarrow> 'k" where
  "kst f s = snd (f (cur s) (kern s))"

lemma kcall_bind [simp, run_simps]:
  "bindM (kcall f) g s = g (kres f s) (s\<lparr>kern := kst f s\<rparr>)"
  by (simp add: bindM_def kcall_def kres_def kst_def split: prod.splits)

lemma kcall_seq [simp, run_simps]: "seqM (kcall f) n s = n (s\<lparr>kern := kst f s\<rparr>)"
  by (simp add: seqM_def)

lemma kcall_end [run_simps]: "kcall f s = Some (Ret (kres f s) (s\<lparr>kern := kst f s\<rparr>))"
  by (simp add: kcall_def kres_def kst_def split: prod.splits)

lemma kcall_Ret [simp]:
  "kcall f s = Some (Ret x t) \<longleftrightarrow> x = kres f s \<and> t = s\<lparr>kern := kst f s\<rparr>"
  by (auto simp: kcall_end)

lemma run_upd [simp]:
  "run (kern_update f1 s) = run s" "run (errnos_update f2 s) = run s"
  "run (threads_update f3 s) = run s" "run (signals_blocked_update f4 s) = run s"
  "run (thread_initial_update f5 s) = run s" "run (key_table_update f6 s) = run s"
  "run (arrays_update f7 s) = run s" "run (mutexes_update f8 s) = run s"
  "run (ptrs_update f9 s) = run s" "run (ints_update f10 s) = run s"
  "run (conds_update f11 s) = run s" "run (cleanups_update f12 s) = run s"
  "run (queues_update f13 s) = run s" "run (onces_update f14 s) = run s"
  "run (thread_link_list_update f15 s) = run s" "run (thread_dead_update f16 s) = run s"
  "run (sigsets_update f17 s) = run s" "run (sigacts_update f18 s) = run s"
  "run (attrs_update f19 s) = run s" "run (mattrs_update f20 s) = run s"
  "run (cattrs_update f21 s) = run s" "run (so_cancel_update f22 s) = run s"
  "run (doloaddll_update f23 s) = run s" "run (thread_critical_update f24 s) = run s"
  "run (creations_update f25 s) = run s" "run (selections_update f26 s) = run s"
  "run (fdsets_update f27 s) = run s" "run (timevals_update f28 s) = run s"
  by (simp_all add: run_def)

lemma kres_upd [simp]:
  "kres f (errnos_update g25 s) = kres f s" "kst f (errnos_update g25 s) = kst f s"
  "kres f (threads_update g26 s) = kres f s" "kst f (threads_update g26 s) = kst f s"
  "kres f (signals_blocked_update g27 s) = kres f s" "kst f (signals_blocked_update g27 s) = kst f s"
  "kres f (thread_initial_update g28 s) = kres f s" "kst f (thread_initial_update g28 s) = kst f s"
  "kres f (key_table_update g29 s) = kres f s" "kst f (key_table_update g29 s) = kst f s"
  "kres f (arrays_update g30 s) = kres f s" "kst f (arrays_update g30 s) = kst f s"
  "kres f (mutexes_update g31 s) = kres f s" "kst f (mutexes_update g31 s) = kst f s"
  "kres f (ptrs_update g32 s) = kres f s" "kst f (ptrs_update g32 s) = kst f s"
  "kres f (ints_update g33 s) = kres f s" "kst f (ints_update g33 s) = kst f s"
  "kres f (conds_update g34 s) = kres f s" "kst f (conds_update g34 s) = kst f s"
  "kres f (cleanups_update g35 s) = kres f s" "kst f (cleanups_update g35 s) = kst f s"
  "kres f (queues_update g36 s) = kres f s" "kst f (queues_update g36 s) = kst f s"
  "kres f (onces_update g37 s) = kres f s" "kst f (onces_update g37 s) = kst f s"
  "kres f (thread_link_list_update g38 s) = kres f s" "kst f (thread_link_list_update g38 s) = kst f s"
  "kres f (thread_dead_update g39 s) = kres f s" "kst f (thread_dead_update g39 s) = kst f s"
  "kres f (sigsets_update g40 s) = kres f s" "kst f (sigsets_update g40 s) = kst f s"
  "kres f (sigacts_update g41 s) = kres f s" "kst f (sigacts_update g41 s) = kst f s"
  "kres f (attrs_update g42 s) = kres f s" "kst f (attrs_update g42 s) = kst f s"
  "kres f (mattrs_update g43 s) = kres f s" "kst f (mattrs_update g43 s) = kst f s"
  "kres f (cattrs_update g44 s) = kres f s" "kst f (cattrs_update g44 s) = kst f s"
  "kres f (so_cancel_update g45 s) = kres f s" "kst f (so_cancel_update g45 s) = kst f s"
  "kres f (doloaddll_update g46 s) = kres f s" "kst f (doloaddll_update g46 s) = kst f s"
  "kres f (thread_critical_update g47 s) = kres f s" "kst f (thread_critical_update g47 s) = kst f s"
  "kres f (creations_update g48 s) = kres f s" "kst f (creations_update g48 s) = kst f s"
  "kres f (selections_update g49 s) = kres f s" "kst f (selections_update g49 s) = kst f s"
  "kres f (fdsets_update g50 s) = kres f s" "kst f (fdsets_update g50 s) = kst f s"
  "kres f (timevals_update g51 s) = kres f s" "kst f (timevals_update g51 s) = kst f s"
  by (simp_all add: kres_def kst_def)

lemma run_threadstore [simp]: "run (s\<lparr>threadstore := (threadstore s)(cur s := p)\<rparr>) = p"
  by (simp add: run_def)

section \<open>Macros of pthread_private.h\<close>

definition thread_kern_sig_block :: "'k os \<Rightarrow> (unit, 'k world) prog" where
  "thread_kern_sig_block E =
     seqM (kcall (DosEnterMustComplete E))
       (modM (\<lambda>s. s\<lparr>signals_blocked := signals_blocked s + 1\<rparr>))"

definition thread_kern_sig_unblock :: "'k os \<Rightarrow> (unit, 'k world) prog" where
  "thread_kern_sig_unblock E =
     seqM (kcall (DosExitMustComplete E))
       (modM (\<lambda>s. s\<lparr>signals_blocked := signals_blocked s - 1\<rparr>))"

definition thread_kern_enter_crit_sec :: "'k os \<Rightarrow> (unit, 'k world) prog" where
  "thread_kern_enter_crit_sec E = kcall (DosEnterCritSec E)"

definition thread_kern_leave_crit_sec :: "'k os \<Rightarrow> (unit, 'k world) prog" where
  "thread_kern_leave_crit_sec E = kcall (DosExitCritSec E)"

definition PTHREAD_NEW_STATE ::
  "addr \<Rightarrow> pthread_state \<Rightarrow> string \<Rightarrow> int \<Rightarrow> (unit, 'k world) prog" where
  "PTHREAD_NEW_STATE p newstate file line =
     seqM (upd_thread p (\<lambda>t. t\<lparr>th_state := newstate\<rparr>))
    (seqM (upd_thread p (\<lambda>t. t\<lparr>th_fname := file\<rparr>))
          (upd_thread p (\<lambda>t. t\<lparr>th_lineno := line\<rparr>)))"

lemma sig_block_run [simp, run_simps]:
  "seqM (thread_kern_sig_block E) n s =
     n (s\<lparr>kern := kst (DosEnterMustComplete E) s, signals_blocked := signals_blocked s + 1\<rparr>)"
  by (simp add: thread_kern_sig_block_def seqM_seq)

lemma sig_unblock_run [simp, run_simps]:
  "seqM (thread_kern_sig_unblock E) n s =
     n (s\<lparr>kern := kst (DosExitMustComplete E) s, signals_blocked := signals_blocked s - 1\<rparr>)"
  by (simp add: thread_kern_sig_unblock_def seqM_seq)

lemma crit_run [simp, run_simps]:
  "seqM (thread_kern_enter_crit_sec E) n s = n (s\<lparr>kern := kst (DosEnterCritSec E) s\<rparr>)"
  "seqM (thread_kern_leave_crit_sec E) n s = n (s\<lparr>kern := kst (DosExitCritSec E) s\<rparr>)"
  by (simp_all add: thread_kern_enter_crit_sec_def thread_kern_leave_crit_sec_def)

lemma set_errno_run [simp, run_simps]: "seqM (set_errno e) n s = n (with_errno e s)"
  by (simp add: set_errno_def)

lemma set_errno_Ret [simp]: "set_errno e s = Some (Ret x t) \<longleftrightarrow> t = with_errno e s"
  by (simp add: set_errno_def)

lemma thread_run_bind [simp, run_simps]: "bindM thread_run f s = f (run s) s"
  by (simp add: thread_run_def)

lemma new_state_run [simp, run_simps]:
  assumes "p \<noteq> NULL" and "threads s p = Some t"
  shows "seqM (PTHREAD_NEW_STATE p st file line) n s =
     n (s\<lparr>threads := (threads s)(p := Some (t\<lparr>th_state := st, th_fname := file, th_lineno := line\<rparr>))\<rparr>)"
  using assms by (simp add: PTHREAD_NEW_STATE_def seqM_seq)

end
