(* ===== verification/Init.thy ===== *)
theory Init
  imports Access
begin

text \<open>
  \<^verbatim>\<open>uthread_self.c\<close>, \<^verbatim>\<open>pthread_init\<close> and the signal tables of \<^verbatim>\<open>uthread_init.c\<close>,
  \<^verbatim>\<open>uthread_seterrno.c\<close> and \<^verbatim>\<open>uthread_equal.c\<close>: how a thread gets its structure.

  In the source \<^verbatim>\<open>pthread_self\<close>, \<^verbatim>\<open>_thread_init\<close> and \<^verbatim>\<open>pthread_init\<close> call each other.  The
  recursion is one level deep: \<^verbatim>\<open>_thread_init\<close> stores the new structure in \<^verbatim>\<open>_thread_run\<close>
  before it calls \<^verbatim>\<open>pthread_init\<close>, so the nested call of \<^verbatim>\<open>_thread_init\<close> takes its first
  return.  The model unrolls it: \<open>thread_init_again\<close> is that nested call.
\<close>

section \<open>Signal tables\<close>

datatype st_action = ST_TERM | ST_IGNORE | ST_NEXT

record sig_descr =
  sig_name :: string
  dfl_action :: st_action
  fun_action :: st_action

definition sys_sig_valid_table :: "bool list" where
  "sys_sig_valid_table =
     [False, True, True, True, True, True, True, True, True, True, True, True, True, True,
      True, True, True, True, True, False, False, True]"

definition sys_sig_valid :: "int \<Rightarrow> bool" where
  "sys_sig_valid n = sys_sig_valid_table ! nat n"

definition sig_info_table :: "sig_descr list" where
  "sig_info_table =
     [\<lparr>sig_name = ''SIG0'', dfl_action = ST_TERM, fun_action = ST_TERM\<rparr>,
      \<lparr>sig_name = ''SIGHUP'', dfl_action = ST_TERM, fun_action = ST_IGNORE\<rparr>,
      \<lparr>sig_name = ''SIGINT'', dfl_action = ST_TERM, fun_action = ST_IGNORE\<rparr>,
      \<lparr>sig_name = ''SIGQUIT'', dfl_action = ST_TERM, fun_action = ST_IGNORE\<rparr>,
      \<lparr>sig_name = ''SIGILL'', dfl_action = ST_NEXT, fun_action = ST_NEXT\<rparr>,
      \<lparr>sig_name = ''SIGTRAP'', dfl_action = ST_NEXT, fun_action = ST_NEXT\<rparr>,
      \<lparr>sig_name = ''SIGABRT'', dfl_action = ST_TERM, fun_action = ST_TERM\<rparr>,
      \<lparr>sig_name = ''SIGEMT'', dfl_action = ST_TERM, fun_action = ST_TERM\<rparr>,
      \<lparr>sig_name = ''SIGFPE'', dfl_action = ST_NEXT, fun_action = ST_NEXT\<rparr>,
      \<lparr>sig_name = ''SIGKILL'', dfl_action = ST_TERM, fun_action = ST_TERM\<rparr>,
      \<lparr>sig_name = ''SIGBUS'', dfl_action = ST_TERM, fun_action = ST_TERM\<rparr>,
      \<lparr>sig_name = ''SIGSEGV'', dfl_action = ST_NEXT, fun_action = ST_NEXT\<rparr>,
      \<lparr>sig_name = ''SIGSYS'', dfl_action = ST_TERM, fun_action = ST_TERM\<rparr>,
      \<lparr>sig_name = ''SIGPIPE'', dfl_action = ST_TERM, fun_action = ST_IGNORE\<rparr>,
      \<lparr>sig_name = ''SIGALRM'', dfl_action = ST_TERM, fun_action = ST_IGNORE\<rparr>,
      \<lparr>sig_name = ''SIGTERM'', dfl_action = ST_NEXT, fun_action = ST_IGNORE\<rparr>,
      \<lparr>sig_name = ''SIGUSR1'', dfl_action = ST_IGNORE, fun_action = ST_IGNORE\<rparr>,
      \<lparr>sig_name = ''SIGUSR2'', dfl_action = ST_IGNORE, fun_action = ST_IGNORE\<rparr>,
      \<lparr>sig_name = ''SIGCLD'', dfl_action = ST_IGNORE, fun_action = ST_IGNORE\<rparr>,
      \<lparr>sig_name = ''SIG19'', dfl_action = ST_TERM, fun_action = ST_TERM\<rparr>,
      \<lparr>sig_name = ''SIG20'', dfl_action = ST_TERM, fun_action = ST_TERM\<rparr>,
      \<lparr>sig_name = ''SIGBREAK'', dfl_action = ST_TERM, fun_action = ST_IGNORE\<rparr>]"

definition sig_info :: "int \<Rightarrow> sig_descr" where
  "sig_info n = sig_info_table ! nat n"

section \<open>Registering a thread\<close>

definition PTHREAD_INIT_with :: "(addr, 'k world) prog \<Rightarrow> (unit, 'k world) prog" where
  "PTHREAD_INIT_with ti s =
     (if thread_initial s = NULL \<and> cur s = 1
      then seqM ti (modM (\<lambda>s. s\<lparr>thread_initial := run s\<rparr>)) s
      else retM () s)"

definition pthread_self_with ::
  "'k os \<Rightarrow> (addr, 'k world) prog \<Rightarrow> (addr, 'k world) prog" where
  "pthread_self_with E ti =
     seqM (PTHREAD_INIT_with ti)
    (bindM thread_run (\<lambda>thread_ptr.
     if thread_ptr = NULL
     then seqM (thread_kern_sig_block E)
         (bindM ti (\<lambda>thread_ptr.
          seqM (thread_kern_sig_unblock E) (retM thread_ptr)))
     else retM thread_ptr))"

text \<open>Loading \<^verbatim>\<open>SO32DLL\<close> once, for the call that cancels a blocked socket operation.\<close>

definition load_so_dll :: "'k os \<Rightarrow> (unit, 'k world) prog" where
  "load_so_dll E =
     bindM (getM doloaddll) (\<lambda>dl.
     whenM dl
      (seqM (modM (\<lambda>s. s\<lparr>doloaddll := False\<rparr>))
      (bindM (kcall (DosLoadModule E 128 ''SO32DLL'')) (\<lambda>(rc, err, sodll).
       seqM (whenM (rc = 0 \<and> sodll \<noteq> NULL)
              (bindM (kcall (DosQueryProcAddr E sodll ''SO_CANCEL'')) (\<lambda>(rc, so).
               whenM (rc = 0) (modM (\<lambda>s. s\<lparr>so_cancel := so\<rparr>)))))
      (bindM (kcall (DosCreateMutexSem E)) (\<lambda>(rc, h).
       whenM (rc = 0) (modM (\<lambda>s. s\<lparr>thread_critical := h\<rparr>))))))))"

definition default_sigact :: sigact where
  "default_sigact = \<lparr>sa_handler = SIG_DFL, sa_mask = 0, sa_flags = SA_ACK\<rparr>"

definition pthread_init_with ::
  "'k os \<Rightarrow> (addr, 'k world) prog \<Rightarrow> (unit, 'k world) prog" where
  "pthread_init_with E self_prog =
     bindM self_prog (\<lambda>self.
     seqM (load_so_dll E)
    (seqM (upd_thread self (\<lambda>t. t\<lparr>pend := 0\<rparr>))
    (seqM (upd_thread self (\<lambda>t. t\<lparr>tp := (tp t)\<lparr>sig_blocked := 0\<rparr>\<rparr>))
    (seqM (upd_thread self (\<lambda>t. t\<lparr>tp := (tp t)\<lparr>sig_pending := 0\<rparr>\<rparr>))
     (forM [0..<NSIG] (\<lambda>n.
       seqM (upd_thread self (\<lambda>t. t\<lparr>tp := (tp t)\<lparr>signals := (signals (tp t))(n := default_sigact)\<rparr>\<rparr>))
        (whenM (sys_sig_valid (int n)) (kcall (libc_signal E (int n) Emx_Sighandler)))))))))"

definition thread_init_again :: "(addr, 'k world) prog" where
  "thread_init_again =
     bindM thread_run (\<lambda>thread. if thread \<noteq> NULL then retM thread else faultM Null_Deref)"

text \<open>The priority the library computes from the priority word of the OS.\<close>

definition initial_priority :: "u32 \<Rightarrow> int" where
  "initial_priority ulpri =
     (let u = (ulpri AND 0x1f) OR (drop_bit 3 (ulpri AND 0xff00) - 32)
      in if PTHREAD_MAX_PRIORITY < uint u then PTHREAD_MAX_PRIORITY else uint u)"

definition thread_init :: "'k os \<Rightarrow> (addr, 'k world) prog" where
  "thread_init E =
     bindM thread_run (\<lambda>thread.
     if thread \<noteq> NULL then retM thread else
     bindM (kcall (malloc E)) (\<lambda>thread.
     bindM (getM (junk_thread E)) (\<lambda>junk.
     seqM (whenM (thread \<noteq> NULL) (fresh threads threads_update thread junk))
    (seqM (set_thread_run thread)
    (bindM (getM cur) (\<lambda>tid.
     seqM (upd_thread thread (\<lambda>t. t\<lparr>start_routine := NULL, th_arg := NULL,
             parent_thread := NULL, th_self := tid, threadid := tid,
             pthread_priority := 32\<rparr>))
    (seqM (pthread_init_with E (pthread_self_with E thread_init_again))
    (seqM (upd_thread thread (\<lambda>t. t\<lparr>th_attr := pthread_attr_default\<rparr>))
    (bindM (kcall (DosGetInfoBlocks E)) (\<lambda>ulpri.
     seqM (upd_thread thread (\<lambda>t. t\<lparr>pthread_priority := initial_priority ulpri,
             specific_data := NULL, th_cleanup := NULL, th_queue := NULL, qnxt := NULL,
             th_flags := 0\<rparr>))
    (seqM (thread_kern_enter_crit_sec E)
    (bindM (getM thread_link_list) (\<lambda>first.
     seqM (upd_thread thread (\<lambda>t. t\<lparr>nxt := first\<rparr>))
    (seqM (modM (\<lambda>s. s\<lparr>thread_link_list := thread\<rparr>))
    (seqM (thread_kern_leave_crit_sec E)
    (seqM (PTHREAD_NEW_STATE thread PS_RUNNING ''uthread_self.c'' 84)
     (retM thread)))))))))))))))))"

definition PTHREAD_INIT :: "'k os \<Rightarrow> (unit, 'k world) prog" where
  "PTHREAD_INIT E = PTHREAD_INIT_with (thread_init E)"

definition pthread_self :: "'k os \<Rightarrow> (addr, 'k world) prog" where
  "pthread_self E = pthread_self_with E (thread_init E)"

definition pthread_init :: "'k os \<Rightarrow> (unit, 'k world) prog" where
  "pthread_init E = pthread_init_with E (pthread_self E)"

definition thread_seterrno :: "'k os \<Rightarrow> addr \<Rightarrow> int \<Rightarrow> (unit, 'k world) prog" where
  "thread_seterrno E thread error =
     seqM (PTHREAD_INIT E)
    (bindM (load threads thread) (\<lambda>t.
     modM (\<lambda>s. s\<lparr>errnos := (errnos s)(th_self t := error)\<rparr>)))"

definition pthread_equal :: "'k os \<Rightarrow> addr \<Rightarrow> addr \<Rightarrow> (int, 'k world) prog" where
  "pthread_equal E t1 t2 = seqM (PTHREAD_INIT E) (retM (of_bool (t1 = t2)))"

section \<open>Calls made by a thread that is already registered\<close>

definition inited :: "'k world \<Rightarrow> bool" where
  "inited s \<longleftrightarrow> run s \<noteq> NULL \<and> (thread_initial s \<noteq> NULL \<or> cur s \<noteq> 1)"

lemma inited_upd [simp]:
  "inited (kern_update f0 s) = inited s" "inited (errnos_update f1 s) = inited s"
  "inited (threads_update f2 s) = inited s" "inited (signals_blocked_update f3 s) = inited s"
  "inited (key_table_update f4 s) = inited s" "inited (arrays_update f5 s) = inited s"
  "inited (mutexes_update f6 s) = inited s" "inited (ptrs_update f7 s) = inited s"
  "inited (ints_update f8 s) = inited s" "inited (conds_update f9 s) = inited s"
  "inited (cleanups_update f10 s) = inited s" "inited (queues_update f11 s) = inited s"
  "inited (onces_update f12 s) = inited s" "inited (thread_link_list_update f13 s) = inited s"
  "inited (thread_dead_update f14 s) = inited s" "inited (sigsets_update f15 s) = inited s"
  "inited (sigacts_update f16 s) = inited s" "inited (attrs_update f17 s) = inited s"
  "inited (mattrs_update f18 s) = inited s" "inited (cattrs_update f19 s) = inited s"
  "inited (so_cancel_update f20 s) = inited s" "inited (doloaddll_update f21 s) = inited s"
  "inited (thread_critical_update f22 s) = inited s" "inited (creations_update f23 s) = inited s"
  "inited (selections_update f24 s) = inited s" "inited (fdsets_update f25 s) = inited s"
  "inited (timevals_update f26 s) = inited s"
  by (simp_all add: inited_def)

lemma PTHREAD_INIT_run [simp, run_simps]: "inited s \<Longrightarrow> seqM (PTHREAD_INIT E) n s = n s"
  by (rule trans [OF seqM_run [where x = "()" and s' = s]])
     (auto simp: PTHREAD_INIT_def PTHREAD_INIT_with_def inited_def)

lemma pthread_self_Some [simp]: "inited s \<Longrightarrow> pthread_self E s = Some (Ret (run s) s)"
  unfolding pthread_self_def pthread_self_with_def
  by (subst seqM_run [where x = "()" and s' = s])
     (auto simp: PTHREAD_INIT_with_def inited_def retM_def)

lemma pthread_self_run [simp, run_simps]: "inited s \<Longrightarrow> bindM (pthread_self E) f s = f (run s) s"
  by (rule bindM_run) simp

end
