(* ===== verification/Demo.thy ===== *)
theory Demo
  imports Init
begin

text \<open>
  A concrete instance of the services in \<open>os\<close> and two concrete process states, on which the
  witnesses evaluate.  The instance is a small kernel with mutex semaphores that count
  their owner's requests, event semaphores that count posts, a bump allocator, and a log
  of the application functions called.  It is no part of the model of the library: it only
  shows that what the theorems assume of the services can hold.
\<close>

record demo_kern =
  sem :: "hmtx \<Rightarrow> (tid \<times> nat) option"
  posts :: "hev \<Rightarrow> nat"
  next_handle :: nat
  brk :: addr
  calls :: "(addr \<times> addr) list"

definition demo_request :: "hmtx \<Rightarrow> u32 \<Rightarrow> (apiret, demo_kern world) prog" where
  "demo_request h tmo s =
     (let t = cur s; k = kern s in
      case sem k h of
        None \<Rightarrow> Some (Ret 0 (s\<lparr>kern := k\<lparr>sem := (sem k)(h := Some (t, 1))\<rparr>\<rparr>))
      | Some (u, n) \<Rightarrow>
          if u = t then Some (Ret 0 (s\<lparr>kern := k\<lparr>sem := (sem k)(h := Some (t, Suc n))\<rparr>\<rparr>))
          else if tmo = SEM_INDEFINITE_WAIT then None
          else Some (Ret ERROR_TIMEOUT s))"

definition demo_release :: "hmtx \<Rightarrow> tid \<Rightarrow> demo_kern \<Rightarrow> apiret \<times> demo_kern" where
  "demo_release h t k =
     (case sem k h of
        None \<Rightarrow> (ERROR_NOT_OWNER, k)
      | Some (u, n) \<Rightarrow>
          if u = t then (0, k\<lparr>sem := (sem k)(h := if n \<le> 1 then None else Some (t, n - 1))\<rparr>)
          else (ERROR_NOT_OWNER, k))"

definition demo_close :: "hmtx \<Rightarrow> tid \<Rightarrow> demo_kern \<Rightarrow> apiret \<times> demo_kern" where
  "demo_close h t k = (if sem k h = None then (0, k) else (ERROR_SEM_BUSY, k))"

definition demo_wait :: "hev \<Rightarrow> u32 \<Rightarrow> (apiret, demo_kern world) prog" where
  "demo_wait ev tmo s =
     (let k = kern s in
      if 0 < posts k ev
      then Some (Ret 0 (s\<lparr>kern := k\<lparr>posts := (posts k)(ev := posts k ev - 1)\<rparr>\<rparr>))
      else if tmo = SEM_INDEFINITE_WAIT then None
      else Some (Ret ERROR_TIMEOUT s))"

definition demo_new :: "tid \<Rightarrow> demo_kern \<Rightarrow> (apiret \<times> nat) \<times> demo_kern" where
  "demo_new t k = ((0, next_handle k), k\<lparr>next_handle := Suc (next_handle k)\<rparr>)"

definition demo_call :: "addr \<Rightarrow> addr \<Rightarrow> (addr, demo_kern world) prog" where
  "demo_call f x s =
     Some (Ret NULL (s\<lparr>kern := (kern s)\<lparr>calls := calls (kern s) @ [(f, x)]\<rparr>\<rparr>))"

definition demo_thread :: pthread where
  "demo_thread =
     \<lparr>th_self = 1, threadid = 1, nxt = NULL, start_routine = NULL, th_arg = NULL,
      th_attr = pthread_attr_default, parent_thread = NULL, th_state = PS_RUNNING,
      th_queue = NULL, qnxt = NULL, th_data = W_None, th_flags = 0, pthread_priority = 32,
      th_ret = NULL, specific_data = NULL, specific_data_count = 0,
      tp = \<lparr>signals = (\<lambda>_. default_sigact), sig_pending = 0, sig_blocked = 0\<rparr>,
      pend = 0, alarm_event = 0, alarm_timer = 0, alarm_timeout = 0,
      th_cleanup = NULL, th_fname = '''', th_lineno = 0, th_dlerror = ''''\<rparr>"

definition demo_mutex :: pthread_mutex where
  "demo_mutex = \<lparr>m_type = MUTEX_TYPE_FAST, m_mutex = 7, m_owner = NULL, m_count = 0,
                 m_prioceiling = 0, m_flags = MUTEX_FLAGS_INITED\<rparr>"

definition demo_cond :: pthread_cond where
  "demo_cond = \<lparr>c_type = COND_TYPE_FAST, c_event = 8, c_data = NULL,
                c_flags = COND_FLAGS_INITED, c_onwait = 0\<rparr>"

definition demo_select :: select_st where
  "demo_select = \<lparr>sel_nfds = 0, sel_isrdfds = False, sel_readfds = NULL, sel_iswrfds = False,
     sel_writefds = NULL, sel_isexfds = False, sel_exceptfds = NULL, sel_istimeout = False,
     sel_timeout = (0, 0), sel_event = 0, sel_result = 0, sel_errno = 0, sel_done = 0\<rparr>"

definition demo_nop :: "tid \<Rightarrow> demo_kern \<Rightarrow> unit \<times> demo_kern" where
  "demo_nop t k = ((), k)"

definition demo_ok :: "tid \<Rightarrow> demo_kern \<Rightarrow> apiret \<times> demo_kern" where
  "demo_ok t k = (0, k)"

definition demo_os :: "demo_kern os" where
  "demo_os =
     \<lparr>malloc = (\<lambda>t k. (brk k, k\<lparr>brk := brk k + 100\<rparr>)),
      junk_thread = (\<lambda>_. demo_thread), junk_mutex = (\<lambda>_. demo_mutex),
      junk_cond = (\<lambda>_. demo_cond), junk_select = (\<lambda>_. demo_select),
      alarm_slot = (\<lambda>p. p + 5),
      call_handler = (\<lambda>f n. seqM (demo_call f (nat n)) (retM ())),
      call_fun = demo_call,
      call_init = (\<lambda>f. seqM (demo_call f NULL) (retM ())),
      call_so_cancel = (\<lambda>f fd t k. (0, k)),
      sigmask = (\<lambda>n. push_bit (nat n) 1),
      set_blocked = (\<lambda>v. v AND NOT (push_bit 9 1)),
      DosCreateMutexSem = demo_new, DosRequestMutexSem = demo_request,
      DosReleaseMutexSem = demo_release, DosCloseMutexSem = demo_close,
      DosCreateEventSem = (\<lambda>a. demo_new),
      DosPostEventSem = (\<lambda>ev t k. (0, k\<lparr>posts := (posts k)(ev := Suc (posts k ev))\<rparr>)),
      DosWaitEventSem = demo_wait, DosCloseEventSem = (\<lambda>ev. demo_ok),
      DosEnterCritSec = demo_nop, DosExitCritSec = demo_nop,
      DosEnterMustComplete = demo_nop, DosExitMustComplete = demo_nop,
      beginthread = (\<lambda>f st a t k. (5, k)),
      DosSuspendThread = (\<lambda>tid. retM 0), DosResumeThread = (\<lambda>tid. demo_ok),
      DosKillThread = (\<lambda>tid. demo_ok), DosWaitThread = (\<lambda>tid. retM 0),
      DosSleep = (\<lambda>ms. retM 0), DosSetPriority = demo_ok,
      DosLoadModule = (\<lambda>n nm t k. ((2, '''', NULL), k)), DosFreeModule = (\<lambda>h. demo_ok),
      DosQueryModuleName = (\<lambda>h n t k. ((0, ''MOD''), k)),
      DosQueryProcAddr = (\<lambda>m nm t k. ((127, NULL), k)),
      DosAsyncTimer = (\<lambda>ms ev t k. ((0, 300), k)), DosStopTimer = (\<lambda>h. demo_ok),
      DosSetFileLocks = (\<lambda>fd u l tmo fl. retM 0),
      DosGetInfoBlocks = (\<lambda>t k. (0x0200, k)),
      libc_signal = (\<lambda>n h. demo_nop), libc_sigprocmask = (\<lambda>how p. demo_nop),
      libc_kill = (\<lambda>n. retM ()), libc_alarm = (\<lambda>n. demo_nop), libc_sleep = (\<lambda>n. retM 0),
      libc_read = (\<lambda>fd b n. retM (uint n)), libc_write = (\<lambda>fd b n. retM (uint n)),
      libc_tell = (\<lambda>fd t k. (0, k)), libc_select = (\<lambda>n r w e tmo. retM (0, r, w, e)),
      libc_fionread = (\<lambda>fd t k. ((0, 0), k)),
      gettimeofday = (\<lambda>t k. ((1000, 0), k))\<rparr>"

text \<open>
  One process with two registered threads (structures at 10 and 20, OS threads 1 and 2), a
  fast mutex variable at 30, a counting mutex variable at 31, a condition variable at 32,
  an empty thread queue at 50; OS thread 1 runs.
\<close>

definition demo_kern0 :: demo_kern where
  "demo_kern0 = \<lparr>sem = (\<lambda>_. None), posts = (\<lambda>_. 0), next_handle = 100, brk = 1000, calls = []\<rparr>"

definition demo_world :: "demo_kern world" where
  "demo_world =
     \<lparr>kern = demo_kern0, cur = 1,
      threadstore = (\<lambda>t. if t = 1 then 10 else if t = 2 then 20 else NULL),
      errnos = (\<lambda>_. 0),
      threads = [10 \<mapsto> demo_thread, 20 \<mapsto> demo_thread\<lparr>th_self := 2, threadid := 2, nxt := 10\<rparr>],
      mutexes = [40 \<mapsto> demo_mutex,
                 41 \<mapsto> demo_mutex\<lparr>m_type := MUTEX_TYPE_COUNTING_FAST, m_mutex := 9\<rparr>],
      conds = [42 \<mapsto> demo_cond],
      attrs = Map.empty, mattrs = Map.empty, cattrs = Map.empty, cleanups = Map.empty,
      queues = [50 \<mapsto> \<lparr>q_next = NULL, q_last = NULL, q_data = NULL\<rparr>], onces = Map.empty,
      arrays = Map.empty, creations = Map.empty, selections = Map.empty, fdsets = Map.empty,
      timevals = Map.empty,
      ptrs = [30 \<mapsto> 40, 31 \<mapsto> 41, 32 \<mapsto> 42, 33 \<mapsto> 0], ints = [60 \<mapsto> 0],
      sigsets = [70 \<mapsto> 0], sigacts = Map.empty,
      thread_link_list = 20, thread_initial = 10, thread_dead = NULL,
      signals_blocked = 0,
      key_table = (\<lambda>_. \<lparr>k_count = 0, k_destructor = NULL\<rparr>),
      doloaddll = False, so_cancel = NULL, thread_critical = 1\<rparr>"

lemmas demo_defs = demo_world_def demo_kern0_def demo_os_def demo_thread_def demo_mutex_def
  demo_cond_def demo_request_def demo_release_def demo_close_def demo_wait_def demo_new_def
  demo_call_def demo_nop_def demo_ok_def

lemma demo_world_sel [simp]:
  "kern demo_world = demo_kern0" "cur demo_world = 1" "run demo_world = 10"
  "threadstore demo_world = (\<lambda>t. if t = 1 then 10 else if t = 2 then 20 else NULL)"
  "errnos demo_world = (\<lambda>_. 0)"
  "threads demo_world = [10 \<mapsto> demo_thread, 20 \<mapsto> demo_thread\<lparr>th_self := 2, threadid := 2, nxt := 10\<rparr>]"
  "mutexes demo_world = [40 \<mapsto> demo_mutex,
     41 \<mapsto> demo_mutex\<lparr>m_type := MUTEX_TYPE_COUNTING_FAST, m_mutex := 9\<rparr>]"
  "conds demo_world = [42 \<mapsto> demo_cond]"
  "ptrs demo_world = [30 \<mapsto> 40, 31 \<mapsto> 41, 32 \<mapsto> 42, 33 \<mapsto> 0]" "ints demo_world = [60 \<mapsto> 0]"
  "sigsets demo_world = [70 \<mapsto> 0]" "sigacts demo_world = Map.empty"
  "queues demo_world = [50 \<mapsto> \<lparr>q_next = NULL, q_last = NULL, q_data = NULL\<rparr>]"
  "arrays demo_world = Map.empty" "creations demo_world = Map.empty" "selections demo_world = Map.empty"
  "fdsets demo_world = Map.empty" "timevals demo_world = Map.empty" "onces demo_world = Map.empty" "attrs demo_world = Map.empty"
  "mattrs demo_world = Map.empty" "cattrs demo_world = Map.empty" "cleanups demo_world = Map.empty"
  "thread_link_list demo_world = 20" "thread_initial demo_world = 10" "thread_dead demo_world = NULL"
  "signals_blocked demo_world = 0" "so_cancel demo_world = NULL" "doloaddll demo_world = False"
  "key_table demo_world = (\<lambda>_. \<lparr>k_count = 0, k_destructor = NULL\<rparr>)"
  by (simp_all add: demo_world_def run_def)

lemma demo_kern0_sel [simp]:
  "sem demo_kern0 h = None" "posts demo_kern0 h = 0" "next_handle demo_kern0 = 100"
  "brk demo_kern0 = 1000" "calls demo_kern0 = []"
  by (simp_all add: demo_kern0_def)

lemma demo_thread_sel [simp]:
  "th_self demo_thread = 1" "threadid demo_thread = 1" "nxt demo_thread = NULL"
  "th_attr demo_thread = pthread_attr_default" "parent_thread demo_thread = NULL"
  "th_state demo_thread = PS_RUNNING" "th_queue demo_thread = NULL" "qnxt demo_thread = NULL"
  "th_flags demo_thread = 0" "pthread_priority demo_thread = 32" "th_ret demo_thread = NULL"
  "specific_data demo_thread = NULL" "specific_data_count demo_thread = 0" "pend demo_thread = 0"
  "tp demo_thread = \<lparr>signals = (\<lambda>_. default_sigact), sig_pending = 0, sig_blocked = 0\<rparr>"
  "th_cleanup demo_thread = NULL" "th_data demo_thread = W_None"
  by (simp_all add: demo_thread_def)

lemma demo_mutex_sel [simp]:
  "m_type demo_mutex = MUTEX_TYPE_FAST" "m_owner demo_mutex = NULL" "m_mutex demo_mutex = 7"
  "m_count demo_mutex = 0"
  by (simp_all add: demo_mutex_def)

lemma demo_os_sel [simp]:
  "malloc demo_os = (\<lambda>t k. (brk k, k\<lparr>brk := brk k + 100\<rparr>))"
  "junk_thread demo_os = (\<lambda>_. demo_thread)"
  "junk_mutex demo_os = (\<lambda>_. demo_mutex)"
  "junk_cond demo_os = (\<lambda>_. demo_cond)"
  "call_handler demo_os = (\<lambda>f n. seqM (demo_call f (nat n)) (retM ()))"
  "call_fun demo_os = demo_call"
  "call_init demo_os = (\<lambda>f. seqM (demo_call f NULL) (retM ()))"
  "call_so_cancel demo_os = (\<lambda>f fd t k. (0, k))"
  "sigmask demo_os = (\<lambda>n. push_bit (nat n) 1)"
  "set_blocked demo_os = (\<lambda>v. v AND NOT (push_bit 9 1))"
  "DosCreateMutexSem demo_os = demo_new"
  "DosRequestMutexSem demo_os = demo_request"
  "DosReleaseMutexSem demo_os = demo_release"
  "DosCloseMutexSem demo_os = demo_close"
  "DosCreateEventSem demo_os = (\<lambda>a. demo_new)"
  "DosPostEventSem demo_os = (\<lambda>ev t k. (0, k\<lparr>posts := (posts k)(ev := Suc (posts k ev))\<rparr>))"
  "DosWaitEventSem demo_os = demo_wait"
  "DosCloseEventSem demo_os = (\<lambda>ev. demo_ok)"
  "DosEnterCritSec demo_os = demo_nop"
  "DosExitCritSec demo_os = demo_nop"
  "DosEnterMustComplete demo_os = demo_nop"
  "DosExitMustComplete demo_os = demo_nop"
  "beginthread demo_os = (\<lambda>f st a t k. (5, k))"
  "DosSuspendThread demo_os = (\<lambda>tid. retM 0)"
  "DosResumeThread demo_os = (\<lambda>tid. demo_ok)"
  "DosKillThread demo_os = (\<lambda>tid. demo_ok)"
  "DosWaitThread demo_os = (\<lambda>tid. retM 0)"
  "DosSleep demo_os = (\<lambda>ms. retM 0)"
  "DosSetPriority demo_os = demo_ok"
  "DosLoadModule demo_os = (\<lambda>n nm t k. ((2, '''', NULL), k))"
  "DosFreeModule demo_os = (\<lambda>h. demo_ok)"
  "DosQueryModuleName demo_os = (\<lambda>h n t k. ((0, ''MOD''), k))"
  "DosAsyncTimer demo_os = (\<lambda>ms ev t k. ((0, 300), k))"
  "DosStopTimer demo_os = (\<lambda>h. demo_ok)"
  "DosSetFileLocks demo_os = (\<lambda>fd u l tmo fl. retM 0)"
  "libc_tell demo_os = (\<lambda>fd t k. (0, k))"
  "libc_select demo_os = (\<lambda>n r w e tmo. retM (0, r, w, e))"
  "libc_fionread demo_os = (\<lambda>fd t k. ((0, 0), k))"
  "alarm_slot demo_os = (\<lambda>p. p + 5)" "junk_select demo_os = (\<lambda>_. demo_select)"
  "DosQueryProcAddr demo_os = (\<lambda>m nm t k. ((127, NULL), k))"
  "DosGetInfoBlocks demo_os = (\<lambda>t k. (0x0200, k))"
  "libc_signal demo_os = (\<lambda>n h. demo_nop)"
  "libc_sigprocmask demo_os = (\<lambda>how p. demo_nop)"
  "libc_kill demo_os = (\<lambda>n. retM ())"
  "libc_alarm demo_os = (\<lambda>n. demo_nop)"
  "libc_sleep demo_os = (\<lambda>n. retM 0)"
  "libc_read demo_os = (\<lambda>fd b n. retM (uint n))"
  "libc_write demo_os = (\<lambda>fd b n. retM (uint n))"
  "gettimeofday demo_os = (\<lambda>t k. ((1000, 0), k))"
  by (simp_all add: demo_os_def)

lemma demo_inited [simp]: "inited demo_world"
  by (simp add: inited_def)

lemma kern_upd_id: "s = s\<lparr>kern := k\<rparr> \<longleftrightarrow> kern s = k"
  by (cases s) auto

end
