(* ===== verification/ThreadList.thy ===== *)
theory ThreadList
  imports Init
begin

text \<open>
  The lists of all threads and of dead threads, linked through \<^verbatim>\<open>nxt\<close>, and the search loop
  that \<^verbatim>\<open>pthread_kill\<close>, \<^verbatim>\<open>pthread_join\<close>, \<^verbatim>\<open>pthread_getprio\<close> and \<^verbatim>\<open>pthread_setprio\<close> share:
  \<^verbatim>\<open>while (p != NULL && p != pthread) p = p->nxt;\<close>
\<close>

partial_function (option) find_thread ::
  "addr \<Rightarrow> addr \<Rightarrow> 'k world \<Rightarrow> (addr, 'k world) res option" where
  "find_thread p target s =
     (if p = NULL \<or> p = target then retM p s
      else bindM (load threads p) (\<lambda>t s. find_thread (nxt t) target s) s)"

declare find_thread.simps [code]

definition nlink :: "(addr \<Rightarrow> pthread option) \<Rightarrow> addr \<Rightarrow> addr option" where
  "nlink h p = map_option nxt (h p)"

lemma nlink_upd: "nlink (h(p := Some v)) = (nlink h)(p := Some (nxt v))"
  by (rule ext) (simp add: nlink_def)

lemma nlink_upd_same [simp]:
  "h p = Some t \<Longrightarrow> nxt v = nxt t \<Longrightarrow> nlink (h(p := Some v)) = nlink h"
  by (rule ext) (simp add: nlink_def)

lemma nlink_Some: "nlink h p = Some n \<longleftrightarrow> (\<exists>t. h p = Some t \<and> nxt t = n)"
  by (auto simp: nlink_def)

lemma nlink_None: "nlink h p = None \<longleftrightarrow> h p = None"
  by (simp add: nlink_def)

text \<open>The threads on the list of live threads, and those on the list of dead ones.\<close>

definition live_list :: "'k world \<Rightarrow> addr list \<Rightarrow> bool" where
  "live_list s xs = chain (nlink (threads s)) (thread_link_list s) xs"

definition dead_list :: "'k world \<Rightarrow> addr list \<Rightarrow> bool" where
  "dead_list s xs = chain (nlink (threads s)) (thread_dead s) xs"

lemma find_thread_chain:
  assumes "chain (nlink (threads s)) p xs"
  shows "find_thread p target s = Some (Ret (if target \<in> set xs then target else NULL) s)"
  using assms
proof (induction xs arbitrary: p)
  case Nil
  then show ?case by (subst find_thread.simps) (simp add: retM_def)
next
  case (Cons x xs)
  then obtain n where n: "p = x" "x \<noteq> NULL" "nlink (threads s) x = Some n"
    "chain (nlink (threads s)) n xs"
    by auto
  then obtain t where t: "threads s x = Some t" "nxt t = n" by (auto simp: nlink_Some)
  show ?case
  proof (cases "x = target")
    case True
    with n show ?thesis by (subst find_thread.simps) (simp add: retM_def)
  next
    case False
    with n t Cons.IH [OF n(4)] show ?thesis by (subst find_thread.simps) simp
  qed
qed

lemma find_thread_run:
  assumes "chain (nlink (threads s)) p xs"
  shows "bindM (find_thread p target) f s = f (if target \<in> set xs then target else NULL) s"
  by (rule bindM_run) (rule find_thread_chain [OF assms])

lemma find_live:
  "live_list s xs \<Longrightarrow>
     bindM (find_thread (thread_link_list s) target) f s = f (if target \<in> set xs then target else NULL) s"
  unfolding live_list_def by (rule find_thread_run)

lemma live_list_alloc: "live_list s xs \<Longrightarrow> x \<in> set xs \<Longrightarrow> x \<noteq> NULL \<and> (\<exists>t. threads s x = Some t)"
  unfolding live_list_def by (metis chain_alloc chain_notnull nlink_None not_Some_eq)

lemma live_list_unique: "live_list s xs \<Longrightarrow> live_list s ys \<Longrightarrow> xs = ys"
  unfolding live_list_def by (rule chain_unique)

lemma live_list_distinct: "live_list s xs \<Longrightarrow> distinct xs"
  unfolding live_list_def by (rule chain_distinct)

lemma live_list_upd [simp]:
  "live_list (kern_update f1 s) = live_list s" "live_list (errnos_update f2 s) = live_list s"
  "live_list (signals_blocked_update f3 s) = live_list s"
  "live_list (ptrs_update f4 s) = live_list s" "live_list (key_table_update f5 s) = live_list s"
  "live_list (arrays_update f6 s) = live_list s"
  by (simp_all add: live_list_def fun_eq_iff)

end
