(* ===== verification/Signals.thy ===== *)
theory Signals
  imports ThreadList Demo
begin

text \<open>
  Signals between threads: \<^verbatim>\<open>uthread_terminate\<close>, \<^verbatim>\<open>uthread_deliver_signal\<close> and
  \<^verbatim>\<open>_sys_deliver_pending_signals\<close> of \<^verbatim>\<open>uthread_init.c\<close>, and the calls of \<^verbatim>\<open>uthread_kill.c\<close>,
  \<^verbatim>\<open>uthread_sigmask.c\<close>, \<^verbatim>\<open>uthread_sigaction.c\<close>, \<^verbatim>\<open>uthread_signal.c\<close>,
  \<^verbatim>\<open>uthread_sigpending.c\<close>, \<^verbatim>\<open>uthread_sigsuspend.c\<close>, \<^verbatim>\<open>uthread_raise.c\<close>,
  \<^verbatim>\<open>uthread_pause.c\<close>, \<^verbatim>\<open>uthread_sleep.c\<close>, \<^verbatim>\<open>uthread_yield.c\<close>, \<^verbatim>\<open>uthread_read.c\<close> and
  \<^verbatim>\<open>uthread_write.c\<close>.

  A signal set is a word; \<open>sigmask E n\<close> is emx's \<^verbatim>\<open>_SIGMASK(n)\<close> and \<open>set_blocked E v\<close> the mask
  its macro \<^verbatim>\<open>SET_BLOCKED\<close> stores for \<open>v\<close>.  The messages \<^verbatim>\<open>uthread_terminate\<close> prints are left
  out.
\<close>

abbreviation upd_tp :: "addr \<Rightarrow> (thread_data \<Rightarrow> thread_data) \<Rightarrow> (unit, 'k world) prog" where
  "upd_tp p f \<equiv> upd_thread p (\<lambda>t. t\<lparr>tp := f (tp t)\<rparr>)"

section \<open>Terminating the process\<close>

definition terminate_mark :: "'k os \<Rightarrow> addr \<Rightarrow> (bool, 'k world) prog" where
  "terminate_mark E others =
     seqM (upd_thread others (\<lambda>t. t\<lparr>th_state := PS_RUNNING\<rparr>))
    (bindM (load threads others) (\<lambda>t.
     seqM (if threadid t \<noteq> 1
           then bindM (kcall (DosKillThread E (threadid t))) (\<lambda>rc.
                whenM (rc = 0) (upd_thread others (\<lambda>t. t\<lparr>th_state := PS_DEAD\<rparr>)))
           else retM ())
     (retM True)))"

definition release_awaited :: "'k os \<Rightarrow> pthread \<Rightarrow> (unit, 'k world) prog" where
  "release_awaited E t =
     (case th_data t of
        W_Mutex m \<Rightarrow>
          if m = NULL then retM ()
          else bindM (load ptrs m) (\<lambda>pm.
               if pm = NULL then retM ()
               else bindM (load mutexes pm) (\<lambda>mx.
                    seqM (kcall (DosReleaseMutexSem E (m_mutex mx))) (retM ())))
      | _ \<Rightarrow> faultM Bad_Union)"

definition post_abort :: "'k os \<Rightarrow> pthread \<Rightarrow> (unit, 'k world) prog" where
  "post_abort E t =
     (case th_data t of
        W_Abort ev \<Rightarrow> seqM (kcall (DosPostEventSem E ev)) (retM ())
      | _ \<Rightarrow> faultM Bad_Union)"

text \<open>One round of the loop body: \<open>True\<close> when the loop starts again at \<^verbatim>\<open>_thread_initial\<close>.\<close>

definition terminate_visit :: "'k os \<Rightarrow> addr \<Rightarrow> pthread \<Rightarrow> (bool, 'k world) prog" where
  "terminate_visit E others t =
     (case th_state t of
        PS_MUTEX_WAIT \<Rightarrow> seqM (release_awaited E t) (terminate_mark E others)
      | PS_FDLR_WAIT \<Rightarrow> seqM (upd_thread others (\<lambda>t. t\<lparr>pend := pend t + 1\<rparr>)) (terminate_mark E others)
      | PS_FDLW_WAIT \<Rightarrow> seqM (upd_thread others (\<lambda>t. t\<lparr>pend := pend t + 1\<rparr>)) (terminate_mark E others)
      | PS_FDR_WAIT \<Rightarrow> seqM (upd_thread others (\<lambda>t. t\<lparr>pend := pend t + 1\<rparr>)) (terminate_mark E others)
      | PS_FDW_WAIT \<Rightarrow> seqM (upd_thread others (\<lambda>t. t\<lparr>pend := pend t + 1\<rparr>)) (terminate_mark E others)
      | PS_SELECT_WAIT \<Rightarrow> seqM (post_abort E t) (terminate_mark E others)
      | PS_SLEEP_WAIT \<Rightarrow> seqM (post_abort E t) (terminate_mark E others)
      | PS_WAIT_WAIT \<Rightarrow> seqM (post_abort E t) (terminate_mark E others)
      | PS_SIGWAIT \<Rightarrow> seqM (post_abort E t) (terminate_mark E others)
      | PS_SUSPENDED \<Rightarrow>
          seqM (kcall (DosResumeThread E (threadid t))) (terminate_mark E others)
      | PS_SIGTHREAD \<Rightarrow>
          seqM (kcall (DosResumeThread E (threadid t))) (terminate_mark E others)
      | _ \<Rightarrow> retM False)"

partial_function (option) terminate_loop ::
  "'k os \<Rightarrow> addr \<Rightarrow> 'k world \<Rightarrow> (unit, 'k world) res option" where
  "terminate_loop E others s =
     (if others = NULL then retM () s
      else bindM (load threads others) (\<lambda>t.
           bindM (terminate_visit E others t) (\<lambda>again s.
           if again then terminate_loop E (thread_initial s) s
           else terminate_loop E (nxt t) s)) s)"

definition uthread_terminate :: "'k os \<Rightarrow> int \<Rightarrow> (unit, 'k world) prog" where
  "uthread_terminate E signo =
     bindM (pthread_self E) (\<lambda>self.
     seqM (kcall (DosSetPriority E))
    (seqM (upd_thread self (\<lambda>t. t\<lparr>th_state := PS_DEAD\<rparr>))
    (bindM (getM thread_initial) (\<lambda>others.
     seqM (terminate_loop E others) (stopM (Exit_Process 3))))))"

section \<open>Delivering signals\<close>

definition invoke :: "'k os \<Rightarrow> handler \<Rightarrow> int \<Rightarrow> (unit, 'k world) prog" where
  "invoke E h signo = (case h of Handler f \<Rightarrow> call_handler E f signo | _ \<Rightarrow> faultM Wild_Deref)"

text \<open>The branch of \<^verbatim>\<open>uthread_deliver_signal\<close> that runs a handler installed by the application.\<close>

definition run_handler :: "'k os \<Rightarrow> addr \<Rightarrow> int \<Rightarrow> sigact \<Rightarrow> u32 \<Rightarrow> (unit, 'k world) prog" where
  "run_handler E p signo sa old_blocked =
     (if sa_flags sa AND SA_SYSV \<noteq> 0
      then seqM (upd_tp p (\<lambda>d. d\<lparr>signals := (signals d)
                   (nat signo := (signals d (nat signo))\<lparr>sa_handler := SIG_DFL\<rparr>)\<rparr>))
                (invoke E (sa_handler sa) signo)
      else if sa_flags sa AND SA_ACK \<noteq> 0
      then seqM (upd_tp p (\<lambda>d. d\<lparr>sig_blocked := sig_blocked d OR sigmask E signo\<rparr>))
                (invoke E (sa_handler sa) signo)
      else seqM (upd_tp p (\<lambda>d. d\<lparr>sig_blocked :=
                   set_blocked E (sig_blocked d OR sigmask E signo OR sa_mask sa)\<rparr>))
          (seqM (invoke E (sa_handler sa) signo)
                (upd_tp p (\<lambda>d. d\<lparr>sig_blocked := old_blocked\<rparr>))))"

definition uthread_deliver_signal :: "'k os \<Rightarrow> addr \<Rightarrow> int \<Rightarrow> (int, 'k world) prog" where
  "uthread_deliver_signal E p signo =
     (if signo < 0 \<or> signo \<ge> int NSIG then retM (-1)
      else
        seqM (upd_tp p (\<lambda>d. d\<lparr>sig_pending := sig_pending d AND NOT (sigmask E signo)\<rparr>))
       (bindM (load threads p) (\<lambda>t.
        let sa = signals (tp t) (nat signo); handler = sa_handler sa in
        seqM (if handler = SIG_IGN then retM ()
              else if handler = SIG_DFL
              then whenM (dfl_action (sig_info signo) \<noteq> ST_IGNORE) (uthread_terminate E signo)
              else if handler = SIG_ERR then retM ()
              else run_handler E p signo sa (sig_blocked (tp t)))
       (seqM (whenM (fun_action (sig_info signo) = ST_TERM) (uthread_terminate E signo))
        (retM 0)))))"

partial_function (option) deliver_loop ::
  "'k os \<Rightarrow> addr \<Rightarrow> int \<Rightarrow> 'k world \<Rightarrow> (unit, 'k world) res option" where
  "deliver_loop E p signo s =
     bindM (load threads p) (\<lambda>t s.
       if sig_pending (tp t) AND NOT (sig_blocked (tp t)) \<noteq> 0 \<and> signo < int NSIG
       then if sig_pending (tp t) AND NOT (sig_blocked (tp t)) AND sigmask E signo \<noteq> 0
            then bindM (uthread_deliver_signal E p signo) (\<lambda>_ s. deliver_loop E p 1 s) s
            else deliver_loop E p (signo + 1) s
       else retM () s) s"

definition sys_deliver_pending_signals :: "'k os \<Rightarrow> addr \<Rightarrow> (unit, 'k world) prog" where
  "sys_deliver_pending_signals E p = deliver_loop E p 1"

text \<open>
  \<^verbatim>\<open>if (t->sig_pending && !_signals_blocked) { t->sig_pending = 0; ... }\<close>, at the end of most
  calls; and the variants that do not test the count.
\<close>

definition deliver_now :: "'k os \<Rightarrow> addr \<Rightarrow> (unit, 'k world) prog" where
  "deliver_now E p =
     seqM (upd_thread p (\<lambda>t. t\<lparr>pend := 0\<rparr>)) (sys_deliver_pending_signals E p)"

definition deliver_if_pending :: "'k os \<Rightarrow> addr \<Rightarrow> (unit, 'k world) prog" where
  "deliver_if_pending E p =
     bindM (load threads p) (\<lambda>t.
     bindM (getM signals_blocked) (\<lambda>b.
     if pend t \<noteq> 0 \<and> b = 0 then deliver_now E p else retM ()))"

declare terminate_loop.simps [code] deliver_loop.simps [code]

end
