(* ===== verification/SigCalls.thy ===== *)
theory SigCalls
  imports Signals
begin

text \<open>
  The signal calls of the library: \<^verbatim>\<open>uthread_kill.c\<close>, \<^verbatim>\<open>uthread_sigmask.c\<close>,
  \<^verbatim>\<open>uthread_sigaction.c\<close>, \<^verbatim>\<open>uthread_signal.c\<close>, \<^verbatim>\<open>uthread_sigpending.c\<close>,
  \<^verbatim>\<open>uthread_sigsuspend.c\<close>, \<^verbatim>\<open>uthread_raise.c\<close>, \<^verbatim>\<open>uthread_pause.c\<close>; and the calls a signal
  interrupts: \<^verbatim>\<open>uthread_sleep.c\<close>, \<^verbatim>\<open>uthread_yield.c\<close>, \<^verbatim>\<open>uthread_read.c\<close>,
  \<^verbatim>\<open>uthread_write.c\<close>.
\<close>

abbreviation SIG_BLOCK :: int where "SIG_BLOCK \<equiv> 1"
abbreviation SIG_UNBLOCK :: int where "SIG_UNBLOCK \<equiv> 2"
abbreviation SIG_SETMASK :: int where "SIG_SETMASK \<equiv> 3"

section \<open>Sending a signal\<close>

definition thread_so_cancel :: "int \<Rightarrow> int" where
  "thread_so_cancel sock = EOPNOTSUPP"

text \<open>\<^verbatim>\<open>uthread_so_cancel\<close> is the library's own function until \<^verbatim>\<open>SO32DLL\<close> is loaded.\<close>

definition uthread_so_cancel :: "'k os \<Rightarrow> int \<Rightarrow> (int, 'k world) prog" where
  "uthread_so_cancel E fd =
     bindM (getM so_cancel) (\<lambda>f.
     if f = NULL then retM (thread_so_cancel fd) else kcall (call_so_cancel E f fd))"

definition awaited_fd :: "pthread \<Rightarrow> (int, 'k world) prog" where
  "awaited_fd t = (case th_data t of W_Fd fd br fn \<Rightarrow> retM fd | _ \<Rightarrow> faultM Bad_Union)"

definition add_pending :: "'k os \<Rightarrow> addr \<Rightarrow> int \<Rightarrow> (unit, 'k world) prog" where
  "add_pending E p signo =
     upd_tp p (\<lambda>d. d\<lparr>sig_pending := sig_pending d OR sigmask E signo\<rparr>)"

definition count_pending :: "addr \<Rightarrow> (unit, 'k world) prog" where
  "count_pending p = upd_thread p (\<lambda>t. t\<lparr>pend := pend t + 1\<rparr>)"

definition kill_deliver :: "'k os \<Rightarrow> addr \<Rightarrow> int \<Rightarrow> (unit, 'k world) prog" where
  "kill_deliver E p signo =
     bindM (load threads p) (\<lambda>t.
     case th_state t of
       PS_FDR_WAIT \<Rightarrow>
         seqM (add_pending E p signo)
        (bindM (awaited_fd t) (\<lambda>fd.
         bindM (uthread_so_cancel E fd) (\<lambda>r. whenM (r \<noteq> 0) (count_pending p))))
     | PS_FDW_WAIT \<Rightarrow>
         seqM (add_pending E p signo)
        (bindM (awaited_fd t) (\<lambda>fd.
         bindM (uthread_so_cancel E fd) (\<lambda>r. whenM (r \<noteq> 0) (count_pending p))))
     | PS_SELECT_WAIT \<Rightarrow>
         seqM (add_pending E p signo) (seqM (count_pending p) (post_abort E t))
     | PS_SLEEP_WAIT \<Rightarrow> seqM (add_pending E p signo) (post_abort E t)
     | PS_SIGWAIT \<Rightarrow> seqM (add_pending E p signo) (post_abort E t)
     | PS_RUNNING \<Rightarrow>
         if threadid t = 1 then libc_kill E signo
         else seqM (add_pending E p signo) (count_pending p)
     | _ \<Rightarrow> seqM (add_pending E p signo) (count_pending p))"

definition pthread_kill :: "'k os \<Rightarrow> addr \<Rightarrow> int \<Rightarrow> (int, 'k world) prog" where
  "pthread_kill E pthread signo =
     bindM (pthread_self E) (\<lambda>self.
     bindM (if signo < 0 \<or> signo \<ge> int NSIG then retM EINVAL
            else
              seqM (thread_kern_sig_block E)
             (bindM (getM thread_link_list) (\<lambda>first.
              bindM (find_thread first pthread) (\<lambda>p_pthread.
              bindM (if p_pthread = NULL then retM ESRCH
                     else bindM (load threads p_pthread) (\<lambda>t.
                          seqM (whenM (signo > 0 \<and> signo < int NSIG \<and> sys_sig_valid signo \<and>
                                  sa_handler (signals (tp t) (nat signo)) \<noteq> SIG_IGN)
                                 (kill_deliver E p_pthread signo))
                               (retM 0)))
               (\<lambda>rval. seqM (thread_kern_sig_unblock E) (retM rval))))))
      (\<lambda>rval. seqM (deliver_if_pending E self) (retM rval)))"

section \<open>Masks and actions\<close>

definition pthread_sigmask :: "'k os \<Rightarrow> int \<Rightarrow> addr \<Rightarrow> addr \<Rightarrow> (int, 'k world) prog" where
  "pthread_sigmask E how iset oset =
     bindM (pthread_self E) (\<lambda>self.
     bindM (load threads self) (\<lambda>t.
     let output = sig_blocked (tp t);
         rest = seqM (if oset \<noteq> NULL then alter sigsets sigsets_update oset (\<lambda>_. output) else retM ())
               (seqM (kcall (libc_sigprocmask E how iset))
               (bindM (getM signals_blocked) (\<lambda>b.
                seqM (whenM (b = 0) (deliver_now E self)) (retM 0))))
     in if iset \<noteq> NULL
        then if how = SIG_BLOCK
             then bindM (load sigsets iset) (\<lambda>v.
                  seqM (upd_tp self (\<lambda>d. d\<lparr>sig_blocked := set_blocked E (output OR v)\<rparr>)) rest)
             else if how = SIG_UNBLOCK
             then bindM (load sigsets iset) (\<lambda>v.
                  seqM (upd_tp self (\<lambda>d. d\<lparr>sig_blocked := set_blocked E (output AND NOT v)\<rparr>)) rest)
             else if how = SIG_SETMASK
             then bindM (load sigsets iset) (\<lambda>v.
                  seqM (upd_tp self (\<lambda>d. d\<lparr>sig_blocked := set_blocked E v\<rparr>)) rest)
             else seqM (set_errno EINVAL) (retM (-1))
        else rest))"

text \<open>
  \<open>sigaction_with\<close> is \<^verbatim>\<open>pthread_sigaction\<close> with its reads through \<^verbatim>\<open>iact\<close> and its writes through
  \<^verbatim>\<open>oact\<close> as parameters, since \<^verbatim>\<open>pthread_signal\<close> passes the addresses of local variables.
\<close>

definition sigaction_with ::
  "'k os \<Rightarrow> int \<Rightarrow> (sigact option, 'k world) prog \<Rightarrow> (sigact \<Rightarrow> (unit, 'k world) prog) \<Rightarrow>
   (int \<times> sigact option, 'k world) prog" where
  "sigaction_with E signo read_iact write_oact =
     bindM (pthread_self E) (\<lambda>self.
     if signo < 1 \<or> signo \<ge> int NSIG \<or> signo = SIGKILL \<or> \<not> sys_sig_valid signo
     then seqM (set_errno EINVAL) (retM (-1, None))
     else bindM (load threads self) (\<lambda>t.
          let output = signals (tp t) (nat signo) in
          bindM read_iact (\<lambda>iact.
          seqM (case iact of
                  None \<Rightarrow> retM ()
                | Some a \<Rightarrow>
                    seqM (upd_tp self (\<lambda>d. d\<lparr>signals := (signals d)(nat signo := a)\<rparr>))
                         (whenM ((sa_handler a = SIG_DFL \<and> dfl_action (sig_info signo) \<noteq> ST_IGNORE)
                                  \<or> sa_handler a = SIG_IGN)
                           (upd_tp self (\<lambda>d. d\<lparr>sig_pending :=
                              sig_pending d AND NOT (sigmask E signo)\<rparr>))))
         (seqM (write_oact output)
               (retM (0, Some output))))))"

definition pthread_sigaction :: "'k os \<Rightarrow> int \<Rightarrow> addr \<Rightarrow> addr \<Rightarrow> (int, 'k world) prog" where
  "pthread_sigaction E signo iact oact =
     bindM (sigaction_with E signo
              (if iact = NULL then retM None
               else bindM (load sigacts iact) (\<lambda>a. retM (Some a)))
              (\<lambda>output. if oact \<noteq> NULL then alter sigacts sigacts_update oact (\<lambda>_. output) else retM ()))
      (\<lambda>(r, old). retM r)"

definition pthread_signal :: "'k os \<Rightarrow> int \<Rightarrow> handler \<Rightarrow> (handler, 'k world) prog" where
  "pthread_signal E sig handler =
     bindM (pthread_self E) (\<lambda>self.
     if handler = SIG_ACK
     then if sig < 1 \<or> sig \<ge> int NSIG \<or> sig = SIGKILL \<or> \<not> sys_sig_valid sig
          then seqM (set_errno EINVAL) (retM SIG_ERR)
          else seqM (upd_tp self (\<lambda>d. d\<lparr>sig_blocked := sig_blocked d AND NOT (sigmask E sig)\<rparr>))
              (bindM (getM signals_blocked) (\<lambda>b.
               seqM (if b \<noteq> 0 then count_pending self else deliver_now E self)
              (bindM (load threads self) (\<lambda>t. retM (sa_handler (signals (tp t) (nat sig)))))))
     else seqM (kcall (libc_signal E sig Emx_Sighandler))
         (bindM (sigaction_with E sig
                   (retM (Some \<lparr>sa_handler = handler, sa_mask = 0, sa_flags = SA_ACK\<rparr>))
                   (\<lambda>_. retM ()))
           (\<lambda>(r, old). case old of
                         Some osa \<Rightarrow> if r \<noteq> 0 then retM SIG_ERR else retM (sa_handler osa)
                       | None \<Rightarrow> retM SIG_ERR)))"

definition pthread_sigpending :: "'k os \<Rightarrow> addr \<Rightarrow> (int, 'k world) prog" where
  "pthread_sigpending E setp =
     bindM (pthread_self E) (\<lambda>self.
     bindM (load threads self) (\<lambda>t.
     seqM (alter sigsets sigsets_update setp (\<lambda>_. sig_blocked (tp t) AND sig_pending (tp t)))
      (retM 0)))"

text \<open>The handler emx calls when the OS raises a signal in this thread.\<close>

definition uthread_emx_sighandler :: "'k os \<Rightarrow> int \<Rightarrow> (unit, 'k world) prog" where
  "uthread_emx_sighandler E signo =
     bindM (pthread_self E) (\<lambda>self.
     seqM (add_pending E self signo)
    (bindM (load threads self) (\<lambda>t.
     seqM (case th_state t of
             PS_FDR_WAIT \<Rightarrow> bindM (awaited_fd t) (\<lambda>fd. seqM (uthread_so_cancel E fd) (retM ()))
           | PS_FDW_WAIT \<Rightarrow> bindM (awaited_fd t) (\<lambda>fd. seqM (uthread_so_cancel E fd) (retM ()))
           | PS_SELECT_WAIT \<Rightarrow> post_abort E t
           | PS_SLEEP_WAIT \<Rightarrow> post_abort E t
           | PS_SIGWAIT \<Rightarrow> post_abort E t
           | _ \<Rightarrow> retM ())
    (bindM (getM signals_blocked) (\<lambda>b.
     seqM (if b \<noteq> 0 then count_pending self
           else seqM (uthread_deliver_signal E self signo) (retM ()))
          (seqM (kcall (libc_signal E signo Emx_Ack)) (retM ())))))))"

definition pthread_raise :: "'k os \<Rightarrow> int \<Rightarrow> (int, 'k world) prog" where
  "pthread_raise E signo =
     bindM (pthread_self E) (\<lambda>self.
     if signo < 1 \<or> signo \<ge> int NSIG \<or> \<not> sys_sig_valid signo
     then seqM (set_errno EINVAL) (retM (-1))
     else bindM (load threads self) (\<lambda>t.
          seqM (if sa_handler (signals (tp t) (nat signo)) \<noteq> SIG_IGN
                then seqM (add_pending E self signo)
                    (bindM (getM signals_blocked) (\<lambda>b.
                     if b \<noteq> 0 then count_pending self else deliver_now E self))
                else retM ())
               (retM 0)))"

section \<open>Waiting for a signal\<close>

definition begin_wait :: "addr \<Rightarrow> wait_data \<Rightarrow> pthread_state \<Rightarrow> (unit, 'k world) prog" where
  "begin_wait p w st =
     seqM (upd_thread p (\<lambda>t. t\<lparr>th_data := w\<rparr>)) (upd_thread p (\<lambda>t. t\<lparr>th_state := st\<rparr>))"

definition end_wait :: "addr \<Rightarrow> (unit, 'k world) prog" where
  "end_wait p = upd_thread p (\<lambda>t. t\<lparr>th_state := PS_RUNNING\<rparr>)"

definition pthread_pause :: "'k os \<Rightarrow> (int, 'k world) prog" where
  "pthread_pause E =
     bindM (pthread_self E) (\<lambda>thread_ptr.
     bindM (kcall (DosCreateEventSem E 0)) (\<lambda>(rc, ev).
     seqM (begin_wait thread_ptr (W_Abort ev) PS_SIGWAIT)
    (seqM (DosWaitEventSem E ev SEM_INDEFINITE_WAIT)
    (seqM (end_wait thread_ptr)
    (seqM (deliver_now E thread_ptr)
    (seqM (set_errno EINTR)
    (seqM (kcall (DosCloseEventSem E ev)) (retM EINTR))))))))"

definition pthread_sigsuspend :: "'k os \<Rightarrow> addr \<Rightarrow> (int, 'k world) prog" where
  "pthread_sigsuspend E maskp =
     bindM (pthread_self E) (\<lambda>self.
     bindM (load threads self) (\<lambda>t.
     let old_blocked = sig_blocked (tp t) in
     bindM (load sigsets maskp) (\<lambda>v.
     seqM (upd_tp self (\<lambda>d. d\<lparr>sig_blocked := set_blocked E v\<rparr>))
    (seqM (pthread_pause E)
    (seqM (upd_tp self (\<lambda>d. d\<lparr>sig_blocked := old_blocked\<rparr>))
    (seqM (set_errno EINTR) (retM (-1))))))))"

text \<open>
  \<^verbatim>\<open>pthread_sleep\<close> and \<^verbatim>\<open>pthread_sleep2\<close> differ in the unit of the argument and in the call
  that replaces them when no event semaphore can be created.
\<close>

definition sleep_until :: "'k os \<Rightarrow> u32 \<Rightarrow> (u32, 'k world) prog \<Rightarrow> (u32, 'k world) prog" where
  "sleep_until E ms fallback =
     bindM (pthread_self E) (\<lambda>thread_ptr.
     bindM (kcall (DosCreateEventSem E 0)) (\<lambda>(rc, ev).
     if rc \<noteq> 0 then fallback
     else seqM (begin_wait thread_ptr (W_Abort ev) PS_SLEEP_WAIT)
         (bindM (DosWaitEventSem E ev ms) (\<lambda>rc.
          seqM (end_wait thread_ptr)
         (bindM (if rc \<noteq> 0 then retM 0
                 else seqM (deliver_now E thread_ptr)
                     (seqM (set_errno EINTR) (retM (word_of_int EINTR))))
           (\<lambda>result. seqM (kcall (DosCloseEventSem E ev)) (retM result)))))))"

definition pthread_sleep :: "'k os \<Rightarrow> u32 \<Rightarrow> (u32, 'k world) prog" where
  "pthread_sleep E sec = sleep_until E (sec * 1000) (libc_sleep E sec)"

definition pthread_sleep2 :: "'k os \<Rightarrow> u32 \<Rightarrow> (u32, 'k world) prog" where
  "pthread_sleep2 E millisec =
     sleep_until E millisec (bindM (DosSleep E millisec) (\<lambda>rc. retM (word_of_int rc)))"

definition pthread_yield :: "'k os \<Rightarrow> (unit, 'k world) prog" where
  "pthread_yield E =
     bindM (pthread_self E) (\<lambda>thread_ptr.
     seqM (DosSleep E 1) (deliver_if_pending E thread_ptr))"

text \<open>\<^verbatim>\<open>pthread_read\<close> and \<^verbatim>\<open>pthread_write\<close> compare the result of the call with \<^verbatim>\<open>EINTR\<close>.\<close>

definition pthread_read :: "'k os \<Rightarrow> int \<Rightarrow> addr \<Rightarrow> u32 \<Rightarrow> (int, 'k world) prog" where
  "pthread_read E fd buf len =
     bindM (pthread_self E) (\<lambda>thread_ptr.
     seqM (begin_wait thread_ptr (W_Fd fd 22 ''uthread_read.c'') PS_FDR_WAIT)
    (bindM (libc_read E fd buf len) (\<lambda>rc.
     seqM (end_wait thread_ptr)
    (seqM (whenM (rc = EINTR) (deliver_now E thread_ptr)) (retM rc)))))"

definition pthread_write :: "'k os \<Rightarrow> int \<Rightarrow> addr \<Rightarrow> u32 \<Rightarrow> (int, 'k world) prog" where
  "pthread_write E fd buf len =
     bindM (pthread_self E) (\<lambda>thread_ptr.
     seqM (begin_wait thread_ptr (W_Fd fd 22 ''uthread_write.c'') PS_FDW_WAIT)
    (bindM (libc_write E fd buf len) (\<lambda>rc.
     seqM (end_wait thread_ptr)
    (seqM (whenM (rc = EINTR) (deliver_now E thread_ptr)) (retM rc)))))"

end
