(* ===== verification/Queue.thy ===== *)
theory Queue
  imports Demo
begin

text \<open>
  \<^verbatim>\<open>uthread_queue.c\<close>: queues of threads, linked through the \<^verbatim>\<open>qnxt\<close> member of the thread
  structures, with pointers to the first and the last thread.  The operations refine those
  of a list: \<open>queue_rep s q xs\<close> says that the queue at \<open>q\<close> holds the threads \<open>xs\<close>.
\<close>

section \<open>The operations\<close>

definition thread_queue_init :: "addr \<Rightarrow> (unit, 'k world) prog" where
  "thread_queue_init queue =
     seqM (upd_queue queue (\<lambda>v. v\<lparr>q_next := NULL\<rparr>))
    (seqM (upd_queue queue (\<lambda>v. v\<lparr>q_last := NULL\<rparr>))
          (upd_queue queue (\<lambda>v. v\<lparr>q_data := NULL\<rparr>)))"

definition thread_queue_enq :: "'k os \<Rightarrow> addr \<Rightarrow> addr \<Rightarrow> (unit, 'k world) prog" where
  "thread_queue_enq E queue thread =
     seqM (thread_kern_enter_crit_sec E)
    (bindM (load queues queue) (\<lambda>qv.
     seqM (if q_last qv \<noteq> NULL
           then upd_thread (q_last qv) (\<lambda>t. t\<lparr>qnxt := thread\<rparr>)
           else upd_queue queue (\<lambda>v. v\<lparr>q_next := thread\<rparr>))
    (seqM (upd_queue queue (\<lambda>v. v\<lparr>q_last := thread\<rparr>))
    (seqM (upd_thread thread (\<lambda>t. t\<lparr>th_queue := queue\<rparr>))
    (seqM (upd_thread thread (\<lambda>t. t\<lparr>qnxt := NULL\<rparr>))
    (seqM (thread_kern_leave_crit_sec E) (retM ())))))))"

definition thread_queue_get :: "addr \<Rightarrow> (addr, 'k world) prog" where
  "thread_queue_get queue = bindM (load queues queue) (\<lambda>qv. retM (q_next qv))"

definition thread_queue_deq :: "'k os \<Rightarrow> addr \<Rightarrow> (addr, 'k world) prog" where
  "thread_queue_deq E queue =
     seqM (thread_kern_enter_crit_sec E)
    (bindM (load queues queue) (\<lambda>qv.
     let thread = q_next qv in
     seqM (if thread \<noteq> NULL
           then bindM (load threads thread) (\<lambda>t.
                seqM (upd_queue queue (\<lambda>v. v\<lparr>q_next := qnxt t\<rparr>))
               (seqM (whenM (qnxt t = NULL) (upd_queue queue (\<lambda>v. v\<lparr>q_last := NULL\<rparr>)))
               (seqM (upd_thread thread (\<lambda>t. t\<lparr>th_queue := NULL\<rparr>))
                     (upd_thread thread (\<lambda>t. t\<lparr>qnxt := NULL\<rparr>)))))
           else retM ())
    (seqM (thread_kern_leave_crit_sec E) (retM thread))))"

text \<open>
  \<^verbatim>\<open>_thread_queue_remove\<close> walks with \<^verbatim>\<open>current\<close>, the address of a link: the \<^verbatim>\<open>q_next\<close> member
  of the queue at first (\<^verbatim>\<open>prev\<close> is \<^verbatim>\<open>NULL\<close>), then the \<^verbatim>\<open>qnxt\<close> member of \<^verbatim>\<open>prev\<close>.
\<close>

definition read_link :: "addr \<Rightarrow> addr \<Rightarrow> (addr, 'k world) prog" where
  "read_link queue prev =
     (if prev = NULL then bindM (load queues queue) (\<lambda>qv. retM (q_next qv))
      else bindM (load threads prev) (\<lambda>t. retM (qnxt t)))"

definition write_link :: "addr \<Rightarrow> addr \<Rightarrow> addr \<Rightarrow> (unit, 'k world) prog" where
  "write_link queue prev v =
     (if prev = NULL then upd_queue queue (\<lambda>qv. qv\<lparr>q_next := v\<rparr>)
      else upd_thread prev (\<lambda>t. t\<lparr>qnxt := v\<rparr>))"

partial_function (option) queue_remove_loop ::
  "addr \<Rightarrow> addr \<Rightarrow> addr \<Rightarrow> 'k world \<Rightarrow> (int, 'k world) res option" where
  "queue_remove_loop queue thread prev s =
     bindM (read_link queue prev) (\<lambda>c s.
       if c = NULL then retM (-1) s
       else if c = thread then
         bindM (load threads c) (\<lambda>t.
           if qnxt t \<noteq> NULL
           then seqM (write_link queue prev (qnxt t)) (retM 0)
           else seqM (upd_queue queue (\<lambda>v. v\<lparr>q_last := prev\<rparr>))
               (seqM (write_link queue prev NULL) (retM 0))) s
       else queue_remove_loop queue thread c s) s"

definition thread_queue_remove :: "'k os \<Rightarrow> addr \<Rightarrow> addr \<Rightarrow> (int, 'k world) prog" where
  "thread_queue_remove E queue thread =
     seqM (thread_kern_enter_crit_sec E)
    (bindM (queue_remove_loop queue thread NULL) (\<lambda>ret.
     seqM (upd_thread thread (\<lambda>t. t\<lparr>th_queue := NULL\<rparr>))
    (seqM (upd_thread thread (\<lambda>t. t\<lparr>qnxt := NULL\<rparr>))
    (seqM (thread_kern_leave_crit_sec E) (retM ret)))))"

text \<open>\<^verbatim>\<open>pthread_llist_remove\<close> starts from a pointer variable instead of a queue.\<close>

definition read_llink :: "addr \<Rightarrow> addr \<Rightarrow> (addr, 'k world) prog" where
  "read_llink llist prev =
     (if prev = NULL then load ptrs llist
      else bindM (load threads prev) (\<lambda>t. retM (qnxt t)))"

partial_function (option) llist_remove_loop ::
  "addr \<Rightarrow> addr \<Rightarrow> addr \<Rightarrow> 'k world \<Rightarrow> (int, 'k world) res option" where
  "llist_remove_loop llist thread prev s =
     bindM (read_llink llist prev) (\<lambda>c s.
       if c = NULL then retM (-1) s
       else if c = thread then
         bindM (load threads thread) (\<lambda>t.
           seqM (if prev = NULL then store_ptr llist (qnxt t)
                 else upd_thread prev (\<lambda>u. u\<lparr>qnxt := qnxt t\<rparr>))
                (retM 0)) s
       else llist_remove_loop llist thread c s) s"

definition pthread_llist_remove :: "'k os \<Rightarrow> addr \<Rightarrow> addr \<Rightarrow> (int, 'k world) prog" where
  "pthread_llist_remove E llist thread =
     seqM (PTHREAD_INIT E)
    (seqM (thread_kern_enter_crit_sec E)
    (bindM (llist_remove_loop llist thread NULL) (\<lambda>ret.
     seqM (thread_kern_leave_crit_sec E) (retM ret))))"

section \<open>Abstraction to lists\<close>

definition qlink :: "(addr \<Rightarrow> pthread option) \<Rightarrow> addr \<Rightarrow> addr option" where
  "qlink h p = map_option qnxt (h p)"

definition queue_rep :: "'k world \<Rightarrow> addr \<Rightarrow> addr list \<Rightarrow> bool" where
  "queue_rep s q xs \<longleftrightarrow> q \<noteq> NULL \<and>
     (case queues s q of
        None \<Rightarrow> False
      | Some qv \<Rightarrow> chain (qlink (threads s)) (q_next qv) xs \<and>
                  q_last qv = (if xs = [] then NULL else last xs))"

lemma qlink_upd [simp]: "qlink (h(p := Some v)) = (qlink h)(p := Some (qnxt v))"
  by (rule ext) (simp add: qlink_def)

lemma qlink_Some: "qlink h p = Some n \<longleftrightarrow> (\<exists>t. h p = Some t \<and> qnxt t = n)"
  by (auto simp: qlink_def)

lemma qlink_None: "qlink h p = None \<longleftrightarrow> h p = None"
  by (simp add: qlink_def)

lemma queue_repE:
  assumes "queue_rep s q xs"
  obtains qv where "q \<noteq> NULL" "queues s q = Some qv" "chain (qlink (threads s)) (q_next qv) xs"
    "q_last qv = (if xs = [] then NULL else last xs)"
  using assms by (auto simp: queue_rep_def split: option.splits)

lemma queue_rep_unique: "queue_rep s q xs \<Longrightarrow> queue_rep s q ys \<Longrightarrow> xs = ys"
  by (auto elim!: queue_repE dest: chain_unique)

lemma queue_rep_distinct: "queue_rep s q xs \<Longrightarrow> distinct xs"
  by (auto elim!: queue_repE dest: chain_distinct)

lemma queue_rep_alloc: "queue_rep s q xs \<Longrightarrow> x \<in> set xs \<Longrightarrow> threads s x \<noteq> None \<and> x \<noteq> NULL"
  by (erule queue_repE) (metis chain_alloc chain_notnull qlink_None)

lemma queue_init_rep:
  assumes "q \<noteq> NULL" and "queues s q = Some qv"
  shows "\<exists>s'. thread_queue_init q s = Some (Ret () s') \<and> queue_rep s' q []"
  using assms by (simp add: thread_queue_init_def queue_rep_def)

lemma queue_enq_rep:
  assumes q: "queue_rep s q xs" and x: "x \<noteq> NULL" "threads s x = Some t" and fresh: "x \<notin> set xs"
  shows "\<exists>s'. thread_queue_enq E q x s = Some (Ret () s') \<and> queue_rep s' q (xs @ [x]) \<and>
           dom (threads s') = dom (threads s)"
proof -
  from q obtain qv where qv: "q \<noteq> NULL" "queues s q = Some qv" "chain (qlink (threads s)) (q_next qv) xs"
    "q_last qv = (if xs = [] then NULL else last xs)"
    by (rule queue_repE)
  show ?thesis
  proof (cases xs rule: rev_cases)
    case Nil
    with qv x show ?thesis
      by (auto simp: thread_queue_enq_def queue_rep_def run_simps)
  next
    case (snoc ys y)
    then have y: "y \<noteq> NULL" "threads s y \<noteq> None" "x \<noteq> y"
      using queue_rep_alloc [OF q, of y] fresh by auto
    then obtain u where u: "threads s y = Some u" by auto
    have "chain ((qlink (threads s))(y := Some x, x := Some NULL)) (q_next qv) ((ys @ [y]) @ [x])"
      using qv(3) x(1) fresh unfolding snoc by (rule seg_chain_snoc)
    with qv x y u snoc show ?thesis
      by (auto simp: thread_queue_enq_def queue_rep_def run_simps)
  qed
qed

lemma queue_deq_Nil:
  assumes "queue_rep s q []"
  shows "\<exists>s'. thread_queue_deq E q s = Some (Ret NULL s') \<and> queue_rep s' q []"
  using assms
  by (elim queue_repE) (simp add: thread_queue_deq_def queue_rep_def run_simps Let_def)

lemma queue_deq_Cons:
  assumes q: "queue_rep s q (x # xs)"
  shows "\<exists>s'. thread_queue_deq E q s = Some (Ret x s') \<and> queue_rep s' q xs \<and>
           dom (threads s') = dom (threads s)"
proof -
  from q obtain qv where qv: "q \<noteq> NULL" "queues s q = Some qv"
    "chain (qlink (threads s)) (q_next qv) (x # xs)" "q_last qv = last (x # xs)"
    by (auto elim: queue_repE)
  from qv(3) obtain n where n: "x \<noteq> NULL" "qlink (threads s) x = Some n" "chain (qlink (threads s)) n xs" "q_next qv = x"
    by auto
  then obtain t where t: "threads s x = Some t" "qnxt t = n" by (auto simp: qlink_Some)
  have d: "x \<notin> set xs" using chain_distinct [OF qv(3)] by simp
  have e: "(n = NULL) = (xs = [])" using n(3) by (cases xs) auto
  show ?thesis
  proof (cases "xs = []")
    case True
    with qv n t e show ?thesis
      by (auto simp: thread_queue_deq_def queue_rep_def run_simps Let_def)
  next
    case False
    with qv n t e d show ?thesis
      by (auto simp: thread_queue_deq_def queue_rep_def run_simps Let_def)
  qed
qed

section \<open>Removal from the middle\<close>

declare queue_remove_loop.simps [code] llist_remove_loop.simps [code]

lemma read_link_step:
  assumes "read_link q prev s = Some (Ret c s)"
  shows "queue_remove_loop q x prev s =
     (if c = NULL then retM (-1) s
      else if c = x then
         bindM (load threads c) (\<lambda>t.
           if qnxt t \<noteq> NULL
           then seqM (write_link q prev (qnxt t)) (retM 0)
           else seqM (upd_queue q (\<lambda>v. v\<lparr>q_last := prev\<rparr>))
               (seqM (write_link q prev NULL) (retM 0))) s
       else queue_remove_loop q x c s)"
proof -
  have "bindM (read_link q prev) f s = f c s" for f :: "addr \<Rightarrow> (int, 'a world) prog"
    using assms by (rule bindM_run)
  then show ?thesis by (subst queue_remove_loop.simps) simp
qed

lemma read_link_next:
  "c \<noteq> NULL \<Longrightarrow> qlink (threads s) c = Some n \<Longrightarrow> read_link q c s = Some (Ret n s)"
  by (auto simp: read_link_def qlink_Some)

lemma queue_remove_walk:
  assumes "read_link q prev s = Some (Ret c s)" and "seg (qlink (threads s)) c as d"
    and "x \<notin> set as"
  shows "queue_remove_loop q x prev s = queue_remove_loop q x (last (prev # as)) s \<and>
         read_link q (last (prev # as)) s = Some (Ret d s)"
  using assms
proof (induction "as" arbitrary: prev c)
  case Nil
  then show ?case by simp
next
  case (Cons a "as")
  then obtain n where a: "c = a" "a \<noteq> NULL" "qlink (threads s) a = Some n"
    "seg (qlink (threads s)) n as d"
    by (auto split: option.splits)
  have "read_link q a s = Some (Ret n s)"
    using a(2,3) by (rule read_link_next)
  with Cons a show ?case
    by (auto simp: read_link_step [OF Cons.prems(1)])
qed

lemma queue_remove_absent:
  assumes "read_link q prev s = Some (Ret c s)" and "chain (qlink (threads s)) c xs"
    and "x \<notin> set xs"
  shows "queue_remove_loop q x prev s = Some (Ret (-1) s)"
proof -
  have w: "queue_remove_loop q x prev s = queue_remove_loop q x (last (prev # xs)) s"
    and r: "read_link q (last (prev # xs)) s = Some (Ret NULL s)"
    using queue_remove_walk [OF assms(1) assms(2)[unfolded chain_def] assms(3)] by blast+
  note w
  also have "queue_remove_loop q x (last (prev # xs)) s = Some (Ret (-1) s)"
    by (subst read_link_step [OF r]) (simp add: retM_def)
  finally show ?thesis .
qed

lemma queue_remove_absent_rep:
  assumes q: "queue_rep s q xs" and x: "x \<noteq> NULL" "threads s x = Some t" "x \<notin> set xs"
  shows "\<exists>k. thread_queue_remove E q x s =
           Some (Ret (-1) (s\<lparr>kern := k, threads := (threads s)(x := Some (t\<lparr>th_queue := NULL, qnxt := NULL\<rparr>))\<rparr>))"
proof -
  let ?s = "s\<lparr>kern := kst (DosEnterCritSec E) s\<rparr>"
  from q obtain qv where qv: "q \<noteq> NULL" "queues s q = Some qv"
    "chain (qlink (threads s)) (q_next qv) xs"
    by (auto elim: queue_repE)
  then have "read_link q NULL ?s = Some (Ret (q_next qv) ?s)"
    by (simp add: read_link_def)
  then have "queue_remove_loop q x NULL ?s = Some (Ret (-1) ?s)"
    by (rule queue_remove_absent) (use qv(3) x(3) in simp_all)
  then have "bindM (queue_remove_loop q x NULL) f ?s = f (-1) ?s" for f :: "int \<Rightarrow> (int, 'a world) prog"
    by (rule bindM_run)
  with x(1,2) have "thread_queue_remove E q x s = Some (Ret (-1)
      (s\<lparr>kern := kst (DosExitCritSec E) ?s,
         threads := (threads s)(x := Some (t\<lparr>th_queue := NULL, qnxt := NULL\<rparr>))\<rparr>))"
    by (simp add: thread_queue_remove_def run_simps)
  then show ?thesis by blast
qed

lemma queue_remove_rep:
  assumes q: "queue_rep s q (ys @ x # zs)"
  shows "\<exists>s'. thread_queue_remove E q x s = Some (Ret 0 s') \<and> queue_rep s' q (ys @ zs) \<and>
           dom (threads s') = dom (threads s)"
proof -
  let ?s = "s\<lparr>kern := kst (DosEnterCritSec E) s\<rparr>"
  let ?p = "last (NULL # ys)"
  from q obtain qv where qv: "q \<noteq> NULL" "queues s q = Some qv"
    "chain (qlink (threads s)) (q_next qv) (ys @ x # zs)" "q_last qv = last (x # zs)"
    by (auto elim!: queue_repE split: if_splits)
  note d = chain_distinct [OF qv(3)]
  from qv(3) obtain n where n: "seg (qlink (threads s)) (q_next qv) ys x" "x \<noteq> NULL"
    "qlink (threads s) x = Some n" "chain (qlink (threads s)) n zs"
    by (auto simp: chain_append)
  then obtain t where t: "threads s x = Some t" "qnxt t = n" by (auto simp: qlink_Some)
  have e: "(n = NULL) = (zs = [])" using n(4) by (cases zs) auto
  have "read_link q NULL ?s = Some (Ret (q_next qv) ?s)"
    using qv by (simp add: read_link_def)
  then have w: "queue_remove_loop q x NULL ?s = queue_remove_loop q x ?p ?s"
    and r: "read_link q ?p ?s = Some (Ret x ?s)"
    using queue_remove_walk [of q NULL ?s "q_next qv" ys x x] n(1) d by auto
  have loop: "queue_remove_loop q x NULL ?s =
     (if n \<noteq> NULL then seqM (write_link q ?p n) (retM 0) ?s
      else seqM (upd_queue q (\<lambda>v. v\<lparr>q_last := ?p\<rparr>)) (seqM (write_link q ?p NULL) (retM 0)) ?s)"
    unfolding w by (subst read_link_step [OF r]) (use n(2) t in \<open>simp add: run_simps\<close>)
  have link: "thread_queue_remove E q x s = bindM (queue_remove_loop q x NULL) (\<lambda>ret.
      seqM (upd_thread x (\<lambda>t. t\<lparr>th_queue := NULL\<rparr>))
     (seqM (upd_thread x (\<lambda>t. t\<lparr>qnxt := NULL\<rparr>))
     (seqM (thread_kern_leave_crit_sec E) (retM ret)))) ?s"
    by (simp add: thread_queue_remove_def)
  show ?thesis
  proof (cases ys rule: rev_cases)
    case Nil
    then have L: "queue_remove_loop q x NULL ?s = Some (Ret 0
       (?s\<lparr>queues := (queues s)(q := Some (if n = NULL then qv\<lparr>q_last := NULL, q_next := NULL\<rparr>
                                           else qv\<lparr>q_next := n\<rparr>))\<rparr>))"
      using loop qv(1,2) by (simp add: write_link_def run_simps)
    with Nil qv n t e d show ?thesis
      unfolding link bindM_run [where m = "queue_remove_loop q x NULL", OF L]
      by (auto simp: run_simps queue_rep_def)
  next
    case (snoc ws w)
    then have w: "w \<noteq> NULL" "threads s w \<noteq> None" "w \<noteq> x" "?p = w"
      using queue_rep_alloc [OF q, of w] d by auto
    then obtain u where u: "threads s w = Some u" by auto
    have c: "chain ((qlink (threads s))(w := Some n)) (q_next qv) (ys @ zs)"
      using chain_bypass [of "qlink (threads s)" "q_next qv" ws w x zs n] qv(3) n(3) snoc by simp
    have x: "x \<notin> set (ys @ zs)" using d by auto
    have L: "queue_remove_loop q x NULL ?s = Some (Ret 0
       (?s\<lparr>queues := (queues s)(q := Some (if n = NULL then qv\<lparr>q_last := w\<rparr> else qv)),
           threads := (threads s)(w := Some (u\<lparr>qnxt := n\<rparr>))\<rparr>))"
      using loop qv(1,2) w u by (simp add: write_link_def run_simps fun_upd_idem)
    with qv n t e w u c x snoc show ?thesis
      unfolding link bindM_run [where m = "queue_remove_loop q x NULL", OF L]
      by (auto simp: run_simps queue_rep_def fun_upd_twist)
  qed
qed

section \<open>The contract of a queue\<close>

text \<open>
  What the clients of a queue rely on.  \<open>avail s x\<close>: \<open>x\<close> is an element that may be queued.
\<close>

locale fifo =
  fixes rep :: "'s \<Rightarrow> 'q \<Rightarrow> 'a list \<Rightarrow> bool"
    and avail :: "'s \<Rightarrow> 'a \<Rightarrow> bool"
    and enq :: "'q \<Rightarrow> 'a \<Rightarrow> (unit, 's) prog"
    and deq :: "'q \<Rightarrow> ('a, 's) prog"
  assumes enq_law: "rep s q xs \<Longrightarrow> avail s x \<Longrightarrow> x \<notin> set xs \<Longrightarrow>
      \<exists>s'. enq q x s = Some (Ret () s') \<and> rep s' q (xs @ [x]) \<and> avail s' = avail s"
    and deq_law: "rep s q (x # xs) \<Longrightarrow>
      \<exists>s'. deq q s = Some (Ret x s') \<and> rep s' q xs \<and> avail s' = avail s"
begin

lemma enq_all:
  "rep s q xs \<Longrightarrow> distinct (xs @ ys) \<Longrightarrow> \<forall>y \<in> set ys. avail s y \<Longrightarrow>
     \<exists>s'. forM ys (enq q) s = Some (Ret () s') \<and> rep s' q (xs @ ys) \<and> avail s' = avail s"
proof (induction ys arbitrary: s xs)
  case Nil
  then show ?case by simp
next
  case (Cons y ys)
  then obtain s1 where s1: "enq q y s = Some (Ret () s1)" "rep s1 q (xs @ [y])"
    "avail s1 = avail s"
    using enq_law [of s q xs y] by auto
  with Cons.prems Cons.IH [of s1 "xs @ [y]"]
  show ?case by (auto simp: seqM_run [where m = "enq q y", OF s1(1)])
qed

lemma deq_all:
  "rep s q xs \<Longrightarrow>
     \<exists>s'. collectM (length xs) (deq q) s = Some (Ret xs s') \<and> rep s' q [] \<and> avail s' = avail s"
proof (induction xs arbitrary: s)
  case Nil
  then show ?case by simp
next
  case (Cons x xs)
  then obtain s1 where s1: "deq q s = Some (Ret x s1)" "rep s1 q xs" "avail s1 = avail s"
    using deq_law [of s q x xs] by auto
  with Cons.IH [of s1] obtain s2 where
    "collectM (length xs) (deq q) s1 = Some (Ret xs s2)" "rep s2 q []" "avail s2 = avail s"
    by auto
  then show ?case
    by (auto simp: bindM_run [where m = "deq q", OF s1(1)]
        bindM_run [where m = "collectM (length xs) (deq q)"])
qed

lemma first_in_first_out:
  assumes "rep s q []" "distinct xs" "\<forall>x \<in> set xs. avail s x"
  shows "\<exists>s'. seqM (forM xs (enq q)) (collectM (length xs) (deq q)) s = Some (Ret xs s') \<and> rep s' q []"
proof -
  from enq_all [of s q "[]" xs] assms obtain s1 where
    s1: "forM xs (enq q) s = Some (Ret () s1)" "rep s1 q xs"
    by auto
  with deq_all [of s1 q xs] show ?thesis
    by (auto simp: seqM_run [where m = "forM xs (enq q)", OF s1(1)])
qed

end

text \<open>A queue from whose middle elements can be taken.\<close>

locale fifo_remove = fifo rep avail enq deq
  for rep :: "'s \<Rightarrow> 'q \<Rightarrow> 'a list \<Rightarrow> bool" and avail and enq and deq +
  fixes remove :: "'q \<Rightarrow> 'a \<Rightarrow> (int, 's) prog"
  assumes remove_law: "rep s q (ys @ x # zs) \<Longrightarrow>
      \<exists>s'. remove q x s = Some (Ret 0 s') \<and> rep s' q (ys @ zs) \<and> avail s' = avail s"
begin

lemma remove_then_drain:
  assumes "rep s q (ys @ x # zs)"
  shows "\<exists>s'. seqM (remove q x) (collectM (length (ys @ zs)) (deq q)) s = Some (Ret (ys @ zs) s') \<and>
           rep s' q []"
proof -
  from remove_law [OF assms] obtain s1 where
    s1: "remove q x s = Some (Ret 0 s1)" "rep s1 q (ys @ zs)"
    by auto
  with deq_all [OF s1(2)] show ?thesis
    by (auto simp: seqM_run [where m = "remove q x", OF s1(1)])
qed

end

definition queueable :: "'k world \<Rightarrow> addr \<Rightarrow> bool" where
  "queueable s x \<longleftrightarrow> x \<noteq> NULL \<and> x \<in> dom (threads s)"

lemma queueable_dom: "dom (threads s') = dom (threads s) \<Longrightarrow> queueable s' = queueable s"
  by (rule ext) (simp add: queueable_def)

interpretation tq: fifo_remove queue_rep queueable "thread_queue_enq E" "thread_queue_deq E"
    "thread_queue_remove E" for E
proof unfold_locales
  fix s :: "'a world" and q x xs
  assume "queue_rep s q xs" "queueable s x" "x \<notin> set xs"
  then show "\<exists>s'. thread_queue_enq E q x s = Some (Ret () s') \<and> queue_rep s' q (xs @ [x]) \<and>
      queueable s' = queueable s"
    by (auto simp: queueable_def dest!: queue_enq_rep [of s q xs x _ E] intro!: queueable_dom)
next
  fix s :: "'a world" and q x xs
  assume "queue_rep s q (x # xs)"
  then show "\<exists>s'. thread_queue_deq E q s = Some (Ret x s') \<and> queue_rep s' q xs \<and>
      queueable s' = queueable s"
    by (auto dest!: queue_deq_Cons [of s q x xs E] intro!: queueable_dom)
next
  fix s :: "'a world" and q ys x zs
  assume "queue_rep s q (ys @ x # zs)"
  then show "\<exists>s'. thread_queue_remove E q x s = Some (Ret 0 s') \<and> queue_rep s' q (ys @ zs) \<and>
      queueable s' = queueable s"
    by (auto dest!: queue_remove_rep [of s q ys x zs E] intro!: queueable_dom)
qed

section \<open>Removing from a list headed by a variable\<close>

definition llist_rep :: "'k world \<Rightarrow> addr \<Rightarrow> addr list \<Rightarrow> bool" where
  "llist_rep s l xs \<longleftrightarrow> l \<noteq> NULL \<and>
     (case ptrs s l of None \<Rightarrow> False | Some p \<Rightarrow> chain (qlink (threads s)) p xs)"

lemma llist_walk:
  assumes "read_llink l prev s = Some (Ret c s)" "chain (qlink (threads s)) c (ys @ zs)" "x \<notin> set ys"
  shows "llist_remove_loop l x prev s = llist_remove_loop l x (last (prev # ys)) s \<and>
         read_llink l (last (prev # ys)) s = Some (Ret (if zs = [] then NULL else hd zs) s)"
  using assms
proof (induction ys arbitrary: prev c)
  case Nil
  then show ?case by (cases zs) auto
next
  case (Cons y ys)
  then obtain t where y: "c = y" "y \<noteq> NULL" "threads s y = Some t"
    "chain (qlink (threads s)) (qnxt t) (ys @ zs)" by (auto simp: qlink_Some)
  have r: "read_llink l y s = Some (Ret (qnxt t) s)"
    using y by (simp add: read_llink_def retM_def)
  have "llist_remove_loop l x prev s = llist_remove_loop l x y s"
    using Cons.prems(1,3) y
    by (subst llist_remove_loop.simps)
       (simp add: bindM_run [where m = "read_llink l prev", OF Cons.prems(1)])
  with Cons.IH [OF r y(4)] Cons.prems(3) show ?case by simp
qed

lemma llist_remove_run:
  assumes l: "llist_rep s l xs"
  shows "\<exists>s'. llist_remove_loop l x NULL s = Some (Ret (if x \<in> set xs then 0 else -1) s') \<and>
    (if x \<in> set xs then llist_rep s' l (remove1 x xs) \<and> (\<exists>t. threads s x = Some t \<and> threads s' x = Some t)
     else s' = s)"
proof -
  from l obtain p where p: "l \<noteq> NULL" "ptrs s l = Some p" "chain (qlink (threads s)) p xs"
    by (auto simp: llist_rep_def split: option.splits)
  have r: "read_llink l NULL s = Some (Ret p s)" using p by (simp add: read_llink_def)
  show ?thesis
  proof (cases "x \<in> set xs")
    case False
    obtain v where v: "v = last (NULL # xs)" by blast
    from llist_walk [OF r, of xs "[]" x] p(3) False
    have w: "llist_remove_loop l x NULL s = llist_remove_loop l x v s" "read_llink l v s = Some (Ret NULL s)"
      unfolding v [symmetric] by simp_all
    have "llist_remove_loop l x v s = Some (Ret (-1) s)"
      by (subst llist_remove_loop.simps)
         (simp add: bindM_run [where m = "read_llink l v", OF w(2)] retM_def)
    with w(1) have L: "llist_remove_loop l x NULL s = Some (Ret (-1) s)" by simp
    show ?thesis using False L by auto
  next
    case True
    then obtain ys zs where xs: "xs = ys @ x # zs" "x \<notin> set ys" by (meson split_list_first)
    have d: "distinct xs" by (rule chain_distinct [OF p(3)])
    then have rem: "remove1 x xs = ys @ zs" using xs by (simp add: remove1_append)
    let ?w = "last (NULL # ys)"
    from llist_walk [OF r, of ys "x # zs" x] p(3) xs have
      w: "llist_remove_loop l x NULL s = llist_remove_loop l x ?w s" "read_llink l ?w s = Some (Ret x s)"
      by auto
    have "x \<noteq> NULL" "qlink (threads s) x \<noteq> None"
      using p(3) xs chain_notnull [OF p(3)] chain_alloc [OF p(3), of x] by auto
    then obtain t where x: "x \<noteq> NULL" "threads s x = Some t" by (auto simp: qlink_None)
    show ?thesis
    proof (cases ys rule: rev_cases)
      case Nil
      then have "p = x" using r w(2) by simp
      have "llist_remove_loop l x ?w s = Some (Ret 0 (s\<lparr>ptrs := (ptrs s)(l := Some (qnxt t))\<rparr>))"
        using x p(1,2) Nil \<open>p = x\<close>
        by (subst llist_remove_loop.simps) (simp add: bindM_run [where m = "read_llink l ?w", OF w(2)] run_simps retM_def
            bindM_run [where m = "read_llink l NULL", OF r])
      with w(1) have "llist_remove_loop l x NULL s = Some (Ret 0 (s\<lparr>ptrs := (ptrs s)(l := Some (qnxt t))\<rparr>))" by simp
      moreover have "llist_rep (s\<lparr>ptrs := (ptrs s)(l := Some (qnxt t))\<rparr>) l (ys @ zs)"
        using p x xs Nil by (simp add: llist_rep_def qlink_def)
      ultimately show ?thesis
        using True x rem by auto
    next
      case (snoc vs v)
      then have v: "?w = v" "v \<noteq> NULL" "v \<noteq> x" "threads s v \<noteq> None"
        using p(3) xs chain_notnull [OF p(3)] chain_alloc [OF p(3), of v] by (auto simp: qlink_None)
      then obtain u where u: "threads s v = Some u" by auto
      let ?s = "s\<lparr>threads := (threads s)(v := Some (u\<lparr>qnxt := qnxt t\<rparr>))\<rparr>"
      have "llist_remove_loop l x ?w s = Some (Ret 0 ?s)"
        using x v u
        by (subst llist_remove_loop.simps)
           (simp add: bindM_run [where m = "read_llink l v", OF w(2) [unfolded v(1)]] run_simps retM_def)
      with w(1) have L: "llist_remove_loop l x NULL s = Some (Ret 0 ?s)" by simp
      have "chain ((qlink (threads s))(v := Some (qnxt t))) p (ys @ zs)"
        using chain_bypass [of "qlink (threads s)" p vs v x zs "qnxt t"] p(3) xs snoc x by (simp add: qlink_def)
      then have "llist_rep ?s l (ys @ zs)" using p by (simp add: llist_rep_def)
      with L show ?thesis
        using True x v rem by auto
    qed
  qed
qed

section \<open>Properties\<close>

text \<open>C36: A queue is first in, first out: threads put on an empty queue come off in the same order, and
  the queue is empty again.\<close>

theorem queue_is_fifo:
  assumes "queue_rep s q []" "distinct xs" "\<forall>x\<in>set xs. queueable s x"
  shows "\<exists>s'. seqM (forM xs (thread_queue_enq E q)) (collectM (length xs) (thread_queue_deq E q)) s =
           Some (Ret xs s') \<and> queue_rep s' q []"
  by (rule tq.first_in_first_out [OF assms])

lemma demo_queue: "queue_rep demo_world 50 []"
  by (simp add: queue_rep_def)

theorem queue_is_fifo_witness:
  "\<exists>s'. seqM (forM [20, 10] (thread_queue_enq demo_os 50)) (collectM 2 (thread_queue_deq demo_os 50)) demo_world =
     Some (Ret [20, 10] s') \<and> queue_rep s' 50 []"
  using queue_is_fifo [OF demo_queue, of "[20, 10]" demo_os] by (simp add: queueable_def numeral_2_eq_2)

text \<open>Removing a queued thread, wherever it stands, returns 0 and leaves the others in their order, as
  draining the queue then shows.\<close>

lemma queue_remove_keeps_order:
  assumes "queue_rep s q (ys @ x # zs)"
  shows "\<exists>s'. seqM (thread_queue_remove E q x) (collectM (length (ys @ zs)) (thread_queue_deq E q)) s =
           Some (Ret (ys @ zs) s') \<and> queue_rep s' q []"
  by (rule tq.remove_then_drain [OF assms])

definition demo_queued :: "demo_kern world" where
  "demo_queued = demo_world\<lparr>
     queues := [50 \<mapsto> \<lparr>q_next = 10, q_last = 20, q_data = NULL\<rparr>, 51 \<mapsto> \<lparr>q_next = NULL, q_last = NULL, q_data = NULL\<rparr>],
     threads := [10 \<mapsto> demo_thread\<lparr>qnxt := 20, th_queue := 50\<rparr>, 20 \<mapsto> demo_thread\<lparr>qnxt := NULL, th_queue := 50\<rparr>]\<rparr>"

lemma demo_queued_rep: "queue_rep demo_queued 50 [10, 20]" "queue_rep demo_queued 51 []"
  by (simp_all add: queue_rep_def demo_queued_def qlink_def)

lemma queue_remove_keeps_order_witness:
  "\<exists>s'. seqM (thread_queue_remove demo_os 50 10) (collectM 1 (thread_queue_deq demo_os 50)) demo_queued =
     Some (Ret [20] s') \<and> queue_rep s' 50 []"
  using queue_remove_keeps_order [of demo_queued 50 "[]" 10 "[20]" demo_os] demo_queued_rep(1)
  by simp

text \<open>Removing a thread from a queue it is not on returns -1, but still clears the thread's own link:
  if it is on another queue, that queue is cut off behind it while its last pointer still names
  the old last thread.\<close>

lemma queue_remove_wrong_queue:
  assumes q: "queue_rep s q xs" "x \<notin> set xs" and r: "queue_rep s r (ys @ x # zs)" "queues s r = Some rv"
  shows "\<exists>s'. thread_queue_remove E q x s = Some (Ret (-1) s') \<and> queues s' r = Some rv \<and>
           chain (qlink (threads s')) (q_next rv) (ys @ [x]) \<and> q_last rv = last (x # zs) \<and>
           (zs \<noteq> [] \<longrightarrow> (\<nexists>us. queue_rep s' r us))"
proof -
  from queue_rep_alloc [OF r(1), of x] obtain t where x: "x \<noteq> NULL" "threads s x = Some t" by auto
  from queue_remove_absent_rep [OF q(1) x q(2), of E] obtain k where
    k: "thread_queue_remove E q x s =
          Some (Ret (-1) (s\<lparr>kern := k, threads := (threads s)(x := Some (t\<lparr>th_queue := NULL, qnxt := NULL\<rparr>))\<rparr>))"
    by blast
  let ?s = "s\<lparr>kern := k, threads := (threads s)(x := Some (t\<lparr>th_queue := NULL, qnxt := NULL\<rparr>))\<rparr>"
  from r have c: "chain (qlink (threads s)) (q_next rv) (ys @ x # zs)" "q_last rv = last (x # zs)" "r \<noteq> NULL"
    by (auto elim!: queue_repE)
  have d: "distinct (ys @ x # zs)" by (rule chain_distinct [OF c(1)])
  from c(1) d x have cut: "chain (qlink (threads ?s)) (q_next rv) (ys @ [x])"
    by (auto simp: chain_append)
  have "\<nexists>us. queue_rep ?s r us" if "zs \<noteq> []"
  proof
    assume "\<exists>us. queue_rep ?s r us"
    then obtain us where us: "chain (qlink (threads ?s)) (q_next rv) us" "q_last rv = (if us = [] then NULL else last us)"
      using r(2) by (auto elim!: queue_repE)
    from chain_unique [OF us(1) cut] us(2) have "q_last rv = x" by simp
    moreover have "last zs \<in> set zs" using that by simp
    ultimately show False using c(2) d that by auto
  qed
  with k cut c(2) r(2) show ?thesis by (intro exI [of _ ?s]) auto
qed

lemma queue_remove_wrong_queue_witness:
  "\<exists>s'. thread_queue_remove demo_os 51 10 demo_queued = Some (Ret (-1) s') \<and> (\<nexists>us. queue_rep s' 50 us)"
  using queue_remove_wrong_queue [of demo_queued 51 "[]" 10 50 "[]" "[20]" _ demo_os] demo_queued_rep
  by (auto simp: demo_queued_def)

text \<open>\<^verbatim>\<open>pthread_llist_remove\<close> takes a thread off a list headed by a pointer variable: it returns 0 and
  the list loses just that thread, or -1 and nothing changes when it is not on the list.\<close>

lemma llist_remove_removes:
  assumes i: "inited s" and l: "llist_rep s l xs"
  shows "\<exists>s'. pthread_llist_remove E l x s = Some (Ret (if x \<in> set xs then 0 else -1) s') \<and>
    llist_rep s' l (remove1 x xs)"
proof -
  let ?s = "s\<lparr>kern := kst (DosEnterCritSec E) s\<rparr>"
  have "llist_rep ?s l xs" using l by (simp add: llist_rep_def split: option.splits)
  from llist_remove_run [OF this, of x] obtain s' where
    s': "llist_remove_loop l x NULL ?s = Some (Ret (if x \<in> set xs then 0 else -1) s')"
    "llist_rep s' l (remove1 x xs)"
    using \<open>llist_rep ?s l xs\<close> by (auto simp: remove1_idem split: if_splits)
  have "pthread_llist_remove E l x s =
      Some (Ret (if x \<in> set xs then 0 else -1) (s'\<lparr>kern := kst (DosExitCritSec E) s'\<rparr>))"
    using i by (simp add: pthread_llist_remove_def bindM_run [where m = "llist_remove_loop l x NULL", OF s'(1)] retM_def)
  with s'(2) show ?thesis by (auto simp: llist_rep_def split: option.splits)
qed

lemma llist_remove_removes_witness:
  "\<exists>s'. pthread_llist_remove demo_os 33 20 (demo_queued\<lparr>ptrs := [33 \<mapsto> 10]\<rparr>) = Some (Ret 0 s') \<and>
     llist_rep s' 33 [10]"
  using llist_remove_removes [of "demo_queued\<lparr>ptrs := [33 \<mapsto> 10]\<rparr>" 33 "[10, 20]" demo_os 20]
  by (simp add: demo_queued_def llist_rep_def qlink_def)

end
