(* ===== verification/Mutex.thy ===== *)
theory Mutex
  imports Signals
begin

text \<open>
  \<^verbatim>\<open>uthread_mutex.c\<close>: mutexes over the mutex semaphores of OS/2, and the priority ceilings
  of \<^verbatim>\<open>uthread_mutexattr_prio.c\<close>.  A \<^verbatim>\<open>pthread_mutex_t\<close> is a pointer variable, so the
  functions take the address of a pointer variable that holds the address of the structure.
\<close>

section \<open>Creating and destroying\<close>

definition pthread_mutex_init :: "'k os \<Rightarrow> addr \<Rightarrow> addr \<Rightarrow> (int, 'k world) prog" where
  "pthread_mutex_init E mutex mutex_attr =
     seqM (PTHREAD_INIT E)
     (if mutex = NULL then seqM (set_errno EINVAL) (retM (-1))
      else
        bindM (if mutex_attr = NULL then retM (Some MUTEX_TYPE_FAST)
               else bindM (load ptrs mutex_attr) (\<lambda>pa.
                    if pa = NULL then retM (Some MUTEX_TYPE_FAST)
                    else bindM (load mattrs pa) (\<lambda>a.
                         if ma_type a \<ge> MUTEX_TYPE_MAX
                         then seqM (set_errno EINVAL) (retM None)
                         else retM (Some (ma_type a)))))
       (\<lambda>ty. case ty of
          None \<Rightarrow> retM (-1)
        | Some type \<Rightarrow>
            bindM (kcall (malloc E)) (\<lambda>pmutex.
            if pmutex = NULL then seqM (set_errno ENOMEM) (retM (-1))
            else
              bindM (getM (junk_mutex E)) (\<lambda>junk.
              seqM (fresh mutexes mutexes_update pmutex junk)
             (seqM (upd_mutex pmutex (\<lambda>m. m\<lparr>m_flags := 0\<rparr>))
             (bindM (if type = MUTEX_TYPE_FAST then retM 0
                     else if type = MUTEX_TYPE_COUNTING_FAST
                     then seqM (upd_mutex pmutex (\<lambda>m. m\<lparr>m_count := 0\<rparr>)) (retM 0)
                     else seqM (set_errno EINVAL) (retM (-1)))
               (\<lambda>ret.
                bindM (if ret = 0 then kcall (DosCreateMutexSem E) else retM (0, 0)) (\<lambda>(rc, mtx).
                seqM (if ret = 0 \<and> rc = 0
                      then seqM (upd_mutex pmutex (\<lambda>m. m\<lparr>m_flags := m_flags m OR MUTEX_FLAGS_INITED,
                                   m_owner := NULL, m_type := type, m_mutex := mtx\<rparr>))
                                (store_ptr mutex pmutex)
                      else seqM (free mutexes mutexes_update pmutex) (store_ptr mutex NULL))
                     (retM ret)))))))))"

text \<open>\<^verbatim>\<open>do { rc = DosCloseMutexSem(mtx); if (rc == 301) DosReleaseMutexSem(mtx); } while (rc == 301);\<close>\<close>

partial_function (option) close_mutex_loop ::
  "'k os \<Rightarrow> hmtx \<Rightarrow> 'k world \<Rightarrow> (unit, 'k world) res option" where
  "close_mutex_loop E mtx s =
     bindM (kcall (DosCloseMutexSem E mtx)) (\<lambda>rc s.
       if rc = ERROR_SEM_BUSY
       then seqM (kcall (DosReleaseMutexSem E mtx)) (\<lambda>s. close_mutex_loop E mtx s) s
       else retM () s) s"

definition pthread_mutex_destroy :: "'k os \<Rightarrow> addr \<Rightarrow> (int, 'k world) prog" where
  "pthread_mutex_destroy E mutex =
     seqM (PTHREAD_INIT E)
     (if mutex = NULL then seqM (set_errno EINVAL) (retM (-1))
      else bindM (load ptrs mutex) (\<lambda>pm.
           if pm = NULL then seqM (set_errno EINVAL) (retM (-1))
           else bindM (load mutexes pm) (\<lambda>m.
                bindM (if m_type m = MUTEX_TYPE_FAST then retM 0
                       else if m_type m = MUTEX_TYPE_COUNTING_FAST
                       then seqM (upd_mutex pm (\<lambda>m. m\<lparr>m_count := 0\<rparr>)) (retM 0)
                       else seqM (set_errno EINVAL) (retM (-1)))
                 (\<lambda>ret.
                  seqM (upd_mutex pm (\<lambda>m. m\<lparr>m_type := 0, m_flags := 0, m_mutex := 0\<rparr>))
                 (seqM (close_mutex_loop E (m_mutex m))
                 (seqM (upd_mutex pm (\<lambda>m. m\<lparr>m_owner := NULL\<rparr>))
                       (retM ret)))))))"

section \<open>Locking and unlocking\<close>

text \<open>\<^verbatim>\<open>(*mutex)->\<close>: the variable is read again for each access.\<close>

definition read_mutex :: "addr \<Rightarrow> (pthread_mutex, 'k world) prog" where
  "read_mutex mutex = bindM (load ptrs mutex) (\<lambda>pm. load mutexes pm)"

definition write_mutex :: "addr \<Rightarrow> (pthread_mutex \<Rightarrow> pthread_mutex) \<Rightarrow> (unit, 'k world) prog" where
  "write_mutex mutex f = bindM (load ptrs mutex) (\<lambda>pm. upd_mutex pm f)"

definition pthread_mutex_trylock :: "'k os \<Rightarrow> addr \<Rightarrow> (int, 'k world) prog" where
  "pthread_mutex_trylock E mutex =
     bindM (pthread_self E) (\<lambda>current.
     let finish = (\<lambda>ret. seqM (deliver_if_pending E current) (retM ret)) in
     bindM (if mutex = NULL then retM NULL else load ptrs mutex) (\<lambda>pm.
     if pm = NULL then seqM (set_errno EINVAL) (finish (-1))
     else bindM (load mutexes pm) (\<lambda>m.
       if m_type m = MUTEX_TYPE_FAST
       then if m_owner m = current then seqM (set_errno EBUSY) (retM EBUSY)
            else bindM (DosRequestMutexSem E (m_mutex m) SEM_IMMEDIATE_RETURN) (\<lambda>rc.
                 if rc = 0
                 then seqM (write_mutex mutex (\<lambda>m. m\<lparr>m_owner := current\<rparr>)) (finish 0)
                 else seqM (set_errno EBUSY) (finish (-1)))
       else if m_type m = MUTEX_TYPE_COUNTING_FAST
       then bindM (DosRequestMutexSem E (m_mutex m) SEM_IMMEDIATE_RETURN) (\<lambda>rc.
            if rc = 0
            then seqM (write_mutex mutex (\<lambda>m. m\<lparr>m_owner := current\<rparr>))
                (seqM (write_mutex mutex (\<lambda>m. m\<lparr>m_count := 0\<rparr>)) (finish 0))
            else if rc = ERROR_TIMEOUT
            then bindM (read_mutex mutex) (\<lambda>m.
                 if m_owner m = current
                 then seqM (write_mutex mutex (\<lambda>m. m\<lparr>m_count := m_count m + 1\<rparr>)) (finish 0)
                 else seqM (set_errno EBUSY) (finish (-1)))
            else seqM (set_errno EINVAL) (finish (-1)))
       else seqM (set_errno EINVAL) (finish (-1)))))"

text \<open>
  \<open>mutex_wait\<close>: the thread notes what it waits for, makes the request and runs again.
\<close>

definition mutex_wait :: "addr \<Rightarrow> addr \<Rightarrow> (apiret, 'k world) prog \<Rightarrow> (apiret, 'k world) prog" where
  "mutex_wait current mutex request =
     seqM (upd_thread current (\<lambda>t. t\<lparr>th_data := W_Mutex mutex\<rparr>))
    (seqM (upd_thread current (\<lambda>t. t\<lparr>th_state := PS_MUTEX_WAIT\<rparr>))
    (bindM request (\<lambda>rc.
     seqM (upd_thread current (\<lambda>t. t\<lparr>th_state := PS_RUNNING\<rparr>)) (retM rc))))"

definition pthread_mutex_lock :: "'k os \<Rightarrow> addr \<Rightarrow> (int, 'k world) prog" where
  "pthread_mutex_lock E mutex =
     bindM (pthread_self E) (\<lambda>current.
     let finish = (\<lambda>ret. seqM (deliver_if_pending E current) (retM ret)) in
     bindM (if mutex = NULL then retM NULL else load ptrs mutex) (\<lambda>pm.
     if pm = NULL then seqM (set_errno EINVAL) (finish (-1))
     else bindM (load mutexes pm) (\<lambda>m.
       if m_type m = MUTEX_TYPE_FAST
       then if m_owner m = current then seqM (set_errno EDEADLK) (retM EDEADLK)
            else bindM (mutex_wait current mutex
                          (DosRequestMutexSem E (m_mutex m) SEM_INDEFINITE_WAIT)) (\<lambda>rc.
                 if rc = 0
                 then seqM (write_mutex mutex (\<lambda>m. m\<lparr>m_owner := current\<rparr>)) (finish 0)
                 else seqM (set_errno EINVAL) (finish EINVAL))
       else if m_type m = MUTEX_TYPE_COUNTING_FAST
       then bindM (mutex_wait current mutex
                     (bindM (DosRequestMutexSem E (m_mutex m) SEM_IMMEDIATE_RETURN) (\<lambda>rc.
                      if rc = ERROR_TIMEOUT
                      then bindM (read_mutex mutex) (\<lambda>m.
                           if m_owner m = current
                           then seqM (write_mutex mutex (\<lambda>m. m\<lparr>m_count := m_count m + 1\<rparr>))
                                     (retM rc)
                           else DosRequestMutexSem E (m_mutex m) SEM_INDEFINITE_WAIT)
                      else retM rc))) (\<lambda>rc.
            if rc = 0
            then seqM (write_mutex mutex (\<lambda>m. m\<lparr>m_owner := current\<rparr>))
                (seqM (write_mutex mutex (\<lambda>m. m\<lparr>m_count := 0\<rparr>)) (finish 0))
            else if rc \<noteq> ERROR_TIMEOUT
            then seqM (set_errno EINVAL) (finish EINVAL)
            else finish 0)
       else seqM (set_errno EINVAL) (finish (-1)))))"

text \<open>
  The release of the semaphore is an argument, so that it can be said in which state it is made; \<open>pthread_mutex_unlock\<close>
  makes it with the system's \<^verbatim>\<open>DosReleaseMutexSem\<close>.
\<close>

definition pthread_mutex_unlock_by ::
  "(hmtx \<Rightarrow> (apiret, 'k world) prog) \<Rightarrow> 'k os \<Rightarrow> addr \<Rightarrow> (int, 'k world) prog" where
  "pthread_mutex_unlock_by release E mutex =
     bindM (pthread_self E) (\<lambda>current.
     seqM (PTHREAD_INIT E)
    (bindM (if mutex = NULL then retM NULL else load ptrs mutex) (\<lambda>pm.
     if pm = NULL then seqM (set_errno EINVAL) (retM (-1))
     else bindM (load mutexes pm) (\<lambda>m.
       if m_owner m = NULL then seqM (set_errno EPERM) (retM EPERM)
       else if m_type m = MUTEX_TYPE_FAST
       then if m_owner m \<noteq> current then seqM (set_errno EINVAL) (retM (-1))
            else seqM (upd_mutex pm (\<lambda>m. m\<lparr>m_owner := NULL\<rparr>))
                (seqM (release (m_mutex m)) (retM 0))
       else if m_type m = MUTEX_TYPE_COUNTING_FAST
       then if m_owner m \<noteq> current then seqM (set_errno EINVAL) (retM (-1))
            else if m_count m \<noteq> 0
            then seqM (upd_mutex pm (\<lambda>m. m\<lparr>m_count := m_count m - 1\<rparr>)) (retM 0)
            else seqM (upd_mutex pm (\<lambda>m. m\<lparr>m_owner := NULL\<rparr>))
                (seqM (release (m_mutex m)) (retM 0))
       else seqM (set_errno EINVAL) (retM (-1))))))"

definition pthread_mutex_unlock :: "'k os \<Rightarrow> addr \<Rightarrow> (int, 'k world) prog" where
  "pthread_mutex_unlock E = pthread_mutex_unlock_by (\<lambda>h. kcall (DosReleaseMutexSem E h)) E"

section \<open>Priority ceilings\<close>

definition pthread_mutex_getprioceiling :: "'k os \<Rightarrow> addr \<Rightarrow> (int, 'k world) prog" where
  "pthread_mutex_getprioceiling E attr =
     seqM (PTHREAD_INIT E)
    (bindM (if attr = NULL then retM NULL else load ptrs attr) (\<lambda>pm.
     if pm = NULL then seqM (set_errno EINVAL) (retM (-1))
     else bindM (load mutexes pm) (\<lambda>m. retM (m_prioceiling m))))"

definition pthread_mutex_setprioceiling :: "'k os \<Rightarrow> addr \<Rightarrow> (int, 'k world) prog" where
  "pthread_mutex_setprioceiling E attr =
     bindM (pthread_self E) (\<lambda>self.
     bindM (if attr = NULL then retM NULL else load ptrs attr) (\<lambda>pm.
     if pm = NULL then seqM (set_errno EINVAL) (retM (-1))
     else bindM (load threads self) (\<lambda>t.
          seqM (upd_mutex pm (\<lambda>m. m\<lparr>m_prioceiling := pthread_priority t\<rparr>)) (retM 0))))"

declare close_mutex_loop.simps [code]

section \<open>What the library relies on: a mutex semaphore of OS/2\<close>

text \<open>
  \<open>own k\<close> is the owner and the request count of the semaphore with handle \<open>h\<close> in the kernel
  state \<open>k\<close>.  As the control program documents it: a request by the owner succeeds and is
  counted; a request for a semaphore somebody else owns fails with \<^verbatim>\<open>ERROR_TIMEOUT\<close> when it
  may not wait (when it may wait, nothing is said here); only the owner can release; an owned
  semaphore cannot be closed.
\<close>

definition mutex_sem :: "'k os \<Rightarrow> hmtx \<Rightarrow> ('k \<Rightarrow> (tid \<times> nat) option) \<Rightarrow> bool" where
  "mutex_sem E h own \<longleftrightarrow>
     (\<forall>tmo s. own (kern s) = None \<longrightarrow>
        (\<exists>k. DosRequestMutexSem E h tmo s = Some (Ret 0 (s\<lparr>kern := k\<rparr>)) \<and> own k = Some (cur s, 1))) \<and>
     (\<forall>tmo s n. own (kern s) = Some (cur s, n) \<longrightarrow>
        (\<exists>k. DosRequestMutexSem E h tmo s = Some (Ret 0 (s\<lparr>kern := k\<rparr>)) \<and> own k = Some (cur s, Suc n))) \<and>
     (\<forall>s u n. own (kern s) = Some (u, n) \<and> u \<noteq> cur s \<longrightarrow>
        (\<exists>k. DosRequestMutexSem E h SEM_IMMEDIATE_RETURN s = Some (Ret ERROR_TIMEOUT (s\<lparr>kern := k\<rparr>)) \<and>
             own k = own (kern s))) \<and>
     (\<forall>t k n. own k = Some (t, n) \<longrightarrow>
        fst (DosReleaseMutexSem E h t k) = 0 \<and>
        own (snd (DosReleaseMutexSem E h t k)) = (if n \<le> 1 then None else Some (t, n - 1))) \<and>
     (\<forall>t k. (\<forall>n. own k \<noteq> Some (t, n)) \<longrightarrow>
        fst (DosReleaseMutexSem E h t k) = ERROR_NOT_OWNER \<and>
        own (snd (DosReleaseMutexSem E h t k)) = own k) \<and>
     (\<forall>t k. (fst (DosCloseMutexSem E h t k) = ERROR_SEM_BUSY) = (own k \<noteq> None) \<and>
        own (snd (DosCloseMutexSem E h t k)) = own k)"

lemma sem_request_free:
  "mutex_sem E h own \<Longrightarrow> own (kern s) = None \<Longrightarrow>
     \<exists>k. DosRequestMutexSem E h tmo s = Some (Ret 0 (s\<lparr>kern := k\<rparr>)) \<and> own k = Some (cur s, 1)"
  unfolding mutex_sem_def by blast

lemma sem_request_own:
  "mutex_sem E h own \<Longrightarrow> own (kern s) = Some (cur s, n) \<Longrightarrow>
     \<exists>k. DosRequestMutexSem E h tmo s = Some (Ret 0 (s\<lparr>kern := k\<rparr>)) \<and> own k = Some (cur s, Suc n)"
  unfolding mutex_sem_def by blast

lemma sem_request_other:
  "mutex_sem E h own \<Longrightarrow> own (kern s) = Some (u, n) \<Longrightarrow> u \<noteq> cur s \<Longrightarrow>
     \<exists>k. DosRequestMutexSem E h SEM_IMMEDIATE_RETURN s = Some (Ret ERROR_TIMEOUT (s\<lparr>kern := k\<rparr>)) \<and>
         own k = Some (u, n)"
  unfolding mutex_sem_def by metis

lemma sem_release:
  "mutex_sem E h own \<Longrightarrow> own (kern s) = Some (cur s, n) \<Longrightarrow>
     kres (DosReleaseMutexSem E h) s = 0 \<and>
     own (kst (DosReleaseMutexSem E h) s) = (if n \<le> 1 then None else Some (cur s, n - 1))"
  unfolding mutex_sem_def kres_def kst_def by blast

lemma sem_release_other:
  "mutex_sem E h own \<Longrightarrow> own (kern s) = Some (u, n) \<Longrightarrow> u \<noteq> cur s \<Longrightarrow>
     own (kst (DosReleaseMutexSem E h) s) = Some (u, n)"
  unfolding mutex_sem_def kst_def by (metis option.inject prod.inject)

lemma sem_close:
  "mutex_sem E h own \<Longrightarrow>
     (kres (DosCloseMutexSem E h) s = ERROR_SEM_BUSY) = (own (kern s) \<noteq> None) \<and>
     own (kst (DosCloseMutexSem E h) s) = own (kern s)"
  unfolding mutex_sem_def kres_def kst_def by blast

lemma demo_mutex_sem: "mutex_sem demo_os h (\<lambda>k. sem k h)"
  unfolding mutex_sem_def
  by (auto simp: demo_os_def demo_request_def demo_release_def demo_close_def Let_def
      kern_upd_id split: option.splits)

section \<open>States of a mutex\<close>

definition mutex_at :: "'k world \<Rightarrow> addr \<Rightarrow> addr \<Rightarrow> pthread_mutex \<Rightarrow> bool" where
  "mutex_at s mutex pm m \<longleftrightarrow>
     mutex \<noteq> NULL \<and> ptrs s mutex = Some pm \<and> pm \<noteq> NULL \<and> mutexes s pm = Some m"

text \<open>The caller is registered and has no signal to take.\<close>

definition quiet :: "'k world \<Rightarrow> bool" where
  "quiet s \<longleftrightarrow> inited s \<and>
     (case threads s (run s) of
        None \<Rightarrow> False | Some t \<Rightarrow> pend t = 0 \<or> signals_blocked s \<noteq> 0)"

definition mutex_free ::
  "('k \<Rightarrow> (tid \<times> nat) option) \<Rightarrow> u32 \<Rightarrow> addr \<Rightarrow> hmtx \<Rightarrow> 'k world \<Rightarrow> bool" where
  "mutex_free own ty mutex h s \<longleftrightarrow> quiet s \<and> own (kern s) = None \<and>
     (\<exists>pm m. mutex_at s mutex pm m \<and> m_type m = ty \<and> m_mutex m = h \<and> m_owner m = NULL)"

definition mutex_held ::
  "('k \<Rightarrow> (tid \<times> nat) option) \<Rightarrow> u32 \<Rightarrow> addr \<Rightarrow> hmtx \<Rightarrow> nat \<Rightarrow> 'k world \<Rightarrow> bool" where
  "mutex_held own ty mutex h n s \<longleftrightarrow> quiet s \<and> own (kern s) = Some (cur s, n) \<and>
     (\<exists>pm m. mutex_at s mutex pm m \<and> m_type m = ty \<and> m_mutex m = h \<and> m_owner m = run s \<and>
        (ty = MUTEX_TYPE_COUNTING_FAST \<longrightarrow> m_count m = 0))"

lemma quietE:
  assumes "quiet s"
  obtains t where "inited s" "run s \<noteq> NULL" "threads s (run s) = Some t"
    "pend t = 0 \<or> signals_blocked s \<noteq> 0"
  using assms by (auto simp: quiet_def inited_def split: option.splits)

lemma deliver_if_quiet [run_simps]:
  "run s \<noteq> NULL \<Longrightarrow> threads s (run s) = Some t \<Longrightarrow> pend t = 0 \<or> signals_blocked s \<noteq> 0 \<Longrightarrow>
     seqM (deliver_if_pending E (run s)) n s = n s"
  by (auto simp: deliver_if_pending_def run_simps)

lemma quiet_upd [simp]:
  "quiet (kern_update f s) = quiet s" "quiet (mutexes_update g s) = quiet s"
  "quiet (errnos_update e s) = quiet s"
  by (simp_all add: quiet_def split: option.split)

lemma mutex_at_upd [simp]:
  "mutex_at (kern_update f s) = mutex_at s" "mutex_at (threads_update g s) = mutex_at s"
  "mutex_at (errnos_update e s) = mutex_at s"
  by (simp_all add: mutex_at_def fun_eq_iff)

section \<open>Locking, unlocking and trying\<close>

lemma mutex_wait_run:
  fixes s :: "'k world"
  assumes "p \<noteq> NULL" "threads s p = Some t"
    and "request (s\<lparr>threads := (threads s)(p := Some (t\<lparr>th_data := W_Mutex mutex, th_state := PS_MUTEX_WAIT\<rparr>))\<rparr>) =
         Some (Ret rc (s\<lparr>threads := (threads s)(p := Some (t\<lparr>th_data := W_Mutex mutex, th_state := PS_MUTEX_WAIT\<rparr>)),
                         kern := k, mutexes := h\<rparr>))"
  shows "bindM (mutex_wait p mutex request) f s =
     f rc (s\<lparr>kern := k, mutexes := h,
             threads := (threads s)(p := Some (t\<lparr>th_data := W_Mutex mutex, th_state := PS_RUNNING\<rparr>))\<rparr>)"
  using assms(1,2)
  by (simp add: mutex_wait_def run_simps bindM_run [where m = request, OF assms(3)])

lemma mutex_at_read [run_simps]:
  "mutex_at s mutex pm m \<Longrightarrow> bindM (load ptrs mutex) f s = f pm s"
  "mutex_at s mutex pm m \<Longrightarrow> bindM (load mutexes pm) g s = g m s"
  "mutex_at s mutex pm m \<Longrightarrow> bindM (read_mutex mutex) g s = g m s"
  by (simp_all add: mutex_at_def read_mutex_def bindM_assoc)

lemma mutex_at_write [run_simps]:
  "mutex_at s mutex pm m \<Longrightarrow>
     seqM (write_mutex mutex f) n s = n (s\<lparr>mutexes := (mutexes s)(pm := Some (f m))\<rparr>)"
  by (simp add: mutex_at_def write_mutex_def run_simps)

lemma mutex_at_nonnull: "mutex_at s mutex pm m \<Longrightarrow> mutex \<noteq> NULL \<and> pm \<noteq> NULL"
  by (simp add: mutex_at_def)

lemma mutex_at_new:
  "mutex_at s mutex pm m \<Longrightarrow> mutex_at (s\<lparr>mutexes := (mutexes s)(pm := Some m')\<rparr>) mutex pm m'"
  by (simp add: mutex_at_def)

text \<open>The state in which a request of the calling thread is made, and the one it returns to.\<close>

definition waiting_in :: "'k world \<Rightarrow> addr \<Rightarrow> 'k world" where
  "waiting_in s mutex =
     s\<lparr>threads := (threads s)(run s := map_option
        (\<lambda>t. t\<lparr>th_data := W_Mutex mutex, th_state := PS_MUTEX_WAIT\<rparr>) (threads s (run s)))\<rparr>"

definition back_from :: "'k world \<Rightarrow> addr \<Rightarrow> 'k \<Rightarrow> 'k world" where
  "back_from s mutex k =
     s\<lparr>kern := k, threads := (threads s)(run s := map_option
        (\<lambda>t. t\<lparr>th_data := W_Mutex mutex, th_state := PS_RUNNING\<rparr>) (threads s (run s)))\<rparr>"

lemma waiting_in_sel [simp]:
  "kern (waiting_in s mutex) = kern s" "cur (waiting_in s mutex) = cur s"
  by (simp_all add: waiting_in_def)

lemma back_from_sel [simp]:
  "kern (back_from s mutex k) = k" "cur (back_from s mutex k) = cur s"
  "run (back_from s mutex k) = run s" "mutexes (back_from s mutex k) = mutexes s"
  "mutex_at (back_from s mutex k) = mutex_at s" "inited (back_from s mutex k) = inited s"
  "signals_blocked (back_from s mutex k) = signals_blocked s"
  by (simp_all add: back_from_def)

lemma back_from_quiet [simp]: "quiet s \<Longrightarrow> quiet (back_from s mutex k)"
  by (auto simp: quiet_def back_from_def split: option.splits)

lemma wait_quiet:
  assumes "quiet s" and "request (waiting_in s mutex) = Some (Ret rc ((waiting_in s mutex)\<lparr>kern := k\<rparr>))"
  shows "bindM (mutex_wait (run s) mutex request) f s = f rc (back_from s mutex k)"
proof -
  from assms(1) obtain t where t: "run s \<noteq> NULL" "threads s (run s) = Some t"
    by (rule quietE)
  have "request (s\<lparr>threads := (threads s)(run s := Some (t\<lparr>th_data := W_Mutex mutex, th_state := PS_MUTEX_WAIT\<rparr>))\<rparr>) =
         Some (Ret rc (s\<lparr>threads := (threads s)(run s := Some (t\<lparr>th_data := W_Mutex mutex, th_state := PS_MUTEX_WAIT\<rparr>)),
                         kern := k, mutexes := mutexes s\<rparr>))"
    using assms(2) t by (simp add: waiting_in_def)
  from mutex_wait_run [where request = request, OF t this, of f] t show ?thesis
    by (simp add: back_from_def)
qed

lemma deliver_quiet [run_simps]: "quiet s \<Longrightarrow> seqM (deliver_if_pending E (run s)) n s = n s"
  by (erule quietE) (rule deliver_if_quiet)

lemma deliver_quiet_at:
  "quiet s \<Longrightarrow> p = run s \<Longrightarrow> seqM (deliver_if_pending E p) n s = n s"
  by (simp add: deliver_quiet)

lemma quiet_inited [simp]: "quiet s \<Longrightarrow> inited s"
  by (simp add: quiet_def)

text \<open>A granted request: the calling thread becomes the owner.\<close>

lemma lock_granted:
  assumes q: "quiet s" and m: "mutex_at s mutex pm m"
    and fast: "m_type m = MUTEX_TYPE_FAST" "m_owner m \<noteq> run s"
    and r: "DosRequestMutexSem E (m_mutex m) SEM_INDEFINITE_WAIT (waiting_in s mutex) =
              Some (Ret 0 ((waiting_in s mutex)\<lparr>kern := k\<rparr>))"
  shows "pthread_mutex_lock E mutex s =
    Some (Ret 0 ((back_from s mutex k)\<lparr>mutexes := (mutexes s)(pm := Some (m\<lparr>m_owner := run s\<rparr>))\<rparr>))"
  using q m fast mutex_at_nonnull [OF m]
  by (simp add: pthread_mutex_lock_def mutex_at_read mutex_at_write deliver_quiet_at Let_def
      wait_quiet [where request = "DosRequestMutexSem E (m_mutex m) SEM_INDEFINITE_WAIT", OF q r]
      retM_def)

lemma lock_granted_counting:
  assumes q: "quiet s" and m: "mutex_at s mutex pm m"
    and ty: "m_type m = MUTEX_TYPE_COUNTING_FAST"
    and r: "DosRequestMutexSem E (m_mutex m) SEM_IMMEDIATE_RETURN (waiting_in s mutex) =
              Some (Ret 0 ((waiting_in s mutex)\<lparr>kern := k\<rparr>))"
  shows "pthread_mutex_lock E mutex s =
    Some (Ret 0 ((back_from s mutex k)\<lparr>mutexes := (mutexes s)(pm := Some (m\<lparr>m_owner := run s, m_count := 0\<rparr>))\<rparr>))"
proof -
  let ?req = "bindM (DosRequestMutexSem E (m_mutex m) SEM_IMMEDIATE_RETURN) (\<lambda>rc.
                      if rc = ERROR_TIMEOUT
                      then bindM (read_mutex mutex) (\<lambda>m.
                           if m_owner m = run s
                           then seqM (write_mutex mutex (\<lambda>m. m\<lparr>m_count := m_count m + 1\<rparr>))
                                     (retM rc)
                           else DosRequestMutexSem E (m_mutex m) SEM_INDEFINITE_WAIT)
                      else retM rc)"
  have "?req (waiting_in s mutex) = Some (Ret 0 ((waiting_in s mutex)\<lparr>kern := k\<rparr>))"
    by (simp add: retM_def
        bindM_run [where m = "DosRequestMutexSem E (m_mutex m) SEM_IMMEDIATE_RETURN", OF r])
  note w = wait_quiet [where request = ?req, OF q this]
  have m': "mutex_at ((back_from s mutex k)\<lparr>mutexes := (mutexes s)(pm := Some (m\<lparr>m_owner := run s\<rparr>))\<rparr>)
      mutex pm (m\<lparr>m_owner := run s\<rparr>)"
    using mutex_at_new [of "back_from s mutex k" mutex pm m] m by simp
  show ?thesis
    using q m ty mutex_at_nonnull [OF m]
    by (simp add: pthread_mutex_lock_def mutex_at_read mutex_at_write [OF m'] mutex_at_write
        deliver_quiet_at Let_def w retM_def)
qed

lemma held_after_grant:
  assumes "quiet s" "mutex_at s mutex pm m" "m_mutex m = h" "own k = Some (cur s, n)"
    and "m_owner m' = run s" "m_mutex m' = h" "m_type m' = m_type m"
    and "m_type m = MUTEX_TYPE_COUNTING_FAST \<longrightarrow> m_count m' = 0"
  shows "mutex_held own (m_type m) mutex h n
           ((back_from s mutex k)\<lparr>mutexes := (mutexes s)(pm := Some m')\<rparr>)"
  unfolding mutex_held_def
  using assms mutex_at_new [of "back_from s mutex k" mutex pm m m'] by auto

lemma sem_granted:
  assumes "mutex_sem E h own" "own (kern s) = None \<and> n = 0 \<or> own (kern s) = Some (cur s, n)"
  obtains k where "DosRequestMutexSem E h tmo (waiting_in s mutex) =
      Some (Ret 0 ((waiting_in s mutex)\<lparr>kern := k\<rparr>))" "own k = Some (cur s, Suc n)"
  using sem_request_free [OF assms(1), of "waiting_in s mutex" tmo]
    sem_request_own [OF assms(1), of "waiting_in s mutex" n tmo] assms(2)
  by auto

text \<open>Locking a free mutex, of either type, succeeds at once.\<close>

lemma lock_free:
  assumes law: "mutex_sem E h own" and free: "mutex_free own ty mutex h s"
    and ty: "ty = MUTEX_TYPE_FAST \<or> ty = MUTEX_TYPE_COUNTING_FAST"
  shows "\<exists>s'. pthread_mutex_lock E mutex s = Some (Ret 0 s') \<and> mutex_held own ty mutex h 1 s'"
proof -
  from free obtain pm m where q: "quiet s" and o: "own (kern s) = None"
    and m: "mutex_at s mutex pm m" "m_type m = ty" "m_mutex m = h" "m_owner m = NULL"
    by (auto simp: mutex_free_def)
  have ne: "m_owner m \<noteq> run s" using q m(4) by (auto elim: quietE)
  from ty show ?thesis
  proof
    assume t: "ty = MUTEX_TYPE_FAST"
    from sem_granted [OF law, of s 0 SEM_INDEFINITE_WAIT mutex] o obtain k where
      k: "DosRequestMutexSem E (m_mutex m) SEM_INDEFINITE_WAIT (waiting_in s mutex) =
            Some (Ret 0 ((waiting_in s mutex)\<lparr>kern := k\<rparr>))" "own k = Some (cur s, 1)"
      using m(3) by auto
    show ?thesis
      using lock_granted [OF q m(1) _ ne k(1)] held_after_grant [where own = own and k = k and n = 1 and m' = "m\<lparr>m_owner := run s\<rparr>", OF q m(1,3) k(2)]
        m t by simp
  next
    assume t: "ty = MUTEX_TYPE_COUNTING_FAST"
    from sem_granted [OF law, of s 0 SEM_IMMEDIATE_RETURN mutex] o obtain k where
      k: "DosRequestMutexSem E (m_mutex m) SEM_IMMEDIATE_RETURN (waiting_in s mutex) =
            Some (Ret 0 ((waiting_in s mutex)\<lparr>kern := k\<rparr>))" "own k = Some (cur s, 1)"
      using m(3) by auto
    show ?thesis
      using lock_granted_counting [OF q m(1) _ k(1)]
        held_after_grant [where own = own and k = k and n = 1 and m' = "m\<lparr>m_owner := run s, m_count := 0\<rparr>", OF q m(1,3) k(2)] m t by simp
  qed
qed

text \<open>Locking a counting mutex again: the semaphore counts, \<^verbatim>\<open>m_count\<close> does not.\<close>

lemma relock_counting:
  assumes law: "mutex_sem E h own" and held: "mutex_held own MUTEX_TYPE_COUNTING_FAST mutex h n s"
  shows "\<exists>s'. pthread_mutex_lock E mutex s = Some (Ret 0 s') \<and>
           mutex_held own MUTEX_TYPE_COUNTING_FAST mutex h (Suc n) s' \<and> cur s' = cur s"
proof -
  from held obtain pm m where q: "quiet s" and o: "own (kern s) = Some (cur s, n)"
    and m: "mutex_at s mutex pm m" "m_type m = MUTEX_TYPE_COUNTING_FAST" "m_mutex m = h"
    by (auto simp: mutex_held_def)
  from sem_granted [OF law, of s n SEM_IMMEDIATE_RETURN mutex] o obtain k where
    k: "DosRequestMutexSem E (m_mutex m) SEM_IMMEDIATE_RETURN (waiting_in s mutex) =
          Some (Ret 0 ((waiting_in s mutex)\<lparr>kern := k\<rparr>))" "own k = Some (cur s, Suc n)"
    using m(3) by auto
  show ?thesis
    using lock_granted_counting [OF q m(1) _ k(1)]
      held_after_grant [where own = own and k = k and n = "Suc n" and m' = "m\<lparr>m_owner := run s, m_count := 0\<rparr>", OF q m(1,3) k(2)] m by simp
qed

lemma relock_fast:
  assumes "mutex_held own MUTEX_TYPE_FAST mutex h n s"
  shows "pthread_mutex_lock E mutex s = Some (Ret EDEADLK (with_errno EDEADLK s))"
  using assms
  by (auto simp: mutex_held_def pthread_mutex_lock_def mutex_at_read Let_def retM_def dest: mutex_at_nonnull)

text \<open>Unlocking by the owner clears the owner and makes one release.\<close>

lemma unlock_owner:
  assumes q: "quiet s" and m: "mutex_at s mutex pm m" "m_owner m = run s"
    and ty: "m_type m = MUTEX_TYPE_FAST \<or> m_type m = MUTEX_TYPE_COUNTING_FAST \<and> m_count m = 0"
  shows "pthread_mutex_unlock E mutex s =
    Some (Ret 0 (s\<lparr>mutexes := (mutexes s)(pm := Some (m\<lparr>m_owner := NULL\<rparr>)),
                   kern := kst (DosReleaseMutexSem E (m_mutex m)) s\<rparr>))"
proof -
  have "run s \<noteq> NULL" using q by (rule quietE)
  moreover have "mutexes s pm = Some m" using m by (simp add: mutex_at_def)
  ultimately show ?thesis
    using q m ty mutex_at_nonnull [OF m(1)]
    by (auto simp: pthread_mutex_unlock_def pthread_mutex_unlock_by_def mutex_at_read retM_def run_simps)
qed

lemma unlock_not_owner:
  assumes q: "quiet s" and m: "mutex_at s mutex pm m" "m_owner m \<noteq> run s"
  shows "pthread_mutex_unlock E mutex s =
    (if m_owner m = NULL then Some (Ret EPERM (with_errno EPERM s))
     else Some (Ret (-1) (with_errno EINVAL s)))"
  using q m mutex_at_nonnull [OF m(1)]
  by (simp add: pthread_mutex_unlock_def pthread_mutex_unlock_by_def mutex_at_read retM_def)

lemma unlock_held:
  assumes law: "mutex_sem E h own" and held: "mutex_held own ty mutex h n s"
    and ty: "ty = MUTEX_TYPE_FAST \<or> ty = MUTEX_TYPE_COUNTING_FAST"
  shows "\<exists>s'. pthread_mutex_unlock E mutex s = Some (Ret 0 s') \<and> quiet s' \<and> cur s' = cur s \<and>
           (\<exists>pm m. mutex_at s' mutex pm m \<and> m_type m = ty \<and> m_mutex m = h \<and> m_owner m = NULL) \<and>
           own (kern s') = (if n \<le> 1 then None else Some (cur s, n - 1))"
proof -
  from held obtain pm m where q: "quiet s" and o: "own (kern s) = Some (cur s, n)"
    and m: "mutex_at s mutex pm m" "m_type m = ty" "m_mutex m = h" "m_owner m = run s"
      "ty = MUTEX_TYPE_COUNTING_FAST \<longrightarrow> m_count m = 0"
    by (auto simp: mutex_held_def)
  let ?s' = "s\<lparr>mutexes := (mutexes s)(pm := Some (m\<lparr>m_owner := NULL\<rparr>)),
               kern := kst (DosReleaseMutexSem E h) s\<rparr>"
  have at: "mutex_at ?s' mutex pm (m\<lparr>m_owner := NULL\<rparr>)"
    using mutex_at_new [OF m(1)] by simp
  have "pthread_mutex_unlock E mutex s = Some (Ret 0 ?s')"
    using unlock_owner [OF q m(1,4), of E] m ty by auto
  moreover have "\<exists>pm m. mutex_at ?s' mutex pm m \<and> m_type m = ty \<and> m_mutex m = h \<and> m_owner m = NULL"
    by (rule exI [of _ pm], rule exI [of _ "m\<lparr>m_owner := NULL\<rparr>"]) (use at m in simp)
  ultimately show ?thesis
    using q sem_release [OF law o] by (intro exI [of _ ?s']) auto
qed

text \<open>Trying, on every branch.\<close>

lemma trylock_own_fast:
  assumes "mutex_held own MUTEX_TYPE_FAST mutex h n s"
  shows "pthread_mutex_trylock E mutex s = Some (Ret EBUSY (with_errno EBUSY s))"
  using assms
  by (auto simp: mutex_held_def pthread_mutex_trylock_def mutex_at_read Let_def retM_def dest: mutex_at_nonnull)

lemma trylock_granted:
  assumes q: "quiet s" and m: "mutex_at s mutex pm m"
    and ty: "m_type m = MUTEX_TYPE_FAST \<and> m_owner m \<noteq> run s \<or> m_type m = MUTEX_TYPE_COUNTING_FAST"
    and r: "DosRequestMutexSem E (m_mutex m) SEM_IMMEDIATE_RETURN s = Some (Ret 0 (s\<lparr>kern := k\<rparr>))"
  shows "pthread_mutex_trylock E mutex s = Some (Ret 0 (s\<lparr>kern := k, mutexes := (mutexes s)
     (pm := Some (if m_type m = MUTEX_TYPE_FAST then m\<lparr>m_owner := run s\<rparr>
                  else m\<lparr>m_owner := run s, m_count := 0\<rparr>))\<rparr>))"
proof -
  note R = bindM_run [where m = "DosRequestMutexSem E (m_mutex m) SEM_IMMEDIATE_RETURN", OF r]
  have mk: "mutex_at (s\<lparr>kern := k\<rparr>) mutex pm m" using m by simp
  have m': "mutex_at (s\<lparr>kern := k, mutexes := (mutexes s)(pm := Some (m\<lparr>m_owner := run s\<rparr>))\<rparr>)
      mutex pm (m\<lparr>m_owner := run s\<rparr>)"
    using mutex_at_new [OF mk] by simp
  from ty show ?thesis
  proof
    assume "m_type m = MUTEX_TYPE_FAST \<and> m_owner m \<noteq> run s"
    then show ?thesis
      using q m mutex_at_nonnull [OF m]
      by (simp add: pthread_mutex_trylock_def mutex_at_read mutex_at_write deliver_quiet_at
          Let_def R retM_def)
  next
    assume "m_type m = MUTEX_TYPE_COUNTING_FAST"
    then show ?thesis
      using q m mutex_at_nonnull [OF m]
      by (simp add: pthread_mutex_trylock_def mutex_at_read mutex_at_write mutex_at_write [OF m']
          deliver_quiet_at Let_def R retM_def)
  qed
qed

lemma trylock_refused:
  assumes q: "quiet s" and m: "mutex_at s mutex pm m" "m_owner m \<noteq> run s"
    and ty: "m_type m = MUTEX_TYPE_FAST \<or> m_type m = MUTEX_TYPE_COUNTING_FAST"
    and r: "DosRequestMutexSem E (m_mutex m) SEM_IMMEDIATE_RETURN s =
              Some (Ret ERROR_TIMEOUT (s\<lparr>kern := k\<rparr>))"
  shows "pthread_mutex_trylock E mutex s = Some (Ret (-1) (with_errno EBUSY (s\<lparr>kern := k\<rparr>)))"
  using q m ty mutex_at_nonnull [OF m(1)]
  by (auto simp: pthread_mutex_trylock_def mutex_at_read deliver_quiet_at Let_def retM_def
      bindM_run [where m = "DosRequestMutexSem E (m_mutex m) SEM_IMMEDIATE_RETURN", OF r])

end
