(* ===== verification/MutexSpec.thy ===== *)
theory MutexSpec
  imports Mutex
begin

text \<open>
  What \<^verbatim>\<open>uthread_mutex.c\<close> promises.  The contracts of a lock are stated as locales,
  clients are proved against them, and the two mutex types of the library are shown to meet
  them.  Then come the properties of the component, with the places where the code does not
  do what its mutex types are for.
\<close>

section \<open>The contract of a lock\<close>

locale lock_contract =
  fixes lock :: "(int, 's) prog" and unlock :: "(int, 's) prog"
    and avail :: "'s \<Rightarrow> bool" and held :: "'s \<Rightarrow> bool"
  assumes lock_avail: "avail s \<Longrightarrow> \<exists>t. lock s = Some (Ret 0 t) \<and> held t"
    and unlock_returns: "held s \<Longrightarrow> \<exists>t. unlock s = Some (Ret 0 t) \<and> avail t"
begin

text \<open>A section between the two calls runs with the lock held and gives it back.\<close>

lemma critical_section:
  assumes "avail s" and body: "\<And>t. held t \<Longrightarrow> \<exists>u. body t = Some (Ret x u) \<and> held u"
  shows "\<exists>s'. seqM lock (bindM body (\<lambda>x. seqM unlock (retM x))) s = Some (Ret x s') \<and> avail s'"
proof -
  from lock_avail [OF assms(1)] obtain t where t: "lock s = Some (Ret 0 t)" "held t" by blast
  from body [OF t(2)] obtain u where u: "body t = Some (Ret x u)" "held u" by blast
  from unlock_returns [OF u(2)] obtain v where "unlock u = Some (Ret 0 v)" "avail v" by blast
  with t u show ?thesis by (simp add: seqM_def bindM_def)
qed

text \<open>The lock can be taken and given back any number of times.\<close>

lemma cycles:
  "avail s \<Longrightarrow> \<exists>s'. collectM n (bindM lock (\<lambda>a. bindM unlock (\<lambda>b. retM (a, b)))) s =
     Some (Ret (replicate n (0, 0)) s') \<and> avail s'"
proof (induction n arbitrary: s)
  case 0
  then show ?case by simp
next
  case (Suc n)
  from lock_avail [OF Suc.prems] obtain t where t: "lock s = Some (Ret 0 t)" "held t" by blast
  from unlock_returns [OF t(2)] obtain u where u: "unlock t = Some (Ret 0 u)" "avail u" by blast
  from Suc.IH [OF u(2)] t u show ?case by (auto simp: bindM_def retM_def)
qed

end

text \<open>A lock that its holder cannot take twice; one that can be tried.\<close>

locale exclusive_lock = lock_contract +
  fixes refused :: "int \<Rightarrow> 's \<Rightarrow> 's \<Rightarrow> bool"
  assumes relock_held: "held s \<Longrightarrow> \<exists>e t. lock s = Some (Ret e t) \<and> e \<noteq> 0 \<and> refused e s t"
    and refused_held: "held s \<Longrightarrow> refused e s t \<Longrightarrow> held t"
begin

text \<open>A refused second lock changes nothing for the holder: one unlock still frees the lock.\<close>

lemma refused_then_unlock:
  assumes "held s"
  shows "\<exists>e t. bindM lock (\<lambda>e. seqM unlock (retM e)) s = Some (Ret e t) \<and> e \<noteq> 0 \<and> avail t"
proof -
  from relock_held [OF assms] obtain e u where
    u: "lock s = Some (Ret e u)" "e \<noteq> 0" "refused e s u" by blast
  from unlock_returns [OF refused_held [OF assms u(3)]] obtain t where
    "unlock u = Some (Ret 0 t)" "avail t" by blast
  with u show ?thesis by (simp add: seqM_def bindM_def retM_def)
qed

end

locale try_lock = lock_contract +
  fixes trylock :: "(int, 's) prog"
  assumes try_avail: "avail s \<Longrightarrow> \<exists>t. trylock s = Some (Ret 0 t) \<and> held t"
begin

lemma try_then_unlock:
  assumes "avail s"
  shows "\<exists>t. bindM trylock (\<lambda>e. seqM unlock (retM e)) s = Some (Ret 0 t) \<and> avail t"
proof -
  from try_avail [OF assms] obtain u where u: "trylock s = Some (Ret 0 u)" "held u" by blast
  from unlock_returns [OF u(2)] obtain t where "unlock u = Some (Ret 0 t)" "avail t" by blast
  with u show ?thesis by (simp add: seqM_def bindM_def retM_def)
qed

end

section \<open>The mutexes of the library meet the contract\<close>

text \<open>The states a client of one mutex may be in, with the law of its semaphore.\<close>

definition may_lock ::
  "'k os \<Rightarrow> ('k \<Rightarrow> (tid \<times> nat) option) \<Rightarrow> u32 \<Rightarrow> addr \<Rightarrow> hmtx \<Rightarrow> 'k world \<Rightarrow> bool" where
  "may_lock E own ty mutex h s \<longleftrightarrow> mutex_sem E h own \<and> mutex_free own ty mutex h s"

definition has_lock ::
  "'k os \<Rightarrow> ('k \<Rightarrow> (tid \<times> nat) option) \<Rightarrow> u32 \<Rightarrow> addr \<Rightarrow> hmtx \<Rightarrow> 'k world \<Rightarrow> bool" where
  "has_lock E own ty mutex h s \<longleftrightarrow> mutex_sem E h own \<and> mutex_held own ty mutex h 1 s"

lemma may_lock_lock:
  assumes "may_lock E own ty mutex h s" "ty = MUTEX_TYPE_FAST \<or> ty = MUTEX_TYPE_COUNTING_FAST"
  shows "\<exists>t. pthread_mutex_lock E mutex s = Some (Ret 0 t) \<and> has_lock E own ty mutex h t"
  using lock_free assms unfolding may_lock_def has_lock_def by blast

lemma has_lock_unlock:
  assumes "has_lock E own ty mutex h s" "ty = MUTEX_TYPE_FAST \<or> ty = MUTEX_TYPE_COUNTING_FAST"
  shows "\<exists>t. pthread_mutex_unlock E mutex s = Some (Ret 0 t) \<and> may_lock E own ty mutex h t"
  using unlock_held [of E h own ty mutex 1 s] assms
  by (auto simp: may_lock_def has_lock_def mutex_free_def)

lemma may_lock_try:
  assumes a: "may_lock E own ty mutex h s"
    and ty: "ty = MUTEX_TYPE_FAST \<or> ty = MUTEX_TYPE_COUNTING_FAST"
  shows "\<exists>t. pthread_mutex_trylock E mutex s = Some (Ret 0 t) \<and> has_lock E own ty mutex h t"
proof -
  from a obtain pm m where law: "mutex_sem E h own" and q: "quiet s" "own (kern s) = None"
    and m: "mutex_at s mutex pm m" "m_type m = ty" "m_mutex m = h" "m_owner m = NULL"
    by (auto simp: may_lock_def mutex_free_def)
  from sem_request_free [OF law q(2), of SEM_IMMEDIATE_RETURN] obtain k where
    k: "DosRequestMutexSem E (m_mutex m) SEM_IMMEDIATE_RETURN s = Some (Ret 0 (s\<lparr>kern := k\<rparr>))"
      "own k = Some (cur s, 1)"
    using m(3) by auto
  let ?m = "if m_type m = MUTEX_TYPE_FAST then m\<lparr>m_owner := run s\<rparr> else m\<lparr>m_owner := run s, m_count := 0\<rparr>"
  let ?t = "s\<lparr>kern := k, mutexes := (mutexes s)(pm := Some ?m)\<rparr>"
  have "m_type m = MUTEX_TYPE_FAST \<and> m_owner m \<noteq> run s \<or> m_type m = MUTEX_TYPE_COUNTING_FAST"
    using ty m q(1) by (auto elim: quietE)
  from trylock_granted [OF q(1) m(1) this k(1)]
  have "pthread_mutex_trylock E mutex s = Some (Ret 0 ?t)" .
  moreover have "mutex_at ?t mutex pm ?m"
    using m(1) by (simp add: mutex_at_def)
  then have "has_lock E own ty mutex h ?t"
    using law q k(2) m(2,3)
    by (auto simp: has_lock_def mutex_held_def intro!: exI [of _ pm] exI [of _ ?m])
  ultimately show ?thesis by blast
qed

lemma may_lock_request:
  assumes "may_lock E own MUTEX_TYPE_FAST mutex h s"
  shows "\<exists>k g. pthread_mutex_lock E mutex s = Some (Ret 0 ((back_from s mutex k)\<lparr>mutexes := g\<rparr>)) \<and>
               has_lock E own MUTEX_TYPE_FAST mutex h ((back_from s mutex k)\<lparr>mutexes := g\<rparr>) \<and>
               DosRequestMutexSem E h SEM_INDEFINITE_WAIT (waiting_in s mutex) = Some (Ret 0 ((waiting_in s mutex)\<lparr>kern := k\<rparr>))"
proof -
  from assms obtain pm m where law: "mutex_sem E h own" and q: "quiet s" "own (kern s) = None"
    and m: "mutex_at s mutex pm m" "m_type m = MUTEX_TYPE_FAST" "m_mutex m = h" "m_owner m = NULL"
    by (auto simp: may_lock_def mutex_free_def)
  have ne: "m_owner m \<noteq> run s" using q(1) m(4) by (auto elim: quietE)
  from sem_granted [OF law, of s 0 SEM_INDEFINITE_WAIT mutex] q obtain k where
    k: "DosRequestMutexSem E (m_mutex m) SEM_INDEFINITE_WAIT (waiting_in s mutex) =
          Some (Ret 0 ((waiting_in s mutex)\<lparr>kern := k\<rparr>))" "own k = Some (cur s, 1)"
    using m(3) by auto
  from lock_granted [OF q(1) m(1,2) ne k(1)]
    held_after_grant [where own = own and k = k and n = 1 and m' = "m\<lparr>m_owner := run s\<rparr>",
      OF q(1) m(1,3) k(2)] law m k(1)
  show ?thesis by (auto simp: has_lock_def)
qed

lemma may_lock_lock_state:
  assumes "may_lock E own MUTEX_TYPE_FAST mutex h s"
  shows "\<exists>k g. pthread_mutex_lock E mutex s = Some (Ret 0 ((back_from s mutex k)\<lparr>mutexes := g\<rparr>)) \<and>
               has_lock E own MUTEX_TYPE_FAST mutex h ((back_from s mutex k)\<lparr>mutexes := g\<rparr>)"
  using may_lock_request [OF assms] by blast

definition deadlk_refused :: "int \<Rightarrow> 'k world \<Rightarrow> 'k world \<Rightarrow> bool" where
  "deadlk_refused e s t \<longleftrightarrow> e = EDEADLK \<and> t = with_errno EDEADLK s"

lemma has_lock_errno [simp]:
  "has_lock E own ty mutex h (s\<lparr>errnos := e\<rparr>) = has_lock E own ty mutex h s"
  by (simp add: has_lock_def mutex_held_def)

lemma relock_deadlk:
  "has_lock E own MUTEX_TYPE_FAST mutex h s \<Longrightarrow>
     pthread_mutex_lock E mutex s = Some (Ret EDEADLK (with_errno EDEADLK s))"
  by (auto simp: has_lock_def intro: relock_fast)

interpretation fm: exclusive_lock "pthread_mutex_lock E mutex" "pthread_mutex_unlock E mutex"
    "may_lock E own MUTEX_TYPE_FAST mutex h" "has_lock E own MUTEX_TYPE_FAST mutex h"
    deadlk_refused
  for E :: "'k os" and own and mutex and h
  by unfold_locales (auto simp: deadlk_refused_def relock_deadlk may_lock_lock has_lock_unlock)

interpretation fm_try: try_lock "pthread_mutex_lock E mutex" "pthread_mutex_unlock E mutex"
    "may_lock E own MUTEX_TYPE_FAST mutex h" "has_lock E own MUTEX_TYPE_FAST mutex h"
    "pthread_mutex_trylock E mutex"
  for E :: "'k os" and own and mutex and h
  by unfold_locales (simp_all add: may_lock_try)

interpretation cm_try: try_lock "pthread_mutex_lock E mutex" "pthread_mutex_unlock E mutex"
    "may_lock E own MUTEX_TYPE_COUNTING_FAST mutex h" "has_lock E own MUTEX_TYPE_COUNTING_FAST mutex h"
    "pthread_mutex_trylock E mutex"
  for E :: "'k os" and own and mutex and h
  by unfold_locales (simp_all add: may_lock_try may_lock_lock has_lock_unlock)

section \<open>Creating a mutex\<close>

text \<open>The type an attribute object selects.\<close>

definition selects :: "'k world \<Rightarrow> addr \<Rightarrow> u32 \<Rightarrow> bool" where
  "selects s attr ty \<longleftrightarrow>
     (if attr = NULL then ty = MUTEX_TYPE_FAST
      else case ptrs s attr of
             None \<Rightarrow> False
           | Some pa \<Rightarrow>
               if pa = NULL then ty = MUTEX_TYPE_FAST
               else case mattrs s pa of
                      None \<Rightarrow> False
                    | Some a \<Rightarrow> ma_type a = ty \<and> (ty = MUTEX_TYPE_FAST \<or> ty = MUTEX_TYPE_COUNTING_FAST))"

definition new_mutex :: "'k os \<Rightarrow> u32 \<Rightarrow> 'k world \<Rightarrow> pthread_mutex" where
  "new_mutex E ty s =
     (let m = (junk_mutex E (s\<lparr>kern := kst (malloc E) s\<rparr>))\<lparr>m_flags := 0\<rparr>
      in if ty = MUTEX_TYPE_FAST then m else m\<lparr>m_count := 0\<rparr>)"

lemma mutex_init_run:
  assumes i: "inited s" and m: "mutex \<noteq> NULL" "ptrs s mutex = Some v" and ty: "selects s attr ty"
    and p: "kres (malloc E) s = p" "p \<noteq> NULL"
    and c: "kres (DosCreateMutexSem E) (s\<lparr>kern := kst (malloc E) s\<rparr>) = (rc, h)"
  shows "pthread_mutex_init E mutex attr s =
    Some (Ret 0 (s\<lparr>kern := kst (DosCreateMutexSem E) (s\<lparr>kern := kst (malloc E) s\<rparr>),
      mutexes := (mutexes s)(p := if rc = 0 then Some ((new_mutex E ty s)
         \<lparr>m_flags := MUTEX_FLAGS_INITED, m_owner := NULL, m_type := ty, m_mutex := h\<rparr>) else None),
      ptrs := (ptrs s)(mutex := Some (if rc = 0 then p else NULL))\<rparr>))"
proof -
  have "ty = MUTEX_TYPE_FAST \<or> ty = MUTEX_TYPE_COUNTING_FAST"
    using ty by (auto simp: selects_def split: if_splits option.splits)
  then show ?thesis
    using assms
    by (auto simp: pthread_mutex_init_def selects_def run_simps retM_def new_mutex_def Let_def
        MUTEX_FLAGS_INITED_def fresh_def free_def
        split: if_splits option.splits)
qed

section \<open>Destroying a mutex\<close>

text \<open>The loop gives back what the calling thread owns; it never ends for anybody else's mutex.\<close>

lemma close_loop_free:
  assumes "mutex_sem E h own" and "own (kern s) = None"
  shows "\<exists>k. close_mutex_loop E h s = Some (Ret () (s\<lparr>kern := k\<rparr>)) \<and> own k = None"
  using sem_close [OF assms(1), of s] assms(2)
  by (subst close_mutex_loop.simps) (auto simp: retM_def)

lemma close_loop_owned:
  assumes law: "mutex_sem E h own" and "own (kern s) = Some (cur s, n)"
  shows "\<exists>k. close_mutex_loop E h s = Some (Ret () (s\<lparr>kern := k\<rparr>)) \<and> own k = None"
  using assms(2)
proof (induction n arbitrary: s)
  case 0
  then show ?case
    using sem_close [OF law, of s] sem_release [OF law, of "s\<lparr>kern := kst (DosCloseMutexSem E h) s\<rparr>" 0]
      close_loop_free [OF law, of "s\<lparr>kern := kst (DosReleaseMutexSem E h)
          (s\<lparr>kern := kst (DosCloseMutexSem E h) s\<rparr>)\<rparr>"]
    by (subst close_mutex_loop.simps) (auto simp: retM_def)
next
  case (Suc n)
  let ?s = "s\<lparr>kern := kst (DosReleaseMutexSem E h) (s\<lparr>kern := kst (DosCloseMutexSem E h) s\<rparr>)\<rparr>"
  have "\<exists>k. close_mutex_loop E h ?s = Some (Ret () (?s\<lparr>kern := k\<rparr>)) \<and> own k = None"
  proof (cases n)
    case 0
    with Suc.prems show ?thesis
      using sem_close [OF law, of s] sem_release [OF law, of "s\<lparr>kern := kst (DosCloseMutexSem E h) s\<rparr>" "Suc n"]
      by (intro close_loop_free [OF law]) auto
  next
    case (Suc m)
    with Suc.prems show ?thesis
      using sem_close [OF law, of s] sem_release [OF law, of "s\<lparr>kern := kst (DosCloseMutexSem E h) s\<rparr>" "Suc n"]
      by (intro Suc.IH) auto
  qed
  then show ?case
    using Suc.prems sem_close [OF law, of s]
    by (subst close_mutex_loop.simps) (auto simp: retM_def)
qed

lemma close_loop_returns:
  fixes s :: "'k world" and own :: "'k \<Rightarrow> (tid \<times> nat) option"
  shows "close_mutex_loop E h s = Some y \<Longrightarrow> mutex_sem E h own \<longrightarrow>
     own (kern s) = None \<or> (\<exists>n. own (kern s) = Some (cur s, n))"
proof (erule close_mutex_loop.raw_induct [rotated])
  fix loop :: "'k os \<Rightarrow> hmtx \<Rightarrow> 'k world \<Rightarrow> (unit, 'k world) res option"
    and E h and s :: "'k world" and y
  assume IH: "\<And>E h s y. loop E h s = Some y \<Longrightarrow>
      mutex_sem E h own \<longrightarrow> own (kern s) = None \<or> (\<exists>n. own (kern s) = Some (cur s, n))"
    and st: "bindM (kcall (DosCloseMutexSem E h)) (\<lambda>rc s.
       if rc = ERROR_SEM_BUSY
       then seqM (kcall (DosReleaseMutexSem E h)) (loop E h) s
       else retM () s) s = Some y"
  show "mutex_sem E h own \<longrightarrow> own (kern s) = None \<or> (\<exists>n. own (kern s) = Some (cur s, n))"
  proof (rule impI, rule ccontr)
    assume law: "mutex_sem E h own"
      and "\<not> (own (kern s) = None \<or> (\<exists>n. own (kern s) = Some (cur s, n)))"
    then obtain u n where u: "own (kern s) = Some (u, n)" "u \<noteq> cur s" by (cases "own (kern s)") auto
    let ?s = "s\<lparr>kern := kst (DosCloseMutexSem E h) s\<rparr>"
    have o: "own (kern ?s) = Some (u, n)" "u \<noteq> cur ?s"
      using sem_close [OF law, of s] u by simp_all
    have "loop E h (?s\<lparr>kern := kst (DosReleaseMutexSem E h) ?s\<rparr>) = Some y"
      using st sem_close [OF law, of s] u by simp
    from IH [OF this] law sem_release_other [OF law o] u show False by simp
  qed
qed

text \<open>Destroying returns exactly when no other thread owns the semaphore.\<close>

definition wiped :: "pthread_mutex \<Rightarrow> pthread_mutex" where
  "wiped m = (if m_type m = MUTEX_TYPE_COUNTING_FAST then m\<lparr>m_count := 0\<rparr> else m)
      \<lparr>m_type := 0, m_flags := 0, m_mutex := 0\<rparr>"

lemma destroy_unfold:
  assumes i: "inited s" and m: "mutex_at s mutex pm m"
    and ty: "m_type m = MUTEX_TYPE_FAST \<or> m_type m = MUTEX_TYPE_COUNTING_FAST"
  shows "pthread_mutex_destroy E mutex s =
    seqM (close_mutex_loop E (m_mutex m))
      (seqM (upd_mutex pm (\<lambda>m. m\<lparr>m_owner := NULL\<rparr>)) (retM 0))
      (s\<lparr>mutexes := (mutexes s)(pm := Some (wiped m))\<rparr>)"
  using assms mutex_at_nonnull [OF m]
  by (auto simp: pthread_mutex_destroy_def mutex_at_def run_simps wiped_def)

lemma destroy_run:
  assumes law: "mutex_sem E (m_mutex m) own" and i: "inited s" and m: "mutex_at s mutex pm m"
    and ty: "m_type m = MUTEX_TYPE_FAST \<or> m_type m = MUTEX_TYPE_COUNTING_FAST"
    and o: "own (kern s) = None \<or> own (kern s) = Some (cur s, n)"
  shows "\<exists>k. pthread_mutex_destroy E mutex s = Some (Ret 0 (s\<lparr>kern := k,
     mutexes := (mutexes s)(pm := Some ((wiped m)\<lparr>m_owner := NULL\<rparr>))\<rparr>)) \<and> own k = None"
proof -
  let ?s = "s\<lparr>mutexes := (mutexes s)(pm := Some (wiped m))\<rparr>"
  from o close_loop_free [OF law, of ?s] close_loop_owned [OF law, of ?s n] obtain k where
    k: "close_mutex_loop E (m_mutex m) ?s = Some (Ret () (?s\<lparr>kern := k\<rparr>))" "own k = None"
    by auto
  show ?thesis
    using k mutex_at_nonnull [OF m]
    by (auto simp: destroy_unfold [OF i m ty] seqM_run [where m = "close_mutex_loop E (m_mutex m)", OF k(1)]
        retM_def)
qed

lemma destroy_hangs:
  assumes law: "mutex_sem E (m_mutex m) own" and i: "inited s" and m: "mutex_at s mutex pm m"
    and ty: "m_type m = MUTEX_TYPE_FAST \<or> m_type m = MUTEX_TYPE_COUNTING_FAST"
    and o: "own (kern s) = Some (u, n)" "u \<noteq> cur s"
  shows "pthread_mutex_destroy E mutex s = None"
proof -
  let ?s = "s\<lparr>mutexes := (mutexes s)(pm := Some (wiped m))\<rparr>"
  have "close_mutex_loop E (m_mutex m) ?s = None"
    using close_loop_returns [of E "m_mutex m" ?s _ own] law o
    by (cases "close_mutex_loop E (m_mutex m) ?s") auto
  then show ?thesis
    by (simp add: destroy_unfold [OF i m ty] seqM_def bindM_def)
qed

section \<open>Properties\<close>

lemma demo_quiet [simp]: "quiet demo_world"
  by (simp add: quiet_def)

lemma demo_mutexes [simp]:
  "mutex_at demo_world 30 40 demo_mutex"
  "mutex_at demo_world 31 41 (demo_mutex\<lparr>m_type := MUTEX_TYPE_COUNTING_FAST, m_mutex := 9\<rparr>)"
  by (simp_all add: mutex_at_def)

lemma demo_may_lock:
  "may_lock demo_os (\<lambda>k. sem k 7) MUTEX_TYPE_FAST 30 7 demo_world"
  "may_lock demo_os (\<lambda>k. sem k 9) MUTEX_TYPE_COUNTING_FAST 31 9 demo_world"
  by (auto simp: may_lock_def mutex_free_def demo_mutex_sem intro!: exI demo_mutexes)

definition demo_holding :: "demo_kern world" where
  "demo_holding = demo_world\<lparr>
     mutexes := [40 \<mapsto> demo_mutex\<lparr>m_owner := 10\<rparr>,
       41 \<mapsto> demo_mutex\<lparr>m_type := MUTEX_TYPE_COUNTING_FAST, m_mutex := 9, m_owner := 10\<rparr>],
     kern := demo_kern0\<lparr>sem := [7 \<mapsto> (1, 1), 9 \<mapsto> (1, 1)]\<rparr>\<rparr>"

lemma demo_has_lock:
  "has_lock demo_os (\<lambda>k. sem k 7) MUTEX_TYPE_FAST 30 7 demo_holding"
  "has_lock demo_os (\<lambda>k. sem k 9) MUTEX_TYPE_COUNTING_FAST 31 9 demo_holding"
  by (auto simp: has_lock_def mutex_held_def demo_mutex_sem demo_holding_def mutex_at_def)

text \<open>C21: A free mutex, of either type, is taken at once by \<^verbatim>\<open>pthread_mutex_lock\<close>: the call returns 0,
  the calling thread is recorded as its owner with a recursion count of 0 for a counting
  mutex, the semaphore has exactly one request by the caller, and beside the wait data of the
  caller nothing else changes.\<close>

theorem lock_takes_free_mutex:
  assumes law: "mutex_sem E (m_mutex m) own" and q: "quiet s" and m: "mutex_at s mutex pm m"
    and ty: "m_type m = MUTEX_TYPE_FAST \<and> c = m_count m \<or> m_type m = MUTEX_TYPE_COUNTING_FAST \<and> c = 0"
    and free: "m_owner m = NULL" "own (kern s) = None"
  shows "\<exists>k. own k = Some (cur s, 1) \<and> pthread_mutex_lock E mutex s =
    Some (Ret 0 ((back_from s mutex k)\<lparr>mutexes := (mutexes s)(pm := Some (m\<lparr>m_owner := run s, m_count := c\<rparr>))\<rparr>))"
proof -
  have ne: "m_owner m \<noteq> run s" using q free by (auto elim: quietE)
  from ty show ?thesis
  proof
    assume t: "m_type m = MUTEX_TYPE_FAST \<and> c = m_count m"
    from sem_granted [OF law, of s 0 SEM_INDEFINITE_WAIT mutex] free obtain k where
      "DosRequestMutexSem E (m_mutex m) SEM_INDEFINITE_WAIT (waiting_in s mutex) =
         Some (Ret 0 ((waiting_in s mutex)\<lparr>kern := k\<rparr>))" "own k = Some (cur s, 1)" by auto
    with lock_granted [OF q m _ ne] t show ?thesis by auto
  next
    assume t: "m_type m = MUTEX_TYPE_COUNTING_FAST \<and> c = 0"
    from sem_granted [OF law, of s 0 SEM_IMMEDIATE_RETURN mutex] free obtain k where
      "DosRequestMutexSem E (m_mutex m) SEM_IMMEDIATE_RETURN (waiting_in s mutex) =
         Some (Ret 0 ((waiting_in s mutex)\<lparr>kern := k\<rparr>))" "own k = Some (cur s, 1)" by auto
    with lock_granted_counting [OF q m] t show ?thesis by auto
  qed
qed

theorem lock_takes_free_mutex_witness:
  "\<exists>k. sem k 7 = Some (1, 1) \<and> pthread_mutex_lock demo_os 30 demo_world =
    Some (Ret 0 ((back_from demo_world 30 k)\<lparr>mutexes := (mutexes demo_world)
      (40 := Some (demo_mutex\<lparr>m_owner := 10, m_count := 0\<rparr>))\<rparr>))"
  using lock_takes_free_mutex [of demo_os demo_mutex "\<lambda>k. sem k 7" demo_world 30 40 0]
  by (simp add: demo_mutex_sem)

text \<open>A fast mutex can be locked and unlocked in turn any number of times: every call
  returns 0 and the mutex is free again after each pair.\<close>

lemma fast_mutex_cycles:
  assumes "may_lock E own MUTEX_TYPE_FAST mutex h s"
  shows "\<exists>s'. collectM n (bindM (pthread_mutex_lock E mutex)
            (\<lambda>a. bindM (pthread_mutex_unlock E mutex) (\<lambda>b. retM (a, b)))) s =
          Some (Ret (replicate n (0, 0)) s') \<and> may_lock E own MUTEX_TYPE_FAST mutex h s'"
  by (rule fm.cycles [OF assms])

lemma fast_mutex_cycles_witness:
  "\<exists>s'. collectM 3 (bindM (pthread_mutex_lock demo_os 30)
            (\<lambda>a. bindM (pthread_mutex_unlock demo_os 30) (\<lambda>b. retM (a, b)))) demo_world =
          Some (Ret (replicate 3 (0, 0)) s') \<and> may_lock demo_os (\<lambda>k. sem k 7) MUTEX_TYPE_FAST 30 7 s'"
  by (rule fast_mutex_cycles [OF demo_may_lock(1)])

text \<open>Locking a fast mutex the calling thread already holds is refused with \<^verbatim>\<open>EDEADLK\<close> (the
  returned value and \<^verbatim>\<open>errno\<close>) instead of blocking, and one unlock afterwards frees it.\<close>

lemma fast_relock_refused:
  assumes "has_lock E own MUTEX_TYPE_FAST mutex h s"
  shows "pthread_mutex_lock E mutex s = Some (Ret EDEADLK (with_errno EDEADLK s)) \<and>
    (\<exists>e t. bindM (pthread_mutex_lock E mutex) (\<lambda>e. seqM (pthread_mutex_unlock E mutex) (retM e)) s =
             Some (Ret e t) \<and> e \<noteq> 0 \<and> may_lock E own MUTEX_TYPE_FAST mutex h t)"
  using relock_deadlk [OF assms] fm.refused_then_unlock [OF assms] by simp

lemma fast_relock_refused_witness:
  "pthread_mutex_lock demo_os 30 demo_holding = Some (Ret EDEADLK (with_errno EDEADLK demo_holding))"
  using fast_relock_refused [OF demo_has_lock(1)] by simp

text \<open>A counting mutex does not count.  When its holder locks it again the call returns 0,
  but the first unlock clears the owner while the semaphore is still owned, and the second
  unlock is refused with \<^verbatim>\<open>EPERM\<close>: the semaphore stays with the thread and every other thread
  blocks.\<close>

lemma counting_mutex_not_released:
  assumes held: "has_lock E own MUTEX_TYPE_COUNTING_FAST mutex h s"
  shows "\<exists>s1 s2. pthread_mutex_lock E mutex s = Some (Ret 0 s1) \<and>
    pthread_mutex_unlock E mutex s1 = Some (Ret 0 s2) \<and> own (kern s2) = Some (cur s, 1) \<and>
    pthread_mutex_unlock E mutex s2 = Some (Ret EPERM (with_errno EPERM s2))"
proof -
  from held have law: "mutex_sem E h own"
    and h: "mutex_held own MUTEX_TYPE_COUNTING_FAST mutex h 1 s" by (simp_all add: has_lock_def)
  from relock_counting [OF law h] obtain s1 where s1: "pthread_mutex_lock E mutex s = Some (Ret 0 s1)"
    "mutex_held own MUTEX_TYPE_COUNTING_FAST mutex h (Suc 1) s1" "cur s1 = cur s" by blast
  from unlock_held [OF law s1(2)] obtain s2 pm m where
    s2: "pthread_mutex_unlock E mutex s1 = Some (Ret 0 s2)" "quiet s2" "own (kern s2) = Some (cur s1, 1)"
      "mutex_at s2 mutex pm m" "m_owner m = NULL" by auto
  have "m_owner m \<noteq> run s2" using s2(2,5) by (auto elim: quietE)
  with unlock_not_owner [OF s2(2,4)] s1 s2 show ?thesis by auto
qed

lemma counting_mutex_not_released_witness:
  "\<exists>s1 s2. pthread_mutex_lock demo_os 31 demo_holding = Some (Ret 0 s1) \<and>
    pthread_mutex_unlock demo_os 31 s1 = Some (Ret 0 s2) \<and> sem (kern s2) 9 = Some (1, 1) \<and>
    pthread_mutex_unlock demo_os 31 s2 = Some (Ret EPERM (with_errno EPERM s2))"
  using counting_mutex_not_released [OF demo_has_lock(2)] by (simp add: demo_holding_def)

text \<open>C22: Only the owner can unlock.  A mutex nobody holds gives \<^verbatim>\<open>EPERM\<close>, one that another thread
  holds gives -1 with \<^verbatim>\<open>EINVAL\<close> in \<^verbatim>\<open>errno\<close>, and beside \<^verbatim>\<open>errno\<close> nothing changes.\<close>

theorem unlock_needs_owner:
  assumes "quiet s" and "mutex_at s mutex pm m" and "m_owner m \<noteq> run s"
  shows "pthread_mutex_unlock E mutex s =
    (if m_owner m = NULL then Some (Ret EPERM (with_errno EPERM s))
     else Some (Ret (-1) (with_errno EINVAL s)))"
  by (rule unlock_not_owner [OF assms])

theorem unlock_needs_owner_witness:
  "pthread_mutex_unlock demo_os 30 demo_world = Some (Ret EPERM (with_errno EPERM demo_world))"
  using unlock_needs_owner [of demo_world 30 40 demo_mutex demo_os]
  by simp

text \<open>\<^verbatim>\<open>pthread_mutex_trylock\<close> never blocks: it takes a free mutex and returns 0; when another
  thread owns the semaphore it returns -1 with \<^verbatim>\<open>EBUSY\<close> in \<^verbatim>\<open>errno\<close> and changes no structure; when
  the caller itself holds the (fast) mutex it returns the positive number \<^verbatim>\<open>EBUSY\<close> instead.\<close>

lemma trylock_cases:
  assumes law: "mutex_sem E h own" and q: "quiet s"
    and m: "mutex_at s mutex pm m" "m_mutex m = h" "m_type m = MUTEX_TYPE_FAST"
  shows "case own (kern s) of
      None \<Rightarrow> m_owner m = NULL \<longrightarrow> (\<exists>t. pthread_mutex_trylock E mutex s = Some (Ret 0 t) \<and>
                                      mutex_held own MUTEX_TYPE_FAST mutex h 1 t)
    | Some (u, n) \<Rightarrow>
        (u \<noteq> cur s \<and> m_owner m \<noteq> run s \<longrightarrow>
           (\<exists>k. pthread_mutex_trylock E mutex s = Some (Ret (-1) (with_errno EBUSY (s\<lparr>kern := k\<rparr>))) \<and>
                own k = Some (u, n))) \<and>
        (u = cur s \<and> m_owner m = run s \<longrightarrow>
           pthread_mutex_trylock E mutex s = Some (Ret EBUSY (with_errno EBUSY s)))"
proof (cases "own (kern s)")
  case None
  have "may_lock E own MUTEX_TYPE_FAST mutex h s" if "m_owner m = NULL"
    using that None law q m by (auto simp: may_lock_def mutex_free_def)
  then show ?thesis
    using None may_lock_try [of E own MUTEX_TYPE_FAST mutex h s] by (auto simp: has_lock_def)
next
  case (Some o')
  obtain u n where o: "o' = (u, n)" by (cases o')
  have "mutex_held own MUTEX_TYPE_FAST mutex h n s" if "u = cur s" "m_owner m = run s"
    using that q m Some o by (auto simp: mutex_held_def)
  moreover have "\<exists>k. pthread_mutex_trylock E mutex s = Some (Ret (-1) (with_errno EBUSY (s\<lparr>kern := k\<rparr>))) \<and>
                own k = Some (u, n)" if "u \<noteq> cur s" "m_owner m \<noteq> run s"
    using that sem_request_other [OF law, of s u n] Some o trylock_refused [OF q m(1) that(2)] m by auto
  ultimately show ?thesis using Some o by (auto intro: trylock_own_fast)
qed

lemma trylock_cases_witness:
  "\<exists>t. pthread_mutex_trylock demo_os 30 demo_world = Some (Ret 0 t) \<and>
       mutex_held (\<lambda>k. sem k 7) MUTEX_TYPE_FAST 30 7 1 t"
  using trylock_cases [OF demo_mutex_sem demo_quiet demo_mutexes(1), of 7] by simp

text \<open>\<^verbatim>\<open>pthread_mutex_init\<close> with the default or a chosen type creates a mutex that is free and can be
  locked: if memory and a semaphore are to be had it returns 0, the variable points to the new
  structure, and \<^verbatim>\<open>pthread_mutex_lock\<close> then succeeds.\<close>

lemma mutex_init_then_lock:
  assumes q: "quiet s" and m: "mutex \<noteq> NULL" "ptrs s mutex = Some v" and ty: "selects s attr ty"
    and p: "kres (malloc E) s \<noteq> NULL"
    and c: "kres (DosCreateMutexSem E) (s\<lparr>kern := kst (malloc E) s\<rparr>) = (0, h)"
    and law: "mutex_sem E h own" and new: "own (kst (DosCreateMutexSem E) (s\<lparr>kern := kst (malloc E) s\<rparr>)) = None"
  shows "\<exists>s' t. pthread_mutex_init E mutex attr s = Some (Ret 0 s') \<and> may_lock E own ty mutex h s' \<and>
           pthread_mutex_lock E mutex s' = Some (Ret 0 t) \<and> has_lock E own ty mutex h t"
proof -
  have ty2: "ty = MUTEX_TYPE_FAST \<or> ty = MUTEX_TYPE_COUNTING_FAST"
    using ty by (auto simp: selects_def split: if_splits option.splits)
  from mutex_init_run [OF quiet_inited [OF q] m ty refl p c] obtain s' where
    s': "pthread_mutex_init E mutex attr s = Some (Ret 0 s')" "may_lock E own ty mutex h s'"
    using q m p law new
    by (auto simp: may_lock_def mutex_free_def mutex_at_def quiet_def split: option.splits)
  with may_lock_lock [OF s'(2) ty2] show ?thesis by blast
qed

lemma mutex_init_then_lock_witness:
  "\<exists>s' t. pthread_mutex_init demo_os 33 NULL demo_world = Some (Ret 0 s') \<and>
     pthread_mutex_lock demo_os 33 s' = Some (Ret 0 t) \<and> sem (kern t) 100 = Some (cur t, 1)"
proof -
  have "selects demo_world NULL MUTEX_TYPE_FAST" by (simp add: selects_def)
  moreover have "kres (malloc demo_os) demo_world = 1000"
    "kres (DosCreateMutexSem demo_os) (demo_world\<lparr>kern := kst (malloc demo_os) demo_world\<rparr>) = (0, 100)"
    "sem (kst (DosCreateMutexSem demo_os) (demo_world\<lparr>kern := kst (malloc demo_os) demo_world\<rparr>)) 100 = None"
    by (simp_all add: kres_def kst_def demo_os_def demo_new_def)
  ultimately show ?thesis
    using mutex_init_then_lock [of demo_world 33 NULL NULL MUTEX_TYPE_FAST demo_os 100 "\<lambda>k. sem k 100"]
    by (auto simp: has_lock_def mutex_held_def demo_mutex_sem)
qed

text \<open>When the operating system cannot create the semaphore, \<^verbatim>\<open>pthread_mutex_init\<close> reports
  success all the same: it returns 0 and leaves a null pointer in the variable, and the first
  lock of the mutex then fails with \<^verbatim>\<open>EINVAL\<close>.\<close>

lemma mutex_init_hides_failure:
  assumes q: "quiet s" and m: "mutex \<noteq> NULL" "ptrs s mutex = Some v"
    and p: "kres (malloc E) s \<noteq> NULL"
    and c: "kres (DosCreateMutexSem E) (s\<lparr>kern := kst (malloc E) s\<rparr>) = (rc, h)" "rc \<noteq> 0"
  shows "\<exists>s'. pthread_mutex_init E mutex NULL s = Some (Ret 0 s') \<and> ptrs s' mutex = Some NULL \<and>
           pthread_mutex_lock E mutex s' = Some (Ret (-1) (with_errno EINVAL s'))"
proof -
  have ty: "selects s NULL MUTEX_TYPE_FAST" by (simp add: selects_def)
  from mutex_init_run [OF quiet_inited [OF q] m ty refl p c(1)] c(2) obtain s' where
    s': "pthread_mutex_init E mutex NULL s = Some (Ret 0 s')" "ptrs s' mutex = Some NULL" "quiet s'"
    using q by (auto simp: quiet_def split: option.splits)
  then have "pthread_mutex_lock E mutex s' = Some (Ret (-1) (with_errno EINVAL s'))"
    using m by (simp add: pthread_mutex_lock_def Let_def deliver_quiet_at retM_def)
  with s' show ?thesis by blast
qed

lemma mutex_init_hides_failure_witness:
  "\<exists>s'. pthread_mutex_init (demo_os\<lparr>DosCreateMutexSem := \<lambda>t k. ((8, 0), k)\<rparr>) 33 NULL demo_world =
     Some (Ret 0 s') \<and> ptrs s' 33 = Some NULL"
  using mutex_init_hides_failure [of demo_world 33 NULL "demo_os\<lparr>DosCreateMutexSem := \<lambda>t k. ((8, 0), k)\<rparr>" 8 0]
  by (auto simp: kres_def kst_def demo_os_def)

text \<open>\<^verbatim>\<open>pthread_mutex_destroy\<close> closes a mutex that is free or that the caller holds, however often
  it requested it: it releases every request, returns 0 and leaves a structure of no type.  For
  a mutex that another thread holds it never returns.\<close>

lemma destroy_returns_iff:
  assumes "mutex_sem E (m_mutex m) own" and "inited s" and "mutex_at s mutex pm m"
    and "m_type m = MUTEX_TYPE_FAST \<or> m_type m = MUTEX_TYPE_COUNTING_FAST"
  shows "case own (kern s) of
      None \<Rightarrow> \<exists>k. own k = None \<and> pthread_mutex_destroy E mutex s = Some (Ret 0 (s\<lparr>kern := k,
        mutexes := (mutexes s)(pm := Some ((wiped m)\<lparr>m_owner := NULL\<rparr>))\<rparr>))
    | Some (u, n) \<Rightarrow>
        if u = cur s
        then \<exists>k. own k = None \<and> pthread_mutex_destroy E mutex s = Some (Ret 0 (s\<lparr>kern := k,
          mutexes := (mutexes s)(pm := Some ((wiped m)\<lparr>m_owner := NULL\<rparr>))\<rparr>))
        else pthread_mutex_destroy E mutex s = None"
proof (cases "own (kern s)")
  case None
  then show ?thesis using destroy_run [OF assms] by auto
next
  case (Some o')
  then show ?thesis
    using destroy_run [OF assms] destroy_hangs [OF assms] by (cases o') auto
qed

lemma destroy_returns_iff_witness:
  "pthread_mutex_destroy demo_os 30 (demo_holding\<lparr>cur := 2\<rparr>) = None \<and>
   (\<exists>t. pthread_mutex_destroy demo_os 31 demo_holding = Some (Ret 0 t))"
  using destroy_returns_iff [OF demo_mutex_sem, of "demo_holding\<lparr>cur := 2\<rparr>" 30 40 "demo_mutex\<lparr>m_owner := 10\<rparr>"]
    destroy_returns_iff [OF demo_mutex_sem, of demo_holding 31 41
      "demo_mutex\<lparr>m_type := MUTEX_TYPE_COUNTING_FAST, m_mutex := 9, m_owner := 10\<rparr>"]
  by (auto simp: demo_holding_def mutex_at_def inited_def run_def)

end
