(* ===== verification/MutexConc.thy ===== *)
theory MutexConc
  imports MutexSpec
begin

text \<open>
  Threads that lock and unlock one fast mutex at the same time.  \<open>MutexSpec\<close> runs a call of one
  thread from beginning to end; here the calls are cut at their accesses to shared data, the
  field \<^verbatim>\<open>m_owner\<close> and the OS/2 semaphore, and the pieces of different threads interleave in
  any order.  The last sections tie the two: each branch of the functions takes
  these steps one by one, in the states in which it makes its requests.
\<close>

section \<open>Steps\<close>

text \<open>
  Where a thread is in \<^verbatim>\<open>pthread_mutex_lock\<close> (before the request, after it) or
  \<^verbatim>\<open>pthread_mutex_unlock\<close> (past the owner test, after \<^verbatim>\<open>m_owner\<close> is cleared), or outside both,
  without the mutex or with it.
\<close>

datatype place = Outside | L_Requesting | L_Granted | Inside | U_Checked | U_Cleared

record lock_state =
  owner_field :: addr
  sem_owner :: "addr option"
  place_of :: "addr \<Rightarrow> place"

inductive lock_step :: "addr \<Rightarrow> lock_state \<Rightarrow> lock_state \<Rightarrow> bool" where
  check: "t \<noteq> NULL \<Longrightarrow> place_of s t = Outside \<Longrightarrow> owner_field s \<noteq> t \<Longrightarrow>
    lock_step t s (s\<lparr>place_of := (place_of s)(t := L_Requesting)\<rparr>)"
| deadlk: "t \<noteq> NULL \<Longrightarrow> owner_field s = t \<Longrightarrow> lock_step t s s"
| request: "t \<noteq> NULL \<Longrightarrow> place_of s t = L_Requesting \<Longrightarrow> sem_owner s = None \<Longrightarrow>
    lock_step t s (s\<lparr>sem_owner := Some t, place_of := (place_of s)(t := L_Granted)\<rparr>)"
| own: "t \<noteq> NULL \<Longrightarrow> place_of s t = L_Granted \<Longrightarrow>
    lock_step t s (s\<lparr>owner_field := t, place_of := (place_of s)(t := Inside)\<rparr>)"
| refuse: "t \<noteq> NULL \<Longrightarrow> owner_field s \<noteq> t \<Longrightarrow> lock_step t s s"
| unlock: "t \<noteq> NULL \<Longrightarrow> place_of s t = Outside \<or> place_of s t = Inside \<Longrightarrow> owner_field s = t \<Longrightarrow>
    lock_step t s (s\<lparr>place_of := (place_of s)(t := U_Checked)\<rparr>)"
| clear: "t \<noteq> NULL \<Longrightarrow> place_of s t = U_Checked \<Longrightarrow>
    lock_step t s (s\<lparr>owner_field := NULL, place_of := (place_of s)(t := U_Cleared)\<rparr>)"
| release: "t \<noteq> NULL \<Longrightarrow> place_of s t = U_Cleared \<Longrightarrow>
    lock_step t s (s\<lparr>sem_owner := None, place_of := (place_of s)(t := Outside)\<rparr>)"

inductive lock_run :: "lock_state \<Rightarrow> lock_state \<Rightarrow> bool" where
  stop: "lock_run s s"
| step: "lock_run s u \<Longrightarrow> lock_step t u v \<Longrightarrow> lock_run s v"

definition lock_start :: lock_state where
  "lock_start = \<lparr>owner_field = NULL, sem_owner = None, place_of = (\<lambda>_. Outside)\<rparr>"

inductive_cases lock_stepE: "lock_step t s u"

text \<open>In these places a thread owns the semaphore, and in those it is recorded as the owner.\<close>

definition owns_sem :: "place \<Rightarrow> bool" where
  "owns_sem p \<longleftrightarrow> p = L_Granted \<or> p = Inside \<or> p = U_Checked \<or> p = U_Cleared"

definition is_owner :: "place \<Rightarrow> bool" where
  "is_owner p \<longleftrightarrow> p = Inside \<or> p = U_Checked"

section \<open>The invariant\<close>

definition lock_inv :: "lock_state \<Rightarrow> bool" where
  "lock_inv s \<longleftrightarrow> (\<forall>t. owns_sem (place_of s t) \<longleftrightarrow> sem_owner s = Some t) \<and>
     (\<forall>t. is_owner (place_of s t) \<longleftrightarrow> owner_field s = t \<and> t \<noteq> NULL)"

lemmas places = owns_sem_def is_owner_def

lemma lock_inv_start: "lock_inv lock_start"
  by (auto simp: lock_inv_def lock_start_def places)

lemma lock_invD:
  assumes "lock_inv s"
  shows "owns_sem (place_of s t) \<longleftrightarrow> sem_owner s = Some t"
    and "is_owner (place_of s t) \<longleftrightarrow> owner_field s = t \<and> t \<noteq> NULL"
  using assms unfolding lock_inv_def by blast+

lemma is_owner_owns: "is_owner p \<Longrightarrow> owns_sem p"
  by (auto simp: places)

lemma owner_field_sem: "lock_inv s \<Longrightarrow> owner_field s \<noteq> NULL \<Longrightarrow> sem_owner s = Some (owner_field s)"
  using lock_invD is_owner_owns by metis

lemma lock_inv_step: "lock_step t s u \<Longrightarrow> lock_inv s \<Longrightarrow> lock_inv u"
proof (induction rule: lock_step.induct)
  case (check t s)
  then show ?case using lock_invD [OF check(4), of t] by (auto simp: lock_inv_def places)
next
  case (request t s)
  then show ?case using lock_invD [OF request(4)] by (auto simp: lock_inv_def places)
next
  case (own t s)
  have sem: "sem_owner s = Some t" using lock_invD(1) [OF own(3), of t] own(2) by (simp add: places)
  then have "owner_field s = NULL"
    using owner_field_sem [OF own(3)] lock_invD(2) [OF own(3), of t] own(2)
    by (cases "owner_field s = NULL") (auto simp: places)
  with sem show ?case using own lock_invD [OF own(3)] by (auto simp: lock_inv_def places)
next
  case (unlock t s)
  then show ?case using lock_invD [OF unlock(4), of t] by (auto simp: lock_inv_def places)
next
  case (clear t s)
  have "owner_field s = t" using lock_invD(2) [OF clear(3), of t] clear(2) by (simp add: places)
  with clear show ?case using lock_invD [OF clear(3)] by (auto simp: lock_inv_def places)
next
  case (release t s)
  have "sem_owner s = Some t" using lock_invD(1) [OF release(3), of t] release(2) by (simp add: places)
  moreover have "owner_field s \<noteq> t" using lock_invD(2) [OF release(3), of t] release(1,2) by (simp add: places)
  ultimately show ?case using release lock_invD [OF release(3)] by (auto simp: lock_inv_def places)
qed

lemma lock_inv_run: "lock_run s u \<Longrightarrow> lock_inv s \<Longrightarrow> lock_inv u"
  by (induction rule: lock_run.induct) (auto intro: lock_inv_step)


section \<open>The functions are paths of steps\<close>

text \<open>What the steps see of a state of the process in which the threads are at the places \<open>pl\<close>.\<close>

definition lock_view ::
  "('k \<Rightarrow> (tid \<times> nat) option) \<Rightarrow> addr \<Rightarrow> 'k world \<Rightarrow> (addr \<Rightarrow> place) \<Rightarrow> lock_state" where
  "lock_view own mutex s pl =
     \<lparr>owner_field = (case ptrs s mutex of None \<Rightarrow> NULL
                    | Some pm \<Rightarrow> (case mutexes s pm of None \<Rightarrow> NULL | Some m \<Rightarrow> m_owner m)),
      sem_owner = map_option (\<lambda>(u, n). threadstore s u) (own (kern s)),
      place_of = pl\<rparr>"

lemma lock_view_at:
  "mutex_at s mutex pm m \<Longrightarrow> lock_view own mutex s pl =
     \<lparr>owner_field = m_owner m, sem_owner = map_option (\<lambda>(u, n). threadstore s u) (own (kern s)), place_of = pl\<rparr>"
  by (simp add: lock_view_def mutex_at_def)

lemma lock_run_trans: "lock_run s u \<Longrightarrow> lock_step t u v \<Longrightarrow> v = w \<Longrightarrow> lock_run s w"
  by (auto intro: lock_run.step)

lemma lock_path:
  assumes "t \<noteq> NULL" "pl t = Outside"
  shows "lock_run \<lparr>owner_field = NULL, sem_owner = None, place_of = pl\<rparr>
                  \<lparr>owner_field = t, sem_owner = Some t, place_of = pl(t := Inside)\<rparr>"
proof -
  let ?s = "\<lparr>owner_field = NULL, sem_owner = None, place_of = pl\<rparr>"
  have "lock_run ?s (?s\<lparr>place_of := pl(t := L_Requesting)\<rparr>)"
    by (rule lock_run_trans [OF lock_run.stop lock_step.check]) (use assms in auto)
  then have "lock_run ?s (?s\<lparr>sem_owner := Some t, place_of := pl(t := L_Granted)\<rparr>)"
    by (rule lock_run_trans [OF _ lock_step.request]) (use assms in auto)
  then have "lock_run ?s (?s\<lparr>owner_field := t, sem_owner := Some t, place_of := pl(t := Inside)\<rparr>)"
    by (rule lock_run_trans [OF _ lock_step.own]) (use assms in auto)
  then show ?thesis by simp
qed

section \<open>The pieces of the functions\<close>

text \<open>The state in which the holder's unlock makes the release: the owner is cleared, the semaphore still owned.\<close>

definition owner_cleared :: "'k world \<Rightarrow> addr \<Rightarrow> pthread_mutex \<Rightarrow> 'k world" where
  "owner_cleared s pm m = s\<lparr>mutexes := (mutexes s)(pm := Some (m\<lparr>m_owner := NULL\<rparr>))\<rparr>"

text \<open>The state a request is granted in: the other threads may have changed the mutex while the caller waited.\<close>

definition granted :: "'k world \<Rightarrow> addr \<Rightarrow> 'k \<Rightarrow> (addr \<Rightarrow> pthread_mutex option) \<Rightarrow> 'k world" where
  "granted s mutex k mx = (waiting_in s mutex)\<lparr>kern := k, mutexes := mx\<rparr>"

lemma view_simps [simp]:
  "lock_view own mutex (with_errno e s) pl = lock_view own mutex s pl"
  "lock_view own mutex (waiting_in s mutex') pl = lock_view own mutex s pl"
  by (simp_all add: lock_view_def waiting_in_def split: option.split)

lemma mutex_at_granted: "mutex_at (granted s mutex k mx) mutex pm m \<longleftrightarrow> mutex_at (s\<lparr>mutexes := mx\<rparr>) mutex pm m"
  by (simp add: mutex_at_def granted_def waiting_in_def)

text \<open>A lock by the owner is refused; any other goes to the semaphore, and takes the mutex in the state in which it is granted.\<close>

lemma lock_when_granted:
  assumes q: "quiet s" and m: "mutex_at s mutex pm m" "m_type m = MUTEX_TYPE_FAST" "m_owner m \<noteq> run s"
    and r: "DosRequestMutexSem E (m_mutex m) SEM_INDEFINITE_WAIT (waiting_in s mutex) = Some (Ret 0 (granted s mutex k mx))"
    and g: "mutex_at (granted s mutex k mx) mutex pm m'"
  shows "pthread_mutex_lock E mutex s =
    Some (Ret 0 ((back_from s mutex k)\<lparr>mutexes := mx(pm := Some (m'\<lparr>m_owner := run s\<rparr>))\<rparr>))"
proof -
  from q obtain t where t: "run s \<noteq> NULL" "threads s (run s) = Some t" by (rule quietE)
  let ?b = "(back_from s mutex k)\<lparr>mutexes := mx\<rparr>"
  have b: "mutex_at ?b mutex pm m'" using g by (simp add: mutex_at_granted) (simp add: mutex_at_def back_from_def)
  have B: "?b = s\<lparr>kern := k, mutexes := mx,
      threads := (threads s)(run s := Some (t\<lparr>th_data := W_Mutex mutex, th_state := PS_RUNNING\<rparr>))\<rparr>"
    using t by (simp add: back_from_def)
  have w: "bindM (mutex_wait (run s) mutex (DosRequestMutexSem E (m_mutex m) SEM_INDEFINITE_WAIT)) f s = f 0 ?b" for f
    using mutex_wait_run [OF t, where request = "DosRequestMutexSem E (m_mutex m) SEM_INDEFINITE_WAIT" and f = f
        and rc = 0 and k = k and h = mx and mutex = mutex] r t
    by (simp add: waiting_in_def granted_def B)
  have qb: "quiet ?b" using q by simp
  have rb: "run ?b = run s" by (simp add: back_from_def run_def)
  show ?thesis
    using q m mutex_at_nonnull [OF m(1)] qb rb
    by (simp add: pthread_mutex_lock_def mutex_at_read Let_def w mutex_at_write [OF b] retM_def deliver_quiet_at)
qed

lemma lock_call_pieces:
  assumes q: "quiet s" and m: "mutex_at s mutex pm m" "m_type m = MUTEX_TYPE_FAST" and law: "mutex_sem E (m_mutex m) own"
  shows "m_owner m = run s \<Longrightarrow> pthread_mutex_lock E mutex s = Some (Ret EDEADLK (with_errno EDEADLK s)) \<and>
      lock_step (run s) (lock_view own mutex s pl) (lock_view own mutex (with_errno EDEADLK s) pl)"
    and "m_owner m \<noteq> run s \<Longrightarrow> pl (run s) = Outside \<Longrightarrow>
      lock_step (run s) (lock_view own mutex s pl) (lock_view own mutex (waiting_in s mutex) (pl(run s := L_Requesting)))"
    and "own (kern s) = None \<Longrightarrow> pl (run s) = L_Requesting \<Longrightarrow>
      \<exists>k. DosRequestMutexSem E (m_mutex m) SEM_INDEFINITE_WAIT (waiting_in s mutex) = Some (Ret 0 (granted s mutex k (mutexes s))) \<and>
        lock_step (run s) (lock_view own mutex (waiting_in s mutex) pl)
          (lock_view own mutex (granted s mutex k (mutexes s)) (pl(run s := L_Granted)))"
    and "m_owner m \<noteq> run s \<Longrightarrow>
      DosRequestMutexSem E (m_mutex m) SEM_INDEFINITE_WAIT (waiting_in s mutex) = Some (Ret 0 (granted s mutex k mx)) \<Longrightarrow>
      mutex_at (granted s mutex k mx) mutex pm m' \<Longrightarrow> pl (run s) = L_Granted \<Longrightarrow>
      \<exists>u. pthread_mutex_lock E mutex s = Some (Ret 0 u) \<and>
        lock_step (run s) (lock_view own mutex (granted s mutex k mx) pl) (lock_view own mutex u (pl(run s := Inside)))"
proof -
  have r: "run s \<noteq> NULL" using q by (rule quietE)
  note v = lock_view_at [OF m(1)]
  show "pthread_mutex_lock E mutex s = Some (Ret EDEADLK (with_errno EDEADLK s)) \<and>
      lock_step (run s) (lock_view own mutex s pl) (lock_view own mutex (with_errno EDEADLK s) pl)" if "m_owner m = run s"
    using q m r that mutex_at_nonnull [OF m(1)]
    by (auto simp: pthread_mutex_lock_def mutex_at_read Let_def retM_def v intro: lock_step.deadlk)
  show "lock_step (run s) (lock_view own mutex s pl) (lock_view own mutex (waiting_in s mutex) (pl(run s := L_Requesting)))"
    if "m_owner m \<noteq> run s" "pl (run s) = Outside"
    using lock_step.check [of "run s" "lock_view own mutex s pl"] r that by (simp add: v)
  show "\<exists>k. DosRequestMutexSem E (m_mutex m) SEM_INDEFINITE_WAIT (waiting_in s mutex) = Some (Ret 0 (granted s mutex k (mutexes s))) \<and>
        lock_step (run s) (lock_view own mutex (waiting_in s mutex) pl)
          (lock_view own mutex (granted s mutex k (mutexes s)) (pl(run s := L_Granted)))"
    if o: "own (kern s) = None" "pl (run s) = L_Requesting"
  proof -
    obtain k where k: "DosRequestMutexSem E (m_mutex m) SEM_INDEFINITE_WAIT (waiting_in s mutex) = Some (Ret 0 ((waiting_in s mutex)\<lparr>kern := k\<rparr>))"
      "own k = Some (cur s, 1)" using sem_request_free [OF law, of "waiting_in s mutex" SEM_INDEFINITE_WAIT] o(1) by auto
    have g: "granted s mutex k (mutexes s) = (waiting_in s mutex)\<lparr>kern := k\<rparr>"
      by (simp add: granted_def waiting_in_def)
    have "mutex_at (granted s mutex k (mutexes s)) mutex pm m" using m(1) by (simp add: mutex_at_granted)
    note vg = lock_view_at [OF this]
    show ?thesis
      using lock_step.request [of "run s" "lock_view own mutex s pl"] r o k
      by (intro exI [of _ k]) (simp add: v vg, simp add: g run_def waiting_in_def)
  qed
  show "\<exists>u. pthread_mutex_lock E mutex s = Some (Ret 0 u) \<and>
        lock_step (run s) (lock_view own mutex (granted s mutex k mx) pl) (lock_view own mutex u (pl(run s := Inside)))"
    if g: "m_owner m \<noteq> run s" "DosRequestMutexSem E (m_mutex m) SEM_INDEFINITE_WAIT (waiting_in s mutex) = Some (Ret 0 (granted s mutex k mx))"
      "mutex_at (granted s mutex k mx) mutex pm m'" "pl (run s) = L_Granted"
  proof -
    let ?u = "(back_from s mutex k)\<lparr>mutexes := mx(pm := Some (m'\<lparr>m_owner := run s\<rparr>))\<rparr>"
    have u: "mutex_at ?u mutex pm (m'\<lparr>m_owner := run s\<rparr>)"
      using g(3) by (simp add: mutex_at_granted) (simp add: mutex_at_def back_from_def)
    have "lock_step (run s) (lock_view own mutex (granted s mutex k mx) pl) (lock_view own mutex ?u (pl(run s := Inside)))"
      using lock_step.own [of "run s" "lock_view own mutex (granted s mutex k mx) pl"] r g(4)
      by (simp add: lock_view_at [OF g(3)] lock_view_at [OF u]) (simp add: granted_def back_from_def waiting_in_def)
    with lock_when_granted [OF q m g(1-3)] show ?thesis by blast
  qed
qed

text \<open>An unlock by another thread is refused; the owner's clears the field and then makes the release.\<close>

lemma unlock_call_pieces:
  assumes q: "quiet s" and m: "mutex_at s mutex pm m" "m_type m = MUTEX_TYPE_FAST" and law: "mutex_sem E (m_mutex m) own"
  shows "m_owner m \<noteq> run s \<Longrightarrow> \<exists>r e. pthread_mutex_unlock E mutex s = Some (Ret r (with_errno e s)) \<and> r \<noteq> 0 \<and>
      lock_step (run s) (lock_view own mutex s pl) (lock_view own mutex (with_errno e s) pl)"
    and "m_owner m = run s \<Longrightarrow>
      pthread_mutex_unlock_by release E mutex s = seqM (release (m_mutex m)) (retM 0) (owner_cleared s pm m)"
    and "m_owner m = run s \<Longrightarrow> own (kern s) = Some (cur s, 1) \<Longrightarrow> pl (run s) \<in> {Outside, Inside} \<Longrightarrow>
      \<exists>u. pthread_mutex_unlock E mutex s = Some (Ret 0 u) \<and>
        successively (lock_step (run s)) [lock_view own mutex s pl, lock_view own mutex s (pl(run s := U_Checked)),
          lock_view own mutex (owner_cleared s pm m) (pl(run s := U_Cleared)), lock_view own mutex u (pl(run s := Outside))]"
proof -
  have r: "run s \<noteq> NULL" using q by (rule quietE)
  note v = lock_view_at [OF m(1)]
  have c: "mutex_at (owner_cleared s pm m) mutex pm (m\<lparr>m_owner := NULL\<rparr>)" using mutex_at_new [OF m(1)] by (simp add: owner_cleared_def)
  show "\<exists>r e. pthread_mutex_unlock E mutex s = Some (Ret r (with_errno e s)) \<and> r \<noteq> 0 \<and>
      lock_step (run s) (lock_view own mutex s pl) (lock_view own mutex (with_errno e s) pl)" if "m_owner m \<noteq> run s"
  proof -
    have "lock_step (run s) (lock_view own mutex s pl) (lock_view own mutex (with_errno e s) pl)" for e
      using lock_step.refuse [of "run s" "lock_view own mutex s pl"] r that by (simp add: v)
    then show ?thesis using unlock_not_owner [OF q m(1) that, of E] by (cases "m_owner m = NULL") auto
  qed
  show "pthread_mutex_unlock_by release E mutex s = seqM (release (m_mutex m)) (retM 0) (owner_cleared s pm m)"
    if "m_owner m = run s" for release
  proof -
    have "mutexes s pm = Some m" using m by (simp add: mutex_at_def)
    then show ?thesis using q m that r mutex_at_nonnull [OF m(1)]
      by (simp add: pthread_mutex_unlock_by_def mutex_at_read run_simps owner_cleared_def)
  qed
  show "\<exists>u. pthread_mutex_unlock E mutex s = Some (Ret 0 u) \<and>
        successively (lock_step (run s)) [lock_view own mutex s pl, lock_view own mutex s (pl(run s := U_Checked)),
          lock_view own mutex (owner_cleared s pm m) (pl(run s := U_Cleared)), lock_view own mutex u (pl(run s := Outside))]"
    if o: "m_owner m = run s" "own (kern s) = Some (cur s, 1)" "pl (run s) \<in> {Outside, Inside}"
  proof -
    let ?u = "(owner_cleared s pm m)\<lparr>kern := kst (DosReleaseMutexSem E (m_mutex m)) s\<rparr>"
    have u: "mutex_at ?u mutex pm (m\<lparr>m_owner := NULL\<rparr>)" using c by simp
    have "pthread_mutex_unlock E mutex s = Some (Ret 0 ?u)"
      using unlock_owner [OF q m(1) o(1), of E] m(2) by (simp add: owner_cleared_def)
    moreover have "lock_step (run s) (lock_view own mutex s pl) (lock_view own mutex s (pl(run s := U_Checked)))"
      using lock_step.unlock [of "run s" "lock_view own mutex s pl"] r o(1,3) by (simp add: v)
    moreover have "lock_step (run s) (lock_view own mutex s (pl(run s := U_Checked)))
        (lock_view own mutex (owner_cleared s pm m) (pl(run s := U_Cleared)))"
      using lock_step.clear [of "run s" "lock_view own mutex s (pl(run s := U_Checked))"] r
      by (simp add: v lock_view_at [OF c]) (simp add: owner_cleared_def)
    moreover have "lock_step (run s) (lock_view own mutex (owner_cleared s pm m) (pl(run s := U_Cleared)))
        (lock_view own mutex ?u (pl(run s := Outside)))"
      using lock_step.release [of "run s" "lock_view own mutex (owner_cleared s pm m) (pl(run s := U_Cleared))"] r sem_release [OF law o(2)]
      by (simp add: lock_view_at [OF c] lock_view_at [OF u])
    ultimately show ?thesis by (intro exI [of _ ?u]) simp
  qed
qed

section \<open>Properties\<close>

text \<open>C3: Mutual exclusion.  In every interleaving of locks and unlocks from the start at most one
  thread is between its grant and its release, only that thread can be the recorded owner, and
  a thread inside is recorded, so its own unlock is never refused and any other thread's is.\<close>

theorem mutual_exclusion:
  assumes "lock_run lock_start s"
  shows "(owns_sem (place_of s t) \<and> owns_sem (place_of s u) \<longrightarrow> t = u) \<and>
         (place_of s t = Inside \<longrightarrow> owner_field s = t) \<and>
         (owner_field s \<noteq> NULL \<longrightarrow> sem_owner s = Some (owner_field s) \<and>
            is_owner (place_of s (owner_field s)))"
proof -
  have inv: "lock_inv s" by (rule lock_inv_run [OF assms lock_inv_start])
  note I = lock_invD [OF inv]
  have "t = u" if "owns_sem (place_of s t) \<and> owns_sem (place_of s u)"
    using I(1) [of t] I(1) [of u] that by simp
  moreover have "owner_field s = t" if "place_of s t = Inside"
    using I(2) [of t] that by (simp add: places)
  ultimately show ?thesis
    using owner_field_sem [OF inv] I(2) [of "owner_field s"] by blast
qed

theorem mutual_exclusion_witness:
  "\<exists>s. lock_run lock_start s \<and> place_of s 10 = Inside \<and> owner_field s = 10"
proof -
  let ?s = "\<lparr>owner_field = 10, sem_owner = Some 10, place_of = (\<lambda>_. Outside)(10 := Inside)\<rparr>"
  have r: "lock_run lock_start ?s"
    using lock_path [of 10 "\<lambda>_. Outside"] by (simp add: lock_start_def)
  have "owner_field ?s = 10"
    using mutual_exclusion [OF r, THEN conjunct2, THEN conjunct1, of 10] by simp
  with r show ?thesis by (intro exI [of _ ?s]) simp
qed

text \<open>
  C4: The functions take the interleaved steps, one by one.  For every fast mutex a thread with no signal to take calls them on:
  \<^verbatim>\<open>pthread_mutex_lock\<close> by the owner is the step that refuses it; by another thread it is the check, whose step leads to the
  state in which the semaphore is requested, the grant, which for a free semaphore is the request's step, and the step that writes the
  owner, in whatever state the other threads have left when the request is granted.  \<^verbatim>\<open>pthread_mutex_unlock\<close> by another thread than the
  owner is the step that refuses it; by the owner it is the check, then the clearing of the owner and then the release,
  which is made in the state with the owner cleared, whatever the release does.
\<close>

theorem calls_are_paths:
  assumes "quiet s" and "mutex_at s mutex pm m" "m_type m = MUTEX_TYPE_FAST" and "mutex_sem E (m_mutex m) own"
  shows
    "(m_owner m = run s \<longrightarrow> pthread_mutex_lock E mutex s = Some (Ret EDEADLK (with_errno EDEADLK s)) \<and>
        lock_step (run s) (lock_view own mutex s pl) (lock_view own mutex (with_errno EDEADLK s) pl)) \<and>
     (m_owner m \<noteq> run s \<and> pl (run s) = Outside \<longrightarrow>
        lock_step (run s) (lock_view own mutex s pl) (lock_view own mutex (waiting_in s mutex) (pl(run s := L_Requesting)))) \<and>
     (own (kern s) = None \<and> pl (run s) = L_Requesting \<longrightarrow>
        (\<exists>k. DosRequestMutexSem E (m_mutex m) SEM_INDEFINITE_WAIT (waiting_in s mutex) = Some (Ret 0 (granted s mutex k (mutexes s))) \<and>
          lock_step (run s) (lock_view own mutex (waiting_in s mutex) pl)
            (lock_view own mutex (granted s mutex k (mutexes s)) (pl(run s := L_Granted))))) \<and>
     (\<forall>k mx m'. m_owner m \<noteq> run s \<and> pl (run s) = L_Granted \<and> mutex_at (granted s mutex k mx) mutex pm m' \<and>
          DosRequestMutexSem E (m_mutex m) SEM_INDEFINITE_WAIT (waiting_in s mutex) = Some (Ret 0 (granted s mutex k mx)) \<longrightarrow>
        (\<exists>u. pthread_mutex_lock E mutex s = Some (Ret 0 u) \<and>
          lock_step (run s) (lock_view own mutex (granted s mutex k mx) pl) (lock_view own mutex u (pl(run s := Inside))))) \<and>
     (m_owner m \<noteq> run s \<longrightarrow> (\<exists>r e. pthread_mutex_unlock E mutex s = Some (Ret r (with_errno e s)) \<and> r \<noteq> 0 \<and>
        lock_step (run s) (lock_view own mutex s pl) (lock_view own mutex (with_errno e s) pl))) \<and>
     (m_owner m = run s \<longrightarrow> (\<forall>release.
        pthread_mutex_unlock_by release E mutex s = seqM (release (m_mutex m)) (retM 0) (owner_cleared s pm m))) \<and>
     (m_owner m = run s \<and> own (kern s) = Some (cur s, 1) \<and> pl (run s) \<in> {Outside, Inside} \<longrightarrow>
        (\<exists>u. pthread_mutex_unlock E mutex s = Some (Ret 0 u) \<and>
          successively (lock_step (run s)) [lock_view own mutex s pl, lock_view own mutex s (pl(run s := U_Checked)),
            lock_view own mutex (owner_cleared s pm m) (pl(run s := U_Cleared)), lock_view own mutex u (pl(run s := Outside))]))"
  using lock_call_pieces [where pl = pl, OF assms] unlock_call_pieces(1,3) [where pl = pl, OF assms] unlock_call_pieces(2) [OF assms] by blast

theorem calls_are_paths_witness:
  "(\<exists>t k. pthread_mutex_lock demo_os 30 demo_world = Some (Ret 0 t) \<and>
      successively (lock_step 10) [lock_start, lock_view (\<lambda>k. sem k 7) 30 (waiting_in demo_world 30) ((\<lambda>_. Outside)(10 := L_Requesting)),
        lock_view (\<lambda>k. sem k 7) 30 (granted demo_world 30 k (mutexes demo_world)) ((\<lambda>_. Outside)(10 := L_Granted)),
        lock_view (\<lambda>k. sem k 7) 30 t ((\<lambda>_. Outside)(10 := Inside))]) \<and>
   (\<exists>u. pthread_mutex_unlock demo_os 30 demo_holding = Some (Ret 0 u) \<and>
      successively (lock_step 10) [lock_view (\<lambda>k. sem k 7) 30 demo_holding ((\<lambda>_. Outside)(10 := Inside)),
        lock_view (\<lambda>k. sem k 7) 30 demo_holding ((\<lambda>_. Outside)(10 := U_Checked)),
        lock_view (\<lambda>k. sem k 7) 30 (owner_cleared demo_holding 40 (demo_mutex\<lparr>m_owner := 10\<rparr>)) ((\<lambda>_. Outside)(10 := U_Cleared)),
        lock_view (\<lambda>k. sem k 7) 30 u (\<lambda>_. Outside)])"
proof -
  let ?V = "lock_view (\<lambda>k. sem k 7) 30" and ?p = "\<lambda>_::addr. Outside" and ?W = "waiting_in demo_world 30"
  have m: "mutex_at demo_world 30 40 demo_mutex" "m_type demo_mutex = MUTEX_TYPE_FAST" "m_mutex demo_mutex = 7"
    "m_owner demo_mutex = NULL" "run demo_world = 10" "quiet demo_world" "sem (kern demo_world) 7 = None"
    by simp_all
  note law = demo_mutex_sem [of 7]
  note P = calls_are_paths [OF m(6) m(1,2) law [folded m(3)]]
  have start: "?V demo_world ?p = lock_start" by (simp add: lock_view_at [OF m(1)] lock_start_def m)
  have s1: "lock_step 10 lock_start (?V ?W (?p(10 := L_Requesting)))"
    using P [of "?p"] unfolding m(3) m(4) m(5) start by simp
  obtain k where k: "DosRequestMutexSem demo_os 7 SEM_INDEFINITE_WAIT ?W = Some (Ret 0 (granted demo_world 30 k (mutexes demo_world)))"
    and s2: "lock_step 10 (?V ?W (?p(10 := L_Requesting))) (?V (granted demo_world 30 k (mutexes demo_world)) (?p(10 := L_Granted)))"
    using P [of "?p(10 := L_Requesting)"] unfolding m(3) m(5) using m(7) by auto
  have g: "mutex_at (granted demo_world 30 k (mutexes demo_world)) 30 40 demo_mutex"
    by (simp add: mutex_at_def granted_def waiting_in_def)
  obtain t where t: "pthread_mutex_lock demo_os 30 demo_world = Some (Ret 0 t)"
    and s3: "lock_step 10 (?V (granted demo_world 30 k (mutexes demo_world)) (?p(10 := L_Granted))) (?V t (?p(10 := Inside)))"
    using P [of "?p(10 := L_Granted)"] unfolding m(3) m(4) m(5) using k g by auto
  have "\<exists>t k. pthread_mutex_lock demo_os 30 demo_world = Some (Ret 0 t) \<and> successively (lock_step 10) [lock_start,
      ?V ?W (?p(10 := L_Requesting)), ?V (granted demo_world 30 k (mutexes demo_world)) (?p(10 := L_Granted)), ?V t (?p(10 := Inside))]"
    using t s1 s2 s3 by (intro exI [of _ t] exI [of _ k]) simp
  moreover
  let ?m = "demo_mutex\<lparr>m_owner := 10\<rparr>"
  have h: "mutex_at demo_holding 30 40 ?m" "m_type ?m = MUTEX_TYPE_FAST" "m_mutex ?m = 7" "m_owner ?m = 10"
    "run demo_holding = 10" "quiet demo_holding" "sem (kern demo_holding) 7 = Some (cur demo_holding, 1)"
    by (simp_all add: demo_holding_def mutex_at_def)
  have "\<exists>u. pthread_mutex_unlock demo_os 30 demo_holding = Some (Ret 0 u) \<and> successively (lock_step 10) [?V demo_holding (?p(10 := Inside)),
      ?V demo_holding (?p(10 := U_Checked)), ?V (owner_cleared demo_holding 40 ?m) (?p(10 := U_Cleared)), ?V u ?p]"
    using calls_are_paths [OF h(6) h(1,2) law [folded h(3)], of "?p(10 := Inside)"] unfolding h(3) h(4) h(5)
    using h(7) by (auto simp: fun_upd_idem)
  ultimately show ?thesis by blast
qed

end
