(* ===== verification/Cond.thy ===== *)
theory Cond
  imports MutexSpec "HOL-Library.Signed_Division"
begin

text \<open>
  \<^verbatim>\<open>uthread_cond.c\<close>: condition variables over the event semaphores of OS/2.  A
  \<^verbatim>\<open>pthread_cond_t\<close> is a pointer variable, as for mutexes.  The absolute time of
  \<^verbatim>\<open>pthread_cond_timedwait\<close> is a pair of 32-bit words, seconds and nanoseconds, or \<open>None\<close> for
  the null pointer; \<^verbatim>\<open>long\<close> arithmetic is done on words.
\<close>

section \<open>Creating and destroying\<close>

definition pthread_cond_init :: "'k os \<Rightarrow> addr \<Rightarrow> addr \<Rightarrow> (int, 'k world) prog" where
  "pthread_cond_init E cond cond_attr =
     seqM (PTHREAD_INIT E)
     (if cond = NULL then seqM (set_errno EINVAL) (retM (-1))
      else
        bindM (if cond_attr = NULL then retM COND_TYPE_FAST
               else bindM (load ptrs cond_attr) (\<lambda>pa.
                    if pa = NULL then retM COND_TYPE_FAST
                    else bindM (load cattrs pa) (\<lambda>a. retM (ca_type a))))
       (\<lambda>type.
        if type = COND_TYPE_FAST
        then bindM (kcall (DosCreateEventSem E 0x0800)) (\<lambda>(rc, event).
             if rc \<noteq> 0 then seqM (set_errno ENOMEM) (retM (-1))
             else bindM (kcall (malloc E)) (\<lambda>pcond.
                  if pcond = NULL then seqM (set_errno ENOMEM) (retM (-1))
                  else bindM (getM (junk_cond E)) (\<lambda>junk.
                       seqM (fresh conds conds_update pcond junk)
                      (seqM (upd_cond pcond (\<lambda>c. c\<lparr>c_onwait := 0, c_event := event,
                               c_flags := c_flags c OR COND_FLAGS_INITED, c_type := type\<rparr>))
                      (seqM (store_ptr cond pcond) (retM 0))))))
        else seqM (set_errno EINVAL) (retM (-1))))"

text \<open>\<^verbatim>\<open>do { rc = DosCloseEventSem(event); if (rc == 301) DosPostEventSem(event); } while (rc == 301);\<close>\<close>

partial_function (option) close_event_loop ::
  "'k os \<Rightarrow> hev \<Rightarrow> 'k world \<Rightarrow> (apiret, 'k world) res option" where
  "close_event_loop E event s =
     bindM (kcall (DosCloseEventSem E event)) (\<lambda>rc s.
       if rc = ERROR_SEM_BUSY
       then seqM (kcall (DosPostEventSem E event)) (\<lambda>s. close_event_loop E event s) s
       else retM rc s) s"

declare close_event_loop.simps [code]

definition pthread_cond_destroy :: "'k os \<Rightarrow> addr \<Rightarrow> (int, 'k world) prog" where
  "pthread_cond_destroy E cond =
     bindM (if cond = NULL then retM NULL else load ptrs cond) (\<lambda>pc.
     if pc = NULL then seqM (set_errno EINVAL) (retM (-1))
     else bindM (load conds pc) (\<lambda>c.
          let event = c_event c in
          seqM (upd_cond pc (\<lambda>c. c\<lparr>c_event := 0\<rparr>))
         (bindM (if c_type c = COND_TYPE_FAST
                 then bindM (close_event_loop E event) (\<lambda>rc.
                      if rc \<noteq> 0 then seqM (set_errno EINVAL) (retM (-1)) else retM 0)
                 else seqM (set_errno EINVAL) (retM (-1)))
           (\<lambda>rval.
            seqM (if rval = 0
                  then seqM (upd_cond pc (\<lambda>c. c\<lparr>c_flags := 0\<rparr>))
                      (seqM (free conds conds_update pc) (store_ptr cond NULL))
                  else upd_cond pc (\<lambda>c. c\<lparr>c_event := event\<rparr>))
                 (retM rval)))))"

section \<open>Waiting\<close>

definition read_cond :: "addr \<Rightarrow> (pthread_cond, 'k world) prog" where
  "read_cond cond = bindM (load ptrs cond) (\<lambda>pc. load conds pc)"

definition write_cond :: "addr \<Rightarrow> (pthread_cond \<Rightarrow> pthread_cond) \<Rightarrow> (unit, 'k world) prog" where
  "write_cond cond f = bindM (load ptrs cond) (\<lambda>pc. upd_cond pc f)"

text \<open>
  The body \<^verbatim>\<open>pthread_cond_wait\<close> and \<^verbatim>\<open>pthread_cond_timedwait\<close> share; they differ in the
  timeout and in the error a failed wait gives.  The calls of \<^verbatim>\<open>pthread_mutex_unlock\<close> and \<^verbatim>\<open>pthread_mutex_lock\<close> are
  arguments, so that it can be said in which state each is made.
\<close>

definition cond_block_by ::
  "(addr \<Rightarrow> (int, 'k world) prog) \<Rightarrow> (addr \<Rightarrow> (int, 'k world) prog) \<Rightarrow>
   'k os \<Rightarrow> addr \<Rightarrow> addr \<Rightarrow> addr \<Rightarrow> u32 \<Rightarrow> (int, 'k world) prog \<Rightarrow> (int, 'k world) prog" where
  "cond_block_by unlock lock E current cond mutex timeout failed =
     bindM (if cond = NULL then retM NULL else load ptrs cond) (\<lambda>pc.
     bindM
      (if pc = NULL then seqM (set_errno EINVAL) (retM (-1))
       else
         seqM (write_cond cond (\<lambda>c. c\<lparr>c_onwait := c_onwait c + 1\<rparr>))
        (bindM (read_cond cond) (\<lambda>c.
         bindM
          (if c_type c = COND_TYPE_FAST
           then
             seqM (if mutex \<noteq> NULL then bindM (unlock mutex) (\<lambda>r. retM ()) else retM ())
            (seqM (upd_thread current (\<lambda>t. t\<lparr>th_data := W_Cond cond\<rparr>))
            (seqM (upd_thread current (\<lambda>t. t\<lparr>th_state := PS_COND_WAIT\<rparr>))
            (bindM (read_cond cond) (\<lambda>c.
             bindM (DosWaitEventSem E (c_event c) timeout) (\<lambda>rc.
             seqM (upd_thread current (\<lambda>t. t\<lparr>th_state := PS_RUNNING\<rparr>))
             (if rc = 0 then if mutex \<noteq> NULL then lock mutex else retM 0
              else failed))))))
           else seqM (set_errno EINVAL) (retM (-1)))
          (\<lambda>rval. seqM (write_cond cond (\<lambda>c. c\<lparr>c_onwait := c_onwait c - 1\<rparr>)) (retM rval)))))
      (\<lambda>rval. seqM (deliver_if_pending E current) (retM rval)))"

definition cond_block ::
  "'k os \<Rightarrow> addr \<Rightarrow> addr \<Rightarrow> addr \<Rightarrow> u32 \<Rightarrow> (int, 'k world) prog \<Rightarrow> (int, 'k world) prog" where
  "cond_block E = cond_block_by (pthread_mutex_unlock E) (pthread_mutex_lock E) E"

definition pthread_cond_wait_by ::
  "(addr \<Rightarrow> (int, 'k world) prog) \<Rightarrow> (addr \<Rightarrow> (int, 'k world) prog) \<Rightarrow> 'k os \<Rightarrow> addr \<Rightarrow> addr \<Rightarrow> (int, 'k world) prog" where
  "pthread_cond_wait_by unlock lock E cond mutex =
     bindM (pthread_self E) (\<lambda>current.
     cond_block_by unlock lock E current cond mutex SEM_INDEFINITE_WAIT (seqM (set_errno EINVAL) (retM (-1))))"

definition pthread_cond_wait :: "'k os \<Rightarrow> addr \<Rightarrow> addr \<Rightarrow> (int, 'k world) prog" where
  "pthread_cond_wait E = pthread_cond_wait_by (pthread_mutex_unlock E) (pthread_mutex_lock E) E"

lemma pthread_cond_wait_block:
  "pthread_cond_wait E cond mutex =
     bindM (pthread_self E) (\<lambda>current.
     cond_block E current cond mutex SEM_INDEFINITE_WAIT (seqM (set_errno EINVAL) (retM (-1))))"
  by (simp add: pthread_cond_wait_def pthread_cond_wait_by_def cond_block_def)

text \<open>Division of \<^verbatim>\<open>long\<close> values truncates towards zero.\<close>

definition sdiv32 :: "u32 \<Rightarrow> u32 \<Rightarrow> u32" where
  "sdiv32 a b = word_of_int (sint a sdiv sint b)"

definition wait_timeout :: "u32 \<times> u32 \<Rightarrow> u32 \<times> u32 \<Rightarrow> u32" where
  "wait_timeout abstime curtime =
     (let (tv_sec, tv_nsec) = abstime; (now_sec, now_usec) = curtime;
          timeout = (tv_sec - now_sec) * 1000 + sdiv32 (sdiv32 tv_nsec 1000 - now_usec) 1000
      in if sint timeout < 0 then 0 else timeout)"

definition pthread_cond_timedwait ::
  "'k os \<Rightarrow> addr \<Rightarrow> addr \<Rightarrow> (u32 \<times> u32) option \<Rightarrow> (int, 'k world) prog" where
  "pthread_cond_timedwait E cond mutex abstime =
     bindM (pthread_self E) (\<lambda>current.
     bindM (case abstime of
              None \<Rightarrow> retM 0
            | Some t \<Rightarrow> bindM (kcall (gettimeofday E)) (\<lambda>now. retM (wait_timeout t now)))
      (\<lambda>timeout.
       cond_block E current cond mutex timeout (seqM (set_errno ETIME) (retM ETIME))))"

section \<open>Waking\<close>

definition pthread_cond_signal :: "'k os \<Rightarrow> addr \<Rightarrow> (int, 'k world) prog" where
  "pthread_cond_signal E cond =
     bindM (if cond = NULL then retM NULL else load ptrs cond) (\<lambda>pc.
     if pc = NULL then seqM (set_errno EINVAL) (retM (-1))
     else bindM (load conds pc) (\<lambda>c.
          if c_type c = COND_TYPE_FAST
          then seqM (kcall (DosPostEventSem E (c_event c))) (retM 0)
          else seqM (set_errno EINVAL) (retM (-1))))"

text \<open>\<^verbatim>\<open>i = (*cond)->c_onwait; while (i--) rc = DosPostEventSem((*cond)->c_event);\<close>\<close>

definition pthread_cond_broadcast :: "'k os \<Rightarrow> addr \<Rightarrow> (int, 'k world) prog" where
  "pthread_cond_broadcast E cond =
     bindM (read_cond cond) (\<lambda>c.
     if c_type c = COND_TYPE_FAST
     then seqM (forM [0..<unat (c_onwait c)] (\<lambda>i.
                  bindM (read_cond cond) (\<lambda>c.
                  bindM (kcall (DosPostEventSem E (c_event c))) (\<lambda>rc. retM ()))))
               (retM 0)
     else seqM (set_errno EINVAL) (retM (-1)))"

section \<open>Timeouts\<close>

text \<open>The microseconds from now to the deadline.\<close>

definition remaining :: "u32 \<times> u32 \<Rightarrow> u32 \<times> u32 \<Rightarrow> int" where
  "remaining abstime curtime =
     (sint (fst abstime) - sint (fst curtime)) * 1000000 + sint (snd abstime) div 1000
       - sint (snd curtime)"

lemma sint32_of_int: "- (2 ^ 31) \<le> x \<Longrightarrow> x < 2 ^ 31 \<Longrightarrow> sint (word_of_int x :: u32) = x"
  by (simp add: sint_sbintrunc' signed_take_bit_int_eq_self)

lemma word_sint_eq: "(w :: u32) = word_of_int (sint w)"
  by simp

lemma wait_timeout_int:
  assumes d: "\<bar>sint a - sint b\<bar> \<le> 2147482" and ns: "0 \<le> sint n" "sint n < 1000000000"
    and us: "0 \<le> sint u" "sint u < 1000000"
  defines "t \<equiv> (sint a - sint b) * 1000 + (sint n sdiv 1000 - sint u) sdiv 1000"
  shows "sint ((a - b) * 1000 + sdiv32 (sdiv32 n 1000 - u) 1000 :: u32) = t"
    and "\<bar>t * 1000 - remaining (a, n) (b, u)\<bar> < 1000"
proof -
  have n1: "sint n sdiv 1000 = sint n div 1000" using ns by (auto simp: signed_divide_int_def sgn_if)
  have r: "- 1000000 < sint n div 1000 - sint u" "sint n div 1000 - sint u < 1000000"
    using ns us by auto
  let ?r = "sint n div 1000 - sint u"
  have q: "\<bar>?r sdiv 1000 * 1000 - ?r\<bar> < 1000"
    by (auto simp: signed_divide_int_def sgn_if abs_if)
  then have qb: "\<bar>?r sdiv 1000\<bar> \<le> 1000" using r by arith
  have k: "sint (1000 :: u32) = 1000" by simp
  have s1: "sdiv32 n 1000 - u = (word_of_int ?r :: u32)"
    unfolding sdiv32_def k n1 by (subst (3) word_sint_eq) (simp only: wi_hom_syms)
  have "sint (word_of_int ?r :: u32) = ?r"
    using r by (intro sint32_of_int) auto
  then have s2: "sdiv32 (sdiv32 n 1000 - u) 1000 = (word_of_int (?r sdiv 1000) :: u32)"
    unfolding s1 by (simp add: sdiv32_def k)
  have "(a - b) * 1000 = (word_of_int ((sint a - sint b) * 1000) :: u32)"
    by (simp add: wi_hom_syms)
  then have e: "(a - b) * 1000 + sdiv32 (sdiv32 n 1000 - u) 1000 = (word_of_int t :: u32)"
    unfolding s2 t_def n1 by (simp only: wi_hom_syms)
  have "- (2 ^ 31) \<le> t" "t < 2 ^ 31"
    using d qb unfolding t_def n1 by (auto simp: abs_le_iff)
  then show "sint ((a - b) * 1000 + sdiv32 (sdiv32 n 1000 - u) 1000 :: u32) = t"
    unfolding e by (rule sint32_of_int)
  show "\<bar>t * 1000 - remaining (a, n) (b, u)\<bar> < 1000"
    using q unfolding t_def n1 remaining_def by simp
qed

text \<open>C39: The timeout \<^verbatim>\<open>pthread_cond_timedwait\<close> computes is the time left to the deadline to within a
  millisecond, and 0 when the deadline has passed, for deadlines up to 2147482 seconds (24
  days) away and normalised times.\<close>

theorem wait_timeout_accurate:
  assumes "\<bar>sint a - sint b\<bar> \<le> 2147482" and "0 \<le> sint n" "sint n < 1000000000"
    and "0 \<le> sint u" "sint u < 1000000"
  shows "\<bar>sint (wait_timeout (a, n) (b, u)) * 1000 - max 0 (remaining (a, n) (b, u))\<bar> < 1000"
  using wait_timeout_int [OF assms] by (auto simp: wait_timeout_def Let_def)

theorem wait_timeout_accurate_witness:
  "\<bar>sint (wait_timeout (1002, 5000000) (1000, 250000)) * 1000 - 1755000\<bar> < 1000"
  using wait_timeout_accurate [of 1002 1000 5000000 250000] by (simp add: remaining_def)

text \<open>The computed timeout is never the value that means waiting for ever, whatever the two times;
  but a deadline 2147484 to 4294967 seconds ahead overflows the \<^verbatim>\<open>long\<close> product and can become
  no wait at all: for 2147484 seconds the timeout is 0.\<close>

lemma wait_timeout_bounds:
  "0 \<le> sint (wait_timeout t now) \<and> wait_timeout t now \<noteq> SEM_INDEFINITE_WAIT \<and>
   wait_timeout (now_sec + 2147484, 0) (now_sec, 0) = 0"
proof -
  have "0 \<le> sint (wait_timeout t now)" by (simp add: wait_timeout_def Let_def split: prod.split)
  moreover have "sint SEM_INDEFINITE_WAIT = -1" by simp
  ultimately have "wait_timeout t now \<noteq> SEM_INDEFINITE_WAIT" by (metis neg_0_le_iff_le not_one_le_zero)
  with \<open>0 \<le> _\<close> show ?thesis by (simp add: wait_timeout_def sdiv32_def)
qed

section \<open>Waiting with the mutex held\<close>

definition cond_at :: "'k world \<Rightarrow> addr \<Rightarrow> addr \<Rightarrow> pthread_cond \<Rightarrow> bool" where
  "cond_at s cond pc c \<longleftrightarrow> cond \<noteq> NULL \<and> ptrs s cond = Some pc \<and> pc \<noteq> NULL \<and> conds s pc = Some c"

lemma cond_at_read [run_simps]:
  "cond_at s cond pc c \<Longrightarrow> bindM (load ptrs cond) f s = f pc s"
  "cond_at s cond pc c \<Longrightarrow> bindM (load conds pc) g s = g c s"
  "cond_at s cond pc c \<Longrightarrow> bindM (read_cond cond) g s = g c s"
  by (simp_all add: cond_at_def read_cond_def bindM_assoc)

lemma cond_at_write [run_simps]:
  "cond_at s cond pc c \<Longrightarrow>
     seqM (write_cond cond f) n s = n (s\<lparr>conds := (conds s)(pc := Some (f c))\<rparr>)"
  by (simp add: cond_at_def write_cond_def run_simps)

lemma cond_at_nonnull: "cond_at s cond pc c \<Longrightarrow> cond \<noteq> NULL \<and> pc \<noteq> NULL"
  by (simp add: cond_at_def)

lemma cond_at_upd [simp]:
  "cond_at (kern_update f1 s) = cond_at s" "cond_at (threads_update f2 s) = cond_at s"
  "cond_at (errnos_update f3 s) = cond_at s" "cond_at (mutexes_update f4 s) = cond_at s"
  by (simp_all add: cond_at_def fun_eq_iff)

lemma cond_at_new:
  "cond_at s cond pc c \<Longrightarrow> cond_at (s\<lparr>conds := (conds s)(pc := Some c')\<rparr>) cond pc c'"
  by (simp add: cond_at_def)

lemma mutex_at_conds [simp]: "mutex_at (conds_update f s) = mutex_at s"
  by (simp add: mutex_at_def fun_eq_iff)

lemma quiet_conds [simp]: "quiet (conds_update f s) = quiet s"
  by (simp add: quiet_def split: option.split)

lemma back_from_cond [simp]:
  "cond_at (back_from s mutex k) = cond_at s" "conds (back_from s mutex k) = conds s"
  by (simp_all add: back_from_def)

text \<open>The state in which the thread waits: counted, the mutex released, its state recorded.\<close>

definition parked ::
  "'k os \<Rightarrow> 'k world \<Rightarrow> addr \<Rightarrow> addr \<Rightarrow> pthread_cond \<Rightarrow> addr \<Rightarrow> pthread_mutex \<Rightarrow> 'k world" where
  "parked E s cond pc c pm m =
     s\<lparr>conds := (conds s)(pc := Some (c\<lparr>c_onwait := c_onwait c + 1\<rparr>)),
       mutexes := (mutexes s)(pm := Some (m\<lparr>m_owner := NULL\<rparr>)),
       kern := kst (DosReleaseMutexSem E (m_mutex m)) s,
       threads := (threads s)(run s := map_option
         (\<lambda>t. t\<lparr>th_data := W_Cond cond, th_state := PS_COND_WAIT\<rparr>) (threads s (run s)))\<rparr>"

definition resumed :: "'k world \<Rightarrow> 'k world" where
  "resumed s = s\<lparr>threads := (threads s)(run s := map_option (\<lambda>t. t\<lparr>th_state := PS_RUNNING\<rparr>) (threads s (run s)))\<rparr>"

lemma resumed_sel [simp]:
  "run (resumed s) = run s" "cur (resumed s) = cur s" "kern (resumed s) = kern s"
  "mutex_at (resumed s) = mutex_at s" "cond_at (resumed s) = cond_at s"
  "conds (resumed s) = conds s" "mutexes (resumed s) = mutexes s"
  by (simp_all add: resumed_def)

lemma resumed_quiet [simp]: "quiet s \<Longrightarrow> quiet (resumed s)"
  by (auto simp: resumed_def quiet_def split: option.splits)

lemma kres_conds [simp]: "kres f (conds_update g s) = kres f s" "kst f (conds_update g s) = kst f s"
  by (simp_all add: kres_def kst_def)

lemma cond_block_run:
  assumes q: "quiet s" and m: "mutex_at s mutex pm m" "m_owner m = run s" "m_type m = MUTEX_TYPE_FAST"
    and c: "cond_at s cond pc c" "c_type c = COND_TYPE_FAST"
    and w: "DosWaitEventSem E (c_event c) tmo (parked E s cond pc c pm m) = Some (Ret rc s2)"
    and s2: "run s2 = run s" "quiet s2"
  shows "cond_block E (run s) cond mutex tmo failed s =
    bindM (if rc = 0 then pthread_mutex_lock E mutex else failed)
      (\<lambda>rval. seqM (write_cond cond (\<lambda>c. c\<lparr>c_onwait := c_onwait c - 1\<rparr>))
        (seqM (deliver_if_pending E (run s)) (retM rval)))
      (resumed s2)"
proof -
  from q obtain t where t: "run s \<noteq> NULL" "threads s (run s) = Some t" by (rule quietE)
  from s2 obtain t2 where t2: "threads s2 (run s) = Some t2" by (auto elim: quietE)
  let ?c = "c\<lparr>c_onwait := c_onwait c + 1\<rparr>"
  let ?s0 = "s\<lparr>conds := (conds s)(pc := Some ?c)\<rparr>"
  let ?s1 = "?s0\<lparr>mutexes := (mutexes s)(pm := Some (m\<lparr>m_owner := NULL\<rparr>)),
      kern := kst (DosReleaseMutexSem E (m_mutex m)) s\<rparr>"
  have c0: "cond_at ?s0 cond pc ?c" by (rule cond_at_new [OF c(1)])
  have u: "pthread_mutex_unlock E mutex ?s0 = Some (Ret 0 ?s1)"
    using unlock_owner [of ?s0 mutex pm m E] q m by simp
  have p: "parked E s cond pc c pm m = ?s1\<lparr>threads := (threads s)
      (run s := Some (t\<lparr>th_data := W_Cond cond, th_state := PS_COND_WAIT\<rparr>))\<rparr>"
    using t by (simp add: parked_def)
  show ?thesis
    using cond_at_nonnull [OF c(1)] mutex_at_nonnull [OF m(1)] c(2) t t2 s2 c0
    by (simp add: cond_block_def cond_block_by_def cond_at_read [OF c(1)] cond_at_write [OF c(1)]
        cond_at_read [OF c0] bindM_assoc bindM_seq seqM_bind seqM_seq
        bindM_run [where m = "pthread_mutex_unlock E mutex", OF u]
        bindM_run [where m = "DosWaitEventSem E (c_event c) tmo", OF w [unfolded p]]
        cond_at_read [where s = "?s1\<lparr>threads := g\<rparr>" for g] resumed_def fun_upd_def [symmetric])
qed

lemma has_lock_conds [simp]:
  "has_lock E own ty mutex h (conds_update f s) = has_lock E own ty mutex h s"
  by (simp add: has_lock_def mutex_held_def)

lemma parked_sel [simp]:
  "run (parked E s cond pc c pm m) = run s" "cur (parked E s cond pc c pm m) = cur s"
  "kern (parked E s cond pc c pm m) = kst (DosReleaseMutexSem E (m_mutex m)) s"
  by (simp_all add: parked_def)

lemma parked_quiet: "quiet s \<Longrightarrow> quiet (parked E s cond pc c pm m)"
  by (auto simp: quiet_def parked_def split: option.splits)

lemma parked_may_lock:
  assumes law: "mutex_sem E (m_mutex m) own" and q: "quiet s" "own (kern s) = Some (cur s, 1)"
    and m: "mutex_at s mutex pm m" "m_type m = MUTEX_TYPE_FAST"
  shows "may_lock E own MUTEX_TYPE_FAST mutex (m_mutex m) (parked E s cond pc c pm m)"
proof -
  have "mutex_at (parked E s cond pc c pm m) mutex pm (m\<lparr>m_owner := NULL\<rparr>)"
    using m(1) by (simp add: mutex_at_def parked_def)
  then show ?thesis
    using law q sem_release [OF law q(2)] parked_quiet [OF q(1)] m(2)
    by (auto simp: may_lock_def mutex_free_def intro!: exI [of _ pm] exI [of _ "m\<lparr>m_owner := NULL\<rparr>"])
qed

lemma resumed_may_lock [simp]:
  "may_lock E own ty mutex h s \<Longrightarrow> may_lock E own ty mutex h (resumed s)"
  by (auto simp: may_lock_def mutex_free_def)

section \<open>Properties of waiting\<close>

text \<open>C37: \<^verbatim>\<open>pthread_cond_wait\<close> gives the mutex up while it waits, counted in \<^verbatim>\<open>c_onwait\<close>, and when it is
  woken and the mutex is free it returns 0 with the mutex held again and itself uncounted.\<close>

theorem cond_wait_reacquires:
  assumes law: "mutex_sem E (m_mutex m) own" and q: "quiet s" "own (kern s) = Some (cur s, 1)"
    and m: "mutex_at s mutex pm m" "m_owner m = run s" "m_type m = MUTEX_TYPE_FAST"
    and c: "cond_at s cond pc c" "c_type c = COND_TYPE_FAST"
    and w: "DosWaitEventSem E (c_event c) SEM_INDEFINITE_WAIT (parked E s cond pc c pm m) = Some (Ret 0 s2)"
    and s2: "run s2 = run s" "may_lock E own MUTEX_TYPE_FAST mutex (m_mutex m) s2" "cond_at s2 cond pc c2"
  shows "may_lock E own MUTEX_TYPE_FAST mutex (m_mutex m) (parked E s cond pc c pm m) \<and>
    (\<exists>t. pthread_cond_wait E cond mutex s = Some (Ret 0 t) \<and>
         has_lock E own MUTEX_TYPE_FAST mutex (m_mutex m) t \<and>
         conds t pc = Some (c2\<lparr>c_onwait := c_onwait c2 - 1\<rparr>))"
proof
  show "may_lock E own MUTEX_TYPE_FAST mutex (m_mutex m) (parked E s cond pc c pm m)"
    by (rule parked_may_lock [OF law q m(1,3)])
  have q2: "quiet s2" using s2(2) by (simp add: may_lock_def mutex_free_def)
  from may_lock_lock_state [OF resumed_may_lock [OF s2(2)]] obtain k g where
    l: "pthread_mutex_lock E mutex (resumed s2) = Some (Ret 0 ((back_from (resumed s2) mutex k)\<lparr>mutexes := g\<rparr>))"
      "has_lock E own MUTEX_TYPE_FAST mutex (m_mutex m) ((back_from (resumed s2) mutex k)\<lparr>mutexes := g\<rparr>)"
    by blast
  let ?t = "(back_from (resumed s2) mutex k)\<lparr>mutexes := g\<rparr>"
  have c2: "cond_at ?t cond pc c2" using s2(3) by simp
  have "pthread_cond_wait E cond mutex s =
      Some (Ret 0 (?t\<lparr>conds := (conds s2)(pc := Some (c2\<lparr>c_onwait := c_onwait c2 - 1\<rparr>))\<rparr>))"
    using q q2 s2(1)
    by (simp add: cond_at_write [OF c2] pthread_cond_wait_block cond_block_run [OF q(1) m c w s2(1) q2]
        bindM_run [where m = "pthread_mutex_lock E mutex", OF l(1)] deliver_quiet_at retM_def)
  with l(2) show "\<exists>t. pthread_cond_wait E cond mutex s = Some (Ret 0 t) \<and>
         has_lock E own MUTEX_TYPE_FAST mutex (m_mutex m) t \<and>
         conds t pc = Some (c2\<lparr>c_onwait := c_onwait c2 - 1\<rparr>)"
    by auto
qed

lemma demo_cond_at [simp]: "cond_at demo_holding 32 42 demo_cond"
  by (simp add: cond_at_def demo_holding_def)

lemma demo_cond_sel [simp]: "c_type demo_cond = COND_TYPE_FAST" "c_event demo_cond = 8" "c_onwait demo_cond = 0"
  by (simp_all add: demo_cond_def)

definition demo_posted :: "demo_kern world" where
  "demo_posted = demo_holding\<lparr>kern := demo_kern0\<lparr>sem := [7 \<mapsto> (1, 1)], posts := (\<lambda>_. 1)\<rparr>\<rparr>"

lemma demo_posted_facts [simp]:
  "run demo_posted = 10" "cur demo_posted = 1" "quiet demo_posted"
  "mutex_at demo_posted 30 40 (demo_mutex\<lparr>m_owner := 10\<rparr>)" "cond_at demo_posted 32 42 demo_cond"
  "run demo_holding = 10" "cur demo_holding = 1" "quiet demo_holding"
  "mutex_at demo_holding 30 40 (demo_mutex\<lparr>m_owner := 10\<rparr>)"
  by (simp_all add: demo_posted_def demo_holding_def mutex_at_def cond_at_def)

theorem cond_wait_reacquires_witness:
  "\<exists>t. pthread_cond_wait demo_os 32 30 demo_posted = Some (Ret 0 t) \<and>
       has_lock demo_os (\<lambda>k. sem k 7) MUTEX_TYPE_FAST 30 7 t"
proof -
  let ?m = "demo_mutex\<lparr>m_owner := 10\<rparr>"
  let ?p = "parked demo_os demo_posted 32 42 demo_cond 40 ?m"
  let ?s2 = "?p\<lparr>kern := (kern ?p)\<lparr>posts := (posts (kern ?p))(8 := 0)\<rparr>\<rparr>"
  have pl: "may_lock demo_os (\<lambda>k. sem k 7) MUTEX_TYPE_FAST 30 7 ?p"
    using parked_may_lock [of demo_os ?m "\<lambda>k. sem k 7" demo_posted 30 40 32 42 demo_cond]
    by (simp add: demo_mutex_sem) (simp add: demo_posted_def)
  then have "may_lock demo_os (\<lambda>k. sem k 7) MUTEX_TYPE_FAST 30 7 ?s2"
    by (simp add: may_lock_def mutex_free_def)
  moreover have "DosWaitEventSem demo_os 8 SEM_INDEFINITE_WAIT ?p = Some (Ret 0 ?s2)"
    by (simp add: demo_wait_def Let_def kst_def demo_release_def demo_posted_def)
  moreover have "cond_at ?p 32 42 (demo_cond\<lparr>c_onwait := 1\<rparr>)"
    by (simp add: parked_def cond_at_def demo_posted_def demo_holding_def)
  ultimately show ?thesis
    using cond_wait_reacquires [of demo_os ?m "\<lambda>k. sem k 7" demo_posted 30 40 32 42 demo_cond ?s2]
    by (auto simp: demo_mutex_sem demo_posted_def)
qed

text \<open>C38: A \<^verbatim>\<open>pthread_cond_timedwait\<close> that times out returns \<^verbatim>\<open>ETIME\<close> (also in \<^verbatim>\<open>errno\<close>), uncounted, but without
  the mutex: it does not lock it again, so the caller's critical section goes on unprotected.\<close>

theorem timedwait_timeout_unlocked:
  assumes law: "mutex_sem E (m_mutex m) own" and s1: "s1 = s\<lparr>kern := kst (gettimeofday E) s\<rparr>"
    and q: "quiet s" "own (kern s1) = Some (cur s, 1)"
    and m: "mutex_at s mutex pm m" "m_owner m = run s" "m_type m = MUTEX_TYPE_FAST"
    and c: "cond_at s cond pc c" "c_type c = COND_TYPE_FAST"
    and w: "DosWaitEventSem E (c_event c) (wait_timeout t (kres (gettimeofday E) s))
              (parked E s1 cond pc c pm m) = Some (Ret ERROR_TIMEOUT s2)"
    and s2: "run s2 = run s" "may_lock E own MUTEX_TYPE_FAST mutex (m_mutex m) s2" "cond_at s2 cond pc c2"
  shows "\<exists>u. pthread_cond_timedwait E cond mutex (Some t) s = Some (Ret ETIME u) \<and>
           errno u = ETIME \<and> conds u pc = Some (c2\<lparr>c_onwait := c_onwait c2 - 1\<rparr>) \<and>
           may_lock E own MUTEX_TYPE_FAST mutex (m_mutex m) u"
proof -
  have q2: "quiet s2" using s2(2) by (simp add: may_lock_def mutex_free_def)
  let ?u = "(resumed s2)\<lparr>errnos := (errnos (resumed s2))(cur s2 := ETIME)\<rparr>"
  have c2: "cond_at ?u cond pc c2" using s2(3) by simp
  have 1: "quiet s1" "mutex_at s1 mutex pm m" "m_owner m = run s1" "cond_at s1 cond pc c" "run s2 = run s1"
    using s1 q m c s2 by simp_all
  note b = cond_block_run [OF 1(1,2,3) m(3) 1(4) c(2) w 1(5) q2]
  have r: "run s = run s1" using s1 by simp
  have "pthread_cond_timedwait E cond mutex (Some t) s =
      Some (Ret ETIME (?u\<lparr>conds := (conds s2)(pc := Some (c2\<lparr>c_onwait := c_onwait c2 - 1\<rparr>))\<rparr>))"
    using q q2 s2(1) r
    by (simp add: cond_at_write [OF c2] pthread_cond_timedwait_def r b deliver_quiet_at retM_def
        bindM_seq run_simps flip: s1)
  moreover have "may_lock E own MUTEX_TYPE_FAST mutex (m_mutex m)
      (?u\<lparr>conds := (conds s2)(pc := Some (c2\<lparr>c_onwait := c_onwait c2 - 1\<rparr>))\<rparr>)"
    using resumed_may_lock [OF s2(2)] by (simp add: may_lock_def mutex_free_def)
  ultimately show ?thesis by (auto simp: errno_def)
qed

theorem timedwait_timeout_unlocked_witness:
  "\<exists>u. pthread_cond_timedwait demo_os 32 30 (Some (1001, 0)) demo_holding = Some (Ret ETIME u) \<and>
       may_lock demo_os (\<lambda>k. sem k 7) MUTEX_TYPE_FAST 30 7 u"
proof -
  let ?m = "demo_mutex\<lparr>m_owner := 10\<rparr>"
  let ?p = "parked demo_os demo_holding 32 42 demo_cond 40 ?m"
  have "may_lock demo_os (\<lambda>k. sem k 7) MUTEX_TYPE_FAST 30 7 ?p"
    using parked_may_lock [of demo_os ?m "\<lambda>k. sem k 7" demo_holding 30 40 32 42 demo_cond]
    by (simp add: demo_mutex_sem) (simp add: demo_holding_def)
  moreover have g: "kst (gettimeofday demo_os) demo_holding = kern demo_holding"
    "wait_timeout (1001, 0) (kres (gettimeofday demo_os) demo_holding) = 1000"
    by (simp_all add: kst_def kres_def wait_timeout_def sdiv32_def)
  moreover have "DosWaitEventSem demo_os 8 1000 ?p = Some (Ret ERROR_TIMEOUT ?p)"
    by (simp add: demo_wait_def Let_def kst_def demo_release_def demo_holding_def)
  moreover have "cond_at ?p 32 42 (demo_cond\<lparr>c_onwait := 1\<rparr>)"
    by (simp add: parked_def cond_at_def demo_holding_def)
  moreover have "sem (kern demo_holding) 7 = Some (1, 1)" by (simp add: demo_holding_def)
  ultimately show ?thesis
    using timedwait_timeout_unlocked [of demo_os ?m "\<lambda>k. sem k 7" demo_holding demo_holding 30 40 32 42
        demo_cond "(1001, 0)" ?p "demo_cond\<lparr>c_onwait := 1\<rparr>"]
    by (auto simp: demo_mutex_sem)
qed

section \<open>Waking, creating and destroying\<close>

lemma post_loop:
  fixes n :: "unit \<Rightarrow> (int, 'k world) prog"
  assumes "cond_at s cond pc c"
  shows "seqM (forM is (\<lambda>i. bindM (read_cond cond) (\<lambda>c.
                 bindM (kcall (DosPostEventSem E (c_event c))) (\<lambda>rc. retM ())))) m s =
    m (s\<lparr>kern := ((\<lambda>k. snd (DosPostEventSem E (c_event c) (cur s) k)) ^^ length is) (kern s)\<rparr>)"
  using assms
proof (induction "is" arbitrary: s)
  case Nil
  then show ?case by simp
next
  case (Cons i xs)
  let ?s = "s\<lparr>kern := kst (DosPostEventSem E (c_event c)) s\<rparr>"
  have "cond_at ?s cond pc c" using Cons.prems by simp
  note IH = Cons.IH [OF this]
  have "bindM (read_cond cond) (\<lambda>c. bindM (kcall (DosPostEventSem E (c_event c))) (\<lambda>rc. retM ())) s =
      Some (Ret () ?s)"
    using Cons.prems by (simp add: cond_at_read retM_def)
  note st = seqM_run [where m = "bindM (read_cond cond) (\<lambda>c. bindM (kcall (DosPostEventSem E (c_event c))) (\<lambda>rc. retM ()))", OF this]
  show ?case
    unfolding forM.simps seqM_seq st IH by (simp add: kst_def funpow_Suc_right del: funpow.simps)
qed

text \<open>\<^verbatim>\<open>pthread_cond_signal\<close> posts the event once, and \<^verbatim>\<open>pthread_cond_broadcast\<close> once for each thread
  counted in \<^verbatim>\<open>c_onwait\<close>; both return 0 and change nothing else, in particular not the count.\<close>

lemma broadcast_posts_each_waiter:
  assumes "cond_at s cond pc c" and "c_type c = COND_TYPE_FAST"
  shows "pthread_cond_broadcast E cond s = Some (Ret 0 (s\<lparr>kern :=
           ((\<lambda>k. snd (DosPostEventSem E (c_event c) (cur s) k)) ^^ unat (c_onwait c)) (kern s)\<rparr>)) \<and>
         pthread_cond_signal E cond s = Some (Ret 0 (s\<lparr>kern :=
           snd (DosPostEventSem E (c_event c) (cur s) (kern s))\<rparr>))"
  using assms cond_at_nonnull [OF assms(1)]
  by (simp add: pthread_cond_broadcast_def pthread_cond_signal_def cond_at_read post_loop retM_def)
     (simp add: kst_def)

lemma broadcast_posts_each_waiter_witness:
  "\<exists>t. pthread_cond_broadcast demo_os 32 (demo_holding\<lparr>conds := [42 \<mapsto> demo_cond\<lparr>c_onwait := 3\<rparr>]\<rparr>) =
         Some (Ret 0 t) \<and> posts (kern t) 8 = 3"
  using broadcast_posts_each_waiter [of "demo_holding\<lparr>conds := [42 \<mapsto> demo_cond\<lparr>c_onwait := 3\<rparr>]\<rparr>" 32 42
      "demo_cond\<lparr>c_onwait := 3\<rparr>" demo_os]
  by (simp add: cond_at_def demo_holding_def) (simp add: numeral_3_eq_3)

text \<open>A null condition variable is an error for \<^verbatim>\<open>pthread_cond_signal\<close>, which returns -1 with \<^verbatim>\<open>EINVAL\<close>,
  but \<^verbatim>\<open>pthread_cond_broadcast\<close> dereferences it.\<close>

lemma broadcast_null_faults:
  assumes "cond = NULL \<or> ptrs s cond = Some NULL"
  shows "pthread_cond_broadcast E cond s = Some (Fault Null_Deref) \<and>
         pthread_cond_signal E cond s = Some (Ret (-1) (with_errno EINVAL s))"
  using assms
  by (cases "cond = NULL")
     (auto simp: pthread_cond_broadcast_def pthread_cond_signal_def read_cond_def bindM_assoc
       faultM_def retM_def)

lemma broadcast_null_faults_witness:
  "pthread_cond_broadcast demo_os 33 demo_world = Some (Fault Null_Deref)"
  using broadcast_null_faults [of 33 demo_world demo_os] by simp

text \<open>
  An event semaphore as the control program documents it: closing it is refused while threads
  wait (\<open>w\<close> of them), and a post releases at least one.
\<close>

definition event_sem :: "'k os \<Rightarrow> hev \<Rightarrow> ('k \<Rightarrow> nat) \<Rightarrow> bool" where
  "event_sem E ev w \<longleftrightarrow>
     (\<forall>t k. fst (DosCloseEventSem E ev t k) = (if 0 < w k then ERROR_SEM_BUSY else 0) \<and>
            w (snd (DosCloseEventSem E ev t k)) = w k \<and>
            (0 < w k \<longrightarrow> w (snd (DosPostEventSem E ev t k)) < w k))"

lemma close_event_loop_returns:
  assumes law: "event_sem E ev w"
  shows "\<exists>k. close_event_loop E ev s = Some (Ret 0 (s\<lparr>kern := k\<rparr>)) \<and> w k = 0"
proof (induction "w (kern s)" arbitrary: s rule: less_induct)
  case less
  let ?s1 = "s\<lparr>kern := kst (DosCloseEventSem E ev) s\<rparr>"
  let ?s2 = "s\<lparr>kern := kst (DosPostEventSem E ev) ?s1\<rparr>"
  have c: "kres (DosCloseEventSem E ev) s = (if 0 < w (kern s) then ERROR_SEM_BUSY else 0)"
    "w (kst (DosCloseEventSem E ev) s) = w (kern s)"
    using law by (auto simp: event_sem_def kres_def kst_def)
  show ?case
  proof (cases "w (kern s) = 0")
    case True
    with c show ?thesis by (subst close_event_loop.simps) (auto simp: retM_def)
  next
    case False
    have "w (kern ?s2) < w (kern ?s1)"
      using law [unfolded event_sem_def, THEN spec, THEN spec, of "cur s" "kern ?s1"] False c
      by (auto simp: kst_def)
    with c less.hyps [of ?s2] False show ?thesis
      by (subst close_event_loop.simps) auto
  qed
qed

text \<open>\<^verbatim>\<open>pthread_cond_destroy\<close> ends even while threads wait: it posts the event until none does,
  closes it, frees the structure, clears the variable and returns 0.\<close>

lemma cond_destroy_frees:
  assumes law: "event_sem E (c_event c) w" and c: "cond_at s cond pc c" "c_type c = COND_TYPE_FAST"
  shows "\<exists>k. w k = 0 \<and> pthread_cond_destroy E cond s =
           Some (Ret 0 (s\<lparr>kern := k, conds := (conds s)(pc := None), ptrs := (ptrs s)(cond := Some NULL)\<rparr>))"
proof -
  let ?s = "s\<lparr>conds := (conds s)(pc := Some (c\<lparr>c_event := 0\<rparr>))\<rparr>"
  from close_event_loop_returns [OF law, of ?s] obtain k where
    k: "close_event_loop E (c_event c) ?s = Some (Ret 0 (?s\<lparr>kern := k\<rparr>))" "w k = 0" by blast
  show ?thesis
    using c k(2)
    by (auto simp: pthread_cond_destroy_def cond_at_def bindM_assoc Let_def seqM_seq bindM_seq seqM_bind
        bindM_run [where m = "close_event_loop E (c_event c)", OF k(1)] retM_def)
qed

lemma cond_destroy_frees_witness:
  "\<exists>t. pthread_cond_destroy demo_os 32 demo_holding = Some (Ret 0 t) \<and> ptrs t 32 = Some NULL \<and> conds t 42 = None"
proof -
  have "event_sem demo_os 8 (\<lambda>_. 0)" by (simp add: event_sem_def demo_ok_def)
  then show ?thesis
    using cond_destroy_frees [of demo_os demo_cond "\<lambda>_. 0" demo_holding 32 42] by auto
qed

text \<open>\<^verbatim>\<open>pthread_cond_init\<close> creates a condition variable nobody waits for: it returns 0 and stores a
  structure of the fast type with a new event semaphore and a count of 0; without a semaphore
  or memory it returns -1 with \<^verbatim>\<open>ENOMEM\<close> and leaves the variable as it was.\<close>

lemma cond_init_cases:
  assumes "inited s" and "cond \<noteq> NULL" "ptrs s cond = Some v"
    and ev: "kres (DosCreateEventSem E 0x0800) s = (rc, ev)"
    and s1: "s1 = s\<lparr>kern := kst (DosCreateEventSem E 0x0800) s\<rparr>"
    and p: "p = kres (malloc E) s1" and s2: "s2 = s1\<lparr>kern := kst (malloc E) s1\<rparr>"
  shows "if rc \<noteq> 0 then pthread_cond_init E cond NULL s = Some (Ret (-1) (with_errno ENOMEM s1))
         else if p = NULL then pthread_cond_init E cond NULL s = Some (Ret (-1) (with_errno ENOMEM s2))
         else \<exists>t c. pthread_cond_init E cond NULL s = Some (Ret 0 t) \<and> cond_at t cond p c \<and>
                c_type c = COND_TYPE_FAST \<and> c_event c = ev \<and> c_onwait c = 0"
  using assms by (simp add: pthread_cond_init_def retM_def cond_at_def)

lemma cond_init_cases_witness:
  "\<exists>t c. pthread_cond_init demo_os 33 NULL demo_world = Some (Ret 0 t) \<and> cond_at t 33 1000 c \<and>
     c_event c = 100 \<and> c_onwait c = 0"
  using cond_init_cases [of demo_world 33 NULL demo_os 0 100, OF _ _ _ _ refl refl refl]
  by (auto simp: kres_def kst_def demo_new_def)

end
