(* ===== verification/Keys.thy ===== *)
theory Keys
  imports Mutex
begin

text \<open>
  \<^verbatim>\<open>uthread_spec.c\<close>: thread-specific data.  A \<^verbatim>\<open>pthread_key_t\<close> is an \<^verbatim>\<open>int\<close> that indexes
  \<^verbatim>\<open>key_table\<close>; a thread's values are an array of \<^verbatim>\<open>PTHREAD_KEYS_MAX\<close> pointers, allocated when
  the first value is stored.  The count of a key is 1 for its creation and 1 for each thread
  that has a value for it.
\<close>

section \<open>Operations\<close>

text \<open>An index outside the table is undefined behaviour.\<close>

definition key_entry :: "int \<Rightarrow> (pthread_key, 'k world) prog" where
  "key_entry key =
     (if 0 \<le> key \<and> key < int PTHREAD_KEYS_MAX then getM (\<lambda>s. key_table s (nat key))
      else faultM Out_Of_Bounds)"

definition upd_key :: "int \<Rightarrow> (pthread_key \<Rightarrow> pthread_key) \<Rightarrow> (unit, 'k world) prog" where
  "upd_key key f =
     bindM (key_entry key) (\<lambda>e.
       modM (\<lambda>s. s\<lparr>key_table := (key_table s)(nat key := f e)\<rparr>))"

partial_function (option) key_create_loop ::
  "addr \<Rightarrow> addr \<Rightarrow> 'k world \<Rightarrow> (int, 'k world) res option" where
  "key_create_loop key destructor s =
     bindM (load ints key) (\<lambda>k s.
       if k < int PTHREAD_KEYS_MAX
       then bindM (key_entry k) (\<lambda>e s.
              if k_count e = 0
              then seqM (upd_key k (\<lambda>e. e\<lparr>k_count := k_count e + 1\<rparr>))
                  (seqM (upd_key k (\<lambda>e. e\<lparr>k_destructor := destructor\<rparr>)) (retM 0)) s
              else seqM (store_int key (k + 1)) (\<lambda>s. key_create_loop key destructor s) s) s
       else retM EAGAIN s) s"

declare key_create_loop.simps [code]

definition pthread_key_create :: "'k os \<Rightarrow> addr \<Rightarrow> addr \<Rightarrow> (int, 'k world) prog" where
  "pthread_key_create E key destructor =
     seqM (PTHREAD_INIT E) (seqM (store_int key 0) (key_create_loop key destructor))"

definition pthread_key_delete :: "'k os \<Rightarrow> int \<Rightarrow> (int, 'k world) prog" where
  "pthread_key_delete E key =
     seqM (PTHREAD_INIT E)
    (seqM (thread_kern_sig_block E)
    (bindM (if key < int PTHREAD_KEYS_MAX
            then bindM (key_entry key) (\<lambda>e.
                 if k_count e = 1
                 then seqM (upd_key key (\<lambda>e. e\<lparr>k_destructor := NULL\<rparr>))
                     (seqM (upd_key key (\<lambda>e. e\<lparr>k_count := 0\<rparr>)) (retM 0))
                 else if k_count e = 0 then retM 0
                 else retM EBUSY)
            else retM EINVAL)
     (\<lambda>ret. seqM (thread_kern_sig_unblock E) (retM ret))))"

definition cleanup_key :: "'k os \<Rightarrow> addr \<Rightarrow> nat \<Rightarrow> (bool, 'k world) prog" where
  "cleanup_key E thread key =
     bindM (load threads thread) (\<lambda>t.
     if specific_data_count t \<noteq> 0
     then bindM (load arrays (specific_data t)) (\<lambda>a.
          if a key \<noteq> NULL
          then bindM thread_run (\<lambda>run.
               bindM (load threads run) (\<lambda>tr.
               bindM (load arrays (specific_data tr)) (\<lambda>ar.
               let data = ar key in
               seqM (upd_array (specific_data t) (\<lambda>a. a(key := NULL)))
              (seqM (upd_thread thread (\<lambda>t. t\<lparr>specific_data_count := specific_data_count t - 1\<rparr>))
              (bindM (key_entry (int key)) (\<lambda>e.
               seqM (if k_destructor e \<noteq> NULL
                     then bindM (call_fun E (k_destructor e) data) (\<lambda>r. retM ()) else retM ())
              (seqM (upd_key (int key) (\<lambda>e. e\<lparr>k_count := k_count e - 1\<rparr>))
               (retM False))))))))
          else retM False)
     else seqM (free arrays arrays_update (specific_data t))
         (seqM (thread_kern_sig_unblock E) (retM True)))"

definition thread_cleanupspecific :: "'k os \<Rightarrow> (unit, 'k world) prog" where
  "thread_cleanupspecific E =
     bindM thread_run (\<lambda>thread.
     seqM (thread_kern_sig_block E)
    (bindM (untilM [0..<PTHREAD_DESTRUCTOR_ITERATIONS] (\<lambda>itr.
              untilM [0..<PTHREAD_KEYS_MAX] (\<lambda>key. cleanup_key E thread key)))
     (\<lambda>returned.
      if returned then retM ()
      else bindM (load threads thread) (\<lambda>t.
           seqM (free arrays arrays_update (specific_data t)) (thread_kern_sig_unblock E)))))"

definition pthread_key_allocate_data :: "'k os \<Rightarrow> (addr, 'k world) prog" where
  "pthread_key_allocate_data E =
     seqM (PTHREAD_INIT E)
    (bindM (kcall (malloc E)) (\<lambda>new_data.
     seqM (whenM (new_data \<noteq> NULL) (fresh arrays arrays_update new_data (\<lambda>i. NULL)))
      (retM new_data)))"

text \<open>\<^verbatim>\<open>while (pthread->parent_thread != NULL) pthread = pthread->parent_thread;\<close>\<close>

partial_function (option) data_thread :: "addr \<Rightarrow> 'k world \<Rightarrow> (addr, 'k world) res option" where
  "data_thread p s =
     bindM (load threads p) (\<lambda>t s.
       if parent_thread t \<noteq> NULL then data_thread (parent_thread t) s else retM p s) s"

declare data_thread.simps [code]

text \<open>The inner branch of \<^verbatim>\<open>pthread_setspecific\<close>, for an index below the limit.\<close>

definition set_key :: "addr \<Rightarrow> addr \<Rightarrow> int \<Rightarrow> addr \<Rightarrow> (int, 'k world) prog" where
  "set_key pthread data key val =
     bindM (key_entry key) (\<lambda>e.
     if k_count e \<noteq> 0
     then bindM (load arrays data) (\<lambda>a.
          seqM (if a (nat key) = NULL
                then whenM (val \<noteq> NULL)
                      (seqM (upd_thread pthread (\<lambda>t. t\<lparr>specific_data_count := specific_data_count t + 1\<rparr>))
                            (upd_key key (\<lambda>e. e\<lparr>k_count := k_count e + 1\<rparr>)))
                else whenM (val = NULL)
                      (seqM (upd_thread pthread (\<lambda>t. t\<lparr>specific_data_count := specific_data_count t - 1\<rparr>))
                            (upd_key key (\<lambda>e. e\<lparr>k_count := k_count e - 1\<rparr>))))
         (seqM (upd_array data (\<lambda>a. a(nat key := val))) (retM 0)))
     else retM EINVAL)"

definition pthread_setspecific :: "'k os \<Rightarrow> int \<Rightarrow> addr \<Rightarrow> (int, 'k world) prog" where
  "pthread_setspecific E key val =
     seqM (PTHREAD_INIT E)
    (seqM (thread_kern_sig_block E)
    (bindM thread_run (\<lambda>self.
     bindM (data_thread self) (\<lambda>pthread.
     bindM (load threads pthread) (\<lambda>t.
     bindM (if specific_data t \<noteq> NULL then retM (specific_data t)
            else bindM (pthread_key_allocate_data E) (\<lambda>d.
                 seqM (upd_thread pthread (\<lambda>t. t\<lparr>specific_data := d\<rparr>)) (retM d)))
      (\<lambda>data.
     bindM (if data = NULL then retM ENOMEM
            else if key < int PTHREAD_KEYS_MAX
            then set_key pthread data key val
            else retM EINVAL)
      (\<lambda>ret. seqM (thread_kern_sig_unblock E) (retM ret))))))))"

definition pthread_getspecific :: "'k os \<Rightarrow> int \<Rightarrow> (addr, 'k world) prog" where
  "pthread_getspecific E key =
     seqM (PTHREAD_INIT E)
    (seqM (thread_kern_sig_block E)
    (bindM thread_run (\<lambda>self.
     bindM (data_thread self) (\<lambda>pthread.
     bindM (load threads pthread) (\<lambda>t.
     bindM (if specific_data t \<noteq> NULL \<and> key < int PTHREAD_KEYS_MAX
            then bindM (key_entry key) (\<lambda>e.
                 if k_count e \<noteq> 0
                 then bindM (load arrays (specific_data t)) (\<lambda>a. retM (a (nat key)))
                 else retM NULL)
            else retM NULL)
      (\<lambda>data. seqM (thread_kern_sig_unblock E) (retM data)))))))"

section \<open>The thread a value belongs to, and the value\<close>

text \<open>A signal handler thread uses the values of the thread at the end of its chain of parents.\<close>

definition plink :: "(addr \<Rightarrow> pthread option) \<Rightarrow> addr \<Rightarrow> addr option" where
  "plink h p = map_option parent_thread (h p)"

definition data_owner :: "'k world \<Rightarrow> addr \<Rightarrow> pthread \<Rightarrow> bool" where
  "data_owner s p t \<longleftrightarrow> (\<exists>xs. seg (plink (threads s)) (run s) xs p) \<and> p \<noteq> NULL \<and>
     threads s p = Some t \<and> parent_thread t = NULL"

lemma plink_Some: "plink h p = Some q \<longleftrightarrow> (\<exists>t. h p = Some t \<and> parent_thread t = q)"
  by (auto simp: plink_def)

lemma data_thread_seg:
  assumes "seg (plink (threads s)) q xs p" "p \<noteq> NULL" "threads s p = Some t" "parent_thread t = NULL"
  shows "data_thread q s = Some (Ret p s)"
  using assms(1)
proof (induction xs arbitrary: q)
  case Nil
  with assms show ?case by (subst data_thread.simps) (simp add: retM_def)
next
  case (Cons x xs)
  then obtain u where u: "q = x" "x \<noteq> NULL" "threads s x = Some u"
    "seg (plink (threads s)) (parent_thread u) xs p"
    by (auto simp: plink_Some split: option.splits)
  moreover have "parent_thread u \<noteq> NULL"
    using u(4) assms(2) by (cases xs) auto
  ultimately show ?case using Cons.IH by (subst data_thread.simps) simp
qed

lemma data_owner_run [run_simps]:
  assumes "data_owner s p t"
  shows "bindM (data_thread (run s)) f s = f p s"
proof (rule bindM_run)
  show "data_thread (run s) s = Some (Ret p s)"
    using assms data_thread_seg unfolding data_owner_def by blast
qed

lemma data_owner_upd [simp]:
  "data_owner (kern_update f1 s) = data_owner s" "data_owner (signals_blocked_update f2 s) = data_owner s"
  "data_owner (key_table_update f3 s) = data_owner s" "data_owner (arrays_update f4 s) = data_owner s"
  "data_owner (ints_update f5 s) = data_owner s"
  by (simp_all add: data_owner_def fun_eq_iff)

lemma data_owner_thread:
  assumes "data_owner s p t" "parent_thread t' = NULL"
  shows "data_owner (s\<lparr>threads := (threads s)(p := Some t')\<rparr>) p t'"
proof -
  from assms(1) obtain xs where xs: "seg (plink (threads s)) (run s) xs p" "p \<noteq> NULL"
    "threads s p = Some t" "parent_thread t = NULL" by (auto simp: data_owner_def)
  have "plink ((threads s)(p := Some t')) = plink (threads s)"
    using xs assms(2) by (auto simp: plink_def fun_eq_iff)
  with xs assms(2) show ?thesis by (auto simp: data_owner_def)
qed

lemma data_owner_facts: "data_owner s p t \<Longrightarrow> p \<noteq> NULL \<and> threads s p = Some t"
  by (simp add: data_owner_def)

definition key_value :: "'k world \<Rightarrow> addr \<Rightarrow> nat \<Rightarrow> addr" where
  "key_value s p k =
     (case threads s p of
        None \<Rightarrow> NULL
      | Some t \<Rightarrow>
          if specific_data t = NULL then NULL
          else case arrays s (specific_data t) of None \<Rightarrow> NULL | Some a \<Rightarrow> a k)"

text \<open>Both calls block signals around their work.\<close>

definition blocked :: "'k os \<Rightarrow> 'k world \<Rightarrow> 'k world" where
  "blocked E s = s\<lparr>kern := kst (DosEnterMustComplete E) s, signals_blocked := signals_blocked s + 1\<rparr>"

definition unblocked :: "'k os \<Rightarrow> 'k world \<Rightarrow> 'k world" where
  "unblocked E s = s\<lparr>kern := kst (DosExitMustComplete E) s, signals_blocked := signals_blocked s - 1\<rparr>"

lemma blocked_sel [simp]:
  "threads (blocked E s) = threads s" "arrays (blocked E s) = arrays s" "run (blocked E s) = run s"
  "key_table (blocked E s) = key_table s" "inited (blocked E s) = inited s"
  "data_owner (blocked E s) = data_owner s" "cur (blocked E s) = cur s" "ints (blocked E s) = ints s"
  "threads (unblocked E s) = threads s" "arrays (unblocked E s) = arrays s" "run (unblocked E s) = run s"
  "key_table (unblocked E s) = key_table s" "inited (unblocked E s) = inited s"
  "data_owner (unblocked E s) = data_owner s" "cur (unblocked E s) = cur s" "ints (unblocked E s) = ints s"
  by (simp_all add: blocked_def unblocked_def fun_eq_iff)

lemma key_value_blocked [simp]:
  "key_value (blocked E s) = key_value s" "key_value (unblocked E s) = key_value s"
  by (simp_all add: key_value_def fun_eq_iff split: option.split)

lemma block_run:
  "seqM (thread_kern_sig_block E) n s = n (blocked E s)"
  "seqM (thread_kern_sig_unblock E) n s = n (unblocked E s)"
  by (simp_all add: blocked_def unblocked_def)

lemma unblock_end: "thread_kern_sig_unblock E s = Some (Ret () (unblocked E s))"
  by (simp add: thread_kern_sig_unblock_def unblocked_def modM_def)

lemma key_entry_run [run_simps]:
  "0 \<le> k \<Longrightarrow> k < int PTHREAD_KEYS_MAX \<Longrightarrow> bindM (key_entry k) f s = f (key_table s (nat k)) s"
  by (simp add: key_entry_def)

lemma upd_key_run [run_simps]:
  "0 \<le> k \<Longrightarrow> k < int PTHREAD_KEYS_MAX \<Longrightarrow>
     seqM (upd_key k f) n s = n (s\<lparr>key_table := (key_table s)(nat k := f (key_table s (nat k)))\<rparr>)"
  by (simp add: upd_key_def run_simps)

lemma upd_key_end [run_simps]:
  "0 \<le> k \<Longrightarrow> k < int PTHREAD_KEYS_MAX \<Longrightarrow>
     upd_key k f s = Some (Ret () (s\<lparr>key_table := (key_table s)(nat k := f (key_table s (nat k)))\<rparr>))"
  by (simp add: upd_key_def run_simps modM_def)

lemma getspecific_run:
  assumes i: "inited s" and o: "data_owner s p t" and k: "0 \<le> k" "k < int PTHREAD_KEYS_MAX"
    and a: "specific_data t \<noteq> NULL \<longrightarrow> arrays s (specific_data t) \<noteq> None"
  shows "pthread_getspecific E k s =
    Some (Ret (if k_count (key_table s (nat k)) = 0 then NULL else key_value s p (nat k))
              (unblocked E (blocked E s)))"
proof -
  have o': "data_owner (blocked E s) p t" using o by simp
  note d = data_owner_run [OF o', unfolded blocked_sel]
  show ?thesis
    using i data_owner_facts [OF o] k a
    by (auto simp: pthread_getspecific_def block_run d run_simps key_value_def retM_def
        simp del: sig_block_run sig_unblock_run)
qed

section \<open>Storing a value\<close>

text \<open>The state once the thread has an array, and the state with the value stored.\<close>

definition with_data :: "'k os \<Rightarrow> 'k world \<Rightarrow> addr \<Rightarrow> pthread \<Rightarrow> 'k world" where
  "with_data E s p t =
     (if specific_data t \<noteq> NULL then blocked E s
      else let d = kres (malloc E) (blocked E s) in
           (blocked E s)\<lparr>kern := kst (malloc E) (blocked E s),
              arrays := (arrays s)(d := Some (\<lambda>i. NULL)),
              threads := (threads s)(p := Some (t\<lparr>specific_data := d\<rparr>))\<rparr>)"

definition store_value :: "'k world \<Rightarrow> addr \<Rightarrow> nat \<Rightarrow> addr \<Rightarrow> 'k world" where
  "store_value s p k v =
     (case threads s p of
        None \<Rightarrow> s
      | Some t \<Rightarrow>
          (case arrays s (specific_data t) of
             None \<Rightarrow> s
           | Some a \<Rightarrow>
               let \<delta> = of_bool (v \<noteq> NULL) - of_bool (a k \<noteq> NULL) in
               s\<lparr>threads := (threads s)(p := Some (t\<lparr>specific_data_count := specific_data_count t + \<delta>\<rparr>)),
                 key_table := (key_table s)(k := (key_table s k)\<lparr>k_count := k_count (key_table s k) + \<delta>\<rparr>),
                 arrays := (arrays s)(specific_data t := Some (a(k := v)))\<rparr>))"

definition has_array :: "'k os \<Rightarrow> 'k world \<Rightarrow> pthread \<Rightarrow> bool" where
  "has_array E s t \<longleftrightarrow>
     (if specific_data t \<noteq> NULL then arrays s (specific_data t) \<noteq> None
      else kres (malloc E) (blocked E s) \<noteq> NULL \<and> arrays s (kres (malloc E) (blocked E s)) = None)"

lemma setspecific_core:
  assumes "p \<noteq> NULL" "threads s p = Some t" "specific_data t = d" "d \<noteq> NULL" "arrays s d = Some a"
    and k: "0 \<le> k" "k < int PTHREAD_KEYS_MAX" "k_count (key_table s (nat k)) \<noteq> 0"
  shows "set_key p d k v s = Some (Ret 0 (store_value s p (nat k) v))"
proof -
  have id: "(threads s)(p := Some t) = threads s"
    "(key_table s)(nat k := key_table s (nat k)) = key_table s"
    using assms(2) by auto
  show ?thesis
    using assms
    by (cases "v = NULL"; cases "a (nat k) = NULL")
       (simp_all add: set_key_def run_simps store_value_def Let_def retM_def id)
qed

lemma setspecific_run:
  assumes i: "inited s" and o: "data_owner s p t" and a: "has_array E s t"
    and k: "0 \<le> k" "k < int PTHREAD_KEYS_MAX" "k_count (key_table s (nat k)) \<noteq> 0"
  shows "pthread_setspecific E k v s =
    Some (Ret 0 (unblocked E (store_value (with_data E s p t) p (nat k) v)))"
proof -
  have o': "data_owner (blocked E s) p t" using o by simp
  note d = data_owner_run [OF o', unfolded blocked_sel]
  show ?thesis
  proof (cases "specific_data t = NULL")
    case False
    then obtain x where "arrays s (specific_data t) = Some x" using a by (auto simp: has_array_def)
    then have c: "set_key p (specific_data t) k v (blocked E s) = Some (Ret 0 (store_value (blocked E s) p (nat k) v))"
      using False k data_owner_facts [OF o] by (intro setspecific_core) simp_all
    show ?thesis
      using i False k data_owner_facts [OF o]
      by (simp add: bindM_run [where m = "set_key p (specific_data t) k v", OF c] pthread_setspecific_def block_run d retM_def with_data_def
        del: sig_block_run sig_unblock_run)
  next
    case True
    let ?d = "kres (malloc E) (blocked E s)"
    have nd: "?d \<noteq> NULL" using a True by (simp add: has_array_def)
    let ?s = "(blocked E s)\<lparr>kern := kst (malloc E) (blocked E s),
        arrays := (arrays s)(?d := Some (\<lambda>i. NULL)),
        threads := (threads s)(p := Some (t\<lparr>specific_data := ?d\<rparr>))\<rparr>"
    have ws: "with_data E s p t = ?s" using True by (simp add: with_data_def Let_def)
    have "threads ?s p = Some (t\<lparr>specific_data := ?d\<rparr>)" "arrays ?s ?d = Some (\<lambda>i. NULL)"
      by simp_all
    with nd k data_owner_facts [OF o]
    have "set_key p ?d k v ?s = Some (Ret 0 (store_value ?s p (nat k) v))"
      by (intro setspecific_core [where t = "t\<lparr>specific_data := ?d\<rparr>" and a = "\<lambda>i. NULL"]) simp_all
    note c = bindM_run [where m = "set_key p ?d k v", OF this]
    show ?thesis
      using i nd True data_owner_facts [OF o] k(2)
      by (simp add: c ws pthread_setspecific_def block_run d retM_def bindM_seq
        pthread_key_allocate_data_def bindM_assoc del: sig_block_run sig_unblock_run)
  qed
qed

section \<open>The counts\<close>

text \<open>
  \<open>keys_ok off ts ks s\<close>: \<open>ts\<close> are the threads that may have values and \<open>ks\<close> the keys that exist.
  Every array is one thread's own; a key's count is 1 for its existence and 1 for each thread
  with a value, and 0 if it does not exist; and no thread has a value for a key that does not exist.
  No code initialises a thread's \<^verbatim>\<open>specific_data_count\<close>, which \<^verbatim>\<open>malloc\<close> leaves as it finds it: it is the number of
  the thread's values and \<open>off\<close>, whatever was in the memory.
\<close>

definition data_of :: "'k world \<Rightarrow> addr \<Rightarrow> addr" where
  "data_of s p = (case threads s p of None \<Rightarrow> NULL | Some t \<Rightarrow> specific_data t)"

definition thread_counted :: "(addr \<Rightarrow> int) \<Rightarrow> 'k world \<Rightarrow> addr \<Rightarrow> bool" where
  "thread_counted off s p \<longleftrightarrow>
     (case threads s p of
        None \<Rightarrow> False
      | Some t \<Rightarrow> (specific_data t \<noteq> NULL \<longrightarrow> arrays s (specific_data t) \<noteq> None) \<and>
          specific_data_count t = off p + int (card {k \<in> {..<PTHREAD_KEYS_MAX}. key_value s p k \<noteq> NULL}))"

definition key_counted :: "addr set \<Rightarrow> nat set \<Rightarrow> 'k world \<Rightarrow> nat \<Rightarrow> bool" where
  "key_counted ts ks s k \<longleftrightarrow>
     k_count (key_table s k) = of_bool (k \<in> ks) + int (card {p \<in> ts. key_value s p k \<noteq> NULL}) \<and>
     (k \<notin> ks \<longrightarrow> (\<forall>p\<in>ts. key_value s p k = NULL))"

definition keys_ok :: "(addr \<Rightarrow> int) \<Rightarrow> addr set \<Rightarrow> nat set \<Rightarrow> 'k world \<Rightarrow> bool" where
  "keys_ok off ts ks s \<longleftrightarrow> finite ts \<and> (\<forall>p\<in>ts. thread_counted off s p) \<and>
     (\<forall>p\<in>ts. \<forall>q\<in>ts. p \<noteq> q \<longrightarrow> data_of s p \<noteq> NULL \<longrightarrow> data_of s p \<noteq> data_of s q) \<and>
     (\<forall>k<PTHREAD_KEYS_MAX. key_counted ts ks s k)"

lemma card_upd:
  assumes "finite A" "p \<in> A"
  shows "int (card {x \<in> A. (f(p := v)) x \<noteq> (N::addr)}) =
    int (card {x \<in> A. f x \<noteq> N}) + (of_bool (v \<noteq> N) - of_bool (f p \<noteq> N))"
proof -
  let ?B = "{x \<in> A - {p}. f x \<noteq> N}"
  have 1: "{x \<in> A. f x \<noteq> N} = (if f p \<noteq> N then insert p ?B else ?B)"
    "{x \<in> A. (f(p := v)) x \<noteq> N} = (if v \<noteq> N then insert p ?B else ?B)"
    using assms(2) by auto
  have "finite ?B" "p \<notin> ?B" using assms(1) by auto
  then have "int (card (insert p ?B)) = int (card ?B) + 1" by simp
  then show ?thesis unfolding 1 by simp
qed

lemma key_value_upd [simp]:
  "key_value (kern_update f0 s) = key_value s"
  "key_value (signals_blocked_update f1 s) = key_value s"
  "key_value (ints_update f2 s) = key_value s"
  by (simp_all add: key_value_def fun_eq_iff split: option.split)

lemma data_of_upd [simp]:
  "data_of (kern_update f0 s) = data_of s"
  "data_of (signals_blocked_update f1 s) = data_of s"
  "data_of (ints_update f2 s) = data_of s"
  by (simp_all add: data_of_def fun_eq_iff)

lemma thread_counted_upd [simp]:
  "thread_counted off (kern_update f0 s) = thread_counted off s"
  "thread_counted off (signals_blocked_update f1 s) = thread_counted off s"
  "thread_counted off (ints_update f2 s) = thread_counted off s"
  by (simp_all add: thread_counted_def fun_eq_iff split: option.split)

lemma keys_ok_upd [simp]:
  "keys_ok off ts ks (kern_update f1 s) = keys_ok off ts ks s"
  "keys_ok off ts ks (signals_blocked_update f2 s) = keys_ok off ts ks s"
  "keys_ok off ts ks (ints_update f3 s) = keys_ok off ts ks s"
  by (simp_all add: keys_ok_def key_counted_def)

lemma keys_ok_blocked [simp]:
  "keys_ok off ts ks (blocked E s) = keys_ok off ts ks s" "keys_ok off ts ks (unblocked E s) = keys_ok off ts ks s"
  by (simp_all add: blocked_def unblocked_def)

lemma keys_okD:
  assumes "keys_ok off ts ks s"
  shows "finite ts" "p \<in> ts \<Longrightarrow> thread_counted off s p"
    "p \<in> ts \<Longrightarrow> q \<in> ts \<Longrightarrow> p \<noteq> q \<Longrightarrow> data_of s p \<noteq> NULL \<Longrightarrow> data_of s p \<noteq> data_of s q"
    "k < PTHREAD_KEYS_MAX \<Longrightarrow> key_counted ts ks s k"
  using assms unfolding keys_ok_def by blast+

lemma thread_counted_iff:
  "threads s p = Some t \<Longrightarrow> thread_counted off s p \<longleftrightarrow>
     (specific_data t \<noteq> NULL \<longrightarrow> arrays s (specific_data t) \<noteq> None) \<and>
     specific_data_count t = off p + int (card {k \<in> {..<PTHREAD_KEYS_MAX}. key_value s p k \<noteq> NULL})"
  by (simp add: thread_counted_def)

lemma thread_counted_Some: "thread_counted off s p \<Longrightarrow> \<exists>t. threads s p = Some t"
  by (auto simp: thread_counted_def split: option.splits)

lemma store_value_run:
  assumes "threads s p = Some t" "arrays s (specific_data t) = Some a"
  shows "store_value s p k v =
    (let \<delta> = of_bool (v \<noteq> NULL) - of_bool (a k \<noteq> NULL) in
       s\<lparr>threads := (threads s)(p := Some (t\<lparr>specific_data_count := specific_data_count t + \<delta>\<rparr>)),
         key_table := (key_table s)(k := (key_table s k)\<lparr>k_count := k_count (key_table s k) + \<delta>\<rparr>),
         arrays := (arrays s)(specific_data t := Some (a(k := v)))\<rparr>)"
  using assms by (simp add: store_value_def)

lemma key_value_store:
  assumes "keys_ok off ts ks s" "p \<in> ts" "q \<in> ts" "data_of s p \<noteq> NULL"
  shows "key_value (store_value s p k v) q j = (if q = p \<and> j = k then v else key_value s q j)"
proof -
  from keys_okD(2) [OF assms(1,2)] assms(4) obtain t a where
    t: "threads s p = Some t" "specific_data t \<noteq> NULL" "arrays s (specific_data t) = Some a"
    by (auto simp: thread_counted_def data_of_def split: option.splits)
  from keys_okD(2) [OF assms(1,3)] obtain u where u: "threads s q = Some u"
    by (auto simp: thread_counted_def split: option.splits)
  have "q \<noteq> p \<Longrightarrow> specific_data u \<noteq> specific_data t"
    using keys_okD(3) [OF assms(1,2,3)] assms(4) t u by (auto simp: data_of_def)
  with t u show ?thesis by (auto simp: store_value_run Let_def key_value_def)
qed

lemma store_value_ok:
  assumes ok: "keys_ok off ts ks s" and p: "p \<in> ts" "data_of s p \<noteq> NULL"
    and k: "k < PTHREAD_KEYS_MAX" "k_count (key_table s k) \<noteq> 0"
  shows "keys_ok off ts ks (store_value s p k v)"
proof -
  let ?s = "store_value s p k v"
  let ?d = "of_bool (v \<noteq> NULL) - of_bool (key_value s p k \<noteq> NULL) :: int"
  from keys_okD(2) [OF ok p(1)] p(2) obtain t a where
    t: "threads s p = Some t" "specific_data t \<noteq> NULL" "arrays s (specific_data t) = Some a"
    by (auto simp: thread_counted_def data_of_def split: option.splits)
  have a: "a k = key_value s p k" using t by (simp add: key_value_def)
  note kv = key_value_store [OF ok p(1) _ p(2), of _ k v]
  have dat: "data_of ?s q = data_of s q" for q
    using t by (simp add: data_of_def store_value_run Let_def)
  have kin: "k \<in> ks"
  proof (rule ccontr)
    assume n: "k \<notin> ks"
    with keys_okD(4) [OF ok k(1)] have "{p \<in> ts. key_value s p k \<noteq> NULL} = {}"
      by (auto simp: key_counted_def)
    then have "card {p \<in> ts. key_value s p k \<noteq> NULL} = 0" by (simp only: card.empty)
    with n k(2) keys_okD(4) [OF ok k(1)] show False by (simp add: key_counted_def)
  qed
  have thr: "threads ?s = (threads s)(p := Some (t\<lparr>specific_data_count := specific_data_count t + ?d\<rparr>))"
    and arr: "arrays ?s = (arrays s)(specific_data t := Some (a(k := v)))"
    and tab: "key_table ?s = (key_table s)(k := (key_table s k)\<lparr>k_count := k_count (key_table s k) + ?d\<rparr>)"
    using t a by (simp_all add: store_value_run Let_def)
  have "thread_counted off ?s q" if q: "q \<in> ts" for q
  proof (cases "q = p")
    case True
    have "key_value ?s p = (key_value s p)(k := v)" using kv [OF p(1)] by auto
    then have "int (card {j \<in> {..<PTHREAD_KEYS_MAX}. key_value ?s p j \<noteq> NULL}) =
        int (card {j \<in> {..<PTHREAD_KEYS_MAX}. key_value s p j \<noteq> NULL}) + ?d"
      using card_upd [of "{..<PTHREAD_KEYS_MAX}" k "key_value s p" v NULL] k(1) by simp
    with keys_okD(2) [OF ok p(1)] show ?thesis
      unfolding True thread_counted_iff [OF t(1)]
      by (subst thread_counted_iff [OF trans [OF fun_cong [OF thr] fun_upd_same]]) (simp add: arr t(3))
  next
    case False
    from thread_counted_Some [OF keys_okD(2) [OF ok q]] obtain u where u: "threads s q = Some u" ..
    with False thr have u': "threads ?s q = Some u" by simp
    have "key_value ?s q = key_value s q" using kv [OF q] False by auto
    with keys_okD(2) [OF ok q] show ?thesis
      unfolding thread_counted_iff [OF u] thread_counted_iff [OF u'] by (simp add: arr)
  qed
  moreover have "key_counted ts ks ?s j" if j: "j < PTHREAD_KEYS_MAX" for j
  proof (cases "j = k")
    case True
    have "{q \<in> ts. key_value ?s q k \<noteq> NULL} = {q \<in> ts. ((\<lambda>q. key_value s q k)(p := v)) q \<noteq> NULL}"
      using kv by auto
    then have "int (card {q \<in> ts. key_value ?s q k \<noteq> NULL}) = int (card {q \<in> ts. key_value s q k \<noteq> NULL}) + ?d"
      using card_upd [OF keys_okD(1) [OF ok] p(1), of "\<lambda>q. key_value s q k" v NULL] by simp
    with keys_okD(4) [OF ok k(1)] kin show ?thesis
      unfolding True key_counted_def by (simp add: tab)
  next
    case False
    have "key_value ?s q j = key_value s q j" if "q \<in> ts" for q using kv [OF that] False by simp
    with keys_okD(4) [OF ok j] show ?thesis
      unfolding key_counted_def by (simp add: tab False cong: conj_cong)
  qed
  ultimately show ?thesis
    using keys_okD(1,3) [OF ok] dat by (auto simp: keys_ok_def)
qed

lemma data_of_blocked [simp]: "data_of (blocked E s) = data_of s" "data_of (unblocked E s) = data_of s"
  by (simp_all add: data_of_def fun_eq_iff)

lemma with_data_ok:
  assumes ok: "keys_ok off ts ks s" and p: "p \<in> ts" "threads s p = Some t" and a: "has_array E s t"
  shows "keys_ok off ts ks (with_data E s p t)" and "q \<in> ts \<Longrightarrow> key_value (with_data E s p t) q = key_value s q"
    and "data_of (with_data E s p t) p \<noteq> NULL" and "key_table (with_data E s p t) = key_table s"
proof -
  let ?s = "with_data E s p t"
  show "key_table ?s = key_table s" by (simp add: with_data_def Let_def)
  have "keys_ok off ts ks ?s \<and> (\<forall>q\<in>ts. key_value ?s q = key_value s q) \<and> data_of ?s p \<noteq> NULL"
  proof (cases "specific_data t = NULL")
    case False
    then show ?thesis using ok p by (simp add: with_data_def data_of_def)
  next
    case True
    let ?d = "kres (malloc E) (blocked E s)"
    have d: "?d \<noteq> NULL" "arrays s ?d = None" using a True by (simp_all add: has_array_def)
    have thr: "threads ?s = (threads s)(p := Some (t\<lparr>specific_data := ?d\<rparr>))"
      and arr: "arrays ?s = (arrays s)(?d := Some (\<lambda>i. NULL))" and tab: "key_table ?s = key_table s"
      using True by (simp_all add: with_data_def Let_def)
    have fresh: "specific_data u \<noteq> ?d" if "q \<in> ts" "threads s q = Some u" for q u
      using keys_okD(2) [OF ok that(1)] that(2) d by (auto simp: thread_counted_iff)
    have kv: "key_value ?s q = key_value s q" if q: "q \<in> ts" for q
    proof -
      from thread_counted_Some [OF keys_okD(2) [OF ok q]] obtain u where u: "threads s q = Some u" ..
      show ?thesis
        using fresh [OF q u] True p u d by (auto simp: key_value_def thr arr fun_eq_iff)
    qed
    have dat: "data_of ?s q = (if q = p then ?d else data_of s q)" for q
      by (simp add: data_of_def thr)
    have "thread_counted off ?s q" if q: "q \<in> ts" for q
    proof -
      from thread_counted_Some [OF keys_okD(2) [OF ok q]] obtain u where u: "threads s q = Some u" ..
      have u': "threads ?s q = Some (if q = p then t\<lparr>specific_data := ?d\<rparr> else u)" using u by (simp add: thr)
      show ?thesis
        using keys_okD(2) [OF ok q] kv [OF q] u p(2) unfolding thread_counted_iff [OF u] thread_counted_iff [OF u']
        by (auto simp: arr)
    qed
    moreover have "data_of ?s x \<noteq> data_of ?s y" if "x \<in> ts" "y \<in> ts" "x \<noteq> y" "data_of ?s x \<noteq> NULL" for x y
    proof -
      from thread_counted_Some [OF keys_okD(2) [OF ok that(1)]] thread_counted_Some [OF keys_okD(2) [OF ok that(2)]]
      obtain u v where uv: "threads s x = Some u" "threads s y = Some v" by blast
      with fresh [OF that(1) uv(1)] fresh [OF that(2) uv(2)] that keys_okD(3) [OF ok that(1,2,3)]
      show ?thesis
        by (simp add: dat) (auto simp: data_of_def split: if_splits)
    qed
    moreover have "key_counted ts ks ?s k" if "k < PTHREAD_KEYS_MAX" for k
      using keys_okD(4) [OF ok that] kv unfolding key_counted_def by (simp add: tab cong: conj_cong)
    ultimately show ?thesis
      using keys_okD(1) [OF ok] kv d by (simp add: keys_ok_def dat)
  qed
  then show "keys_ok off ts ks ?s" "q \<in> ts \<Longrightarrow> key_value ?s q = key_value s q" "data_of ?s p \<noteq> NULL"
    by blast+
qed

text \<open>Everything a successful \<^verbatim>\<open>pthread_setspecific\<close> does.\<close>

lemma setspecific_spec:
  assumes i: "inited s" and o: "data_owner s p t" and ok: "keys_ok off ts ks s" "p \<in> ts"
    and a: "has_array E s t" and k: "k < PTHREAD_KEYS_MAX" "k \<in> ks"
  shows "\<exists>s'. pthread_setspecific E (int k) v s = Some (Ret 0 s') \<and> keys_ok off ts ks s' \<and>
           (\<forall>q\<in>ts. \<forall>j. key_value s' q j = (if q = p \<and> j = k then v else key_value s q j)) \<and>
           inited s' \<and> (\<exists>t'. data_owner s' p t')"
proof -
  let ?w = "with_data E s p t"
  let ?s = "store_value ?w p k v"
  note tp = data_owner_facts [OF o, THEN conjunct2]
  note w = with_data_ok [OF ok tp a]
  have c: "k_count (key_table s k) \<noteq> 0"
    using keys_okD(4) [OF ok(1) k(1)] k(2) by (simp add: key_counted_def)
  have "pthread_setspecific E (int k) v s = Some (Ret 0 (unblocked E ?s))"
    using setspecific_run [OF i o a, of "int k" v] k c by simp
  moreover have "keys_ok off ts ks ?s"
    using store_value_ok [OF w(1) ok(2) w(3) k(1)] c w(4) by simp
  moreover have "key_value ?s q j = (if q = p \<and> j = k then v else key_value s q j)" if "q \<in> ts" for q j
    using key_value_store [OF w(1) ok(2) that w(3)] w(2) [OF that] by simp
  moreover have "inited ?s \<and> (\<exists>t'. data_owner ?s p t')"
  proof -
    have pn: "parent_thread t = NULL" using o by (simp add: data_owner_def)
    from thread_counted_Some [OF keys_okD(2) [OF w(1) ok(2)]] obtain u where u: "threads ?w p = Some u" ..
    have "inited ?w \<and> data_owner ?w p u \<and> parent_thread u = NULL"
      using i o u pn data_owner_thread [of "(blocked E s)\<lparr>kern := kst (malloc E) (blocked E s),
          arrays := (arrays s)(kres (malloc E) (blocked E s) := Some (\<lambda>i. NULL))\<rparr>" p t "t\<lparr>specific_data := kres (malloc E) (blocked E s)\<rparr>"] tp
      by (auto simp: with_data_def Let_def split: if_splits)
    moreover from keys_okD(2) [OF w(1) ok(2)] w(3) u obtain x where x: "arrays ?w (specific_data u) = Some x"
      by (auto simp: thread_counted_iff data_of_def)
    ultimately have "data_owner ?s p (u\<lparr>specific_data_count := specific_data_count u +
        (of_bool (v \<noteq> NULL) - of_bool (x k \<noteq> NULL))\<rparr>)" "inited ?s"
      using u data_owner_thread [of ?w p u "u\<lparr>specific_data_count := specific_data_count u +
        (of_bool (v \<noteq> NULL) - of_bool (x k \<noteq> NULL))\<rparr>"] by (simp_all add: store_value_run Let_def)
    then show ?thesis by blast
  qed
  ultimately show ?thesis by (intro exI [of _ "unblocked E ?s"]) auto
qed

section \<open>Creating and deleting keys\<close>

text \<open>The first unused index, or \<^verbatim>\<open>PTHREAD_KEYS_MAX\<close>.\<close>

definition first_free :: "(nat \<Rightarrow> pthread_key) \<Rightarrow> nat" where
  "first_free kt =
     length (takeWhile (\<lambda>k. k_count (kt k) \<noteq> 0) [0..<PTHREAD_KEYS_MAX])"

lemma first_free_least: "k < first_free kt \<Longrightarrow> k_count (kt k) \<noteq> 0"
proof -
  assume k: "k < first_free kt"
  then have "takeWhile (\<lambda>k. k_count (kt k) \<noteq> 0) [0..<PTHREAD_KEYS_MAX] ! k = [0..<PTHREAD_KEYS_MAX] ! k"
    unfolding first_free_def by (rule takeWhile_nth)
  moreover have "[0..<PTHREAD_KEYS_MAX] ! k = k"
    using k length_takeWhile_le [of _ "[0..<PTHREAD_KEYS_MAX]"] unfolding first_free_def
    by (metis add.left_neutral length_upt less_le_trans minus_nat.diff_0 nth_upt)
  ultimately show ?thesis
    using k set_takeWhileD [OF nth_mem, of k "\<lambda>k. k_count (kt k) \<noteq> 0" "[0..<PTHREAD_KEYS_MAX]"]
    unfolding first_free_def by simp
qed

lemma first_free_le: "first_free kt \<le> PTHREAD_KEYS_MAX"
  using length_takeWhile_le [of _ "[0..<PTHREAD_KEYS_MAX]"] by (simp add: first_free_def)

lemma first_free_free: "first_free kt < PTHREAD_KEYS_MAX \<Longrightarrow> k_count (kt (first_free kt)) = 0"
  using nth_length_takeWhile [of "\<lambda>k. k_count (kt k) \<noteq> 0" "[0..<PTHREAD_KEYS_MAX]"]
  by (simp add: first_free_def)

definition created :: "'k world \<Rightarrow> addr \<Rightarrow> addr \<Rightarrow> 'k world" where
  "created s key dtor =
     (let k = first_free (key_table s) in
      s\<lparr>ints := (ints s)(key := Some (int k)),
        key_table := if k < PTHREAD_KEYS_MAX
                     then (key_table s)(k := (key_table s k)\<lparr>k_count := 1, k_destructor := dtor\<rparr>)
                     else key_table s\<rparr>)"

lemma key_create_loop_run:
  assumes "key \<noteq> NULL" "ints s key = Some (int i)" "i \<le> first_free (key_table s)"
  shows "key_create_loop key dtor s =
    Some (Ret (if first_free (key_table s) < PTHREAD_KEYS_MAX then 0 else EAGAIN) (created s key dtor))"
  using assms(2,3)
proof (induction "PTHREAD_KEYS_MAX - i" arbitrary: i s)
  case 0
  have f: "first_free (key_table s) = PTHREAD_KEYS_MAX" "i = PTHREAD_KEYS_MAX"
    using 0 first_free_le [of "key_table s"] by simp_all
  show ?case
    using 0(2) assms(1) unfolding f(2)
    by (subst key_create_loop.simps) (simp add: created_def f(1) retM_def fun_upd_idem)
next
  case (Suc n)
  then have i: "i < PTHREAD_KEYS_MAX" by simp
  show ?case
  proof (cases "k_count (key_table s i) = 0")
    case True
    then have f: "first_free (key_table s) = i"
      using Suc.prems(2) first_free_least [of i "key_table s"] by (cases "i = first_free (key_table s)") auto
    show ?thesis
      using i True Suc.prems(1) assms(1)
      by (subst key_create_loop.simps)
         (auto simp: created_def Let_def retM_def f key_entry_run upd_key_run fun_upd_idem)
  next
    case False
    then have "i < first_free (key_table s)"
      using Suc.prems(2) first_free_free [of "key_table s"] i by (cases "i = first_free (key_table s)") auto
    then have "Suc i \<le> first_free (key_table s)" by simp
    with Suc.hyps(1) [of "Suc i" "s\<lparr>ints := (ints s)(key := Some (int i + 1))\<rparr>"] Suc.hyps(2) i
    have "key_create_loop key dtor (s\<lparr>ints := (ints s)(key := Some (int i + 1))\<rparr>) =
      Some (Ret (if first_free (key_table s) < PTHREAD_KEYS_MAX then 0 else EAGAIN) (created s key dtor))"
      by (simp add: created_def Let_def add.commute)
    then show ?thesis
      using i False Suc.prems(1) assms(1)
      by (subst key_create_loop.simps) (simp add: key_entry_run)
  qed
qed

lemma key_create_run:
  assumes "inited s" "key \<noteq> NULL" "ints s key = Some v"
  shows "pthread_key_create E key dtor s =
    Some (Ret (if first_free (key_table s) < PTHREAD_KEYS_MAX then 0 else EAGAIN) (created s key dtor))"
  using assms key_create_loop_run [of key "s\<lparr>ints := (ints s)(key := Some 0)\<rparr>" 0 dtor]
  by (simp add: pthread_key_create_def created_def Let_def)

lemma key_delete_run:
  assumes "inited s" "0 \<le> key" "key < int PTHREAD_KEYS_MAX"
  shows "pthread_key_delete E key s =
    Some (if k_count (key_table s (nat key)) = 1
          then Ret 0 (unblocked E ((blocked E s)\<lparr>key_table := (key_table s)
                 (nat key := (key_table s (nat key))\<lparr>k_destructor := NULL, k_count := 0\<rparr>)\<rparr>))
          else Ret (if k_count (key_table s (nat key)) = 0 then 0 else EBUSY)
                 (unblocked E (blocked E s)))"
  using assms
  by (simp add: pthread_key_delete_def block_run key_entry_run upd_key_run retM_def seqM_seq
      bindM_seq bindM_assoc del: sig_block_run sig_unblock_run)

lemma key_value_table [simp]: "key_value (key_table_update f s) = key_value s"
  by (simp add: key_value_def fun_eq_iff split: option.split)

lemma data_of_table [simp]: "data_of (key_table_update f s) = data_of s"
  by (simp add: data_of_def fun_eq_iff)

lemma thread_counted_table [simp]: "thread_counted off (key_table_update f s) = thread_counted off s"
  by (simp add: thread_counted_def fun_eq_iff split: option.split)

lemma no_values:
  assumes "keys_ok off ts ks s" "k < PTHREAD_KEYS_MAX" "k_count (key_table s k) = of_bool (k \<in> ks)" "p \<in> ts"
  shows "key_value s p k = NULL"
proof -
  have "card {p \<in> ts. key_value s p k \<noteq> NULL} = 0"
    using keys_okD(4) [OF assms(1,2)] assms(3) by (simp add: key_counted_def)
  moreover have "finite {p \<in> ts. key_value s p k \<noteq> NULL}" using keys_okD(1) [OF assms(1)] by simp
  ultimately have "{p \<in> ts. key_value s p k \<noteq> NULL} = {}" by (simp only: card_0_eq)
  with assms(4) show ?thesis by blast
qed

lemma keys_ok_set_table:
  assumes ok: "keys_ok off ts ks s" and k: "k < PTHREAD_KEYS_MAX" "\<forall>p\<in>ts. key_value s p k = NULL"
    and e: "k_count e = of_bool (k \<in> ks')" "ks' - {k} = ks - {k}"
  shows "keys_ok off ts ks' (s\<lparr>key_table := (key_table s)(k := e)\<rparr>)"
proof -
  have "key_counted ts ks' (s\<lparr>key_table := (key_table s)(k := e)\<rparr>) j" if j: "j < PTHREAD_KEYS_MAX" for j
  proof (cases "j = k")
    case True
    have "{p \<in> ts. key_value s p k \<noteq> NULL} = {}" using k(2) by auto
    then have "card {p \<in> ts. key_value s p k \<noteq> NULL} = 0" by (simp only: card.empty)
    with True k e show ?thesis by (simp add: key_counted_def)
  next
    case False
    with e(2) have "j \<in> ks' \<longleftrightarrow> j \<in> ks" by blast
    with False keys_okD(4) [OF ok j] show ?thesis by (simp add: key_counted_def)
  qed
  with keys_okD(1,2,3) [OF ok] show ?thesis by (simp add: keys_ok_def)
qed

section \<open>Properties\<close>

text \<open>
  C24: The accounting of keys is an invariant: \<^verbatim>\<open>pthread_setspecific\<close>, \<^verbatim>\<open>pthread_key_create\<close> and
  \<^verbatim>\<open>pthread_key_delete\<close> keep the count of every existing key one more than the number of threads with a value for it, and
  that of every other key 0.  A thread's own count stays the number of its values and whatever \<open>off\<close> its memory held when the
  structure was allocated, which no code initialises.
\<close>

theorem key_accounting_invariant:
  assumes i: "inited s" and o: "data_owner s p t" and ok: "keys_ok off ts ks s" "p \<in> ts"
    and a: "has_array E s t" and k: "k < PTHREAD_KEYS_MAX"
    and key: "key \<noteq> NULL" "ints s key = Some x"
  shows "(k \<in> ks \<longrightarrow> (\<exists>s'. pthread_setspecific E (int k) v s = Some (Ret 0 s') \<and> keys_ok off ts ks s')) \<and>
    (\<exists>r s'. pthread_key_create E key d s = Some (Ret r s') \<and>
       keys_ok off ts (if r = 0 then insert (first_free (key_table s)) ks else ks) s') \<and>
    (\<exists>r s'. pthread_key_delete E (int k) s = Some (Ret r s') \<and>
       keys_ok off ts (if r = 0 then ks - {k} else ks) s')"
proof (intro conjI impI)
  show "\<exists>s'. pthread_setspecific E (int k) v s = Some (Ret 0 s') \<and> keys_ok off ts ks s'" if "k \<in> ks"
    using setspecific_spec [OF i o ok a k that] by blast
next
  let ?f = "first_free (key_table s)"
  have "keys_ok off ts (insert ?f ks) (created s key d)" if f: "?f < PTHREAD_KEYS_MAX"
  proof -
    have c: "k_count (key_table s ?f) = 0" using f by (rule first_free_free)
    then have n: "?f \<notin> ks" using keys_okD(4) [OF ok(1) f] by (auto simp: key_counted_def)
    then have "\<forall>p\<in>ts. key_value s p ?f = NULL"
      using no_values [OF ok(1) f] c by simp
    with ok(1) keys_ok_set_table [of off ts ks "s\<lparr>ints := (ints s)(key := Some (int ?f))\<rparr>" ?f,
        where e = "(key_table s ?f)\<lparr>k_count := 1, k_destructor := d\<rparr>" and ks' = "insert ?f ks"] f
    show ?thesis by (simp add: created_def Let_def)
  qed
  then show "\<exists>r s'. pthread_key_create E key d s = Some (Ret r s') \<and>
       keys_ok off ts (if r = 0 then insert ?f ks else ks) s'"
    using key_create_run [OF i key] ok by (auto simp: created_def Let_def)
next
  let ?c = "k_count (key_table s k)"
  have kc: "k \<in> ks" if "?c = 1"
  proof (rule ccontr)
    assume n: "k \<notin> ks"
    then have "\<forall>p\<in>ts. key_value s p k = NULL" using keys_okD(4) [OF ok(1) k] by (simp add: key_counted_def)
    then have "{p \<in> ts. key_value s p k \<noteq> NULL} = {}" by auto
    then have "card {p \<in> ts. key_value s p k \<noteq> NULL} = 0" by (simp only: card.empty)
    with n that keys_okD(4) [OF ok(1) k] show False by (simp add: key_counted_def)
  qed
  have "\<forall>p\<in>ts. key_value s p k = NULL" if "?c = 1"
    using no_values [OF ok(1) k] kc [OF that] that by simp
  then have "keys_ok off ts (ks - {k}) (s\<lparr>key_table := (key_table s)(k := (key_table s k)\<lparr>k_destructor := NULL, k_count := 0\<rparr>)\<rparr>)" if "?c = 1"
    using keys_ok_set_table [OF ok(1) k, of "(key_table s k)\<lparr>k_destructor := NULL, k_count := 0\<rparr>" "ks - {k}"] that by simp
  moreover have "k \<notin> ks" if "?c = 0" using keys_okD(4) [OF ok(1) k] that by (auto simp: key_counted_def)
  ultimately show "\<exists>r s'. pthread_key_delete E (int k) s = Some (Ret r s') \<and>
       keys_ok off ts (if r = 0 then ks - {k} else ks) s'"
    using key_delete_run [OF i, of "int k" E] k ok(1)
    by (auto simp: blocked_def unblocked_def)
qed


text \<open>It holds from the start: of the empty table and of threads without values, whatever their counts.\<close>

lemma keys_ok_start:
  assumes "finite ts" "\<forall>k<PTHREAD_KEYS_MAX. k_count (key_table s k) = 0"
    and "\<forall>p\<in>ts. \<exists>t. threads s p = Some t \<and> specific_data t = NULL"
  shows "keys_ok (\<lambda>p. case threads s p of None \<Rightarrow> 0 | Some t \<Rightarrow> specific_data_count t) ts {} s"
proof -
  have v: "key_value s p k = NULL" "data_of s p = NULL" if "p \<in> ts" for p k
    using assms(3) that by (auto simp: key_value_def data_of_def)
  have "{p \<in> ts. key_value s p k \<noteq> NULL} = {}" for k using v by auto
  then have c: "card {p \<in> ts. key_value s p k \<noteq> NULL} = 0" for k by (simp only: card.empty)
  show ?thesis
    unfolding keys_ok_def key_counted_def using assms v c by (auto simp: thread_counted_def)
qed

lemma demo_owner [simp]: "data_owner demo_world 10 demo_thread"
  by (auto simp: data_owner_def intro: exI [of _ "[]"])

lemma demo_keys_ok: "keys_ok (\<lambda>_. 0) {10, 20} {} demo_world"
  by (simp add: keys_ok_def thread_counted_def key_counted_def key_value_def data_of_def)

text \<open>The demonstration world with key 0 created.\<close>

definition demo_keyed :: "demo_kern world" where
  "demo_keyed = demo_world\<lparr>key_table := (key_table demo_world)(0 := \<lparr>k_count = 1, k_destructor = NULL\<rparr>)\<rparr>"

lemma demo_keyed_ok: "keys_ok (\<lambda>_. 0) {10, 20} {0} demo_keyed"
  unfolding demo_keyed_def
  by (rule keys_ok_set_table [OF demo_keys_ok]) (auto simp: key_value_def PTHREAD_KEYS_MAX_def)

lemma demo_keyed_facts [simp]:
  "inited demo_keyed" "data_owner demo_keyed 10 demo_thread" "has_array demo_os demo_keyed demo_thread"
  "ints demo_keyed 60 = Some 0"
  by (simp_all add: demo_keyed_def has_array_def blocked_def kres_def kst_def demo_nop_def)

theorem key_accounting_invariant_witness:
  "\<exists>s'. pthread_setspecific demo_os 0 99 demo_keyed = Some (Ret 0 s') \<and> keys_ok (\<lambda>_. 0) {10, 20} {0} s'"
  using key_accounting_invariant [OF demo_keyed_facts(1,2) demo_keyed_ok _ demo_keyed_facts(3), of 0 60 0 99 0]
  by (simp add: PTHREAD_KEYS_MAX_def)

text \<open>C40: A value stored for an existing key is the value \<^verbatim>\<open>pthread_getspecific\<close> then returns, and no other
  key's value and no other thread's value changes.\<close>

theorem setspecific_getspecific:
  assumes i: "inited s" and o: "data_owner s p t" and ok: "keys_ok off ts ks s" "p \<in> ts"
    and a: "has_array E s t" and k: "k < PTHREAD_KEYS_MAX" "k \<in> ks"
  shows "\<exists>s' s''. pthread_setspecific E (int k) v s = Some (Ret 0 s') \<and>
    pthread_getspecific E (int k) s' = Some (Ret v s'') \<and>
    (\<forall>q\<in>ts. \<forall>j. key_value s'' q j = (if q = p \<and> j = k then v else key_value s q j))"
proof -
  from setspecific_spec [OF i o ok a k, of v] obtain s' t' where
    s': "pthread_setspecific E (int k) v s = Some (Ret 0 s')" "keys_ok off ts ks s'" "inited s'"
      "data_owner s' p t'"
    and kv: "\<forall>q\<in>ts. \<forall>j. key_value s' q j = (if q = p \<and> j = k then v else key_value s q j)"
    by blast
  have "specific_data t' \<noteq> NULL \<longrightarrow> arrays s' (specific_data t') \<noteq> None"
    using keys_okD(2) [OF s'(2) ok(2)] data_owner_facts [OF s'(4)] by (simp add: thread_counted_iff)
  from getspecific_run [OF s'(3,4) _ _ this, of "int k" E] k
  have "pthread_getspecific E (int k) s' = Some (Ret v (unblocked E (blocked E s')))"
    using keys_okD(4) [OF s'(2) k(1)] kv ok(2) by (simp add: key_counted_def)
  with s'(1) kv show ?thesis by auto
qed

theorem setspecific_getspecific_witness:
  "\<exists>s' s''. pthread_setspecific demo_os 0 99 demo_keyed = Some (Ret 0 s') \<and>
    pthread_getspecific demo_os 0 s' = Some (Ret 99 s'')"
  using setspecific_getspecific [OF demo_keyed_facts(1,2) demo_keyed_ok _ demo_keyed_facts(3), of 0 99]
  by (auto simp: PTHREAD_KEYS_MAX_def)

text \<open>A key fresh from \<^verbatim>\<open>pthread_key_create\<close> is the least unused index and reads \<^verbatim>\<open>NULL\<close> in every thread,
  also when the index was used before; when all are in use the call returns \<^verbatim>\<open>EAGAIN\<close>, stores the
  limit in the key variable, and creates nothing.\<close>

lemma key_create_fresh:
  assumes "inited s" and ok: "keys_ok off ts ks s" and key: "key \<noteq> NULL" "ints s key = Some x"
  shows "\<exists>r s'. pthread_key_create E key d s = Some (Ret r s') \<and>
    (if \<exists>k<PTHREAD_KEYS_MAX. k_count (key_table s k) = 0
     then r = 0 \<and> (\<exists>k<PTHREAD_KEYS_MAX. ints s' key = Some (int k) \<and> k_count (key_table s k) = 0 \<and>
            (\<forall>j<k. k_count (key_table s j) \<noteq> 0) \<and> k_count (key_table s' k) = 1 \<and>
            k_destructor (key_table s' k) = d \<and> (\<forall>p\<in>ts. key_value s' p k = NULL))
     else r = EAGAIN \<and> ints s' key = Some (int PTHREAD_KEYS_MAX) \<and> key_table s' = key_table s)"
proof -
  let ?f = "first_free (key_table s)"
  have kv: "key_value (created s key d) p = key_value s p" for p by (simp add: created_def Let_def)
  show ?thesis
  proof (cases "?f < PTHREAD_KEYS_MAX")
    case True
    have c: "k_count (key_table s ?f) = 0" using True by (rule first_free_free)
    then have "?f \<notin> ks" using keys_okD(4) [OF ok True] by (auto simp: key_counted_def)
    then have "\<forall>p\<in>ts. key_value s p ?f = NULL" using no_values [OF ok True] c by simp
    then show ?thesis
      using key_create_run [OF assms(1) key] True c first_free_least kv
      by (auto simp: created_def Let_def)
  next
    case False
    then have f: "?f = PTHREAD_KEYS_MAX" using first_free_le [of "key_table s"] by simp
    then have "\<not> (\<exists>k<PTHREAD_KEYS_MAX. k_count (key_table s k) = 0)"
      using first_free_least by metis
    then show ?thesis using key_create_run [OF assms(1) key] f by (simp add: created_def)
  qed
qed

lemma key_create_fresh_witness:
  "\<exists>s' k. pthread_key_create demo_os 60 5 demo_keyed = Some (Ret 0 s') \<and> ints s' 60 = Some (int k) \<and> 0 < k"
proof -
  have e: "\<exists>k<PTHREAD_KEYS_MAX. k_count (key_table demo_keyed k) = 0"
    by (rule exI [of _ 1]) (simp add: demo_keyed_def PTHREAD_KEYS_MAX_def)
  have z: "k_count (key_table demo_keyed 0) \<noteq> 0" by (simp add: demo_keyed_def)
  have "(60::addr) \<noteq> NULL" by simp
  from key_create_fresh [OF demo_keyed_facts(1) demo_keyed_ok this demo_keyed_facts(4), of demo_os 5, unfolded if_P [OF e]]
  obtain s' k where s': "pthread_key_create demo_os 60 5 demo_keyed = Some (Ret 0 s')"
    "ints s' 60 = Some (int k)" "k_count (key_table demo_keyed k) = 0" by blast
  with z have "0 < k" by (cases k) simp_all
  with s' show ?thesis by blast
qed

section \<open>Destructors at thread exit\<close>

text \<open>
  Destructors that leave the library's data alone: calling \<open>f\<close> on \<open>v\<close> only takes the kernel
  state \<open>k\<close> of thread \<open>t\<close> to \<open>c f v t k\<close>.
\<close>

definition plain_calls :: "'k os \<Rightarrow> (addr \<Rightarrow> addr \<Rightarrow> tid \<Rightarrow> 'k \<Rightarrow> 'k) \<Rightarrow> bool" where
  "plain_calls E c \<longleftrightarrow>
     (\<forall>f v u. f \<noteq> NULL \<longrightarrow> (\<exists>r. call_fun E f v u = Some (Ret r (u\<lparr>kern := c f v (cur u) (kern u)\<rparr>))))"

definition destroyed ::
  "(addr \<Rightarrow> addr \<Rightarrow> tid \<Rightarrow> 'k \<Rightarrow> 'k) \<Rightarrow> addr \<Rightarrow> pthread \<Rightarrow> nat \<Rightarrow> 'k world \<times> (nat \<Rightarrow> addr) \<times> int \<Rightarrow>
   'k world \<times> (nat \<Rightarrow> addr) \<times> int" where
  "destroyed c p t k x = (case x of (s, a, n) \<Rightarrow>
     if a k = NULL then x
     else let e = key_table s k in
       (s\<lparr>key_table := (key_table s)(k := e\<lparr>k_count := k_count e - 1\<rparr>),
          kern := if k_destructor e = NULL then kern s else c (k_destructor e) (a k) (cur s) (kern s)\<rparr>,
        a(k := NULL), n - 1))"

text \<open>The world with the array and the count of the thread written back.\<close>

definition written :: "addr \<Rightarrow> pthread \<Rightarrow> 'k world \<times> (nat \<Rightarrow> addr) \<times> int \<Rightarrow> 'k world" where
  "written p t x = (case x of (s, a, n) \<Rightarrow>
     s\<lparr>threads := (threads s)(p := Some (t\<lparr>specific_data_count := n\<rparr>)),
       arrays := (arrays s)(specific_data t := Some a)\<rparr>)"

definition freed :: "'k os \<Rightarrow> addr \<Rightarrow> pthread \<Rightarrow> 'k world \<times> (nat \<Rightarrow> addr) \<times> int \<Rightarrow> 'k world" where
  "freed E p t x = unblocked E ((written p t x)\<lparr>arrays := (arrays (written p t x))(specific_data t := None)\<rparr>)"

lemma cleanup_key_step:
  assumes c: "plain_calls E c" and p: "p \<noteq> NULL" "run s = p" and d: "specific_data t \<noteq> NULL"
    and n: "n \<noteq> 0" and k: "k < PTHREAD_KEYS_MAX"
  shows "cleanup_key E p k (written p t (s, a, n)) = Some (Ret False (written p t (destroyed c p t k (s, a, n))))"
proof -
  let ?w = "written p t (s, a, n)"
  have w: "threads ?w p = Some (t\<lparr>specific_data_count := n\<rparr>)" "arrays ?w (specific_data t) = Some a" "run ?w = p"
    using p(2) by (simp_all add: written_def)
  let ?e = "key_table s k"
  let ?u = "?w\<lparr>arrays := (arrays ?w)(specific_data t := Some (a(k := NULL))),
      threads := (threads ?w)(p := Some (t\<lparr>specific_data_count := n - 1\<rparr>))\<rparr>"
  have ke: "key_table ?w = key_table s" by (simp add: written_def)
  show ?thesis
  proof (cases "a k = NULL \<or> k_destructor ?e = NULL")
    case True
    then show ?thesis
      using p d n k w
      by (auto simp: cleanup_key_def run_simps destroyed_def Let_def retM_def) (simp_all add: written_def)
  next
    case False
    then obtain r where cf: "call_fun E (k_destructor ?e) (a k) ?u =
        Some (Ret r (?u\<lparr>kern := c (k_destructor ?e) (a k) (cur s) (kern s)\<rparr>))"
      using c [unfolded plain_calls_def, rule_format, of "k_destructor ?e" "a k" ?u] by (auto simp: written_def)
    show ?thesis
      using False p d n k w
      by (simp add: cleanup_key_def run_simps destroyed_def Let_def retM_def ke
          bindM_run [where m = "call_fun E (k_destructor ?e) (a k)", OF cf]) (simp add: written_def)
  qed
qed

lemma cleanup_key_done:
  assumes "p \<noteq> NULL" "specific_data t \<noteq> NULL"
  shows "cleanup_key E p k (written p t (s, a, 0)) = Some (Ret True (freed E p t (s, a, 0)))"
  using assms
  by (simp add: cleanup_key_def run_simps retM_def freed_def written_def block_run
      del: sig_block_run sig_unblock_run)

lemma destroyed_sel:
  assumes "destroyed c p t k (s, a, n) = (s1, a1, n1)"
  shows "a1 = a(k := NULL)" "n1 = n - of_bool (a k \<noteq> NULL)" "cur s1 = cur s" "run s1 = run s"
    "threads s1 = threads s" "arrays s1 = arrays s"
    "key_table s1 = (if a k = NULL then key_table s
       else (key_table s)(k := (key_table s k)\<lparr>k_count := k_count (key_table s k) - 1\<rparr>))"
    "kern s1 = (if a k \<noteq> NULL \<and> k_destructor (key_table s k) \<noteq> NULL
       then c (k_destructor (key_table s k)) (a k) (cur s) (kern s) else kern s)"
  using assms by (auto simp: destroyed_def Let_def split: if_splits)

text \<open>What the visit of a key does when the thread's count has \<open>n\<close> left: with 0 left the array is freed and no more keys are visited.\<close>

definition visited ::
  "(addr \<Rightarrow> addr \<Rightarrow> tid \<Rightarrow> 'k \<Rightarrow> 'k) \<Rightarrow> addr \<Rightarrow> pthread \<Rightarrow> nat \<Rightarrow> 'k world \<times> (nat \<Rightarrow> addr) \<times> int \<Rightarrow>
   'k world \<times> (nat \<Rightarrow> addr) \<times> int" where
  "visited c p t k x = (if snd (snd x) = 0 then x else destroyed c p t k x)"

lemma visited_none: "fold (visited c p t) ks (s, a, 0) = (s, a, 0)"
  by (induction ks) (simp_all add: visited_def)

lemma visited_nulls: "\<forall>k\<in>set ks. a k = NULL \<Longrightarrow> fold (visited c p t) ks (s, a, n) = (s, a, n)"
  by (induction ks) (simp_all add: visited_def destroyed_def visited_none)

lemma cleanup_pass:
  assumes c: "plain_calls E c" and p: "p \<noteq> NULL" and d: "specific_data t \<noteq> NULL"
    and "set ks \<subseteq> {..<PTHREAD_KEYS_MAX}" and "run s = p"
  shows "\<exists>b. untilM ks (cleanup_key E p) (written p t (s, a, n)) =
      Some (Ret b (if b then freed E p t (fold (visited c p t) ks (s, a, n))
                   else written p t (fold (visited c p t) ks (s, a, n))))"
  using assms(4,5)
proof (induction ks arbitrary: s a n)
  case Nil
  then show ?case by (intro exI [of _ False]) simp
next
  case (Cons k ks)
  show ?case
  proof (cases "n = 0")
    case True
    then show ?thesis
      by (intro exI [of _ True])
        (simp add: retM_def visited_none bindM_run [where m = "cleanup_key E p k", OF cleanup_key_done [OF p d]] del: fold.simps)
  next
    case False
    obtain s' a' n' where x: "destroyed c p t k (s, a, n) = (s', a', n')" by (metis prod_cases3)
    have "run s' = p" using destroyed_sel(4) [OF x] Cons.prems(2) by simp
    with Cons.IH [of s' a' n'] Cons.prems(1) obtain b where
      b: "untilM ks (cleanup_key E p) (written p t (s', a', n')) =
        Some (Ret b (if b then freed E p t (fold (visited c p t) ks (s', a', n'))
                     else written p t (fold (visited c p t) ks (s', a', n'))))" by auto
    have k: "k < PTHREAD_KEYS_MAX" using Cons.prems(1) by simp
    from b False show ?thesis
      by (intro exI [of _ b]) (simp add: x visited_def
        bindM_run [where m = "cleanup_key E p k", OF cleanup_key_step [OF c p Cons.prems(2) d False k]])
  qed
qed

text \<open>The keys whose values are taken: with a count from 0 on no more than the count, with a negative one all.\<close>

definition served :: "int \<Rightarrow> (nat \<Rightarrow> addr) \<Rightarrow> nat list \<Rightarrow> nat list" where
  "served n a ks = (let vs = filter (\<lambda>k. a k \<noteq> NULL) ks in if 0 \<le> n then take (nat n) vs else vs)"

lemma served_set: "set (served n a ks) \<subseteq> {k \<in> set ks. a k \<noteq> NULL}"
  using set_take_subset [of "nat n" "filter (\<lambda>k. a k \<noteq> NULL) ks"] by (auto simp: served_def Let_def)

lemma served_distinct: "distinct ks \<Longrightarrow> distinct (served n a ks)"
  by (simp add: served_def Let_def)

lemma served_all:
  assumes "n < 0 \<or> int (card {k \<in> set ks. a k \<noteq> NULL}) \<le> n" "distinct ks"
  shows "served n a ks = filter (\<lambda>k. a k \<noteq> NULL) ks"
proof -
  have "card {k \<in> set ks. a k \<noteq> NULL} = length (filter (\<lambda>k. a k \<noteq> NULL) ks)"
    using distinct_card [OF distinct_filter [OF assms(2), of "\<lambda>k. a k \<noteq> NULL"]] by simp
  with assms(1) show ?thesis by (auto simp: served_def Let_def)
qed

lemma served_Cons:
  "a k \<noteq> NULL \<Longrightarrow> n \<noteq> 0 \<Longrightarrow> served n a (k # ks) = k # served (n - 1) a ks"
  by (simp add: served_def Let_def take_Cons' nat_diff_distrib)

lemma visited_served:
  "distinct ks \<Longrightarrow> fold (visited c p t) ks (s, a, n) = fold (destroyed c p t) (served n a ks) (s, a, n)"
proof (induction ks arbitrary: s a n)
  case (Cons k ks)
  show ?case
  proof (cases "n = 0 \<or> a k = NULL")
    case True
    then have "visited c p t k (s, a, n) = (s, a, n)" by (auto simp: visited_def destroyed_def)
    moreover have "served n a (k # ks) = served n a ks" using True by (auto simp: served_def Let_def)
    ultimately show ?thesis using Cons by simp
  next
    case False
    obtain s' a' n' where x: "destroyed c p t k (s, a, n) = (s', a', n')" by (metis prod_cases3)
    have "filter (\<lambda>j. a' j \<noteq> NULL) ks = filter (\<lambda>j. a j \<noteq> NULL) ks"
      using destroyed_sel(1) [OF x] Cons.prems by (intro filter_cong refl) auto
    then have "served n' a' ks = served (n - 1) a ks"
      using destroyed_sel(2) [OF x] False by (simp add: served_def)
    then show ?thesis
      using Cons False x by (simp add: visited_def served_Cons)
  qed
qed (simp add: served_def)

lemma destroyed_filter:
  "distinct ks \<Longrightarrow> fold (destroyed c p t) (filter (\<lambda>k. a k \<noteq> NULL) ks) (s, a, n) = fold (destroyed c p t) ks (s, a, n)"
proof (induction ks arbitrary: s a n)
  case (Cons k ks)
  obtain s' a' n' where x: "destroyed c p t k (s, a, n) = (s', a', n')" by (metis prod_cases3)
  have "filter (\<lambda>j. a' j \<noteq> NULL) ks = filter (\<lambda>j. a j \<noteq> NULL) ks"
    using destroyed_sel(1) [OF x] Cons.prems by (intro filter_cong refl) auto
  with Cons.IH [of a' s' n'] Cons.IH [of a s n] Cons.prems x show ?case by (auto simp: destroyed_def)
qed simp

lemma served_null:
  "fold (destroyed c p t) ks (s, a, n) = (s', a', n') \<Longrightarrow> distinct ks \<Longrightarrow> \<forall>k\<in>set ks. a k \<noteq> NULL \<Longrightarrow> n' = n - int (length ks)"
proof (induction ks arbitrary: s a n)
  case (Cons k ks)
  obtain s1 a1 n1 where x: "destroyed c p t k (s, a, n) = (s1, a1, n1)" by (metis prod_cases3)
  have "\<forall>k\<in>set ks. a1 k \<noteq> NULL" using destroyed_sel(1) [OF x] Cons.prems(2,3) by auto
  moreover have "fold (destroyed c p t) ks (s1, a1, n1) = (s', a', n')" using Cons.prems(1) x by simp
  ultimately have "n' = n1 - int (length ks)" using Cons.prems(2) by (intro Cons.IH) simp_all
  with destroyed_sel(2) [OF x] Cons.prems(3) show ?case by simp
qed simp

lemma destroyed_fold:
  "fold (destroyed c p t) ks (s, a, n) = (s', a', n') \<Longrightarrow> distinct ks \<Longrightarrow>
   a' = (\<lambda>k. if k \<in> set ks then NULL else a k) \<and> cur s' = cur s \<and>
   key_table s' = (\<lambda>k. if k \<in> set ks \<and> a k \<noteq> NULL
       then (key_table s k)\<lparr>k_count := k_count (key_table s k) - 1\<rparr> else key_table s k) \<and>
   kern s' = fold (\<lambda>k. c (k_destructor (key_table s k)) (a k) (cur s))
       (filter (\<lambda>k. a k \<noteq> NULL \<and> k_destructor (key_table s k) \<noteq> NULL) ks) (kern s) \<and>
   threads s' = threads s \<and> arrays s' = arrays s"
proof (induction ks arbitrary: s a n)
  case Nil
  then show ?case by simp
next
  case (Cons k ks)
  obtain s1 a1 n1 where x: "destroyed c p t k (s, a, n) = (s1, a1, n1)" by (metis prod_cases3)
  note d = destroyed_sel [OF x]
  have k: "k \<notin> set ks" "distinct ks" using Cons.prems(2) by simp_all
  have f: "filter (\<lambda>j. a1 j \<noteq> NULL \<and> k_destructor (key_table s1 j) \<noteq> NULL) ks =
      filter (\<lambda>j. a j \<noteq> NULL \<and> k_destructor (key_table s j) \<noteq> NULL) ks"
    using k d(1,7) by (intro filter_cong refl) auto
  have g: "fold (\<lambda>k. c (k_destructor (key_table s1 k)) (a1 k) (cur s1)) xs u =
      fold (\<lambda>k. c (k_destructor (key_table s k)) (a k) (cur s)) xs u" if "set xs \<subseteq> set ks" for xs u
    using k that d(1,3,7) by (intro fold_cong refl) auto
  have "fold (destroyed c p t) ks (s1, a1, n1) = (s', a', n')" using Cons.prems(1) by (simp add: x)
  note IH = Cons.IH [OF this k(2), unfolded f]
  have "a' = (\<lambda>j. if j \<in> set (k # ks) then NULL else a j)"
    using IH d(1) by auto
  moreover have "key_table s' = (\<lambda>j. if j \<in> set (k # ks) \<and> a j \<noteq> NULL
       then (key_table s j)\<lparr>k_count := k_count (key_table s j) - 1\<rparr> else key_table s j)"
    using IH d(1,7) k by auto
  moreover have "kern s' = fold (\<lambda>k. c (k_destructor (key_table s k)) (a k) (cur s))
       (filter (\<lambda>k. a k \<noteq> NULL \<and> k_destructor (key_table s k) \<noteq> NULL) (k # ks)) (kern s)"
    using IH d(8) by (simp add: g)
  ultimately show ?case using IH d(3,5,6) by simp
qed

lemma destroyed_fold_run: "fold (destroyed c p t) ks (s, a, n) = (s', a', n') \<Longrightarrow> run s' = run s"
proof (induction ks arbitrary: s a n)
  case (Cons k ks)
  obtain s1 a1 n1 where x: "destroyed c p t k (s, a, n) = (s1, a1, n1)" by (metis prod_cases3)
  with Cons.IH [of s1 a1 n1] Cons.prems destroyed_sel(4) [OF x] show ?case by simp
qed simp

lemma cleanupspecific_visits:
  assumes c: "plain_calls E c" and p: "p = run s" "p \<noteq> NULL" and t: "threads s p = Some t"
    and d: "specific_data t \<noteq> NULL" "arrays s (specific_data t) = Some a"
  shows "thread_cleanupspecific E s = Some (Ret ()
    (freed E p t (fold (visited c p t) [0..<PTHREAD_KEYS_MAX] (blocked E s, a, specific_data_count t))))"
proof -
  let ?pass = "untilM [0..<PTHREAD_KEYS_MAX] (cleanup_key E p)"
  let ?x = "fold (visited c p t) [0..<PTHREAD_KEYS_MAX] (blocked E s, a, specific_data_count t)"
  have w: "blocked E s = written p t (blocked E s, a, specific_data_count t)"
    using t d by (simp add: written_def fun_upd_idem)
  have sub: "set [0..<PTHREAD_KEYS_MAX] \<subseteq> {..<PTHREAD_KEYS_MAX}" by auto
  have r: "run (blocked E s) = p" using p(1) by simp
  from cleanup_pass [OF c p(2) d(1) sub r, of a "specific_data_count t", folded w]
  obtain b where b: "?pass (blocked E s) = Some (Ret b (if b then freed E p t ?x else written p t ?x))" by blast
  obtain s1 a1 n1 where x: "?x = (s1, a1, n1)" by (metis prod_cases3)
  have x': "fold (destroyed c p t) (served (specific_data_count t) a [0..<PTHREAD_KEYS_MAX])
      (blocked E s, a, specific_data_count t) = (s1, a1, n1)"
    using x by (simp only: visited_served [OF distinct_upt])
  have a1: "a1 k = NULL" if "n1 \<noteq> 0" "k < PTHREAD_KEYS_MAX" for k
  proof (rule ccontr)
    assume nz: "a1 k \<noteq> NULL"
    let ?vs = "served (specific_data_count t) a [0..<PTHREAD_KEYS_MAX]"
    note f = destroyed_fold [OF x' served_distinct [OF distinct_upt]]
    then have k: "k \<notin> set ?vs" "a k \<noteq> NULL" using nz by (auto split: if_splits)
    then have "0 \<le> specific_data_count t" "length ?vs = nat (specific_data_count t)"
      using that(2) by (auto simp: served_def Let_def min_def split: if_splits)
    moreover have "n1 = specific_data_count t - int (length ?vs)"
      by (rule served_null [OF x' served_distinct [OF distinct_upt]]) (use served_set [of "specific_data_count t" a] in blast)
    ultimately show False using that(1) by simp
  qed
  have s1: "run s1 = p" using destroyed_fold_run [OF x'] p(1) by simp
  have again: "\<exists>b. ?pass (written p t ?x) = Some (Ret b (if b then freed E p t ?x else written p t ?x))"
  proof -
    have "fold (visited c p t) [0..<PTHREAD_KEYS_MAX] ?x = ?x"
      unfolding x using a1 by (cases "n1 = 0") (auto intro!: visited_nulls simp: visited_none)
    with cleanup_pass [OF c p(2) d(1) sub s1, of a1 n1] show ?thesis unfolding x by (simp only:)
  qed
  then obtain b2 where b2: "?pass (written p t ?x) = Some (Ret b2 (if b2 then freed E p t ?x else written p t ?x))" by blast
  have it: "[0..<PTHREAD_DESTRUCTOR_ITERATIONS] = [0, 1, 2, 3]"
    by (simp add: PTHREAD_DESTRUCTOR_ITERATIONS_def upt_rec)
  have u: "untilM [0..<PTHREAD_DESTRUCTOR_ITERATIONS] (\<lambda>itr. ?pass) (blocked E s) =
      Some (Ret (b \<or> b2) (if b \<or> b2 then freed E p t ?x else written p t ?x))"
    unfolding it untilM.simps
    by (cases b; cases b2) (simp_all add: bindM_run [where m = ?pass, OF b] bindM_run [where m = ?pass, OF b2] retM_def)
  have last: "bindM (load threads p) (\<lambda>t. seqM (free arrays arrays_update (specific_data t)) (thread_kern_sig_unblock E))
      (written p t ?x) = Some (Ret () (freed E p t ?x))"
    using p(2) d(1) by (simp add: x written_def run_simps freed_def unblock_end)
  show ?thesis
    using last by (cases "b \<or> b2") (simp_all add: thread_cleanupspecific_def block_run p(1) [symmetric] retM_def
      bindM_run [where m = "untilM [0..<PTHREAD_DESTRUCTOR_ITERATIONS] (\<lambda>itr. ?pass)", OF u]
      del: sig_block_run sig_unblock_run)
qed

lemma cleanupspecific_run:
  assumes "plain_calls E c" and "p = run s" "p \<noteq> NULL" and "threads s p = Some t"
    and "specific_data t \<noteq> NULL" "arrays s (specific_data t) = Some a"
    and n: "specific_data_count t = int (card {k \<in> {..<PTHREAD_KEYS_MAX}. a k \<noteq> NULL})"
  shows "thread_cleanupspecific E s = Some (Ret ()
    (freed E p t (fold (destroyed c p t) [0..<PTHREAD_KEYS_MAX] (blocked E s, a, specific_data_count t))))"
proof -
  have "served (specific_data_count t) a [0..<PTHREAD_KEYS_MAX] = filter (\<lambda>k. a k \<noteq> NULL) [0..<PTHREAD_KEYS_MAX]"
    using n by (intro served_all) (simp_all add: lessThan_atLeast0)
  with cleanupspecific_visits [OF assms(1-6)] show ?thesis
    by (simp only: visited_served [OF distinct_upt] destroyed_filter [OF distinct_upt])
qed

text \<open>
  C25: At thread exit \<^verbatim>\<open>_thread_cleanupspecific\<close> goes through the thread's values in the order of the keys, takes each off its
  key's count and calls the key's destructor with it, once, and in the end frees the thread's array (destructors that store new
  values aside).  How many values it gets to is for \<^verbatim>\<open>specific_data_count\<close> to say: all of them when it is their number,
  larger or negative; but no code initialises it, and from a smaller number it reaches 0 too early: then the
  destructors of the other values never run and their keys stay counted, while the array is freed all the same.
\<close>

theorem cleanup_runs_destructors:
  assumes c: "plain_calls E c" and p: "p = run s" "p \<noteq> NULL" and t: "threads s p = Some t"
    and d: "specific_data t \<noteq> NULL" "arrays s (specific_data t) = Some a"
    and all: "all = filter (\<lambda>k. a k \<noteq> NULL) [0..<PTHREAD_KEYS_MAX]"
    and vs: "vs = (if specific_data_count t < 0 \<or> int (length all) \<le> specific_data_count t then all
                   else take (nat (specific_data_count t)) all)"
  shows "\<exists>s'. thread_cleanupspecific E s = Some (Ret () s') \<and> arrays s' (specific_data t) = None \<and>
    (\<forall>k. k_count (key_table s' k) = k_count (key_table s k) - of_bool (k \<in> set vs)) \<and>
    kern s' = snd (DosExitMustComplete E (cur s)
      (fold (\<lambda>k. c (k_destructor (key_table s k)) (a k) (cur s))
        (filter (\<lambda>k. k_destructor (key_table s k) \<noteq> NULL) vs)
        (snd (DosEnterMustComplete E (cur s) (kern s)))))"
proof -
  have v: "served (specific_data_count t) a [0..<PTHREAD_KEYS_MAX] = vs"
    using all vs by (auto simp: served_def Let_def)
  have nz: "a k \<noteq> NULL" if "k \<in> set vs" for k
    using served_set [of "specific_data_count t" a "[0..<PTHREAD_KEYS_MAX]"] that unfolding v by blast
  obtain s1 a1 n1 where x: "fold (destroyed c p t) vs (blocked E s, a, specific_data_count t) = (s1, a1, n1)"
    by (metis prod_cases3)
  have "distinct vs" unfolding v [symmetric] by (rule served_distinct [OF distinct_upt])
  note f = destroyed_fold [OF x this]
  have kc: "k_count (key_table s1 k) = k_count (key_table s k) - of_bool (k \<in> set vs)" for k
    using f nz [of k] by (cases "k \<in> set vs") simp_all
  have fl: "filter (\<lambda>k. a k \<noteq> NULL \<and> k_destructor (key_table (blocked E s) k) \<noteq> NULL) vs =
      filter (\<lambda>k. k_destructor (key_table s k) \<noteq> NULL) vs"
    using nz by (intro filter_cong) auto
  from cleanupspecific_visits [OF assms(1-6), unfolded visited_served [OF distinct_upt] v x] show ?thesis
    using f [unfolded fl] kc by (intro exI [of _ "freed E p t (s1, a1, n1)"])
      (simp add: freed_def written_def unblocked_def kst_def blocked_def)
qed

definition demo_valued :: "demo_kern world" where
  "demo_valued = demo_world\<lparr>threads := [10 \<mapsto> demo_thread\<lparr>specific_data := 80, specific_data_count := 2\<rparr>],
     arrays := [80 \<mapsto> (\<lambda>k. if k = 1 then 91 else if k = 3 then 93 else NULL)],
     key_table := (\<lambda>k. if k = 1 then \<lparr>k_count = 2, k_destructor = 5\<rparr>
       else if k = 3 then \<lparr>k_count = 2, k_destructor = 6\<rparr> else \<lparr>k_count = 0, k_destructor = NULL\<rparr>)\<rparr>"

lemma demo_valued_keys:
  "filter (\<lambda>k. (if k = 1 then 91 else if k = 3 then 93 else (0::nat)) \<noteq> NULL) [0..<PTHREAD_KEYS_MAX] = [1, 3]"
proof -
  have "[0..<PTHREAD_KEYS_MAX] = [0..<4] @ [4..<PTHREAD_KEYS_MAX]"
    using upt_add_eq_append [of 0 4 252] unfolding PTHREAD_KEYS_MAX_def by (simp only: add_0_left zero_le_numeral numeral_plus_numeral semiring_norm)
  moreover have "filter (\<lambda>k. (if k = 1 then 91 else if k = 3 then 93 else (0::nat)) \<noteq> NULL) [4..<PTHREAD_KEYS_MAX] = []"
    by (auto simp: filter_empty_conv)
  moreover have "[0..<4] = [0, 1, 2, 3::nat]" by (simp add: eval_nat_numeral)
  ultimately show ?thesis by simp
qed

text \<open>With an accurate count, and with one that starts one too low.\<close>

theorem cleanup_runs_destructors_witness:
  "(\<exists>s'. thread_cleanupspecific demo_os demo_valued = Some (Ret () s') \<and> arrays s' 80 = None \<and>
        calls (kern s') = [(5, 91), (6, 93)]) \<and>
   (\<exists>s'. thread_cleanupspecific demo_os (demo_valued\<lparr>threads := [10 \<mapsto> demo_thread\<lparr>specific_data := 80, specific_data_count := 1\<rparr>]\<rparr>) =
        Some (Ret () s') \<and> arrays s' 80 = None \<and> calls (kern s') = [(5, 91)] \<and> k_count (key_table s' 3) = 2)"
proof -
  let ?c = "\<lambda>f x (t::nat) k. k\<lparr>calls := calls k @ [(f, x)]\<rparr>"
  have c: "plain_calls demo_os ?c" by (simp add: plain_calls_def demo_call_def)
  note run = cleanup_runs_destructors [OF c _ _ _ _ _ demo_valued_keys [symmetric] refl, of 10]
  show ?thesis
    using run [of demo_valued "demo_thread\<lparr>specific_data := 80, specific_data_count := 2\<rparr>"]
      run [of "demo_valued\<lparr>threads := [10 \<mapsto> demo_thread\<lparr>specific_data := 80, specific_data_count := 1\<rparr>]\<rparr>"
        "demo_thread\<lparr>specific_data := 80, specific_data_count := 1\<rparr>"]
    by (auto simp: demo_valued_def run_def demo_nop_def)
qed

text \<open>\<^verbatim>\<open>pthread_key_delete\<close> of an existing key succeeds only when no thread has a value for it and is
  otherwise refused with \<^verbatim>\<open>EBUSY\<close>; an index from \<^verbatim>\<open>PTHREAD_KEYS_MAX\<close> on gives \<^verbatim>\<open>EINVAL\<close>, but a
  negative one is used to index the table.\<close>

lemma key_delete_cases:
  assumes "inited s" and "keys_ok off ts ks s"
  shows "(if key < 0 then pthread_key_delete E key s = Some (Fault Out_Of_Bounds)
          else if int PTHREAD_KEYS_MAX \<le> key
          then pthread_key_delete E key s = Some (Ret EINVAL (unblocked E (blocked E s)))
          else \<exists>s'. pthread_key_delete E key s =
                 Some (Ret (if nat key \<in> ks \<and> (\<exists>p\<in>ts. key_value s p (nat key) \<noteq> NULL) then EBUSY else 0) s') \<and>
               k_count (key_table s' (nat key)) =
                 (if \<exists>p\<in>ts. key_value s p (nat key) \<noteq> NULL then k_count (key_table s (nat key)) else 0))"
proof (cases "0 \<le> key \<and> key < int PTHREAD_KEYS_MAX")
  case False
  then show ?thesis
    using assms(1)
    by (auto simp: pthread_key_delete_def block_run key_entry_def bindM_assoc retM_def faultM_def
        simp del: sig_block_run sig_unblock_run)
next
  case True
  let ?k = "nat key" and ?V = "{p \<in> ts. key_value s p (nat key) \<noteq> NULL}"
  have k: "?k < PTHREAD_KEYS_MAX" using True by (simp add: nat_less_iff)
  note c = keys_okD(4) [OF assms(2) k, unfolded key_counted_def]
  note run = key_delete_run [OF assms(1), of key E]
  show ?thesis
  proof (cases "\<exists>p\<in>ts. key_value s p ?k \<noteq> NULL")
    case ex: True
    then have ks: "?k \<in> ks" using c by auto
    have "?V \<noteq> {}" using ex by auto
    moreover have f: "finite ?V" using keys_okD(1) [OF assms(2)] by simp
    ultimately have "card ?V \<noteq> 0" using card_0_eq [OF f] by blast
    then have n: "k_count (key_table s ?k) \<noteq> 0" "k_count (key_table s ?k) \<noteq> 1" using c ks by auto
    have "\<not> key < 0" "\<not> int PTHREAD_KEYS_MAX \<le> key" using True by auto
    then show ?thesis using True run ex ks n by (simp add: blocked_def unblocked_def)
  next
    case no: False
    then have "?V = {}" by auto
    then have "card ?V = 0" by (simp only: card.empty)
    then have n: "k_count (key_table s ?k) = of_bool (?k \<in> ks)" using c by simp
    have "\<not> key < 0" "\<not> int PTHREAD_KEYS_MAX \<le> key" using True by auto
    then show ?thesis using True run no n by (simp add: blocked_def unblocked_def)
  qed
qed

lemma key_delete_cases_witness:
  "pthread_key_delete demo_os (-1) demo_keyed = Some (Fault Out_Of_Bounds) \<and>
   (\<exists>s'. pthread_key_delete demo_os 0 demo_keyed = Some (Ret 0 s'))"
  using key_delete_cases [OF demo_keyed_facts(1) demo_keyed_ok, of "-1" demo_os]
    key_delete_cases [OF demo_keyed_facts(1) demo_keyed_ok, of 0 demo_os]
  by (auto simp: demo_keyed_def key_value_def PTHREAD_KEYS_MAX_def)

end
