(* ===== verification/Attrs.thy ===== *)
theory Attrs
  imports MutexSpec
begin

text \<open>
  The attribute objects: \<^verbatim>\<open>uthread_attr_*.c\<close> and \<^verbatim>\<open>pthread_attr_setschedpolicy\<close> of
  \<^verbatim>\<open>uthread_kern.c\<close> for threads, \<^verbatim>\<open>uthread_mattr_init.c\<close>, \<^verbatim>\<open>uthread_mattr_kind_np.c\<close>,
  \<^verbatim>\<open>uthread_mutexattr_destroy.c\<close>, \<^verbatim>\<open>uthread_mutexattr_prio.c\<close> for mutexes, and
  \<^verbatim>\<open>uthread_condattr_init.c\<close>, \<^verbatim>\<open>uthread_condattr_destroy.c\<close> for condition variables.  Each
  attribute variable is a pointer variable.
\<close>

text \<open>The test \<^verbatim>\<open>attr == NULL || *attr == NULL\<close> gives \<open>NULL\<close> for both, and \<^verbatim>\<open>*attr\<close> otherwise.\<close>

definition attr_object :: "addr \<Rightarrow> (addr, 'k world) prog" where
  "attr_object attr = (if attr = NULL then retM NULL else load ptrs attr)"

definition fail_errno :: "int \<Rightarrow> (int, 'k world) prog" where
  "fail_errno e = seqM (set_errno e) (retM (-1))"

section \<open>Thread attributes\<close>

definition pthread_attr_init :: "'k os \<Rightarrow> addr \<Rightarrow> (int, 'k world) prog" where
  "pthread_attr_init E attr =
     seqM (PTHREAD_INIT E)
    (bindM (kcall (malloc E)) (\<lambda>pattr.
     if pattr = NULL then retM ENOMEM
     else seqM (fresh attrs attrs_update pattr pthread_attr_default)
         (seqM (store_ptr attr pattr) (retM 0))))"

definition pthread_attr_destroy :: "'k os \<Rightarrow> addr \<Rightarrow> (int, 'k world) prog" where
  "pthread_attr_destroy E attr =
     seqM (PTHREAD_INIT E)
    (bindM (attr_object attr) (\<lambda>pa.
     if pa = NULL then retM EINVAL
     else seqM (free attrs attrs_update pa) (seqM (store_ptr attr NULL) (retM 0))))"

definition pthread_attr_setstacksize :: "'k os \<Rightarrow> addr \<Rightarrow> u32 \<Rightarrow> (int, 'k world) prog" where
  "pthread_attr_setstacksize E attr stacksize =
     seqM (PTHREAD_INIT E)
    (bindM (attr_object attr) (\<lambda>pa.
     if pa = NULL \<or> stacksize < PTHREAD_STACK_MIN then retM EINVAL
     else seqM (alter attrs attrs_update pa (\<lambda>a. a\<lparr>stacksize_attr := stacksize\<rparr>)) (retM 0)))"

definition pthread_attr_getstacksize :: "'k os \<Rightarrow> addr \<Rightarrow> addr \<Rightarrow> (int, 'k world) prog" where
  "pthread_attr_getstacksize E attr stacksize =
     seqM (PTHREAD_INIT E)
    (bindM (attr_object attr) (\<lambda>pa.
     if pa = NULL \<or> stacksize = NULL then retM EINVAL
     else bindM (load attrs pa) (\<lambda>a.
          seqM (store_int stacksize (uint (stacksize_attr a))) (retM 0))))"

definition pthread_attr_setstackaddr :: "'k os \<Rightarrow> addr \<Rightarrow> addr \<Rightarrow> (int, 'k world) prog" where
  "pthread_attr_setstackaddr E attr stackaddr =
     seqM (PTHREAD_INIT E)
    (bindM (attr_object attr) (\<lambda>pa.
     if pa = NULL \<or> stackaddr = NULL then retM EINVAL else retM EINVAL))"

definition pthread_attr_getstackaddr :: "'k os \<Rightarrow> addr \<Rightarrow> addr \<Rightarrow> (int, 'k world) prog" where
  "pthread_attr_getstackaddr E attr stackaddr =
     seqM (PTHREAD_INIT E)
    (bindM (attr_object attr) (\<lambda>pa.
     if pa = NULL \<or> stackaddr = NULL then retM EINVAL
     else bindM (load attrs pa) (\<lambda>a.
          seqM (store_ptr stackaddr (stackaddr_attr a)) (retM 0))))"

definition pthread_attr_setdetachstate :: "'k os \<Rightarrow> addr \<Rightarrow> int \<Rightarrow> (int, 'k world) prog" where
  "pthread_attr_setdetachstate E attr detachstate =
     seqM (PTHREAD_INIT E)
    (bindM (attr_object attr) (\<lambda>pa.
     if pa = NULL \<or> (detachstate \<noteq> PTHREAD_CREATE_DETACHED \<and> detachstate \<noteq> PTHREAD_CREATE_JOINABLE)
     then retM EINVAL
     else seqM
           (if detachstate = PTHREAD_CREATE_DETACHED
            then alter attrs attrs_update pa (\<lambda>a. a\<lparr>at_flags := at_flags a OR PTHREAD_DETACHED\<rparr>)
            else alter attrs attrs_update pa (\<lambda>a. a\<lparr>at_flags := at_flags a AND NOT PTHREAD_DETACHED\<rparr>))
          (retM 0)))"

definition pthread_attr_getdetachstate :: "'k os \<Rightarrow> addr \<Rightarrow> addr \<Rightarrow> (int, 'k world) prog" where
  "pthread_attr_getdetachstate E attr detachstate =
     seqM (PTHREAD_INIT E)
    (bindM (attr_object attr) (\<lambda>pa.
     if pa = NULL \<or> detachstate = NULL then retM EINVAL
     else bindM (load attrs pa) (\<lambda>a.
          seqM (store_int detachstate
                 (if at_flags a AND PTHREAD_DETACHED \<noteq> 0 then PTHREAD_CREATE_DETACHED
                  else PTHREAD_CREATE_JOINABLE))
               (retM 0))))"

definition pthread_attr_setprio :: "'k os \<Rightarrow> addr \<Rightarrow> int \<Rightarrow> (int, 'k world) prog" where
  "pthread_attr_setprio E attr priority =
     seqM (PTHREAD_INIT E)
    (bindM (attr_object attr) (\<lambda>pa.
     if pa = NULL then fail_errno EINVAL
     else seqM (alter attrs attrs_update pa (\<lambda>a. a\<lparr>at_prio := priority\<rparr>)) (retM 0)))"

definition pthread_attr_setcreatesuspend_np :: "'k os \<Rightarrow> addr \<Rightarrow> (int, 'k world) prog" where
  "pthread_attr_setcreatesuspend_np E attr =
     seqM (PTHREAD_INIT E)
    (bindM (attr_object attr) (\<lambda>pa.
     if pa = NULL then fail_errno EINVAL
     else seqM (alter attrs attrs_update pa (\<lambda>a. a\<lparr>at_suspend := PTHREAD_CREATE_SUSPENDED\<rparr>)) (retM 0)))"

definition pthread_attr_setschedpolicy :: "addr \<Rightarrow> int \<Rightarrow> (int, 'k world) prog" where
  "pthread_attr_setschedpolicy attr policy = retM 0"

section \<open>Mutex attributes\<close>

definition pthread_mutexattr_init :: "'k os \<Rightarrow> addr \<Rightarrow> (int, 'k world) prog" where
  "pthread_mutexattr_init E attr =
     seqM (PTHREAD_INIT E)
    (bindM (kcall (malloc E)) (\<lambda>pattr.
     if pattr = NULL then fail_errno ENOMEM
     else seqM (fresh mattrs mattrs_update pattr pthread_mutexattr_default)
         (seqM (store_ptr attr pattr) (retM 0))))"

definition pthread_mutexattr_destroy :: "'k os \<Rightarrow> addr \<Rightarrow> (int, 'k world) prog" where
  "pthread_mutexattr_destroy E attr =
     seqM (PTHREAD_INIT E)
    (bindM (attr_object attr) (\<lambda>pa.
     if pa = NULL then fail_errno EINVAL
     else seqM (free mattrs mattrs_update pa) (seqM (store_ptr attr NULL) (retM 0))))"

definition pthread_mutexattr_setkind_np :: "'k os \<Rightarrow> addr \<Rightarrow> int \<Rightarrow> (int, 'k world) prog" where
  "pthread_mutexattr_setkind_np E attr kind =
     seqM (PTHREAD_INIT E)
    (bindM (attr_object attr) (\<lambda>pa.
     if pa = NULL then fail_errno EINVAL
     else seqM (alter mattrs mattrs_update pa (\<lambda>a. a\<lparr>ma_type := word_of_int kind\<rparr>)) (retM 0)))"

text \<open>This one takes the object itself, not the variable.\<close>

definition pthread_mutexattr_getkind_np :: "'k os \<Rightarrow> addr \<Rightarrow> (int, 'k world) prog" where
  "pthread_mutexattr_getkind_np E attr =
     seqM (PTHREAD_INIT E)
     (if attr = NULL then fail_errno EINVAL
      else bindM (load mattrs attr) (\<lambda>a. retM (sint (ma_type a))))"

definition pthread_mutexattr_getprioceiling :: "'k os \<Rightarrow> addr \<Rightarrow> addr \<Rightarrow> (int, 'k world) prog" where
  "pthread_mutexattr_getprioceiling E attr prioceiling =
     seqM (PTHREAD_INIT E)
    (bindM (attr_object attr) (\<lambda>pa.
     if pa = NULL \<or> prioceiling = NULL then fail_errno EINVAL
     else bindM (load mattrs pa) (\<lambda>a.
          seqM (store_int prioceiling (ma_prioceiling a)) (retM 0))))"

definition pthread_mutexattr_setprioceiling :: "'k os \<Rightarrow> addr \<Rightarrow> int \<Rightarrow> (int, 'k world) prog" where
  "pthread_mutexattr_setprioceiling E attr prioceiling =
     seqM (PTHREAD_INIT E)
    (bindM (attr_object attr) (\<lambda>pa.
     if pa = NULL then fail_errno EINVAL
     else seqM (alter mattrs mattrs_update pa (\<lambda>a. a\<lparr>ma_prioceiling := prioceiling\<rparr>)) (retM 0)))"

section \<open>Condition variable attributes\<close>

definition pthread_condattr_init :: "'k os \<Rightarrow> addr \<Rightarrow> (int, 'k world) prog" where
  "pthread_condattr_init E attr =
     seqM (PTHREAD_INIT E)
    (bindM (kcall (malloc E)) (\<lambda>pattr.
     if pattr = NULL then fail_errno ENOMEM
     else seqM (fresh cattrs cattrs_update pattr pthread_condattr_default)
         (seqM (store_ptr attr pattr) (retM 0))))"

definition pthread_condattr_destroy :: "'k os \<Rightarrow> addr \<Rightarrow> (int, 'k world) prog" where
  "pthread_condattr_destroy E attr =
     seqM (PTHREAD_INIT E)
    (bindM (attr_object attr) (\<lambda>pa.
     if pa = NULL then fail_errno EINVAL
     else seqM (free cattrs cattrs_update pa) (seqM (store_ptr attr NULL) (retM 0))))"

section \<open>The contract of an attribute object\<close>

text \<open>
  \<open>room s a\<close>: the variable \<open>a\<close> may be given an object; \<open>holds s a v\<close>: it has one with contents
  \<open>v\<close>; \<open>gone s a\<close>: it has been destroyed.
\<close>

locale attribute_object =
  fixes init :: "addr \<Rightarrow> (int, 's) prog" and destroy :: "addr \<Rightarrow> (int, 's) prog"
    and room :: "'s \<Rightarrow> addr \<Rightarrow> bool" and holds :: "'s \<Rightarrow> addr \<Rightarrow> 'v \<Rightarrow> bool"
    and gone :: "'s \<Rightarrow> addr \<Rightarrow> bool" and dflt :: 'v
  assumes init_holds: "room s a \<Longrightarrow> \<exists>t. init a s = Some (Ret 0 t) \<and> holds t a dflt"
    and destroy_gone: "holds s a v \<Longrightarrow> \<exists>t. destroy a s = Some (Ret 0 t) \<and> gone t a"
    and gone_refused: "gone s a \<Longrightarrow> \<exists>e t. destroy a s = Some (Ret e t) \<and> e \<noteq> 0"
begin

lemma lifecycle:
  assumes "room s a"
  shows "\<exists>t u e v. init a s = Some (Ret 0 t) \<and> holds t a dflt \<and> destroy a t = Some (Ret 0 u) \<and>
           destroy a u = Some (Ret e v) \<and> e \<noteq> 0"
  using init_holds [OF assms] destroy_gone gone_refused by meson

end

text \<open>A field of the object with a setter and a getter.\<close>

locale attribute_field = attribute_object init destroy room holds gone dflt
  for init :: "addr \<Rightarrow> (int, 's) prog" and destroy :: "addr \<Rightarrow> (int, 's) prog"
    and room :: "'s \<Rightarrow> addr \<Rightarrow> bool" and holds :: "'s \<Rightarrow> addr \<Rightarrow> 'v \<Rightarrow> bool"
    and gone :: "'s \<Rightarrow> addr \<Rightarrow> bool" and dflt :: 'v +
  fixes put :: "addr \<Rightarrow> 'x \<Rightarrow> (int, 's) prog" and get :: "addr \<Rightarrow> ('x, 's) prog"
    and valid :: "'x \<Rightarrow> bool" and upd :: "'x \<Rightarrow> 'v \<Rightarrow> 'v" and sel :: "'v \<Rightarrow> 'x"
  assumes put_holds: "holds s a v \<Longrightarrow> valid x \<Longrightarrow> \<exists>t. put a x s = Some (Ret 0 t) \<and> holds t a (upd x v)"
    and get_holds: "holds s a v \<Longrightarrow> \<exists>t. get a s = Some (Ret (sel v) t) \<and> holds t a v"
    and sel_upd: "valid x \<Longrightarrow> sel (upd x v) = x"
begin

text \<open>The last value put into a new object is the one read back.\<close>

lemma put_get:
  assumes "room s a" and "\<forall>x\<in>set xs. valid x"
  shows "\<exists>t. seqM (init a) (seqM (forM xs (\<lambda>x. bindM (put a x) (\<lambda>r. retM ()))) (get a)) s =
           Some (Ret (if xs = [] then sel dflt else last xs) t)"
proof -
  from init_holds [OF assms(1)] obtain t where t: "init a s = Some (Ret 0 t)" "holds t a dflt" by blast
  have "\<exists>u. seqM (forM xs (\<lambda>x. bindM (put a x) (\<lambda>r. retM ()))) (get a) t =
          Some (Ret (if xs = [] then sel v else last xs) u)" if "holds t a v" for v
    using that assms(2)
  proof (induction xs arbitrary: t v)
    case Nil
    then show ?case using get_holds [of t a v] by (auto simp: seqM_def)
  next
    case (Cons x xs)
    from put_holds [OF Cons.prems(1), of x] Cons.prems(2) obtain u where
      u: "put a x t = Some (Ret 0 u)" "holds u a (upd x v)" by auto
    then have st: "bindM (put a x) (\<lambda>r. retM ()) t = Some (Ret () u)"
      by (simp add: bindM_run [where m = "put a x", OF u(1)] retM_def)
    from Cons.IH [OF u(2)] Cons.prems(2) sel_upd [of x v] show ?case
      unfolding forM.simps seqM_seq seqM_run [where m = "bindM (put a x) (\<lambda>r. retM ())", OF st]
      by (cases "xs = []") simp_all
  qed
  from this [OF t(2)] show ?thesis by (simp add: seqM_run [where m = "init a", OF t(1)])
qed

end

section \<open>The objects of the library meet the contract\<close>

definition attr_room :: "'k os \<Rightarrow> 'k world \<Rightarrow> addr \<Rightarrow> bool" where
  "attr_room E s a \<longleftrightarrow> inited s \<and> a \<noteq> NULL \<and> ptrs s a \<noteq> None \<and> kres (malloc E) s \<noteq> NULL"

definition attr_holds ::
  "('k world \<Rightarrow> addr \<Rightarrow> 'v option) \<Rightarrow> 'k world \<Rightarrow> addr \<Rightarrow> 'v \<Rightarrow> bool" where
  "attr_holds h s a v \<longleftrightarrow> inited s \<and> a \<noteq> NULL \<and>
     (\<exists>pa. ptrs s a = Some pa \<and> pa \<noteq> NULL \<and> h s pa = Some v)"

definition attr_gone :: "'k world \<Rightarrow> addr \<Rightarrow> bool" where
  "attr_gone s a \<longleftrightarrow> inited s \<and> a \<noteq> NULL \<and> ptrs s a = Some NULL"

interpretation tattr: attribute_object "pthread_attr_init E" "pthread_attr_destroy E"
    "attr_room E" "attr_holds attrs" attr_gone pthread_attr_default
  for E :: "'k os"
  by unfold_locales
     (auto simp: pthread_attr_init_def pthread_attr_destroy_def attr_room_def attr_holds_def
       attr_gone_def attr_object_def retM_def run_simps)

interpretation mattr: attribute_object "pthread_mutexattr_init E" "pthread_mutexattr_destroy E"
    "attr_room E" "attr_holds mattrs" attr_gone pthread_mutexattr_default
  for E :: "'k os"
  by unfold_locales
     (auto simp: pthread_mutexattr_init_def pthread_mutexattr_destroy_def attr_room_def
       attr_holds_def attr_gone_def attr_object_def retM_def run_simps fail_errno_def)

interpretation cattr: attribute_object "pthread_condattr_init E" "pthread_condattr_destroy E"
    "attr_room E" "attr_holds cattrs" attr_gone pthread_condattr_default
  for E :: "'k os"
  by unfold_locales
     (auto simp: pthread_condattr_init_def pthread_condattr_destroy_def attr_room_def
       attr_holds_def attr_gone_def attr_object_def retM_def run_simps fail_errno_def)

text \<open>A getter that stores through a pointer, with the variable \<open>slot\<close> read afterwards.\<close>

definition read_through :: "addr \<Rightarrow> (addr \<Rightarrow> (int, 'k world) prog) \<Rightarrow> (int, 'k world) prog" where
  "read_through slot get = seqM (get slot) (load ints slot)"

definition slot_room :: "'k os \<Rightarrow> addr \<Rightarrow> 'k world \<Rightarrow> addr \<Rightarrow> bool" where
  "slot_room E slot s a \<longleftrightarrow> attr_room E s a \<and> slot \<noteq> NULL \<and> ints s slot \<noteq> None"

definition slot_holds ::
  "('k world \<Rightarrow> addr \<Rightarrow> 'v option) \<Rightarrow> addr \<Rightarrow> 'k world \<Rightarrow> addr \<Rightarrow> 'v \<Rightarrow> bool" where
  "slot_holds h slot s a v \<longleftrightarrow> attr_holds h s a v \<and> slot \<noteq> NULL \<and> ints s slot \<noteq> None"

interpretation stacksize: attribute_field "pthread_attr_init E" "pthread_attr_destroy E"
    "slot_room E slot" "slot_holds attrs slot" attr_gone pthread_attr_default
    "\<lambda>a n. pthread_attr_setstacksize E a (word_of_int n)"
    "\<lambda>a. read_through slot (pthread_attr_getstacksize E a)"
    "\<lambda>n. 1024 \<le> n \<and> n < 2 ^ 32" "\<lambda>n v. v\<lparr>stacksize_attr := word_of_int n\<rparr>" "\<lambda>v. uint (stacksize_attr v)"
  for E :: "'k os" and slot
  by unfold_locales
     (auto simp: pthread_attr_init_def pthread_attr_destroy_def pthread_attr_setstacksize_def
       pthread_attr_getstacksize_def attr_room_def slot_room_def slot_holds_def attr_holds_def
       attr_gone_def attr_object_def read_through_def load_def retM_def run_simps PTHREAD_STACK_MIN_def
       word_less_def uint_word_of_int take_bit_int_eq_self)

lemma detached_nonzero [simp]: "PTHREAD_DETACHED \<noteq> 0"
  by (simp add: PTHREAD_DETACHED_def)

lemma detached_flag:
  "((x OR PTHREAD_DETACHED) AND PTHREAD_DETACHED = 0) = False"
  "((x AND NOT PTHREAD_DETACHED) AND PTHREAD_DETACHED = 0) = True"
proof -
  have "(x OR PTHREAD_DETACHED) AND PTHREAD_DETACHED = PTHREAD_DETACHED"
    "(x AND NOT PTHREAD_DETACHED) AND PTHREAD_DETACHED = 0"
    by (auto intro!: bit_word_eqI simp: bit_simps)
  then show "((x OR PTHREAD_DETACHED) AND PTHREAD_DETACHED = 0) = False"
    "((x AND NOT PTHREAD_DETACHED) AND PTHREAD_DETACHED = 0) = True"
    by (simp_all add: PTHREAD_DETACHED_def)
qed

interpretation detach: attribute_field "pthread_attr_init E" "pthread_attr_destroy E"
    "slot_room E slot" "slot_holds attrs slot" attr_gone pthread_attr_default
    "pthread_attr_setdetachstate E" "\<lambda>a. read_through slot (pthread_attr_getdetachstate E a)"
    "\<lambda>d. d = PTHREAD_CREATE_DETACHED \<or> d = PTHREAD_CREATE_JOINABLE"
    "\<lambda>d v. v\<lparr>at_flags := if d = PTHREAD_CREATE_DETACHED then at_flags v OR PTHREAD_DETACHED
                         else at_flags v AND NOT PTHREAD_DETACHED\<rparr>"
    "\<lambda>v. if at_flags v AND PTHREAD_DETACHED \<noteq> 0 then PTHREAD_CREATE_DETACHED else PTHREAD_CREATE_JOINABLE"
  for E :: "'k os" and slot
  by unfold_locales
     (auto simp: pthread_attr_init_def pthread_attr_destroy_def pthread_attr_setdetachstate_def
       pthread_attr_getdetachstate_def attr_room_def slot_room_def slot_holds_def attr_holds_def
       attr_gone_def attr_object_def read_through_def load_def retM_def run_simps detached_flag
       PTHREAD_CREATE_DETACHED_def PTHREAD_CREATE_JOINABLE_def)

interpretation kind: attribute_field "pthread_mutexattr_init E" "pthread_mutexattr_destroy E"
    "attr_room E" "attr_holds mattrs" attr_gone pthread_mutexattr_default
    "pthread_mutexattr_setkind_np E"
    "\<lambda>a. bindM (load ptrs a) (pthread_mutexattr_getkind_np E)"
    "\<lambda>n. - (2 ^ 31) \<le> n \<and> n < 2 ^ 31" "\<lambda>n v. v\<lparr>ma_type := word_of_int n\<rparr>" "\<lambda>v. sint (ma_type v)"
  for E :: "'k os"
  by unfold_locales
     (auto simp: pthread_mutexattr_init_def pthread_mutexattr_destroy_def
       pthread_mutexattr_setkind_np_def pthread_mutexattr_getkind_np_def attr_room_def
       attr_holds_def attr_gone_def attr_object_def retM_def run_simps fail_errno_def
       sint_sbintrunc' signed_take_bit_int_eq_self)

section \<open>Properties\<close>

text \<open>Attribute objects of threads, mutexes and condition variables have one life: creating one in a
  variable returns 0 and gives it the documented defaults, destroying it returns 0, and
  destroying it again is refused.\<close>

lemma attributes_lifecycle:
  assumes "attr_room E s a"
  shows "(\<exists>t u e v. pthread_attr_init E a s = Some (Ret 0 t) \<and> attr_holds attrs t a pthread_attr_default \<and>
            pthread_attr_destroy E a t = Some (Ret 0 u) \<and> pthread_attr_destroy E a u = Some (Ret e v) \<and> e \<noteq> 0) \<and>
         (\<exists>t u e v. pthread_mutexattr_init E a s = Some (Ret 0 t) \<and> attr_holds mattrs t a pthread_mutexattr_default \<and>
            pthread_mutexattr_destroy E a t = Some (Ret 0 u) \<and> pthread_mutexattr_destroy E a u = Some (Ret e v) \<and> e \<noteq> 0) \<and>
         (\<exists>t u e v. pthread_condattr_init E a s = Some (Ret 0 t) \<and> attr_holds cattrs t a pthread_condattr_default \<and>
            pthread_condattr_destroy E a t = Some (Ret 0 u) \<and> pthread_condattr_destroy E a u = Some (Ret e v) \<and> e \<noteq> 0)"
  using tattr.lifecycle [OF assms] mattr.lifecycle [OF assms] cattr.lifecycle [OF assms] by blast

lemma attributes_lifecycle_witness:
  "\<exists>t u. pthread_attr_init demo_os 33 demo_world = Some (Ret 0 t) \<and>
         pthread_attr_destroy demo_os 33 t = Some (Ret 0 u)"
  using attributes_lifecycle [of demo_os demo_world 33] by (auto simp: attr_room_def kres_def)

text \<open>Of any number of stack sizes of at least \<^verbatim>\<open>PTHREAD_STACK_MIN\<close> stored in a new thread attribute
  object the last is read back, the default of 64 KB if there is none; and a smaller size is
  refused with \<^verbatim>\<open>EINVAL\<close> and changes nothing.\<close>

lemma stacksize_roundtrip:
  assumes "slot_room E slot s a" and "\<forall>n\<in>set ns. 1024 \<le> n \<and> n < 2 ^ 32"
  shows "(\<exists>t. seqM (pthread_attr_init E a)
            (seqM (forM ns (\<lambda>n. bindM (pthread_attr_setstacksize E a (word_of_int n)) (\<lambda>r. retM ())))
              (read_through slot (pthread_attr_getstacksize E a))) s =
           Some (Ret (if ns = [] then 65536 else last ns) t)) \<and>
         (m < PTHREAD_STACK_MIN \<longrightarrow> pthread_attr_setstacksize E a m s = Some (Ret EINVAL s))"
proof -
  obtain pa where "inited s" "a \<noteq> NULL" "ptrs s a = Some pa"
    using assms(1) by (auto simp: slot_room_def attr_room_def)
  then have "pthread_attr_setstacksize E a m s = Some (Ret EINVAL s)" if "m < PTHREAD_STACK_MIN"
    using that by (simp add: pthread_attr_setstacksize_def attr_object_def retM_def)
  moreover have d: "uint (stacksize_attr pthread_attr_default) = 65536"
    by (simp add: pthread_attr_default_def PTHREAD_STACK_DEFAULT_def)
  ultimately show ?thesis using stacksize.put_get [OF assms, unfolded d] by blast
qed

lemma stacksize_roundtrip_witness:
  "\<exists>t. seqM (pthread_attr_init demo_os 33)
         (seqM (forM [4096, 8192] (\<lambda>n. bindM (pthread_attr_setstacksize demo_os 33 (word_of_int n)) (\<lambda>r. retM ())))
           (read_through 60 (pthread_attr_getstacksize demo_os 33))) demo_world = Some (Ret 8192 t)"
  using stacksize_roundtrip [of demo_os 60 demo_world 33 "[4096, 8192]" 0]
  by (simp add: slot_room_def attr_room_def kres_def)

text \<open>The detach state read from a thread attribute object is the last one stored, whatever the
  other flags; values other than the two states are refused with \<^verbatim>\<open>EINVAL\<close>.\<close>

lemma detachstate_roundtrip:
  assumes "slot_room E slot s a"
    and "\<forall>d\<in>set ds. d = PTHREAD_CREATE_DETACHED \<or> d = PTHREAD_CREATE_JOINABLE"
  shows "(\<exists>t. seqM (pthread_attr_init E a)
            (seqM (forM ds (\<lambda>d. bindM (pthread_attr_setdetachstate E a d) (\<lambda>r. retM ())))
              (read_through slot (pthread_attr_getdetachstate E a))) s =
           Some (Ret (if ds = [] then PTHREAD_CREATE_JOINABLE else last ds) t)) \<and>
         (d \<noteq> PTHREAD_CREATE_DETACHED \<and> d \<noteq> PTHREAD_CREATE_JOINABLE \<longrightarrow>
            pthread_attr_setdetachstate E a d s = Some (Ret EINVAL s))"
proof -
  obtain pa where "inited s" "a \<noteq> NULL" "ptrs s a = Some pa"
    using assms(1) by (auto simp: slot_room_def attr_room_def)
  then have "pthread_attr_setdetachstate E a d s = Some (Ret EINVAL s)"
    if "d \<noteq> PTHREAD_CREATE_DETACHED \<and> d \<noteq> PTHREAD_CREATE_JOINABLE"
    using that by (simp add: pthread_attr_setdetachstate_def attr_object_def retM_def)
  moreover have d: "(if at_flags pthread_attr_default AND PTHREAD_DETACHED \<noteq> 0
      then PTHREAD_CREATE_DETACHED else PTHREAD_CREATE_JOINABLE) = PTHREAD_CREATE_JOINABLE"
    by (simp add: pthread_attr_default_def)
  ultimately show ?thesis using detach.put_get [OF assms, unfolded d] by blast
qed

lemma detachstate_roundtrip_witness:
  "\<exists>t. seqM (pthread_attr_init demo_os 33)
         (seqM (forM [1, 0, 1] (\<lambda>d. bindM (pthread_attr_setdetachstate demo_os 33 d) (\<lambda>r. retM ())))
           (read_through 60 (pthread_attr_getdetachstate demo_os 33))) demo_world = Some (Ret 1 t)"
  using detachstate_roundtrip [of demo_os 60 demo_world 33 "[1, 0, 1]" 7]
  by (simp add: slot_room_def attr_room_def kres_def PTHREAD_CREATE_DETACHED_def PTHREAD_CREATE_JOINABLE_def)

text \<open>The kind of a mutex attribute is not checked when it is stored: any 32-bit number is accepted and
  read back.  It is \<^verbatim>\<open>pthread_mutex_init\<close> that refuses a kind it does not know, with -1 and
  \<^verbatim>\<open>EINVAL\<close>.\<close>

lemma kind_checked_late:
  assumes room: "attr_room E s a" and k: "- (2 ^ 31) \<le> k" "k < 2 ^ 31"
  shows "(\<exists>t. seqM (pthread_mutexattr_init E a)
            (seqM (forM [k] (\<lambda>n. bindM (pthread_mutexattr_setkind_np E a n) (\<lambda>r. retM ())))
              (bindM (load ptrs a) (pthread_mutexattr_getkind_np E))) s = Some (Ret k t)) \<and>
    (inited u \<and> attr_holds mattrs u a v \<and> ma_type v \<noteq> MUTEX_TYPE_FAST \<and>
       ma_type v \<noteq> MUTEX_TYPE_COUNTING_FAST \<and> mutex \<noteq> NULL \<and> ptrs u mutex \<noteq> None \<longrightarrow>
     (\<exists>w. pthread_mutex_init E mutex a u = Some (Ret (-1) w) \<and>
        (kres (malloc E) u \<noteq> NULL \<longrightarrow> errno w = EINVAL)))"
proof (intro conjI impI)
  show "\<exists>t. seqM (pthread_mutexattr_init E a)
            (seqM (forM [k] (\<lambda>n. bindM (pthread_mutexattr_setkind_np E a n) (\<lambda>r. retM ())))
              (bindM (load ptrs a) (pthread_mutexattr_getkind_np E))) s = Some (Ret k t)"
    using kind.put_get [OF room, of "[k]"] k by simp
next
  assume u: "inited u \<and> attr_holds mattrs u a v \<and> ma_type v \<noteq> MUTEX_TYPE_FAST \<and>
       ma_type v \<noteq> MUTEX_TYPE_COUNTING_FAST \<and> mutex \<noteq> NULL \<and> ptrs u mutex \<noteq> None"
  then obtain pa where "a \<noteq> NULL" "ptrs u a = Some pa" "pa \<noteq> NULL" "mattrs u pa = Some v"
    by (auto simp: attr_holds_def)
  with u show "\<exists>w. pthread_mutex_init E mutex a u = Some (Ret (-1) w) \<and>
        (kres (malloc E) u \<noteq> NULL \<longrightarrow> errno w = EINVAL)"
    by (cases "MUTEX_TYPE_MAX \<le> ma_type v"; cases "kres (malloc E) u = NULL")
       (auto simp: pthread_mutex_init_def run_simps retM_def errno_def)
qed

lemma kind_checked_late_witness:
  "\<exists>t. seqM (pthread_mutexattr_init demo_os 33)
        (seqM (forM [77] (\<lambda>n. bindM (pthread_mutexattr_setkind_np demo_os 33 n) (\<lambda>r. retM ())))
          (bindM (load ptrs 33) (pthread_mutexattr_getkind_np demo_os))) demo_world = Some (Ret 77 t)"
  using kind_checked_late [of demo_os demo_world 33 77] by (simp add: attr_room_def kres_def)

end
