(* ===== verification/Threads.thy ===== *)
theory Threads
  imports Keys
begin

text \<open>
  Calls on other threads: \<^verbatim>\<open>uthread_getprio.c\<close>, \<^verbatim>\<open>uthread_setprio.c\<close>,
  \<^verbatim>\<open>uthread_suspend.c\<close>, \<^verbatim>\<open>uthread_resume.c\<close>, \<^verbatim>\<open>uthread_join.c\<close> and
  \<^verbatim>\<open>uthread_detach.c\<close>.  A thread is found on the list of live threads (or, by
  \<^verbatim>\<open>pthread_join\<close>, on that of dead ones) with the search loop of \<open>ThreadList\<close>.
\<close>

section \<open>Priorities\<close>

definition pthread_getprio :: "'k os \<Rightarrow> addr \<Rightarrow> (int, 'k world) prog" where
  "pthread_getprio E pthread =
     seqM (PTHREAD_INIT E)
    (seqM (thread_kern_sig_block E)
    (bindM (getM thread_link_list) (\<lambda>first.
     bindM (find_thread first pthread) (\<lambda>pthread_p.
     bindM (if pthread = NULL \<or> pthread_p = NULL then seqM (set_errno EINVAL) (retM (-1))
            else bindM (load threads pthread) (\<lambda>t. retM (pthread_priority t)))
      (\<lambda>rval. seqM (thread_kern_sig_unblock E) (retM rval))))))"

text \<open>\<^verbatim>\<open>pthread_priority\<close> is a \<^verbatim>\<open>char\<close>; the accepted priorities fit.\<close>

definition pthread_setprio :: "'k os \<Rightarrow> addr \<Rightarrow> int \<Rightarrow> (int, 'k world) prog" where
  "pthread_setprio E pthread prio =
     seqM (PTHREAD_INIT E)
     (if prio < PTHREAD_MIN_PRIORITY \<or> prio > PTHREAD_MAX_PRIORITY
      then seqM (set_errno EINVAL) (retM (-1))
      else
        seqM (thread_kern_sig_block E)
       (bindM (getM thread_link_list) (\<lambda>first.
        bindM (find_thread first pthread) (\<lambda>pthread_p.
        bindM (if pthread = NULL \<or> pthread_p = NULL then seqM (set_errno ESRCH) (retM (-1))
               else bindM (load threads pthread) (\<lambda>t.
                    if threadid t = 0 then seqM (set_errno ESRCH) (retM (-1))
                    else seqM (upd_thread pthread (\<lambda>t. t\<lparr>pthread_priority := prio\<rparr>)) (retM 0)))
         (\<lambda>rval. seqM (thread_kern_sig_unblock E) (retM rval))))))"

section \<open>Suspending and resuming\<close>

text \<open>The body of each search loop, with \<open>ret\<close> as it leaves it.\<close>

definition suspend_visit :: "'k os \<Rightarrow> addr \<Rightarrow> addr \<Rightarrow> (int, 'k world) prog" where
  "suspend_visit E pthread thread =
     (if pthread = thread
      then bindM (load threads pthread) (\<lambda>t.
           seqM (if th_state t \<noteq> PS_RUNNING \<and> th_state t \<noteq> PS_SUSPENDED
                 then thread_seterrno E pthread EINTR
                 else if th_state t = PS_RUNNING
                 then bindM (DosSuspendThread E (threadid t)) (\<lambda>rc. retM ())
                 else retM ())
          (seqM (PTHREAD_NEW_STATE pthread PS_SUSPENDED ''uthread_suspend.c'' 65)
           (retM 0)))
      else retM (-1))"

partial_function (option) suspend_loop ::
  "'k os \<Rightarrow> addr \<Rightarrow> addr \<Rightarrow> int \<Rightarrow> 'k world \<Rightarrow> (int, 'k world) res option" where
  "suspend_loop E pthread thread ret s =
     (if pthread \<noteq> NULL \<and> ret = -1
      then bindM (suspend_visit E pthread thread) (\<lambda>ret.
           bindM (load threads pthread) (\<lambda>t s. suspend_loop E (nxt t) thread ret s)) s
      else retM ret s)"

definition pthread_suspend_np :: "'k os \<Rightarrow> addr \<Rightarrow> (int, 'k world) prog" where
  "pthread_suspend_np E thread =
     seqM (PTHREAD_INIT E)
    (bindM (getM thread_link_list) (\<lambda>first.
     bindM (suspend_loop E first thread (-1)) (\<lambda>ret.
     seqM (whenM (ret = -1) (set_errno ESRCH)) (retM ret))))"

definition resume_visit :: "'k os \<Rightarrow> addr \<Rightarrow> addr \<Rightarrow> (int, 'k world) prog" where
  "resume_visit E pthread thread =
     (if pthread = thread
      then bindM (load threads pthread) (\<lambda>t.
           if th_state t = PS_SUSPENDED
           then seqM (PTHREAD_NEW_STATE pthread PS_RUNNING ''uthread_resume.c'' 58)
               (bindM (load threads pthread) (\<lambda>t.
                seqM (kcall (DosResumeThread E (threadid t))) (retM 0)))
           else if th_state t = PS_RUNNING then retM 0
           else seqM (set_errno EINVAL) (retM (-1)))
      else retM (-1))"

partial_function (option) resume_loop ::
  "'k os \<Rightarrow> addr \<Rightarrow> addr \<Rightarrow> int \<Rightarrow> 'k world \<Rightarrow> (int, 'k world) res option" where
  "resume_loop E pthread thread ret s =
     (if pthread \<noteq> NULL \<and> ret = -1
      then bindM (resume_visit E pthread thread) (\<lambda>ret.
           bindM (load threads pthread) (\<lambda>t s. resume_loop E (nxt t) thread ret s)) s
      else retM ret s)"

definition pthread_resume_np :: "'k os \<Rightarrow> addr \<Rightarrow> (int, 'k world) prog" where
  "pthread_resume_np E thread =
     seqM (PTHREAD_INIT E)
    (bindM (getM thread_link_list) (\<lambda>first.
     bindM (resume_loop E first thread (-1)) (\<lambda>ret.
     seqM (whenM (ret = -1) (set_errno ESRCH)) (retM ret))))"

declare suspend_loop.simps [code] resume_loop.simps [code]

section \<open>Joining and detaching\<close>

definition store_return :: "addr \<Rightarrow> addr \<Rightarrow> (unit, 'k world) prog" where
  "store_return thread_return pthread =
     (if thread_return \<noteq> NULL
      then bindM (load threads pthread) (\<lambda>t. store_ptr thread_return (th_ret t))
      else retM ())"

text \<open>The thread is alive: wait for it to end, in state \<^verbatim>\<open>PS_JOIN\<close> with signals unblocked.\<close>

definition join_wait :: "'k os \<Rightarrow> addr \<Rightarrow> addr \<Rightarrow> (int, 'k world) prog" where
  "join_wait E pthread thread_return =
     seqM (thread_kern_sig_unblock E)
    (bindM thread_run (\<lambda>self.
     seqM (PTHREAD_NEW_STATE self PS_JOIN ''uthread_join.c'' 93)
    (bindM (load threads pthread) (\<lambda>t.
     bindM (DosWaitThread E (threadid t)) (\<lambda>rc.
     bindM thread_run (\<lambda>self.
     seqM (PTHREAD_NEW_STATE self PS_RUNNING ''uthread_join.c'' 96)
    (seqM (thread_kern_sig_block E)
    (bindM (load threads pthread) (\<lambda>t.
     if at_flags (th_attr t) AND PTHREAD_DETACHED = 0
     then seqM (store_return thread_return pthread) (retM 0)
     else seqM (set_errno ESRCH) (retM (-1)))))))))))"

definition pthread_join :: "'k os \<Rightarrow> addr \<Rightarrow> addr \<Rightarrow> (int, 'k world) prog" where
  "pthread_join E pthread thread_return =
     seqM (PTHREAD_INIT E)
    (seqM (thread_kern_sig_block E)
    (bindM (getM thread_link_list) (\<lambda>first.
     bindM (find_thread first pthread) (\<lambda>pthread1.
     bindM (if pthread1 = NULL
            then bindM (getM thread_dead) (\<lambda>dead. find_thread dead pthread)
            else retM pthread1) (\<lambda>pthread1.
     bindM (if pthread1 = NULL then seqM (set_errno ESRCH) (retM (-1))
            else bindM (load threads pthread) (\<lambda>t.
                 if at_flags (th_attr t) AND PTHREAD_DETACHED \<noteq> 0
                 then seqM (set_errno ESRCH) (retM (-1))
                 else if th_state t \<noteq> PS_DEAD then join_wait E pthread thread_return
                 else seqM (store_return thread_return pthread) (retM 0)))
      (\<lambda>rval. seqM (thread_kern_sig_unblock E) (retM rval)))))))"

definition pthread_detach :: "'k os \<Rightarrow> addr \<Rightarrow> (int, 'k world) prog" where
  "pthread_detach E p_pthread =
     seqM (PTHREAD_INIT E)
    (seqM (thread_kern_sig_block E)
    (bindM (bindM (if p_pthread = NULL then retM NULL else load ptrs p_pthread) (\<lambda>pthread.
            if pthread = NULL then seqM (set_errno EINVAL) (retM (-1))
            else bindM (load threads pthread) (\<lambda>t.
                 if at_flags (th_attr t) AND PTHREAD_DETACHED = 0
                 then seqM (upd_thread pthread (\<lambda>t. t\<lparr>th_attr :=
                             (th_attr t)\<lparr>at_flags := at_flags (th_attr t) OR PTHREAD_DETACHED\<rparr>\<rparr>))
                     (seqM (store_ptr p_pthread NULL) (retM 0))
                 else seqM (set_errno ESRCH) (retM (-1)))))
      (\<lambda>rval. seqM (thread_kern_sig_unblock E) (retM rval))))"

section \<open>What the calls do\<close>

lemma live_list_blocked [simp]:
  "live_list (blocked E s) = live_list s" "live_list (unblocked E s) = live_list s"
  by (simp_all add: blocked_def unblocked_def)

lemma live_list_same_links [simp]:
  "threads s p = Some t \<Longrightarrow> nxt t' = nxt t \<Longrightarrow>
     live_list (s\<lparr>threads := (threads s)(p := Some t')\<rparr>) = live_list s"
  by (simp add: live_list_def fun_eq_iff)

lemma find_live_blocked:
  "live_list s xs \<Longrightarrow> bindM (find_thread (thread_link_list (blocked E s)) p) f (blocked E s) =
     f (if p \<in> set xs then p else NULL) (blocked E s)"
  by (rule find_live) simp

text \<open>The result of \<^verbatim>\<open>pthread_getprio\<close>, from signals blocked to signals unblocked.\<close>

lemma getprio_run:
  assumes "inited s" and "live_list s xs"
  shows "pthread_getprio E p s =
    (if p \<in> set xs then Some (Ret (case threads s p of None \<Rightarrow> 0 | Some t \<Rightarrow> pthread_priority t)
                                 (unblocked E (blocked E s)))
     else Some (Ret (-1) (unblocked E (with_errno EINVAL (blocked E s)))))"
proof (cases "p \<in> set xs")
  case True
  then obtain t where "p \<noteq> NULL" "threads s p = Some t"
    using live_list_alloc [OF assms(2)] by blast
  with True assms(1) show ?thesis
    by (simp add: pthread_getprio_def block_run find_live_blocked [OF assms(2)] run_simps retM_def
        del: sig_block_run sig_unblock_run)
next
  case False
  with assms(1) show ?thesis
    by (simp add: pthread_getprio_def block_run find_live_blocked [OF assms(2)] run_simps retM_def
        del: sig_block_run sig_unblock_run)
qed

lemma setprio_run:
  assumes "inited s" and live: "live_list s xs" and "0 \<le> prio" "prio \<le> 126"
    and "p \<in> set xs" "threads s p = Some t" "threadid t \<noteq> 0"
  shows "pthread_setprio E p prio s = Some (Ret 0 (unblocked E
    ((blocked E s)\<lparr>threads := (threads s)(p := Some (t\<lparr>pthread_priority := prio\<rparr>))\<rparr>)))"
proof -
  have "p \<noteq> NULL" using live_list_alloc [OF live assms(5)] by blast
  with assms show ?thesis
    by (simp add: pthread_setprio_def block_run find_live_blocked [OF live] run_simps retM_def
        PTHREAD_MIN_PRIORITY_def PTHREAD_MAX_PRIORITY_def del: sig_block_run sig_unblock_run)
qed

lemma setprio_error:
  assumes "inited s" and live: "live_list s xs"
  shows "prio < 0 \<or> 126 < prio \<Longrightarrow>
      pthread_setprio E p prio s = Some (Ret (-1) (with_errno EINVAL s))"
    and "0 \<le> prio \<Longrightarrow> prio \<le> 126 \<Longrightarrow> p \<notin> set xs \<Longrightarrow>
      pthread_setprio E p prio s = Some (Ret (-1) (unblocked E (with_errno ESRCH (blocked E s))))"
  using assms by (auto simp: pthread_setprio_def block_run find_live_blocked [OF live] run_simps retM_def
        PTHREAD_MIN_PRIORITY_def PTHREAD_MAX_PRIORITY_def simp del: sig_block_run sig_unblock_run)

text \<open>The loops of the two other searches stop at the thread, wherever it is on the list.\<close>

lemma suspend_loop_skip:
  assumes "chain (nlink (threads s)) first xs"
  shows "suspend_loop E first p (-1) s =
    (if p \<in> set xs then suspend_loop E p p (-1) s else Some (Ret (-1) s))"
  using assms
proof (induction xs arbitrary: first)
  case Nil
  then show ?case by (subst suspend_loop.simps) (simp add: retM_def)
next
  case (Cons x xs)
  then obtain t where x: "first = x" "x \<noteq> NULL" "threads s x = Some t"
    "chain (nlink (threads s)) (nxt t) xs" by (auto simp: nlink_Some)
  show ?case
  proof (cases "x = p")
    case False
    then have "suspend_loop E first p (-1) s = suspend_loop E (nxt t) p (-1) s"
      using x by (subst suspend_loop.simps) (simp add: suspend_visit_def)
    with Cons.IH [OF x(4)] False show ?thesis by simp
  qed (simp add: x)
qed

lemma resume_loop_skip:
  assumes "chain (nlink (threads s)) first xs"
  shows "resume_loop E first p (-1) s =
    (if p \<in> set xs then resume_loop E p p (-1) s else Some (Ret (-1) s))"
  using assms
proof (induction xs arbitrary: first)
  case Nil
  then show ?case by (subst resume_loop.simps) (simp add: retM_def)
next
  case (Cons x xs)
  then obtain t where x: "first = x" "x \<noteq> NULL" "threads s x = Some t"
    "chain (nlink (threads s)) (nxt t) xs" by (auto simp: nlink_Some)
  show ?case
  proof (cases "x = p")
    case False
    then have "resume_loop E first p (-1) s = resume_loop E (nxt t) p (-1) s"
      using x by (subst resume_loop.simps) (simp add: resume_visit_def)
    with Cons.IH [OF x(4)] False show ?thesis by simp
  qed (simp add: x)
qed


text \<open>A thread structure after \<^verbatim>\<open>PTHREAD_NEW_STATE\<close>.\<close>

definition marked :: "'k world \<Rightarrow> addr \<Rightarrow> pthread \<Rightarrow> pthread_state \<Rightarrow> string \<Rightarrow> int \<Rightarrow> 'k world" where
  "marked s p t st file line =
     s\<lparr>threads := (threads s)(p := Some (t\<lparr>th_state := st, th_fname := file, th_lineno := line\<rparr>))\<rparr>"

lemma new_state_marked:
  "p \<noteq> NULL \<Longrightarrow> threads s p = Some t \<Longrightarrow>
     seqM (PTHREAD_NEW_STATE p st file line) n s = n (marked s p t st file line)"
  by (simp add: marked_def)

lemma marked_sel [simp]:
  "threads (marked s p t st file line) =
     (threads s)(p := Some (t\<lparr>th_state := st, th_fname := file, th_lineno := line\<rparr>))"
  "kern (marked s p t st file line) = kern s" "errnos (marked s p t st file line) = errnos s"
  "inited (marked s p t st file line) = inited s" "cur (marked s p t st file line) = cur s"
  "thread_link_list (marked s p t st file line) = thread_link_list s"
  "threads s p = Some t \<Longrightarrow> live_list (marked s p t st file line) = live_list s"
  by (simp_all add: marked_def)

lemmas loop_round = new_state_marked suspend_visit_def resume_visit_def run_simps retM_def thread_seterrno_def

lemma suspend_found:
  assumes "inited s" and live: "live_list s xs" and "p \<in> set xs" "threads s p = Some t"
  shows "pthread_suspend_np E p s = bindM (suspend_loop E p p (-1))
    (\<lambda>ret. seqM (whenM (ret = -1) (set_errno ESRCH)) (retM ret)) s"
proof -
  have "suspend_loop E (thread_link_list s) p (-1) s = suspend_loop E p p (-1) s"
    using suspend_loop_skip [OF live [unfolded live_list_def]] assms(3) by simp
  with assms(1) show ?thesis by (simp add: pthread_suspend_np_def) (simp add: bindM_def)
qed

lemma suspend_suspended:
  assumes "inited s" "live_list s xs" "p \<in> set xs" "threads s p = Some t"
    and "th_state t = PS_SUSPENDED"
  shows "pthread_suspend_np E p s = Some (Ret 0 (marked s p t PS_SUSPENDED ''uthread_suspend.c'' 65))"
  using assms live_list_alloc [OF assms(2,3)]
  by (simp add: suspend_found [OF assms(1-4)] suspend_loop.simps [of E p] bindM_def)
     (simp add: suspend_loop.simps [of E _ p 0] loop_round del: new_state_run)

lemma suspend_running:
  assumes "inited s" "live_list s xs" "p \<in> set xs" "threads s p = Some t"
    and "th_state t = PS_RUNNING" and d: "DosSuspendThread E (threadid t) s = Some (Ret rc (s\<lparr>kern := k\<rparr>))"
  shows "pthread_suspend_np E p s =
    Some (Ret 0 (marked (s\<lparr>kern := k\<rparr>) p t PS_SUSPENDED ''uthread_suspend.c'' 65))"
proof -
  have "suspend_loop E p p (-1) s =
      Some (Ret 0 (marked (s\<lparr>kern := k\<rparr>) p t PS_SUSPENDED ''uthread_suspend.c'' 65))"
    using assms(1-5) live_list_alloc [OF assms(2,3)]
    by (subst suspend_loop.simps) (simp add: suspend_loop.simps [of E _ p 0] loop_round
        bindM_run [where m = "DosSuspendThread E (threadid t)", OF d] del: new_state_run)
  then show ?thesis by (simp add: suspend_found [OF assms(1-4)] bindM_run retM_def)
qed

lemma suspend_waiting:
  assumes "inited s" "live_list s xs" "p \<in> set xs" "threads s p = Some t"
    and "th_state t \<noteq> PS_RUNNING" "th_state t \<noteq> PS_SUSPENDED"
  shows "pthread_suspend_np E p s = Some (Ret 0
    (marked (s\<lparr>errnos := (errnos s)(th_self t := EINTR)\<rparr>) p t PS_SUSPENDED ''uthread_suspend.c'' 65))"
proof -
  have "suspend_loop E p p (-1) s = Some (Ret 0
    (marked (s\<lparr>errnos := (errnos s)(th_self t := EINTR)\<rparr>) p t PS_SUSPENDED ''uthread_suspend.c'' 65))"
    using assms live_list_alloc [OF assms(2,3)]
    by (subst suspend_loop.simps)
       (simp add: suspend_loop.simps [of E _ p 0] loop_round del: new_state_run)
  then show ?thesis by (simp add: suspend_found [OF assms(1-4)] bindM_run retM_def)
qed

lemma suspend_absent:
  assumes "inited s" and live: "live_list s xs" and "p \<notin> set xs"
  shows "pthread_suspend_np E p s = Some (Ret (-1) (with_errno ESRCH s))"
proof -
  have "suspend_loop E (thread_link_list s) p (-1) s = Some (Ret (-1) s)"
    using suspend_loop_skip [OF live [unfolded live_list_def]] assms(3) by simp
  then show ?thesis using assms(1) by (simp add: pthread_suspend_np_def bindM_run retM_def)
qed

lemma resume_found:
  assumes "inited s" and live: "live_list s xs" and "p \<in> set xs" "threads s p = Some t"
  shows "pthread_resume_np E p s = bindM (resume_loop E p p (-1))
    (\<lambda>ret. seqM (whenM (ret = -1) (set_errno ESRCH)) (retM ret)) s"
proof -
  have "resume_loop E (thread_link_list s) p (-1) s = resume_loop E p p (-1) s"
    using resume_loop_skip [OF live [unfolded live_list_def]] assms(3) by simp
  with assms(1) show ?thesis by (simp add: pthread_resume_np_def) (simp add: bindM_def)
qed

lemma resume_suspended:
  assumes "inited s" "live_list s xs" "p \<in> set xs" "threads s p = Some t"
    and "th_state t = PS_SUSPENDED"
  shows "pthread_resume_np E p s = Some (Ret 0
    ((marked s p t PS_RUNNING ''uthread_resume.c'' 58)\<lparr>kern := kst (DosResumeThread E (threadid t)) s\<rparr>))"
proof -
  have "resume_loop E p p (-1) s = Some (Ret 0
    ((marked s p t PS_RUNNING ''uthread_resume.c'' 58)\<lparr>kern := kst (DosResumeThread E (threadid t)) s\<rparr>))"
    using assms live_list_alloc [OF assms(2,3)]
    by (subst resume_loop.simps)
       (simp add: resume_loop.simps [of E _ p 0] loop_round kst_def del: new_state_run)
  then show ?thesis by (simp add: resume_found [OF assms(1-4)] bindM_run retM_def)
qed

lemma resume_running:
  assumes "inited s" "live_list s xs" "p \<in> set xs" "threads s p = Some t" "th_state t = PS_RUNNING"
  shows "pthread_resume_np E p s = Some (Ret 0 s)"
proof -
  have "resume_loop E p p (-1) s = Some (Ret 0 s)"
    using assms live_list_alloc [OF assms(2,3)]
    by (subst resume_loop.simps) (simp add: resume_loop.simps [of E _ p 0] loop_round)
  then show ?thesis by (simp add: resume_found [OF assms(1-4)] bindM_run retM_def)
qed

text \<open>A thread that waits: the loop goes on, and reports that it found no thread.\<close>

lemma resume_waiting:
  assumes "inited s" and live: "live_list s xs" and p: "p \<in> set xs" "threads s p = Some t"
    and "th_state t \<noteq> PS_RUNNING" "th_state t \<noteq> PS_SUSPENDED"
  shows "pthread_resume_np E p s = Some (Ret (-1) (with_errno ESRCH s))"
proof -
  from p(1) obtain ys zs where xs: "xs = ys @ p # zs" by (meson split_list)
  with live live_list_distinct [OF live] p(2)
  have rest: "chain (nlink (threads s)) (nxt t) zs" "p \<notin> set zs"
    by (auto simp: live_list_def chain_append nlink_Some)
  let ?s = "with_errno EINVAL s"
  have "resume_loop E p p (-1) s = resume_loop E (nxt t) p (-1) ?s"
    using assms(1,5,6) p live_list_alloc [OF live p(1)]
    by (subst resume_loop.simps) (simp add: loop_round)
  also have "\<dots> = Some (Ret (-1) ?s)"
    using resume_loop_skip [of ?s "nxt t" zs E p] rest by simp
  finally have "resume_loop E p p (-1) s = Some (Ret (-1) ?s)" .
  then show ?thesis
    by (simp add: resume_found [OF assms(1-4)] bindM_run retM_def)
qed

lemma resume_absent:
  assumes "inited s" and live: "live_list s xs" and "p \<notin> set xs"
  shows "pthread_resume_np E p s = Some (Ret (-1) (with_errno ESRCH s))"
proof -
  have "resume_loop E (thread_link_list s) p (-1) s = Some (Ret (-1) s)"
    using resume_loop_skip [OF live [unfolded live_list_def]] assms(3) by simp
  then show ?thesis using assms(1) by (simp add: pthread_resume_np_def bindM_run retM_def)
qed

section \<open>Joining and detaching, as lemmas\<close>

definition detached :: "pthread \<Rightarrow> bool" where
  "detached t \<longleftrightarrow> at_flags (th_attr t) AND PTHREAD_DETACHED \<noteq> 0"

lemma detached_mark [simp]:
  "detached (t\<lparr>th_attr := (th_attr t)\<lparr>at_flags := at_flags (th_attr t) OR PTHREAD_DETACHED\<rparr>\<rparr>)"
proof -
  have "(w OR 1) AND 1 = (1::u32)" for w by (simp add: bit_eq_iff bit_simps)
  then show ?thesis by (simp add: detached_def PTHREAD_DETACHED_def)
qed

lemma find_dead_blocked:
  "dead_list s ds \<Longrightarrow> bindM (find_thread (thread_dead (blocked E s)) p) f (blocked E s) =
     f (if p \<in> set ds then p else NULL) (blocked E s)"
  unfolding dead_list_def
  by (rule find_thread_run) (simp add: blocked_def)

lemma listed_notnull:
  assumes "live_list s xs" "dead_list s ds" "p \<in> set xs \<union> set ds"
  shows "p \<noteq> NULL"
  using assms chain_notnull unfolding live_list_def dead_list_def by (metis Un_iff)

text \<open>Both searches of \<^verbatim>\<open>pthread_join\<close> done: \<open>known\<close> says whether the thread is on either list.\<close>

lemma join_found:
  assumes "inited s" and live: "live_list s xs" and dead: "dead_list s ds"
    and p: "p \<in> set xs \<union> set ds" "threads s p = Some t"
  shows "pthread_join E p ret s =
    bindM (if detached t then seqM (set_errno ESRCH) (retM (-1))
           else if th_state t \<noteq> PS_DEAD then join_wait E p ret
           else seqM (store_return ret p) (retM 0))
      (\<lambda>rval. seqM (thread_kern_sig_unblock E) (retM rval)) (blocked E s)"
proof -
  have "p \<noteq> NULL"
    using listed_notnull [OF live dead p(1)] .
  with p assms(1) show ?thesis
    by (auto simp: pthread_join_def block_run find_live_blocked [OF live] find_dead_blocked [OF dead]
        run_simps detached_def simp del: sig_block_run sig_unblock_run)
qed

lemma join_unknown:
  assumes "inited s" and live: "live_list s xs" and dead: "dead_list s ds"
    and p: "p \<notin> set xs" "p \<notin> set ds"
  shows "pthread_join E p ret s = Some (Ret (-1) (unblocked E (with_errno ESRCH (blocked E s))))"
  using assms(1) p
  by (simp add: pthread_join_def block_run find_live_blocked [OF live] find_dead_blocked [OF dead]
      run_simps retM_def del: sig_block_run sig_unblock_run)

lemma join_detached:
  assumes "inited s" "live_list s xs" "dead_list s ds" "p \<in> set xs \<union> set ds" "threads s p = Some t"
    and "detached t"
  shows "pthread_join E p ret s = Some (Ret (-1) (unblocked E (with_errno ESRCH (blocked E s))))"
  using assms(6)
  by (simp add: join_found [OF assms(1-5)] block_run run_simps retM_def del: sig_block_run sig_unblock_run)

lemma join_dead:
  assumes "inited s" "live_list s xs" "dead_list s ds" "p \<in> set xs \<union> set ds" "threads s p = Some t"
    and "\<not> detached t" "th_state t = PS_DEAD" and "ret \<noteq> NULL" "ptrs s ret = Some v"
  shows "pthread_join E p ret s =
    Some (Ret 0 (unblocked E ((blocked E s)\<lparr>ptrs := (ptrs s)(ret := Some (th_ret t))\<rparr>)))"
proof -
  have "ptrs (blocked E s) ret = Some v" "p \<noteq> NULL" "ptrs (blocked E s) = ptrs s"
    using assms(9) listed_notnull [OF assms(2-4)] by (simp_all add: blocked_def)
  with assms(5-9) show ?thesis
    by (simp add: join_found [OF assms(1-5)] block_run run_simps retM_def store_return_def
        del: sig_block_run sig_unblock_run)
qed

text \<open>A live thread: what the call leaves when the thread has ended meanwhile.\<close>

lemma join_live:
  assumes "inited s" "live_list s xs" "dead_list s ds" "p \<in> set xs \<union> set ds" "threads s p = Some t"
    and "\<not> detached t" "th_state t \<noteq> PS_DEAD"
  shows "pthread_join E p ret s =
    bindM (join_wait E p ret) (\<lambda>rval. seqM (thread_kern_sig_unblock E) (retM rval)) (blocked E s)"
  using assms(6,7) by (simp add: join_found [OF assms(1-5)])

lemma detach_run:
  assumes "inited s" "pp \<noteq> NULL" "ptrs s pp = Some p" "p \<noteq> NULL" "threads s p = Some t" "\<not> detached t"
  shows "pthread_detach E pp s = Some (Ret 0 (unblocked E ((blocked E s)\<lparr>
    threads := (threads s)(p := Some (t\<lparr>th_attr := (th_attr t)\<lparr>at_flags := at_flags (th_attr t) OR PTHREAD_DETACHED\<rparr>\<rparr>)),
    ptrs := (ptrs s)(pp := Some NULL)\<rparr>)))"
proof -
  have "ptrs (blocked E s) = ptrs s" by (simp add: blocked_def)
  with assms show ?thesis
    by (simp add: pthread_detach_def block_run run_simps retM_def detached_def
        del: sig_block_run sig_unblock_run)
qed

lemma detach_errors:
  assumes "inited s"
  shows "pp = NULL \<or> ptrs s pp = Some NULL \<Longrightarrow>
      pthread_detach E pp s = Some (Ret (-1) (unblocked E (with_errno EINVAL (blocked E s))))"
    and "pp \<noteq> NULL \<Longrightarrow> ptrs s pp = Some p \<Longrightarrow> p \<noteq> NULL \<Longrightarrow> threads s p = Some t \<Longrightarrow> detached t \<Longrightarrow>
      pthread_detach E pp s = Some (Ret (-1) (unblocked E (with_errno ESRCH (blocked E s))))"
proof -
  have b: "ptrs (blocked E s) = ptrs s" by (simp add: blocked_def)
  show "pthread_detach E pp s = Some (Ret (-1) (unblocked E (with_errno EINVAL (blocked E s))))"
    if c: "pp = NULL \<or> ptrs s pp = Some NULL"
  proof -
    have l: "bindM (if pp = NULL then retM NULL else load ptrs pp) f (blocked E s) = f NULL (blocked E s)"
      for f :: "addr \<Rightarrow> (int, 'a world) prog"
      using c b by (cases "pp = NULL") simp_all
    show ?thesis
      using assms
      by (simp add: pthread_detach_def block_run bindM_assoc l del: sig_block_run sig_unblock_run)
         (simp add: block_run run_simps retM_def del: sig_block_run sig_unblock_run)
  qed
  show "pthread_detach E pp s = Some (Ret (-1) (unblocked E (with_errno ESRCH (blocked E s))))"
    if "pp \<noteq> NULL" "ptrs s pp = Some p" "p \<noteq> NULL" "threads s p = Some t" "detached t"
    using that assms b
    by (simp add: pthread_detach_def block_run run_simps retM_def detached_def
        del: sig_block_run sig_unblock_run)
qed

section \<open>Properties\<close>

text \<open>A priority between 0 and 126 set for a live thread is the priority read back, and nothing else in
  any thread structure changes; a priority out of range is refused with \<^verbatim>\<open>EINVAL\<close> and a thread
  that is not on the live list with \<^verbatim>\<open>ESRCH\<close>, in both cases with every structure as before.\<close>

lemma setprio_getprio:
  assumes "inited s" and "live_list s xs"
  shows "if prio < 0 \<or> 126 < prio then pthread_setprio E p prio s = Some (Ret (-1) (with_errno EINVAL s))
    else if p \<notin> set xs
    then \<exists>s'. pthread_setprio E p prio s = Some (Ret (-1) s') \<and> errno s' = ESRCH \<and> threads s' = threads s
    else \<forall>t. threads s p = Some t \<and> threadid t \<noteq> 0 \<longrightarrow>
      (\<exists>s' s''. pthread_setprio E p prio s = Some (Ret 0 s') \<and>
        threads s' = (threads s)(p := Some (t\<lparr>pthread_priority := prio\<rparr>)) \<and>
        pthread_getprio E p s' = Some (Ret prio s''))"
proof -
  have "\<exists>s' s''. pthread_setprio E p prio s = Some (Ret 0 s') \<and>
        threads s' = (threads s)(p := Some (t\<lparr>pthread_priority := prio\<rparr>)) \<and>
        pthread_getprio E p s' = Some (Ret prio s'')"
    if a: "0 \<le> prio" "prio \<le> 126" "p \<in> set xs" "threads s p = Some t" "threadid t \<noteq> 0" for t
  proof -
    let ?s = "unblocked E ((blocked E s)\<lparr>threads := (threads s)(p := Some (t\<lparr>pthread_priority := prio\<rparr>))\<rparr>)"
    have "live_list ?s xs"
      using assms(2) a(4) live_list_same_links [of "blocked E s" p t] by simp
    then show ?thesis
      using getprio_run [of ?s xs E p] setprio_run [OF assms a] assms(1) a(3) by simp
  qed
  then show ?thesis
    using setprio_error [OF assms] by (auto simp: errno_def unblocked_def blocked_def)
qed

lemma setprio_getprio_witness:
  "\<exists>s' s''. pthread_setprio demo_os 10 100 demo_world = Some (Ret 0 s') \<and>
     threads s' = (threads demo_world)(10 := Some (demo_thread\<lparr>pthread_priority := 100\<rparr>)) \<and>
     pthread_getprio demo_os 10 s' = Some (Ret 100 s'')"
proof -
  have "live_list demo_world [20, 10]" by (simp add: live_list_def nlink_def)
  from setprio_getprio [OF demo_inited this, of 100 demo_os 10] show ?thesis by simp
qed

text \<open>C30: A running thread that is suspended is stopped by the operating system and marked
  suspended; resuming it marks it running again and resumes it in the operating system.  Each
  call returns 0 and changes no other structure.\<close>

theorem suspend_resume:
  assumes "inited s" and "live_list s xs" and "p \<in> set xs" and "threads s p = Some t"
    and "th_state t = PS_RUNNING"
    and stop: "DosSuspendThread E (threadid t) s = Some (Ret rc (s\<lparr>kern := k\<rparr>))"
  shows "\<exists>s1 s2. pthread_suspend_np E p s = Some (Ret 0 s1) \<and> kern s1 = k \<and>
      threads s1 = (threads s)(p := Some
        (t\<lparr>th_state := PS_SUSPENDED, th_fname := ''uthread_suspend.c'', th_lineno := 65\<rparr>)) \<and>
    pthread_resume_np E p s1 = Some (Ret 0 s2) \<and>
      kern s2 = snd (DosResumeThread E (threadid t) (cur s) k) \<and>
      threads s2 = (threads s)(p := Some
        (t\<lparr>th_state := PS_RUNNING, th_fname := ''uthread_resume.c'', th_lineno := 58\<rparr>))"
proof -
  let ?s = "marked (s\<lparr>kern := k\<rparr>) p t PS_SUSPENDED ''uthread_suspend.c'' 65"
  let ?t = "t\<lparr>th_state := PS_SUSPENDED, th_fname := ''uthread_suspend.c'', th_lineno := 65\<rparr>"
  have s: "pthread_suspend_np E p s = Some (Ret 0 ?s)"
    by (rule suspend_running [OF assms])
  have "inited ?s" "live_list ?s xs" "threads ?s p = Some ?t" "th_state ?t = PS_SUSPENDED"
    using assms(1,2,4) by simp_all
  from resume_suspended [OF this(1,2) assms(3) this(3,4), of E] s show ?thesis
    by (simp add: kst_def)
qed

theorem suspend_resume_witness:
  "\<exists>s1. pthread_suspend_np demo_os 20 demo_world = Some (Ret 0 s1)"
proof -
  have l: "live_list demo_world [20, 10]" by (simp add: live_list_def nlink_def)
  have d: "DosSuspendThread demo_os 2 demo_world = Some (Ret 0 (demo_world\<lparr>kern := demo_kern0\<rparr>))"
    by (simp add: retM_def kern_upd_id)
  show ?thesis
    using suspend_resume [OF demo_inited l, of 20 "demo_thread\<lparr>th_self := 2, threadid := 2, nxt := 10\<rparr>" demo_os 0 demo_kern0] d
    by auto
qed

text \<open>A live thread that is neither running nor suspended, say one that waits for a mutex, is not
  suspended: \<^verbatim>\<open>pthread_suspend_np\<close> calls no service of the system, returns 0, writes \<^verbatim>\<open>EINTR\<close> to
  that thread's \<^verbatim>\<open>errno\<close> and overwrites its state with \<^verbatim>\<open>PS_SUSPENDED\<close>.  And
  \<^verbatim>\<open>pthread_resume_np\<close> of such a thread fails with \<^verbatim>\<open>ESRCH\<close>, as for a thread that does not exist:
  the \<^verbatim>\<open>EINVAL\<close> it sets is overwritten.\<close>

lemma suspend_resume_of_waiting:
  assumes "inited s" and "live_list s xs" and "p \<in> set xs" and "threads s p = Some t"
    and "th_state t \<noteq> PS_RUNNING" and "th_state t \<noteq> PS_SUSPENDED"
  shows "(\<exists>s'. pthread_suspend_np E p s = Some (Ret 0 s') \<and> kern s' = kern s \<and>
           errnos s' = (errnos s)(th_self t := EINTR) \<and>
           map_option th_state (threads s' p) = Some PS_SUSPENDED) \<and>
    pthread_resume_np E p s = Some (Ret (-1) (with_errno ESRCH s)) \<and>
    (\<forall>q. q \<notin> set xs \<longrightarrow> pthread_resume_np E q s = pthread_resume_np E p s)"
  using suspend_waiting [OF assms] resume_waiting [OF assms] resume_absent [OF assms(1,2)] by simp

lemma suspend_resume_of_waiting_witness:
  "pthread_resume_np demo_os 20 (demo_world\<lparr>threads := (threads demo_world)
      (20 := Some (demo_thread\<lparr>nxt := 10, th_state := PS_MUTEX_WAIT\<rparr>))\<rparr>) =
   Some (Ret (-1) (with_errno ESRCH (demo_world\<lparr>threads := (threads demo_world)
      (20 := Some (demo_thread\<lparr>nxt := 10, th_state := PS_MUTEX_WAIT\<rparr>))\<rparr>)))"
proof -
  let ?s = "demo_world\<lparr>threads := (threads demo_world)
      (20 := Some (demo_thread\<lparr>nxt := 10, th_state := PS_MUTEX_WAIT\<rparr>))\<rparr>"
  have "live_list ?s [20, 10]" "inited ?s" by (simp_all add: live_list_def nlink_def)
  then show ?thesis
    using suspend_resume_of_waiting [of ?s "[20, 10]" 20 "demo_thread\<lparr>nxt := 10, th_state := PS_MUTEX_WAIT\<rparr>" demo_os]
    by simp
qed


text \<open>Joining a thread that has ended returns 0 and stores the thread's return value, and a
  thread on neither list gives \<^verbatim>\<open>ESRCH\<close>.  Once \<^verbatim>\<open>pthread_detach\<close> has been applied to a variable
  with the thread, the variable is \<^verbatim>\<open>NULL\<close>, joining the thread gives \<^verbatim>\<open>ESRCH\<close> and detaching through
  the variable again gives \<^verbatim>\<open>EINVAL\<close>.\<close>

lemma join_and_detach:
  assumes i: "inited s" and l: "live_list s xs" "dead_list s ds"
    and v: "ret \<noteq> NULL" "ptrs s ret = Some v" "pp \<noteq> NULL" "ptrs s pp = Some p"
  shows "if p \<notin> set xs \<union> set ds
    then \<exists>s'. pthread_join E p ret s = Some (Ret (-1) s') \<and> errno s' = ESRCH
    else \<forall>t. threads s p = Some t \<and> \<not> detached t \<longrightarrow>
      (th_state t = PS_DEAD \<longrightarrow> (\<exists>s'. pthread_join E p ret s = Some (Ret 0 s') \<and>
         ptrs s' = (ptrs s)(ret := Some (th_ret t)) \<and> threads s' = threads s)) \<and>
      (\<exists>s1 s2 s3. pthread_detach E pp s = Some (Ret 0 s1) \<and> ptrs s1 pp = Some NULL \<and>
         pthread_join E p ret s1 = Some (Ret (-1) s2) \<and> errno s2 = ESRCH \<and>
         pthread_detach E pp s1 = Some (Ret (-1) s3) \<and> errno s3 = EINVAL)"
proof -
  have e: "errno (unblocked E (with_errno e (blocked E s))) = e" for e :: int and s :: "'a world"
    by (simp add: errno_def unblocked_def blocked_def)
  have d: "\<exists>s1 s2 s3. pthread_detach E pp s = Some (Ret 0 s1) \<and> ptrs s1 pp = Some NULL \<and>
         pthread_join E p ret s1 = Some (Ret (-1) s2) \<and> errno s2 = ESRCH \<and>
         pthread_detach E pp s1 = Some (Ret (-1) s3) \<and> errno s3 = EINVAL"
    if p: "p \<in> set xs \<union> set ds" "threads s p = Some t" "\<not> detached t" for t
  proof -
    let ?t = "t\<lparr>th_attr := (th_attr t)\<lparr>at_flags := at_flags (th_attr t) OR PTHREAD_DETACHED\<rparr>\<rparr>"
    obtain s1 where s1: "s1 = unblocked E ((blocked E s)\<lparr>threads := (threads s)(p := Some ?t),
        ptrs := (ptrs s)(pp := Some NULL)\<rparr>)" by blast
    have s: "pthread_detach E pp s = Some (Ret 0 s1)"
      unfolding s1 by (rule detach_run [OF i v(3,4) listed_notnull [OF l p(1)] p(2,3)])
    have r: "inited s1" "ptrs s1 pp = Some NULL" "threads s1 p = Some ?t"
      using i by (simp_all add: s1 unblocked_def)
    have "live_list s1 xs" "dead_list s1 ds"
      using l p(2) by (simp_all add: s1 live_list_def dead_list_def unblocked_def blocked_def)
    from join_detached [OF r(1) this p(1) r(3) detached_mark] detach_errors(1) [OF r(1) disjI2, OF r(2)]
    show ?thesis using s r(2) e by blast
  qed
  show ?thesis
    using join_unknown [OF i l] join_dead [OF i l _ _ _ _ v(1,2)] d e
    by (auto simp: unblocked_def blocked_def)
qed

lemma join_and_detach_witness:
  "\<exists>s'. pthread_join demo_os 20 33 (demo_world\<lparr>thread_link_list := 10, thread_dead := 20,
       threads := (threads demo_world)(20 := Some (demo_thread\<lparr>th_state := PS_DEAD, th_ret := 77\<rparr>)),
       ptrs := (ptrs demo_world)(34 := Some 20)\<rparr>) = Some (Ret 0 s') \<and> ptrs s' 33 = Some 77"
proof -
  let ?s = "demo_world\<lparr>thread_link_list := 10, thread_dead := 20,
       threads := (threads demo_world)(20 := Some (demo_thread\<lparr>th_state := PS_DEAD, th_ret := 77\<rparr>)),
       ptrs := (ptrs demo_world)(34 := Some 20)\<rparr>"
  have "inited ?s" "live_list ?s [10]" "dead_list ?s [20]"
    by (simp_all add: live_list_def dead_list_def nlink_def)
  from join_and_detach [OF this, of 33 0 34 20 demo_os] show ?thesis
    by (auto simp: detached_def pthread_attr_default_def)
qed

end
