(* ===== verification/Exit.thy ===== *)
theory Exit
  imports Threads
begin

text \<open>
  The end of a thread: the cleanup handlers of \<^verbatim>\<open>uthread_clean.c\<close>,
  \<^verbatim>\<open>_thread_kern_sched_state\<close> of \<^verbatim>\<open>uthread_kern.c\<close>, \<^verbatim>\<open>_thread_exit\<close> and \<^verbatim>\<open>pthread_exit\<close>
  of \<^verbatim>\<open>uthread_exit.c\<close>.  \<^verbatim>\<open>_endthread\<close> ends the calling thread, \<^verbatim>\<open>_exit\<close> the process: both are
  a \<open>Stop\<close> of the program.
\<close>

section \<open>Cleanup handlers\<close>

definition pthread_cleanup_push :: "'k os \<Rightarrow> addr \<Rightarrow> addr \<Rightarrow> (unit, 'k world) prog" where
  "pthread_cleanup_push E routine routine_arg =
     seqM (PTHREAD_INIT E)
    (bindM (kcall (malloc E)) (\<lambda>new.
     if new \<noteq> NULL
     then bindM thread_run (\<lambda>self.
          bindM (load threads self) (\<lambda>t.
          seqM (fresh cleanups cleanups_update new
                 \<lparr>cl_next = th_cleanup t, cl_routine = routine, cl_arg = routine_arg\<rparr>)
               (upd_thread self (\<lambda>t. t\<lparr>th_cleanup := new\<rparr>))))
     else retM ()))"

definition pthread_cleanup_pop :: "'k os \<Rightarrow> int \<Rightarrow> (unit, 'k world) prog" where
  "pthread_cleanup_pop E execute =
     seqM (PTHREAD_INIT E)
    (bindM thread_run (\<lambda>self.
     bindM (load threads self) (\<lambda>t.
     let old = th_cleanup t in
     if old \<noteq> NULL
     then bindM (load cleanups old) (\<lambda>v.
          seqM (upd_thread self (\<lambda>t. t\<lparr>th_cleanup := cl_next v\<rparr>))
         (seqM (if execute \<noteq> 0
                then bindM (load cleanups old) (\<lambda>v.
                     bindM (call_fun E (cl_routine v) (cl_arg v)) (\<lambda>r. retM ()))
                else retM ())
               (free cleanups cleanups_update old)))
     else retM ())))"

section \<open>Leaving\<close>

definition thread_exit :: "string \<Rightarrow> int \<Rightarrow> string \<Rightarrow> (unit, 'k world) prog" where
  "thread_exit fname lineno str = stopM (Exit_Process 1)"

definition thread_kern_sched_state ::
  "'k os \<Rightarrow> pthread_state \<Rightarrow> string \<Rightarrow> int \<Rightarrow> (unit, 'k world) prog" where
  "thread_kern_sched_state E st fname lineno =
     seqM (PTHREAD_INIT E)
    (bindM thread_run (\<lambda>self.
     seqM (upd_thread self (\<lambda>t. t\<lparr>th_state := st, th_fname := fname, th_lineno := lineno\<rparr>))
     (if st = PS_MUTEX_WAIT \<or> st = PS_COND_WAIT \<or> st = PS_SUSPENDED
      then bindM (load threads self) (\<lambda>t. bindM (DosSuspendThread E (threadid t)) (\<lambda>rc. retM ()))
      else bindM (DosSleep E 1) (\<lambda>rc. retM ()))))"

text \<open>\<^verbatim>\<open>while (self->cleanup != NULL) pthread_cleanup_pop(1);\<close>\<close>

partial_function (option) exit_handlers ::
  "'k os \<Rightarrow> addr \<Rightarrow> 'k world \<Rightarrow> (unit, 'k world) res option" where
  "exit_handlers E self s =
     bindM (load threads self) (\<lambda>t s.
       if th_cleanup t \<noteq> NULL
       then seqM (pthread_cleanup_pop E 1) (\<lambda>s. exit_handlers E self s) s
       else retM () s) s"

text \<open>\<^verbatim>\<open>while (pthread != NULL && pthread->nxt != self) pthread = pthread->nxt;\<close>\<close>

partial_function (option) find_previous ::
  "addr \<Rightarrow> addr \<Rightarrow> 'k world \<Rightarrow> (addr, 'k world) res option" where
  "find_previous p self s =
     (if p = NULL then retM p s
      else bindM (load threads p) (\<lambda>t s.
           if nxt t \<noteq> self then find_previous (nxt t) self s else retM p s) s)"

definition exit_unlink :: "addr \<Rightarrow> (unit, 'k world) prog" where
  "exit_unlink self =
     bindM (getM thread_link_list) (\<lambda>first.
     if first = self
     then bindM (load threads self) (\<lambda>t. modM (\<lambda>s. s\<lparr>thread_link_list := nxt t\<rparr>))
     else bindM (find_previous first self) (\<lambda>p.
          if p \<noteq> NULL
          then bindM (load threads self) (\<lambda>t. upd_thread p (\<lambda>u. u\<lparr>nxt := nxt t\<rparr>))
          else retM ()))"

text \<open>
  The search for another handler thread of the same parent, and what a signal handler thread
  does for its parent, which waits in \<^verbatim>\<open>PS_SIGTHREAD\<close>.
\<close>

partial_function (option) find_sibling ::
  "addr \<Rightarrow> addr \<Rightarrow> 'k world \<Rightarrow> (addr, 'k world) res option" where
  "find_sibling p self s =
     (if p = NULL then retM p s
      else bindM (load threads p) (\<lambda>t.
           bindM (load threads self) (\<lambda>u s.
           if parent_thread t = parent_thread u then retM p s
           else find_sibling (nxt t) self s)) s)"

definition exit_wake_parent :: "'k os \<Rightarrow> addr \<Rightarrow> (unit, 'k world) prog" where
  "exit_wake_parent E self =
     bindM (load threads self) (\<lambda>t.
     if parent_thread t \<noteq> NULL
     then
       bindM (getM thread_link_list) (\<lambda>first.
       bindM (find_sibling first self) (\<lambda>p.
       seqM (if p = NULL
             then bindM (load threads (parent_thread t)) (\<lambda>u.
                  if th_state u \<noteq> PS_DEAD \<and> th_state u \<noteq> PS_RUNNING
                  then seqM (PTHREAD_NEW_STATE (parent_thread t) PS_RUNNING ''uthread_exit.c'' 152)
                           (seqM (kcall (DosResumeThread E (threadid u))) (retM ()))
                  else retM ())
             else retM ())
            (upd_tp (parent_thread t) (\<lambda>d. d\<lparr>sig_blocked :=
               sig_blocked d AND NOT (sigmask E (int (th_arg t)))\<rparr>))))
     else retM ())"

declare exit_handlers.simps [code] find_previous.simps [code] find_sibling.simps [code]

definition exit_attr_cleanup :: "'k os \<Rightarrow> addr \<Rightarrow> (unit, 'k world) prog" where
  "exit_attr_cleanup E self =
     bindM (load threads self) (\<lambda>t.
     if cleanup_attr (th_attr t) \<noteq> NULL
     then bindM thread_run (\<lambda>p.
          bindM (load threads p) (\<lambda>u.
          bindM (call_fun E (cleanup_attr (th_attr t)) (arg_attr (th_attr u))) (\<lambda>r. retM ())))
     else retM ())"

text \<open>From the critical section on: off the live list and on the list of dead threads.\<close>

definition exit_bury :: "'k os \<Rightarrow> addr \<Rightarrow> (unit, 'k world) prog" where
  "exit_bury E self =
     seqM (thread_kern_enter_crit_sec E)
    (seqM (exit_unlink self)
    (seqM (exit_wake_parent E self)
    (bindM (getM thread_dead) (\<lambda>dead.
     seqM (upd_thread self (\<lambda>t. t\<lparr>nxt := dead\<rparr>))
    (seqM (modM (\<lambda>s. s\<lparr>thread_dead := self\<rparr>))
    (seqM (thread_kern_leave_crit_sec E)
     (thread_kern_sig_unblock E)))))))"

definition pthread_exit :: "'k os \<Rightarrow> addr \<Rightarrow> (unit, 'k world) prog" where
  "pthread_exit E status =
     bindM (pthread_self E) (\<lambda>self.
     seqM (kcall (libc_alarm E 0))
    (seqM (thread_kern_sig_block E)
    (seqM (upd_thread self (\<lambda>t. t\<lparr>th_ret := status\<rparr>))
    (seqM (exit_handlers E self)
    (seqM (exit_attr_cleanup E self)
    (seqM (bindM (load threads self) (\<lambda>t.
           if specific_data t \<noteq> NULL then thread_cleanupspecific E else retM ()))
    (seqM (exit_bury E self)
    (seqM (thread_kern_sched_state E PS_DEAD ''uthread_exit.c'' 176)
    (seqM (stopM End_Thread :: (unit, 'k world) prog)
     (thread_exit ''uthread_exit.c'' 180 ''Dead thread has resumed''))))))))))"

section \<open>The handlers run last in, first out\<close>

text \<open>
  \<open>handler_list h q hs\<close>: the list of handlers from \<open>q\<close> on, the newest first, is \<open>hs\<close>, each
  with its address, routine and argument.
\<close>

primrec handler_list ::
  "(addr \<Rightarrow> pthread_cleanup option) \<Rightarrow> addr \<Rightarrow> (addr \<times> addr \<times> addr) list \<Rightarrow> bool" where
  "handler_list h q [] \<longleftrightarrow> q = NULL"
| "handler_list h q (e # hs) \<longleftrightarrow> (case e of (x, f, a) \<Rightarrow>
     q = x \<and> x \<noteq> NULL \<and> x \<notin> fst ` set hs \<and> f \<noteq> NULL \<and>
     (\<exists>v. h x = Some v \<and> cl_routine v = f \<and> cl_arg v = a \<and> handler_list h (cl_next v) hs))"

lemma handler_list_upd [simp]:
  "x \<notin> fst ` set hs \<Longrightarrow> handler_list (h(x := v)) q hs = handler_list h q hs"
  by (induction hs arbitrary: q) auto

text \<open>The kernel state after thread \<open>u\<close> called the handlers.\<close>

definition called ::
  "(addr \<Rightarrow> addr \<Rightarrow> tid \<Rightarrow> 'k \<Rightarrow> 'k) \<Rightarrow> tid \<Rightarrow> (addr \<times> addr \<times> addr) list \<Rightarrow> 'k \<Rightarrow> 'k" where
  "called c u hs k = fold (\<lambda>(x, f, a). c f a u) hs k"

lemma called_simps [simp]:
  "called c u [] k = k" "called c u ((x, f, a) # hs) k = called c u hs (c f a u k)"
  by (simp_all add: called_def)

lemma pop_run:
  assumes c: "plain_calls E c" and s: "inited s" "run s = p" "p \<noteq> NULL" "threads s p = Some t"
    and x: "th_cleanup t = x" "x \<noteq> NULL" "cleanups s x = Some v" and r: "cl_routine v \<noteq> NULL"
  shows "pthread_cleanup_pop E 1 s = Some (Ret ()
    (s\<lparr>threads := (threads s)(p := Some (t\<lparr>th_cleanup := cl_next v\<rparr>)),
       kern := c (cl_routine v) (cl_arg v) (cur s) (kern s), cleanups := (cleanups s)(x := None)\<rparr>))"
proof -
  let ?s = "s\<lparr>threads := (threads s)(p := Some (t\<lparr>th_cleanup := cl_next v\<rparr>))\<rparr>"
  obtain y where "call_fun E (cl_routine v) (cl_arg v) ?s =
      Some (Ret y (?s\<lparr>kern := c (cl_routine v) (cl_arg v) (cur s) (kern s)\<rparr>))"
    using c [unfolded plain_calls_def, rule_format, OF r, of "cl_arg v" ?s] by auto
  note cf = bindM_run [where m = "call_fun E (cl_routine v) (cl_arg v)", OF this]
  show ?thesis
    using s x by (simp add: pthread_cleanup_pop_def run_simps retM_def cf free_def modM_def)
qed

lemma exit_handlers_run:
  assumes c: "plain_calls E c"
  shows "inited s \<Longrightarrow> run s = p \<Longrightarrow> p \<noteq> NULL \<Longrightarrow> threads s p = Some t \<Longrightarrow>
    handler_list (cleanups s) (th_cleanup t) hs \<Longrightarrow>
    exit_handlers E p s = Some (Ret () (s\<lparr>threads := (threads s)(p := Some (t\<lparr>th_cleanup := NULL\<rparr>)),
      kern := called c (cur s) hs (kern s),
      cleanups := (\<lambda>x. if x \<in> fst ` set hs then None else cleanups s x)\<rparr>))"
proof (induction hs arbitrary: s t)
  case Nil
  then show ?case by (subst exit_handlers.simps) (simp add: retM_def fun_upd_idem)
next
  case (Cons e hs)
  obtain x f a where e: "e = (x, f, a)" by (metis prod_cases3)
  with Cons.prems(5) obtain v where v: "th_cleanup t = x" "x \<noteq> NULL" "cleanups s x = Some v"
    "cl_routine v \<noteq> NULL" "x \<notin> fst ` set hs" "handler_list (cleanups s) (cl_next v) hs"
    "cl_routine v = f" "cl_arg v = a" by auto
  obtain s' where s': "s' = s\<lparr>threads := (threads s)(p := Some (t\<lparr>th_cleanup := cl_next v\<rparr>)),
       kern := c (cl_routine v) (cl_arg v) (cur s) (kern s), cleanups := (cleanups s)(x := None)\<rparr>" by blast
  have "pthread_cleanup_pop E 1 s = Some (Ret () s')"
    unfolding s' by (rule pop_run [OF c Cons.prems(1-4) v(1-4)])
  then have "exit_handlers E p s = exit_handlers E p s'"
    using Cons.prems(3,4) v(1,2) by (subst exit_handlers.simps) (simp add: seqM_run)
  also have "\<dots> = Some (Ret () (s'\<lparr>threads := (threads s')(p := Some (t\<lparr>th_cleanup := NULL\<rparr>)),
      kern := called c (cur s') hs (kern s'),
      cleanups := (\<lambda>x. if x \<in> fst ` set hs then None else cleanups s' x)\<rparr>))"
  proof -
    have "(t\<lparr>th_cleanup := cl_next v\<rparr>)\<lparr>th_cleanup := NULL\<rparr> = t\<lparr>th_cleanup := NULL\<rparr>" by simp
    note one = this
    have i: "inited s'" "run s' = p" "threads s' p = Some (t\<lparr>th_cleanup := cl_next v\<rparr>)"
      using Cons.prems(1,2) by (simp_all add: s')
    have "handler_list (cleanups s') (th_cleanup (t\<lparr>th_cleanup := cl_next v\<rparr>)) hs"
      using v(5,6) by (simp add: s')
    from Cons.IH [OF i(1,2) Cons.prems(3) i(3) this] show ?thesis unfolding one .
  qed
  also have "s'\<lparr>threads := (threads s')(p := Some (t\<lparr>th_cleanup := NULL\<rparr>)),
      kern := called c (cur s') hs (kern s'),
      cleanups := (\<lambda>x. if x \<in> fst ` set hs then None else cleanups s' x)\<rparr> =
    s\<lparr>threads := (threads s)(p := Some (t\<lparr>th_cleanup := NULL\<rparr>)),
      kern := called c (cur s) (e # hs) (kern s),
      cleanups := (\<lambda>x. if x \<in> fst ` set (e # hs) then None else cleanups s x)\<rparr>"
    using v(7,8) by (auto simp: s' e fun_eq_iff)
  finally show ?case .
qed

section \<open>The thread leaves the list of live threads\<close>

lemma find_previous_run:
  assumes "chain (nlink (threads s)) first (ys @ q # p # zs)"
  shows "find_previous first p s = Some (Ret q s)"
proof -
  have d: "distinct (ys @ q # p # zs)" by (rule chain_distinct [OF assms])
  then have "p \<notin> set ys" by simp
  with assms show ?thesis
  proof (induction ys arbitrary: first)
    case Nil
    then show ?case by (subst find_previous.simps) (auto simp: nlink_Some retM_def)
  next
    case (Cons y ys)
    then obtain t where y: "first = y" "y \<noteq> NULL" "threads s y = Some t"
      "chain (nlink (threads s)) (nxt t) (ys @ q # p # zs)" by (auto simp: nlink_Some)
    have "nxt t \<noteq> p"
    proof
      assume "nxt t = p"
      with y(4) Cons.prems(2) d show False
        using chain_distinct [OF y(4)] by (cases ys) auto
    qed
    with y Cons show ?case by (subst find_previous.simps) simp
  qed
qed

text \<open>Only the links of the threads in \<open>A\<close> may differ.\<close>

definition relinked :: "addr set \<Rightarrow> (addr \<Rightarrow> pthread option) \<Rightarrow> (addr \<Rightarrow> pthread option) \<Rightarrow> bool" where
  "relinked A h h' \<longleftrightarrow>
     (\<forall>q. q \<notin> A \<longrightarrow> h' q = h q) \<and> (\<forall>q t'. h' q = Some t' \<longrightarrow> (\<exists>t. h q = Some t \<and> t' = t\<lparr>nxt := nxt t'\<rparr>))"

lemma relinked_refl [simp]: "relinked A h h"
  by (simp add: relinked_def)

lemma relinked_one: "q \<in> A \<Longrightarrow> h q = Some t \<Longrightarrow> relinked A h (h(q := Some (t\<lparr>nxt := n\<rparr>)))"
  by (auto simp: relinked_def)

lemma exit_unlink_run:
  assumes l: "live_list s xs" and p: "p \<in> set xs" "threads s p = Some t"
  shows "\<exists>h first. exit_unlink p s = Some (Ret () (s\<lparr>threads := h, thread_link_list := first\<rparr>)) \<and>
    chain (nlink h) first (remove1 p xs) \<and> relinked (set xs - {p}) (threads s) h"
proof -
  have pn: "p \<noteq> NULL" using live_list_alloc [OF l p(1)] by simp
  from p(1) obtain ys zs where xs: "xs = ys @ p # zs" by (meson split_list)
  note c = l [unfolded live_list_def]
  have dis: "distinct xs" by (rule chain_distinct [OF c])
  then have r: "remove1 p xs = ys @ zs" by (simp add: xs remove1_append)
  show ?thesis
  proof (cases ys rule: rev_cases)
    case Nil
    with c xs p(2) have "thread_link_list s = p" "chain (nlink (threads s)) (nxt t) zs"
      by (auto simp: nlink_Some)
    with Nil r p(2) pn show ?thesis
      by (intro exI [of _ "threads s"] exI [of _ "nxt t"]) (simp add: exit_unlink_def modM_def)
  next
    case (snoc ws q)
    have c': "chain (nlink (threads s)) (thread_link_list s) (ws @ q # p # zs)"
      using c by (simp add: xs snoc)
    then obtain u where u: "q \<noteq> NULL" "threads s q = Some u" by (auto simp: chain_append nlink_Some)
    have ne: "thread_link_list s \<noteq> p"
      using c' dis by (cases ws) (auto simp: xs snoc)
    have "exit_unlink p s = Some (Ret () (s\<lparr>threads := (threads s)(q := Some (u\<lparr>nxt := nxt t\<rparr>)),
        thread_link_list := thread_link_list s\<rparr>))"
      using u ne p(2) pn find_previous_run [OF c']
      by (simp add: exit_unlink_def bindM_run [where m = "find_previous (thread_link_list s) p"])
    moreover have "chain (nlink ((threads s)(q := Some (u\<lparr>nxt := nxt t\<rparr>)))) (thread_link_list s) (remove1 p xs)"
      using chain_bypass [OF c', of "nxt t"] p(2) by (simp add: r snoc nlink_upd nlink_def)
    moreover have "q \<in> set xs - {p}" using dis by (auto simp: xs snoc)
    ultimately show ?thesis using relinked_one [of q "set xs - {p}" "threads s" u "nxt t"] u(2) by blast
  qed
qed

section \<open>The whole of pthread_exit\<close>

text \<open>
  The lists of live and of dead threads; no thread is on both.  Exit moves a thread from one
  to the other.
\<close>

definition lists_ok :: "'k world \<Rightarrow> addr list \<Rightarrow> addr list \<Rightarrow> bool" where
  "lists_ok s xs ds \<longleftrightarrow> live_list s xs \<and> dead_list s ds \<and> set xs \<inter> set ds = {}"

lemma dead_list_relinked:
  assumes "chain (nlink h) d ds" and "relinked A h h'" and "set ds \<inter> A = {}"
  shows "chain (nlink h') d ds"
proof -
  have "nlink h x = nlink h' x" if "x \<in> set ds" for x
    using assms(2,3) that by (auto simp: relinked_def nlink_def)
  with assms(1) show ?thesis using chain_cong by metis
qed

lemma wake_parent_none:
  "p \<noteq> NULL \<Longrightarrow> threads s p = Some t \<Longrightarrow> parent_thread t = NULL \<Longrightarrow> seqM (exit_wake_parent E p) n s = n s"
  by (rule trans [OF seqM_run [where x = "()" and s' = s]]) (simp_all add: exit_wake_parent_def retM_def)

lemma bury_run:
  assumes l: "lists_ok s xs ds" and p: "p \<in> set xs" "threads s p = Some t" and par: "parent_thread t = NULL"
  shows "\<exists>h first s'. exit_bury E p s = Some (Ret () s') \<and>
    s' = unblocked E (s\<lparr>kern := kst (DosExitCritSec E) (s\<lparr>kern := kst (DosEnterCritSec E) s\<rparr>),
      threads := h(p := Some (t\<lparr>nxt := thread_dead s\<rparr>)), thread_link_list := first, thread_dead := p\<rparr>) \<and>
    relinked (set xs - {p}) (threads s) h \<and> lists_ok s' (remove1 p xs) (p # ds)"
proof -
  have ll: "live_list s xs" "dead_list s ds" "set xs \<inter> set ds = {}" using l by (auto simp: lists_ok_def)
  have pn: "p \<noteq> NULL" using live_list_alloc [OF ll(1) p(1)] by simp
  let ?s0 = "s\<lparr>kern := kst (DosEnterCritSec E) s\<rparr>"
  have "live_list ?s0 xs" "threads ?s0 p = Some t" using ll(1) p(2) by simp_all
  from exit_unlink_run [OF this(1) p(1) this(2)] obtain h first where
    h: "exit_unlink p ?s0 = Some (Ret () (?s0\<lparr>threads := h, thread_link_list := first\<rparr>))"
      "chain (nlink h) first (remove1 p xs)" "relinked (set xs - {p}) (threads s) h" by auto
  have hp: "h p = Some t" using h(3) p(2) by (auto simp: relinked_def)
  obtain s' where s': "s' = unblocked E (s\<lparr>kern := kst (DosExitCritSec E) ?s0,
      threads := h(p := Some (t\<lparr>nxt := thread_dead s\<rparr>)), thread_link_list := first, thread_dead := p\<rparr>)" by blast
  have "exit_bury E p s = Some (Ret () s')"
    using pn hp par
    by (simp add: exit_bury_def run_simps seqM_run [where m = "exit_unlink p", OF h(1)]
        wake_parent_none unblock_end s')
       (simp add: unblocked_def kst_def)
  moreover have "lists_ok s' (remove1 p xs) (p # ds)"
  proof -
    have "p \<notin> set ds" "p \<notin> set (remove1 p xs)" "set (remove1 p xs) \<inter> set ds = {}"
      using ll(3) p(1) chain_distinct [OF ll(1) [unfolded live_list_def]] by (auto dest: notin_set_remove1)
    moreover have "chain (nlink h) (thread_dead s) ds"
      by (rule dead_list_relinked [OF ll(2) [unfolded dead_list_def] h(3)]) (use ll(3) in auto)
    ultimately show ?thesis
      using h(2) pn by (simp add: lists_ok_def live_list_def dead_list_def s' unblocked_def nlink_upd)
  qed
  ultimately show ?thesis using s' h(3) by blast
qed


text \<open>What exit leaves alone, beside the thread structures.\<close>

definition kept :: "'k world \<Rightarrow> 'k world \<Rightarrow> bool" where
  "kept s s' \<longleftrightarrow> ptrs s' = ptrs s \<and> threadstore s' = threadstore s \<and> thread_initial s' = thread_initial s"

lemma kept_refl [simp]: "kept s s"
  by (simp add: kept_def)

lemma kept_trans: "kept s t \<Longrightarrow> kept t u \<Longrightarrow> kept s u"
  by (simp add: kept_def)

text \<open>What a thread does before it leaves the lists: its handlers and its destructors.\<close>

definition key_calls ::
  "'k os \<Rightarrow> (addr \<Rightarrow> addr \<Rightarrow> tid \<Rightarrow> 'k \<Rightarrow> 'k) \<Rightarrow> 'k world \<Rightarrow> (nat \<Rightarrow> addr) \<Rightarrow> 'k \<Rightarrow> 'k" where
  "key_calls E c s a k =
     snd (DosExitMustComplete E (cur s)
       (fold (\<lambda>i. c (k_destructor (key_table s i)) (a i) (cur s))
         (filter (\<lambda>i. a i \<noteq> NULL \<and> k_destructor (key_table s i) \<noteq> NULL) [0..<PTHREAD_KEYS_MAX])
         (snd (DosEnterMustComplete E (cur s) k))))"

definition spec_ok :: "'k world \<Rightarrow> pthread \<Rightarrow> (nat \<Rightarrow> addr) \<Rightarrow> bool" where
  "spec_ok s t a \<longleftrightarrow> (specific_data t \<noteq> NULL \<longrightarrow> arrays s (specific_data t) = Some a \<and>
     specific_data_count t = int (card {i \<in> {..<PTHREAD_KEYS_MAX}. a i \<noteq> NULL}))"

lemma destroyed_frame:
  "fold (destroyed c p t) ks (s, a, n) = (s', a', n') \<Longrightarrow> \<exists>kt k. s' = s\<lparr>key_table := kt, kern := k\<rparr>"
proof (induction ks arbitrary: s a n)
  case Nil
  then show ?case by (intro exI [of _ "key_table s"] exI [of _ "kern s"]) simp
next
  case (Cons i ks)
  obtain s1 a1 n1 where x: "destroyed c p t i (s, a, n) = (s1, a1, n1)" by (metis prod_cases3)
  then have "s1 = s\<lparr>key_table := key_table s1, kern := kern s1\<rparr>"
    by (auto simp: destroyed_def Let_def split: if_splits)
  then obtain kt1 k1 where s1: "s1 = s\<lparr>key_table := kt1, kern := k1\<rparr>" by blast
  have "fold (destroyed c p t) ks (s1, a1, n1) = (s', a', n')" using Cons.prems by (simp add: x)
  from Cons.IH [OF this] obtain kt k where "s' = s1\<lparr>key_table := kt, kern := k\<rparr>" by blast
  then have "s' = s\<lparr>key_table := kt, kern := k\<rparr>" by (simp add: s1)
  then show ?case by blast
qed

lemma exit_data_run:
  assumes c: "plain_calls E c" and p: "p = run s" "p \<noteq> NULL" "threads s p = Some t" and a: "spec_ok s t a"
  shows "\<exists>s' n. bindM (load threads p) (\<lambda>t. if specific_data t \<noteq> NULL then thread_cleanupspecific E else retM ()) s =
      Some (Ret () s') \<and> threads s' = (threads s)(p := Some (t\<lparr>specific_data_count := n\<rparr>)) \<and>
    kern s' = (if specific_data t = NULL then kern s else key_calls E c s a (kern s)) \<and>
    thread_link_list s' = thread_link_list s \<and> thread_dead s' = thread_dead s \<and> run s' = run s \<and>
    cur s' = cur s \<and> inited s' = inited s \<and> kept s s'"
proof (cases "specific_data t = NULL")
  case True
  with p show ?thesis
    by (intro exI [of _ s] exI [of _ "specific_data_count t"]) (simp add: retM_def fun_upd_idem)
next
  case False
  with a have "arrays s (specific_data t) = Some a"
    "specific_data_count t = int (card {i \<in> {..<PTHREAD_KEYS_MAX}. a i \<noteq> NULL})" by (simp_all add: spec_ok_def)
  note run = cleanupspecific_run [OF c p(1,2,3) False this]
  obtain s1 a1 n1 where x: "fold (destroyed c p t) [0..<PTHREAD_KEYS_MAX] (blocked E s, a, specific_data_count t) = (s1, a1, n1)"
    by (metis prod_cases3)
  note f = destroyed_fold [OF x distinct_upt]
  obtain kt k where s1: "s1 = (blocked E s)\<lparr>key_table := kt, kern := k\<rparr>"
    using destroyed_frame [OF x] by blast
  have "kern s1 = fold (\<lambda>i. c (k_destructor (key_table s i)) (a i) (cur s))
        (filter (\<lambda>i. a i \<noteq> NULL \<and> k_destructor (key_table s i) \<noteq> NULL) [0..<PTHREAD_KEYS_MAX])
        (snd (DosEnterMustComplete E (cur s) (kern s)))"
    using f by (simp add: blocked_def kst_def)
  moreover have "thread_cleanupspecific E s = Some (Ret () (freed E p t (s1, a1, n1)))"
    using run by (simp only: x)
  ultimately show ?thesis using False p
    by (intro exI [of _ "freed E p t (s1, a1, n1)"] exI [of _ n1])
      (simp add: s1 freed_def written_def unblocked_def key_calls_def kst_def blocked_def inited_def run_def kept_def)
qed


lemma spec_ok_same:
  "spec_ok s t a \<Longrightarrow> arrays s' = arrays s \<Longrightarrow> specific_data t' = specific_data t \<Longrightarrow>
     specific_data_count t' = specific_data_count t \<Longrightarrow> spec_ok s' t' a"
  by (simp add: spec_ok_def)

lemma key_calls_same: "key_table s' = key_table s \<Longrightarrow> cur s' = cur s \<Longrightarrow> key_calls E c s' a = key_calls E c s a"
  by (simp add: key_calls_def fun_eq_iff)

lemma lists_ok_same_links:
  "lists_ok s xs ds \<Longrightarrow> threads s p = Some t \<Longrightarrow> nxt t' = nxt t \<Longrightarrow>
     threads s' = (threads s)(p := Some t') \<Longrightarrow> thread_link_list s' = thread_link_list s \<Longrightarrow>
     thread_dead s' = thread_dead s \<Longrightarrow> lists_ok s' xs ds"
  by (simp add: lists_ok_def live_list_def dead_list_def)

text \<open>The kernel state when the handlers and destructors of a thread have run.\<close>

definition farewell ::
  "'k os \<Rightarrow> (addr \<Rightarrow> addr \<Rightarrow> tid \<Rightarrow> 'k \<Rightarrow> 'k) \<Rightarrow> 'k world \<Rightarrow> pthread \<Rightarrow> (addr \<times> addr \<times> addr) list \<Rightarrow>
   (nat \<Rightarrow> addr) \<Rightarrow> 'k" where
  "farewell E c s t hs a =
     (let k = called c (cur s) hs
                (snd (DosEnterMustComplete E (cur s) (snd (libc_alarm E 0 (cur s) (kern s)))))
      in if specific_data t = NULL then k else key_calls E c s a k)"

lemma exit_front:
  assumes c: "plain_calls E c" and i: "inited s" and l: "lists_ok s xs ds"
    and p: "p = run s" "p \<in> set xs" "threads s p = Some t" "cleanup_attr (th_attr t) = NULL"
    and h: "handler_list (cleanups s) (th_cleanup t) hs" and a: "spec_ok s t a"
  shows "\<exists>s' n. pthread_exit E v s =
      seqM (exit_bury E p)
     (seqM (thread_kern_sched_state E PS_DEAD ''uthread_exit.c'' 176) (stopM End_Thread)) s' \<and>
    threads s' = (threads s)(p := Some (t\<lparr>th_ret := v, th_cleanup := NULL, specific_data_count := n\<rparr>)) \<and>
    kern s' = farewell E c s t hs a \<and> lists_ok s' xs ds \<and> run s' = p \<and> cur s' = cur s \<and> inited s' \<and>
    kept s s'"
proof -
  have pn: "p \<noteq> NULL" using l p(2) live_list_alloc by (auto simp: lists_ok_def)
  obtain s1 where s1: "s1 = blocked E (s\<lparr>kern := kst (libc_alarm E 0) s\<rparr>)" by blast
  obtain s2 where s2: "s2 = s1\<lparr>threads := (threads s)(p := Some (t\<lparr>th_ret := v\<rparr>))\<rparr>" by blast
  have f2: "inited s2" "run s2 = p" "threads s2 p = Some (t\<lparr>th_ret := v\<rparr>)"
    "handler_list (cleanups s2) (th_cleanup (t\<lparr>th_ret := v\<rparr>)) hs" "cur s2 = cur s"
    using i p(1) h by (simp_all add: s2 s1) (simp add: blocked_def)
  obtain s3 where s3: "s3 = s2\<lparr>threads := (threads s2)(p := Some (t\<lparr>th_ret := v, th_cleanup := NULL\<rparr>)),
      kern := called c (cur s2) hs (kern s2),
      cleanups := (\<lambda>x. if x \<in> fst ` set hs then None else cleanups s2 x)\<rparr>" by blast
  have e3: "exit_handlers E p s2 = Some (Ret () s3)"
    unfolding s3 by (rule exit_handlers_run [OF c f2(1,2) pn f2(3,4)])
  have f3: "p = run s3" "threads s3 p = Some (t\<lparr>th_ret := v, th_cleanup := NULL\<rparr>)" "inited s3"
    "threads s3 = (threads s)(p := Some (t\<lparr>th_ret := v, th_cleanup := NULL\<rparr>))" "cur s3 = cur s"
    "kern s3 = called c (cur s) hs (snd (DosEnterMustComplete E (cur s) (snd (libc_alarm E 0 (cur s) (kern s)))))"
    using f2 by (simp_all add: s3 s2 s1 blocked_def kst_def)
  have a3: "spec_ok s3 (t\<lparr>th_ret := v, th_cleanup := NULL\<rparr>) a"
    by (rule spec_ok_same [OF a]) (simp_all add: s3 s2 s1)
  have k3: "key_calls E c s3 a = key_calls E c s a"
    by (rule key_calls_same) (simp_all add: s3 s2 s1)
  have l3: "lists_ok s3 xs ds"
    by (rule lists_ok_same_links [OF l p(3) _ f3(4)]) (simp_all add: s3 s2 s1 blocked_def)
  from exit_data_run [OF c f3(1) pn f3(2) a3] obtain s4 n where
    e4: "bindM (load threads p) (\<lambda>t. if specific_data t \<noteq> NULL then thread_cleanupspecific E else retM ()) s3 =
      Some (Ret () s4)"
    and f4: "threads s4 = (threads s3)(p := Some (t\<lparr>th_ret := v, th_cleanup := NULL, specific_data_count := n\<rparr>))"
      "kern s4 = (if specific_data t = NULL then kern s3 else key_calls E c s3 a (kern s3))"
      "thread_link_list s4 = thread_link_list s3" "thread_dead s4 = thread_dead s3" "run s4 = run s3"
      "cur s4 = cur s3" "inited s4 = inited s3" "kept s3 s4"
    by auto
  have "lists_ok s4 xs ds"
    by (rule lists_ok_same_links [OF l3 f3(2) _ f4(1)]) (simp_all add: f4)
  moreover have "kern s4 = farewell E c s t hs a"
    by (simp add: f4(2) f3(6) k3 farewell_def)
  moreover have "kept s s4"
    by (rule kept_trans [OF _ f4(8)]) (simp add: s3 s2 s1 kept_def blocked_def)
  moreover have "pthread_exit E v s = seqM (exit_bury E p)
     (seqM (thread_kern_sched_state E PS_DEAD ''uthread_exit.c'' 176) (stopM End_Thread)) s4"
  proof -
    have at: "seqM (exit_attr_cleanup E p) n s3 = n s3" for n :: "(unit, 'a world) prog"
      by (rule trans [OF seqM_run [where x = "()" and s' = s3]])
         (use f3(2) pn p(4) in \<open>simp_all add: exit_attr_cleanup_def retM_def\<close>)
    have t1: "threads s1 = threads s" by (simp add: s1)
    have "pthread_exit E v s = seqM (exit_handlers E p)
      (seqM (exit_attr_cleanup E p)
      (seqM (bindM (load threads p) (\<lambda>t. if specific_data t \<noteq> NULL then thread_cleanupspecific E else retM ()))
      (seqM (exit_bury E p)
      (seqM (thread_kern_sched_state E PS_DEAD ''uthread_exit.c'' 176) (stopM End_Thread))))) s2"
      using i pn p(1,3) t1 by (simp add: pthread_exit_def block_run s2 s1 [symmetric] del: sig_block_run sig_unblock_run)
    then show ?thesis
      by (simp only: seqM_run [where m = "exit_handlers E p", OF e3] at seqM_run [where m = "bindM (load threads p)
        (\<lambda>t. if specific_data t \<noteq> NULL then thread_cleanupspecific E else retM ())", OF e4])
  qed
  ultimately show ?thesis
    using f3 f4(1,5-7) by (intro exI [of _ s4] exI [of _ n]) simp
qed


lemma exit_run:
  assumes c: "plain_calls E c" and i: "inited s" and l: "lists_ok s xs ds"
    and p: "p = run s" "p \<in> set xs" "threads s p = Some t" "cleanup_attr (th_attr t) = NULL"
      "parent_thread t = NULL"
    and h: "handler_list (cleanups s) (th_cleanup t) hs" and a: "spec_ok s t a"
  shows "\<exists>s' t'. pthread_exit E v s = bindM (DosSleep E 1) (\<lambda>rc. stopM End_Thread) s' \<and>
    lists_ok s' (remove1 p xs) (p # ds) \<and>
    threads s' p = Some t' \<and> th_state t' = PS_DEAD \<and> th_ret t' = v \<and> th_attr t' = th_attr t \<and>
    (\<forall>q u'. q \<noteq> p \<and> threads s' q = Some u' \<longrightarrow> (\<exists>u. threads s q = Some u \<and> u' = u\<lparr>nxt := nxt u'\<rparr>)) \<and>
    kern s' = snd (DosExitMustComplete E (cur s) (snd (DosExitCritSec E (cur s)
      (snd (DosEnterCritSec E (cur s) (farewell E c s t hs a)))))) \<and> kept s s'"
proof -
  from exit_front [OF c i l p(1-4) h a, of v] obtain s1 n where
    e1: "pthread_exit E v s = seqM (exit_bury E p)
      (seqM (thread_kern_sched_state E PS_DEAD ''uthread_exit.c'' 176) (stopM End_Thread)) s1"
    and f1: "threads s1 = (threads s)(p := Some (t\<lparr>th_ret := v, th_cleanup := NULL, specific_data_count := n\<rparr>))"
      "kern s1 = farewell E c s t hs a" "lists_ok s1 xs ds" "run s1 = p" "cur s1 = cur s" "inited s1" "kept s s1" by blast
  obtain t1 where t1: "t1 = t\<lparr>th_ret := v, th_cleanup := NULL, specific_data_count := n\<rparr>" by blast
  have "threads s1 p = Some t1" "parent_thread t1 = NULL" using f1(1) p(5) by (simp_all add: t1)
  from bury_run [OF f1(3) p(2) this, of E] obtain h first s2 where
    e2: "exit_bury E p s1 = Some (Ret () s2)"
    and s2: "s2 = unblocked E (s1\<lparr>kern := kst (DosExitCritSec E) (s1\<lparr>kern := kst (DosEnterCritSec E) s1\<rparr>),
      threads := h(p := Some (t1\<lparr>nxt := thread_dead s1\<rparr>)), thread_link_list := first, thread_dead := p\<rparr>)"
    and l2: "relinked (set xs - {p}) (threads s1) h" "lists_ok s2 (remove1 p xs) (p # ds)" by blast
  let ?t = "t1\<lparr>nxt := thread_dead s1\<rparr>"
  let ?t' = "?t\<lparr>th_state := PS_DEAD, th_fname := ''uthread_exit.c'', th_lineno := 176\<rparr>"
  obtain s3 where s3: "s3 = s2\<lparr>threads := (threads s2)(p := Some ?t')\<rparr>" by blast
  have f2: "inited s2" "run s2 = p" "threads s2 p = Some ?t"
    using f1(4,6) by (simp_all add: s2)
  moreover have "p \<noteq> NULL" using i p(1) by (simp add: inited_def)
  ultimately have e3: "pthread_exit E v s = bindM (DosSleep E 1) (\<lambda>rc. stopM End_Thread) s3"
    unfolding e1 by (simp add: seqM_run [where m = "exit_bury E p", OF e2] thread_kern_sched_state_def run_simps s3)
  have l3: "lists_ok s3 (remove1 p xs) (p # ds)"
    by (rule lists_ok_same_links [OF l2(2) f2(3), of ?t']) (simp_all add: s3)
  have o3: "\<forall>q u'. q \<noteq> p \<and> threads s3 q = Some u' \<longrightarrow> (\<exists>u. threads s q = Some u \<and> u' = u\<lparr>nxt := nxt u'\<rparr>)"
    using l2(1) f1(1) unfolding relinked_def by (simp add: s3 s2) metis
  have k3: "kern s3 = snd (DosExitMustComplete E (cur s) (snd (DosExitCritSec E (cur s)
      (snd (DosEnterCritSec E (cur s) (farewell E c s t hs a))))))"
    using f1(2,5) by (simp add: s3 s2 unblocked_def kst_def)
  have "kept s s3"
    by (rule kept_trans [OF f1(7)]) (simp add: s3 s2 kept_def unblocked_def)
  then show ?thesis
    by (intro exI [where x = s3] exI [where x = ?t'] conjI e3 l3 o3 k3) (simp_all add: s3 t1)
qed


definition demo_leaving :: "demo_kern world" where
  "demo_leaving = demo_world\<lparr>threads := (threads demo_world)(10 := Some (demo_thread\<lparr>th_cleanup := 81\<rparr>)),
     cleanups := [81 \<mapsto> \<lparr>cl_next = 82, cl_routine = 5, cl_arg = 51\<rparr>,
                  82 \<mapsto> \<lparr>cl_next = NULL, cl_routine = 6, cl_arg = 61\<rparr>]\<rparr>"

lemma demo_plain: "plain_calls demo_os (\<lambda>f x u k. k\<lparr>calls := calls k @ [(f, x)]\<rparr>)"
  by (simp add: plain_calls_def demo_call_def)

lemma demo_leaving_ok:
  "inited demo_leaving" "lists_ok demo_leaving [20, 10] []" "run demo_leaving = 10"
  "threads demo_leaving 10 = Some (demo_thread\<lparr>th_cleanup := 81\<rparr>)"
  "handler_list (cleanups demo_leaving) 81 [(81, 5, 51), (82, 6, 61)]"
  by (simp_all add: demo_leaving_def lists_ok_def live_list_def dead_list_def nlink_def)


text \<open>Joining gives the value the thread left with.  After \<^verbatim>\<open>pthread_exit (v)\<close> of a thread that is
  not detached, \<^verbatim>\<open>pthread_join\<close> by any registered thread returns 0 at once and stores \<open>v\<close>.\<close>

lemma exit_then_join:
  assumes "plain_calls E c" and "inited s" and "lists_ok s xs ds"
    and "p = run s" "p \<in> set xs" "threads s p = Some t" "cleanup_attr (th_attr t) = NULL"
      "parent_thread t = NULL"
    and "handler_list (cleanups s) (th_cleanup t) hs" and "spec_ok s t a"
    and nd: "\<not> detached t" and u: "inited (s\<lparr>cur := u\<rparr>)" and r: "ret \<noteq> NULL" "ptrs s ret = Some w"
  shows "\<exists>s1. pthread_exit E v s = bindM (DosSleep E 1) (\<lambda>rc. stopM End_Thread) s1 \<and>
    lists_ok s1 (remove1 p xs) (p # ds) \<and>
    (\<exists>s2. pthread_join E p ret (s1\<lparr>cur := u\<rparr>) = Some (Ret 0 s2) \<and> ptrs s2 = (ptrs s)(ret := Some v))"
proof -
  from exit_run [OF assms(1-10), of v] obtain s1 t1 where
    e: "pthread_exit E v s = bindM (DosSleep E 1) (\<lambda>rc. stopM End_Thread) s1"
    and l: "lists_ok s1 (remove1 p xs) (p # ds)"
    and t: "threads s1 p = Some t1" "th_state t1 = PS_DEAD" "th_ret t1 = v" "th_attr t1 = th_attr t"
    and k: "kept s s1" by blast
  have "inited (s1\<lparr>cur := u\<rparr>)" "ptrs (s1\<lparr>cur := u\<rparr>) ret = Some w" "threads (s1\<lparr>cur := u\<rparr>) p = Some t1"
    using k u r t(1) by (simp_all add: kept_def inited_def run_def)
  moreover have "live_list (s1\<lparr>cur := u\<rparr>) (remove1 p xs)" "dead_list (s1\<lparr>cur := u\<rparr>) (p # ds)"
    using l by (simp_all add: lists_ok_def live_list_def dead_list_def)
  moreover have "\<not> detached t1" using nd t(4) by (simp add: detached_def)
  ultimately have "pthread_join E p ret (s1\<lparr>cur := u\<rparr>) = Some (Ret 0 (unblocked E
      ((blocked E (s1\<lparr>cur := u\<rparr>))\<lparr>ptrs := (ptrs (s1\<lparr>cur := u\<rparr>))(ret := Some (th_ret t1))\<rparr>)))"
    using join_dead [of "s1\<lparr>cur := u\<rparr>" "remove1 p xs" "p # ds" p t1 ret w E] t(2) r(1) by simp
  with e k l t(3) show ?thesis by (auto simp: kept_def unblocked_def)
qed

lemma exit_then_join_witness:
  "\<exists>s1. pthread_exit demo_os 7 demo_leaving = bindM (DosSleep demo_os 1) (\<lambda>rc. stopM End_Thread) s1 \<and>
    (\<exists>s2. pthread_join demo_os 10 33 (s1\<lparr>cur := 2\<rparr>) = Some (Ret 0 s2) \<and> ptrs s2 33 = Some 7)"
proof -
  have "inited (demo_leaving\<lparr>cur := 2\<rparr>)" "ptrs demo_leaving 33 = Some 0" "ptrs demo_leaving = ptrs demo_world"
    by (simp_all add: demo_leaving_def inited_def run_def)
  then show ?thesis
    using exit_then_join [OF demo_plain demo_leaving_ok(1,2) demo_leaving_ok(3) [symmetric] _ demo_leaving_ok(4), of
        "[(81, 5, 51), (82, 6, 61)]" "\<lambda>_. NULL" 2 33 0 7] demo_leaving_ok(5)
    by (fastforce simp: pthread_attr_default_def spec_ok_def detached_def)
qed

end
