(* ===== verification/Create.thy ===== *)
theory Create
  imports Exit
begin

text \<open>
  Creating threads: \<^verbatim>\<open>uthread_create.c\<close>, and \<^verbatim>\<open>pthread_once\<close> of \<^verbatim>\<open>uthread_once.c\<close>.

  \<^verbatim>\<open>_thread_create\<close> passes the address of its local variable \<^verbatim>\<open>create_info\<close> to the new OS
  thread, which runs \<^verbatim>\<open>_thread_create2\<close>.  The address is the parameter \<open>ci\<close>: the variable is
  allocated when the call begins and gone when it returns.  \<open>create_first\<close> is
  \<^verbatim>\<open>_thread_create2\<close> up to the post of the event the creator waits for, \<open>create_rest\<close> what
  follows, which other threads can overtake.
\<close>

section \<open>The new thread\<close>

text \<open>\<^verbatim>\<open>pthread_priority\<close> is a signed \<^verbatim>\<open>char\<close>.\<close>

definition to_char :: "int \<Rightarrow> int" where
  "to_char n = (n + 128) mod 256 - 128"

abbreviation upd_creation :: "addr \<Rightarrow> (create_info \<Rightarrow> create_info) \<Rightarrow> (unit, 'k world) prog" where
  "upd_creation p f \<equiv> alter creations creations_update p f"

definition load_attr :: "attr_ref \<Rightarrow> (pthread_attr, 'k world) prog" where
  "load_attr r = (case r of Default_Attr \<Rightarrow> retM pthread_attr_default | Attr_At a \<Rightarrow> load attrs a)"

definition create_first :: "'k os \<Rightarrow> addr \<Rightarrow> (addr, 'k world) prog" where
  "create_first E ci =
     bindM (kcall (malloc E)) (\<lambda>thread.
     bindM (getM (junk_thread E)) (\<lambda>junk.
     seqM (whenM (thread \<noteq> NULL) (fresh threads threads_update thread junk))
    (seqM (set_thread_run thread)
    (seqM (upd_creation ci (\<lambda>i. i\<lparr>ci_newthread := thread\<rparr>))
    (bindM (load creations ci) (\<lambda>i.
     bindM (getM cur) (\<lambda>tid.
     seqM (upd_thread thread (\<lambda>t. t\<lparr>start_routine := ci_start_routine i, th_arg := ci_start_arg i,
             parent_thread := ci_parent i, th_self := tid, threadid := tid, pthread_priority := 32\<rparr>))
    (seqM (pthread_init E)
    (bindM (load creations ci) (\<lambda>i.
     seqM (kcall (DosPostEventSem E (ci_ack i))) (retM thread)))))))))))"

definition create_attr :: "addr \<Rightarrow> addr \<Rightarrow> (unit, 'k world) prog" where
  "create_attr ci thread =
     bindM (load creations ci) (\<lambda>i.
     bindM (load_attr (ci_attr i)) (\<lambda>a.
     seqM (upd_thread thread (\<lambda>t. t\<lparr>th_attr := a\<rparr>))
    (bindM (load threads thread) (\<lambda>t.
     bindM (load creations ci) (\<lambda>i.
     bindM (load threads (ci_creator i)) (\<lambda>c.
     if at_flags (th_attr t) AND PTHREAD_INHERIT_SCHED \<noteq> 0
     then upd_thread thread (\<lambda>t. t\<lparr>pthread_priority := pthread_priority c,
            th_attr := (th_attr t)\<lparr>at_prio := pthread_priority c,
                                   schedparam_policy := schedparam_policy (th_attr c)\<rparr>\<rparr>)
     else upd_thread thread (\<lambda>t. t\<lparr>pthread_priority := to_char (at_prio (th_attr c))\<rparr>)))))))"

definition create_enlist :: "'k os \<Rightarrow> addr \<Rightarrow> (unit, 'k world) prog" where
  "create_enlist E thread =
     seqM (upd_thread thread (\<lambda>t. t\<lparr>specific_data := NULL, th_cleanup := NULL, th_queue := NULL,
             qnxt := NULL, th_flags := 0\<rparr>))
    (seqM (thread_kern_enter_crit_sec E)
    (bindM (getM thread_link_list) (\<lambda>first.
     seqM (upd_thread thread (\<lambda>t. t\<lparr>nxt := first\<rparr>))
    (seqM (modM (\<lambda>s. s\<lparr>thread_link_list := thread\<rparr>))
     (thread_kern_leave_crit_sec E)))))"

text \<open>The start routine, or the signal handler when a parent was given; \<open>argp\<close> is the address of
  the local variable \<^verbatim>\<open>arg\<close>.\<close>

definition create_run :: "'k os \<Rightarrow> addr \<Rightarrow> addr \<Rightarrow> (unit, 'k world) prog" where
  "create_run E argp thread =
     bindM (load threads thread) (\<lambda>t.
     if parent_thread t = NULL
     then bindM (call_fun E (start_routine t) (th_arg t)) (\<lambda>status.
          seqM (pthread_exit E status)
               (thread_exit ''uthread_create.c'' 127 ''Thread has resumed after exit''))
     else
       seqM (PTHREAD_NEW_STATE (parent_thread t) PS_SIGTHREAD ''uthread_create.c'' 140)
      (bindM (load threads (parent_thread t)) (\<lambda>u.
       bindM (DosSuspendThread E (threadid u)) (\<lambda>rc.
       bindM thread_run (\<lambda>self.
       bindM (load threads self) (\<lambda>r.
       seqM (call_handler E (start_routine r) (int (th_arg r)))
      (seqM (pthread_exit E argp)
            (thread_exit ''uthread_create.c'' 162 ''Signal handler thread has resumed after exit'')))))))) "

definition create_rest :: "'k os \<Rightarrow> addr \<Rightarrow> addr \<Rightarrow> addr \<Rightarrow> (unit, 'k world) prog" where
  "create_rest E ci argp thread =
     seqM (create_attr ci thread)
    (seqM (create_enlist E thread)
    (bindM (load threads thread) (\<lambda>t.
     bindM (pthread_setprio E thread (pthread_priority t)) (\<lambda>r.
     bindM (load threads thread) (\<lambda>t.
     seqM (if at_suspend (th_attr t) = PTHREAD_CREATE_SUSPENDED
           then seqM (PTHREAD_NEW_STATE thread PS_SUSPENDED ''uthread_create.c'' 112)
                     (bindM (DosSuspendThread E (threadid t)) (\<lambda>rc. retM ()))
           else PTHREAD_NEW_STATE thread PS_RUNNING ''uthread_create.c'' 115)
          (create_run E argp thread))))))"

definition thread_create2 :: "'k os \<Rightarrow> addr \<Rightarrow> addr \<Rightarrow> (unit, 'k world) prog" where
  "thread_create2 E ci argp = bindM (create_first E ci) (\<lambda>thread. create_rest E ci argp thread)"

section \<open>The creating thread\<close>

definition thread_create ::
  "'k os \<Rightarrow> addr \<Rightarrow> addr \<Rightarrow> addr \<Rightarrow> addr \<Rightarrow> addr \<Rightarrow> addr \<Rightarrow> (int, 'k world) prog" where
  "thread_create E ci thread attr routine arg parent =
     seqM (PTHREAD_INIT E)
    (bindM thread_run (\<lambda>self.
     bindM (if attr = NULL then retM Default_Attr
            else bindM (load ptrs attr) (\<lambda>a. retM (if a = NULL then Default_Attr else Attr_At a))) (\<lambda>ref.
     seqM (fresh creations creations_update ci
            \<lparr>ci_newthread = NULL, ci_parent = parent, ci_creator = self, ci_attr = ref,
             ci_start_routine = routine, ci_start_arg = arg, ci_ack = 0\<rparr>)
    (bindM (load_attr ref) (\<lambda>a.
     let stacksize = if stacksize_attr a = 0 then PTHREAD_STACK_DEFAULT else stacksize_attr a in
     bindM (if thread = NULL
            then bindM (kcall (beginthread E Thread_Create2 stacksize ci)) (\<lambda>tid. retM 0)
            else
              bindM (kcall (DosCreateEventSem E 0)) (\<lambda>(rc, ev).
              bindM (if rc = 0
                     then seqM (upd_creation ci (\<lambda>i. i\<lparr>ci_ack := ev\<rparr>))
                         (seqM (kcall (beginthread E Thread_Create2 stacksize ci))
                         (bindM (load creations ci) (\<lambda>i. DosWaitEventSem E (ci_ack i) 1000)))
                     else retM rc) (\<lambda>rc.
              if rc = 0
              then bindM (load creations ci) (\<lambda>i. seqM (store_ptr thread (ci_newthread i)) (retM 0))
              else seqM (store_ptr thread NULL) (seqM (set_errno ENOMEM) (retM (-1)))))) (\<lambda>ret.
     bindM (load creations ci) (\<lambda>i.
     seqM (if ci_ack i \<noteq> 0 then kcall (DosCloseEventSem E (ci_ack i)) else retM 0)
    (seqM (modM (\<lambda>s. s\<lparr>creations := (creations s)(ci := None)\<rparr>))
     (retM ret)))))))))"

definition pthread_create ::
  "'k os \<Rightarrow> addr \<Rightarrow> addr \<Rightarrow> addr \<Rightarrow> addr \<Rightarrow> addr \<Rightarrow> (int, 'k world) prog" where
  "pthread_create E ci thread attr routine arg =
     thread_create E ci thread attr routine arg NULL"

section \<open>Initialising the signal data of a thread\<close>

definition fresh_signals :: "thread_data \<Rightarrow> nat \<Rightarrow> thread_data" where
  "fresh_signals d n = d\<lparr>signals := (\<lambda>i. if i < n then default_sigact else signals d i)\<rparr>"

lemma fresh_signals_Suc:
  "(fresh_signals d n)\<lparr>signals := (signals (fresh_signals d n))(n := default_sigact)\<rparr> = fresh_signals d (Suc n)"
  by (auto simp: fresh_signals_def fun_eq_iff less_Suc_eq)

lemma forM_snoc: "forM (xs @ [x]) f s = seqM (forM xs f) (f x) s"
proof (induction xs arbitrary: s)
  case Nil
  have "forM [x] f s = seqM (f x) (retM ()) s" by simp
  then show ?case by (simp add: seqM_def bindM_def retM_def split: option.splits res.splits)
next
  case (Cons y ys)
  then show ?case by (simp add: seqM_def bindM_def split: option.splits res.splits)
qed

text \<open>The loop over the signals, up to signal \<open>n\<close>.\<close>

lemma init_signals_run:
  assumes "p \<noteq> NULL" "threads s p = Some t"
  shows "\<exists>k. forM [0..<n] (\<lambda>n.
       seqM (upd_thread p (\<lambda>t. t\<lparr>tp := (tp t)\<lparr>signals := (signals (tp t))(n := default_sigact)\<rparr>\<rparr>))
        (whenM (sys_sig_valid (int n)) (kcall (libc_signal E (int n) Emx_Sighandler)))) s =
    Some (Ret () (s\<lparr>kern := k, threads := (threads s)(p := Some (t\<lparr>tp := fresh_signals (tp t) n\<rparr>))\<rparr>))"
proof (induction n)
  case 0
  have "t\<lparr>tp := fresh_signals (tp t) 0\<rparr> = t" by (simp add: fresh_signals_def)
  with assms show ?case by (intro exI [of _ "kern s"]) (simp add: retM_def fun_upd_idem)
next
  case (Suc n)
  let ?body = "\<lambda>n. seqM (upd_thread p (\<lambda>t. t\<lparr>tp := (tp t)\<lparr>signals := (signals (tp t))(n := default_sigact)\<rparr>\<rparr>))
        (whenM (sys_sig_valid (int n)) (kcall (libc_signal E (int n) Emx_Sighandler)))"
  from Suc obtain k where IH: "forM [0..<n] ?body s =
    Some (Ret () (s\<lparr>kern := k, threads := (threads s)(p := Some (t\<lparr>tp := fresh_signals (tp t) n\<rparr>))\<rparr>))" by blast
  let ?s = "s\<lparr>kern := k, threads := (threads s)(p := Some (t\<lparr>tp := fresh_signals (tp t) n\<rparr>))\<rparr>"
  obtain s' where s': "s' = s\<lparr>kern := k, threads := (threads s)(p := Some (t\<lparr>tp := fresh_signals (tp t) (Suc n)\<rparr>))\<rparr>" by blast
  have "?body n ?s = whenM (sys_sig_valid (int n)) (kcall (libc_signal E (int n) Emx_Sighandler)) s'"
    using assms by (simp add: s' fresh_signals_Suc)
  also have "\<exists>k. \<dots> = Some (Ret () (s'\<lparr>kern := k\<rparr>))"
    by (cases "sys_sig_valid (int n)") (auto simp: kcall_end retM_def kern_upd_id)
  finally obtain k' where "?body n ?s = Some (Ret () (s'\<lparr>kern := k'\<rparr>))" by (rule exE)
  then show ?case
    by (intro exI [of _ k']) (simp only: upt_Suc_append [OF le0] forM_snoc seqM_run [where m = "forM [0..<n] ?body", OF IH], simp add: s' fun_upd_def)
qed

text \<open>The first call of \<^verbatim>\<open>pthread_init\<close> in the process looks for the socket library.\<close>

definition so_loaded :: "'k world \<Rightarrow> 'k world \<Rightarrow> bool" where
  "so_loaded s s' \<longleftrightarrow>
     s' = s\<lparr>kern := kern s', doloaddll := False, so_cancel := so_cancel s', thread_critical := thread_critical s'\<rparr>"

lemma so_loaded_ex:
  assumes "so_loaded s s'"
  obtains k c h where "s' = s\<lparr>kern := k, doloaddll := False, so_cancel := c, thread_critical := h\<rparr>"
  using assms unfolding so_loaded_def by blast

lemma so_loaded_sel:
  assumes "so_loaded s s'"
  shows "threads s' = threads s" "thread_link_list s' = thread_link_list s" "thread_dead s' = thread_dead s"
    "threadstore s' = threadstore s" "thread_initial s' = thread_initial s" "cur s' = cur s" "run s' = run s"
    "inited s' = inited s" "creations s' = creations s" "attrs s' = attrs s" "ptrs s' = ptrs s" "cleanups s' = cleanups s"
  by (rule so_loaded_ex [OF assms], simp)+

lemma load_so_dll_run: "\<exists>s'. load_so_dll E s = Some (Ret () s') \<and> so_loaded s s'"
proof (cases "doloaddll s")
  case False
  then have "so_loaded s s" by (cases s) (simp add: so_loaded_def)
  with False show ?thesis by (intro exI [of _ s]) (simp add: load_so_dll_def retM_def)
next
  case True
  let ?s = "s\<lparr>doloaddll := False, kern := kst (DosLoadModule E 128 ''SO32DLL'') s\<rparr>"
  obtain rc err dll where r: "kres (DosLoadModule E 128 ''SO32DLL'') s = (rc, err, dll)" by (metis prod_cases3)
  let ?m = "whenM (rc = 0 \<and> dll \<noteq> NULL) (bindM (kcall (DosQueryProcAddr E dll ''SO_CANCEL'')) (\<lambda>(rc, so).
      whenM (rc = 0) (modM (\<lambda>s. s\<lparr>so_cancel := so\<rparr>))))"
  have "\<exists>k c. ?m ?s = Some (Ret () (?s\<lparr>kern := k, so_cancel := c\<rparr>))"
  proof (cases "rc = 0 \<and> dll \<noteq> NULL")
    case True
    obtain rc' so where q: "kres (DosQueryProcAddr E dll ''SO_CANCEL'') ?s = (rc', so)" by fastforce
    with True show ?thesis
      by (intro exI [of _ "kst (DosQueryProcAddr E dll ''SO_CANCEL'') ?s"] exI [of _ "if rc' = 0 then so else so_cancel s"])
         (simp add: modM_def retM_def)
  next
    case False
    then show ?thesis
      by (intro exI [of _ "kern ?s"] exI [of _ "so_cancel s"]) (auto simp: retM_def)
  qed
  then obtain k c where q: "?m ?s = Some (Ret () (?s\<lparr>kern := k, so_cancel := c\<rparr>))" by blast
  obtain rc2 h where c: "kres (DosCreateMutexSem E) (?s\<lparr>kern := k, so_cancel := c\<rparr>) = (rc2, h)" by fastforce
  let ?n = "bindM (kcall (DosCreateMutexSem E)) (\<lambda>(rc, h). whenM (rc = 0) (modM (\<lambda>s. s\<lparr>thread_critical := h\<rparr>)))"
  have "load_so_dll E s = seqM ?m ?n ?s"
    using True r by (simp add: load_so_dll_def)
  also have "\<dots> = ?n (?s\<lparr>kern := k, so_cancel := c\<rparr>)"
    by (rule seqM_run [where m = ?m, OF q])
  also have "\<dots> = Some (Ret () (s\<lparr>kern := kst (DosCreateMutexSem E) (?s\<lparr>kern := k, so_cancel := c\<rparr>),
      doloaddll := False, so_cancel := c, thread_critical := if rc2 = 0 then h else thread_critical s\<rparr>))"
    using c by (simp add: modM_def retM_def)
  finally show ?thesis by (simp add: so_loaded_def)
qed

text \<open>\<open>self\<close> is the call of \<^verbatim>\<open>pthread_self\<close> in \<^verbatim>\<open>pthread_init\<close>.\<close>

lemma init_with_run:
  assumes "self s0 = Some (Ret p s)" "p \<noteq> NULL" "threads s p = Some t"
  shows "\<exists>s'. pthread_init_with E self s0 = Some (Ret () s') \<and> so_loaded (s\<lparr>threads := (threads s)(p := Some
    (t\<lparr>pend := 0, tp := fresh_signals ((tp t)\<lparr>sig_blocked := 0, sig_pending := 0\<rparr>) NSIG\<rparr>))\<rparr>) s'"
proof -
  from load_so_dll_run obtain s1 where l: "load_so_dll E s = Some (Ret () s1)" and s1: "so_loaded s s1" by blast
  let ?t = "t\<lparr>pend := 0, tp := (tp t)\<lparr>sig_blocked := 0, sig_pending := 0\<rparr>\<rparr>"
  let ?s = "s1\<lparr>threads := (threads s1)(p := Some ?t)\<rparr>"
  have t: "threads s1 = threads s" using so_loaded_sel [OF s1] by simp
  from init_signals_run [OF assms(2), of ?s ?t NSIG E] obtain k where
    k: "forM [0..<NSIG] (\<lambda>n.
       seqM (upd_thread p (\<lambda>t. t\<lparr>tp := (tp t)\<lparr>signals := (signals (tp t))(n := default_sigact)\<rparr>\<rparr>))
        (whenM (sys_sig_valid (int n)) (kcall (libc_signal E (int n) Emx_Sighandler)))) ?s =
    Some (Ret () (?s\<lparr>kern := k, threads := (threads ?s)(p := Some (?t\<lparr>tp := fresh_signals (tp ?t) NSIG\<rparr>))\<rparr>))" by auto
  have "pthread_init_with E self s0 = Some (Ret () (s1\<lparr>kern := k, threads := (threads s)(p := Some
    (t\<lparr>pend := 0, tp := fresh_signals ((tp t)\<lparr>sig_blocked := 0, sig_pending := 0\<rparr>) NSIG\<rparr>))\<rparr>))"
    using assms(2,3) k t by (simp add: pthread_init_with_def bindM_run [where m = self, OF assms(1)]
        seqM_run [where m = "load_so_dll E", OF l])
  then show ?thesis using s1 by (elim so_loaded_ex) (simp add: so_loaded_def)
qed

lemma pthread_init_run:
  assumes "inited s" "run s = p" "threads s p = Some t"
  shows "\<exists>s'. pthread_init E s = Some (Ret () s') \<and> so_loaded (s\<lparr>threads := (threads s)(p := Some
    (t\<lparr>pend := 0, tp := fresh_signals ((tp t)\<lparr>sig_blocked := 0, sig_pending := 0\<rparr>) NSIG\<rparr>))\<rparr>) s'"
  unfolding pthread_init_def
  by (rule init_with_run [where self = "pthread_self E"]) (use assms in \<open>auto simp: inited_def\<close>)

section \<open>A new thread registers itself\<close>

definition ref_attr :: "'k world \<Rightarrow> attr_ref \<Rightarrow> pthread_attr option" where
  "ref_attr s r = (case r of Default_Attr \<Rightarrow> Some pthread_attr_default
                  | Attr_At a \<Rightarrow> if a = NULL then None else attrs s a)"

lemma load_attr_run [run_simps]: "ref_attr s r = Some a \<Longrightarrow> bindM (load_attr r) f s = f a s"
  by (auto simp: ref_attr_def load_attr_def split: attr_ref.splits if_splits)

lemma ref_attr_same: "attrs s' = attrs s \<Longrightarrow> ref_attr s' = ref_attr s"
  by (simp add: ref_attr_def fun_eq_iff split: attr_ref.split)

lemma to_char_small: "0 \<le> n \<Longrightarrow> n \<le> 126 \<Longrightarrow> to_char n = n"
  by (simp add: to_char_def)

text \<open>What else a thread finds as it was: the pointers of the application, the list of dead threads and the initial thread.\<close>

definition same_rest :: "'k world \<Rightarrow> 'k world \<Rightarrow> bool" where
  "same_rest s s' \<longleftrightarrow> ptrs s' = ptrs s \<and> thread_dead s' = thread_dead s \<and> thread_initial s' = thread_initial s \<and>
     cleanups s' = cleanups s"

lemma create_first_run:
  assumes u: "cur s \<noteq> 1" and m: "kres (malloc E) s = p" "p \<noteq> NULL"
    and i: "ci \<noteq> NULL" "creations s ci = Some info"
  shows "\<exists>s' t. create_first E ci s = Some (Ret p s') \<and> run s' = p \<and> cur s' = cur s \<and> inited s' \<and>
    threads s' = (threads s)(p := Some t) \<and> start_routine t = ci_start_routine info \<and>
    th_arg t = ci_start_arg info \<and> parent_thread t = ci_parent info \<and> threadid t = cur s \<and>
    creations s' = (creations s)(ci := Some (info\<lparr>ci_newthread := p\<rparr>)) \<and>
    thread_link_list s' = thread_link_list s \<and> attrs s' = attrs s \<and>
    threadstore s' = (threadstore s)(cur s := p) \<and> same_rest s s'"
proof -
  let ?j = "junk_thread E (s\<lparr>kern := kst (malloc E) s\<rparr>)"
  obtain t1 where t1: "t1 = ?j\<lparr>start_routine := ci_start_routine info, th_arg := ci_start_arg info,
      parent_thread := ci_parent info, th_self := cur s, threadid := cur s, pthread_priority := 32\<rparr>" by blast
  obtain s1 where s1: "s1 = s\<lparr>kern := kst (malloc E) s, threadstore := (threadstore s)(cur s := p),
      creations := (creations s)(ci := Some (info\<lparr>ci_newthread := p\<rparr>)), threads := (threads s)(p := Some t1)\<rparr>" by blast
  have f1: "inited s1" "run s1 = p" "threads s1 p = Some t1"
    using u m(2) by (simp_all add: s1 inited_def run_def)
  let ?t = "t1\<lparr>pend := 0, tp := fresh_signals ((tp t1)\<lparr>sig_blocked := 0, sig_pending := 0\<rparr>) NSIG\<rparr>"
  from pthread_init_run [OF f1, of E] obtain s2 where
    e: "pthread_init E s1 = Some (Ret () s2)" and s2: "so_loaded (s1\<lparr>threads := (threads s1)(p := Some ?t)\<rparr>) s2" by blast
  note f2 = so_loaded_sel [OF s2]
  have c2: "creations s2 ci = Some (info\<lparr>ci_newthread := p\<rparr>)" by (simp add: f2 s1)
  have "create_first E ci s = seqM (pthread_init E) (bindM (load creations ci) (\<lambda>i.
     seqM (kcall (DosPostEventSem E (ci_ack i))) (retM p))) s1"
    using m i by (simp add: create_first_def run_simps set_thread_run_def s1 t1)
  also have "\<dots> = Some (Ret p (s2\<lparr>kern := kst (DosPostEventSem E (ci_ack info)) s2\<rparr>))"
    using i(1) c2 by (simp add: seqM_run [where m = "pthread_init E", OF e] retM_def)
  finally have "create_first E ci s = Some (Ret p (s2\<lparr>kern := kst (DosPostEventSem E (ci_ack info)) s2\<rparr>))" .
  moreover have "inited s2" "run s2 = p" using f1 by (simp_all add: f2)
  ultimately show ?thesis
    by (intro exI [of _ "s2\<lparr>kern := kst (DosPostEventSem E (ci_ack info)) s2\<rparr>"] exI [of _ ?t])
       (simp add: f2 same_rest_def, simp add: s1 t1)
qed


text \<open>The attributes, when the scheduling is not inherited: the priority is the creator's.\<close>

lemma create_attr_run:
  assumes i: "ci \<noteq> NULL" "creations s ci = Some info" and a: "ref_attr s (ci_attr info) = Some a"
    and p: "p \<noteq> NULL" "threads s p = Some t" and c: "ci_creator info \<noteq> NULL" "ci_creator info \<noteq> p"
      "threads s (ci_creator info) = Some ct"
    and f: "at_flags a AND PTHREAD_INHERIT_SCHED = 0"
  shows "seqM (create_attr ci p) n s =
    n (s\<lparr>threads := (threads s)(p := Some (t\<lparr>th_attr := a, pthread_priority := to_char (at_prio (th_attr ct))\<rparr>))\<rparr>)"
proof -
  have "ref_attr (s\<lparr>threads := h\<rparr>) r = ref_attr s r" for h r by (simp add: ref_attr_def split: attr_ref.split)
  with assms show ?thesis by (simp add: create_attr_def run_simps)
qed

lemma create_enlist_run:
  assumes "p \<noteq> NULL" "threads s p = Some t"
  shows "seqM (create_enlist E p) n s = n (s\<lparr>
    threads := (threads s)(p := Some (t\<lparr>specific_data := NULL, th_cleanup := NULL, th_queue := NULL,
             qnxt := NULL, th_flags := 0, nxt := thread_link_list s\<rparr>)),
    thread_link_list := p, kern := kst (DosExitCritSec E) (s\<lparr>kern := kst (DosEnterCritSec E) s\<rparr>)\<rparr>)"
  using assms by (simp add: create_enlist_def run_simps kst_def)

lemma live_list_new:
  assumes l: "live_list s xs" and p: "p \<noteq> NULL" "p \<notin> set xs" and t: "nxt t = thread_link_list s"
    and s': "thread_link_list s' = p" "\<forall>q. q \<noteq> p \<longrightarrow> threads s' q = threads s q" "threads s' p = Some t"
  shows "live_list s' (p # xs)"
proof -
  have "chain (nlink (threads s)) q xs = chain (nlink (threads s')) q xs" for q
    by (rule chain_cong) (use s'(2) p(2) in \<open>auto simp: nlink_def\<close>)
  with l p t s' show ?thesis by (simp add: live_list_def nlink_def)
qed

lemma create_rest_run:
  assumes i: "ci \<noteq> NULL" "creations s ci = Some info" and a: "ref_attr s (ci_attr info) = Some a"
    and p: "p \<noteq> NULL" "threads s p = Some t" "run s = p" "inited s" "threadid t \<noteq> 0"
    and c: "ci_creator info \<noteq> NULL" "ci_creator info \<noteq> p" "threads s (ci_creator info) = Some ct"
      "0 \<le> at_prio (th_attr ct)" "at_prio (th_attr ct) \<le> 126"
    and f: "at_flags a AND PTHREAD_INHERIT_SCHED = 0" "at_suspend a \<noteq> PTHREAD_CREATE_SUSPENDED"
    and l: "live_list s xs" "p \<notin> set xs"
  shows "\<exists>s' t'. create_rest E ci argp p s = create_run E argp p s' \<and> threads s' = (threads s)(p := Some t') \<and>
    th_attr t' = a \<and> pthread_priority t' = at_prio (th_attr ct) \<and> th_state t' = PS_RUNNING \<and>
    specific_data t' = NULL \<and> th_cleanup t' = NULL \<and> parent_thread t' = parent_thread t \<and>
    start_routine t' = start_routine t \<and> th_arg t' = th_arg t \<and> threadid t' = threadid t \<and>
    live_list s' (p # xs) \<and> run s' = p \<and> cur s' = cur s \<and> creations s' = creations s \<and> inited s' \<and>
    threadstore s' = threadstore s \<and> same_rest s s'"
proof -
  let ?prio = "at_prio (th_attr ct)"
  obtain t1 where t1: "t1 = t\<lparr>th_attr := a, pthread_priority := ?prio\<rparr>" by blast
  obtain t2 where t2: "t2 = t1\<lparr>specific_data := NULL, th_cleanup := NULL, th_queue := NULL,
             qnxt := NULL, th_flags := 0, nxt := thread_link_list s\<rparr>" by blast
  obtain s1 where s1: "s1 = s\<lparr>threads := (threads s)(p := Some t1)\<rparr>" by blast
  obtain s2 where s2: "s2 = s1\<lparr>threads := (threads s1)(p := Some t2), thread_link_list := p,
      kern := kst (DosExitCritSec E) (s1\<lparr>kern := kst (DosEnterCritSec E) s1\<rparr>)\<rparr>" by blast
  have f2: "inited s2" "threads s2 p = Some t2" "run s2 = p"
    using p by (simp_all add: s2 s1)
  have l2: "live_list s2 (p # xs)"
    by (rule live_list_new [OF l(1) p(1) l(2), of t2]) (simp_all add: s2 s1 t2)
  obtain s3 where s3: "s3 = unblocked E ((blocked E s2)\<lparr>threads := (threads s2)(p := Some (t2\<lparr>pthread_priority := ?prio\<rparr>))\<rparr>)"
    by blast
  have same: "t2\<lparr>pthread_priority := ?prio\<rparr> = t2" by (simp add: t2 t1)
  have e3: "pthread_setprio E p ?prio s2 = Some (Ret 0 s3)"
    unfolding s3 by (rule setprio_run [OF f2(1) l2 c(4,5) _ f2(2)]) (use p in \<open>simp_all add: t2 t1\<close>)
  have f3: "threads s3 p = Some t2" "inited s3" "run s3 = p" "cur s3 = cur s"
    "creations s3 = creations s" "threadstore s3 = threadstore s" "same_rest s s3"
    using f2 by (simp_all add: s3 same) (simp_all add: s2 s1 unblocked_def blocked_def same_rest_def)
  have l3: "live_list s3 (p # xs)"
    using l2 f2(2) by (simp add: live_list_def s3 same unblocked_def blocked_def fun_upd_idem)
  obtain t' where t': "t' = t2\<lparr>th_state := PS_RUNNING, th_fname := ''uthread_create.c'', th_lineno := 115\<rparr>" by blast
  obtain s4 where s4: "s4 = s3\<lparr>threads := (threads s3)(p := Some t')\<rparr>" by blast
  have e1: "seqM (create_attr ci p) n s = n s1" for n :: "(unit, 'a world) prog"
    unfolding create_attr_run [OF i a p(1,2) c(1-3) f(1)] by (simp add: s1 t1 to_char_small [OF c(4,5)])
  have "threads s1 p = Some t1" by (simp add: s1)
  then have e2: "seqM (create_enlist E p) n s1 = n s2" for n :: "(unit, 'a world) prog"
    unfolding create_enlist_run [OF p(1) \<open>threads s1 p = Some t1\<close>] by (simp add: s2 t2 s1)
  have "create_rest E ci argp p s = create_run E argp p s4"
    using p(1) f2(2) f3(1) f(2)
    by (simp add: create_rest_def e1 e2 t2 t1 s4 t' bindM_run [where m = "pthread_setprio E p ?prio", OF e3])
  moreover have "threads s3 = (threads s)(p := Some t2)" by (simp add: s3 same s2 s1)
  moreover have "live_list s4 (p # xs)" using l3 f3(1) by (simp add: s4 t')
  ultimately show ?thesis
    using f3 by (intro exI [of _ s4] exI [of _ t']) (simp add: s4 t' t2 t1 same_rest_def)
qed


text \<open>The whole of \<^verbatim>\<open>_thread_create2\<close> up to the start routine.\<close>

lemma create2_run:
  assumes u: "cur s \<noteq> 1" "cur s \<noteq> 0"
    and m: "kres (malloc E) s = p" "p \<noteq> NULL" "threads s p = None"
    and i: "ci \<noteq> NULL" "creations s ci = Some info" "ci_parent info = NULL"
    and a: "ref_attr s (ci_attr info) = Some a"
    and c: "ci_creator info \<noteq> NULL" "threads s (ci_creator info) = Some ct"
      "0 \<le> at_prio (th_attr ct)" "at_prio (th_attr ct) \<le> 126"
    and f: "at_flags a AND PTHREAD_INHERIT_SCHED = 0" "at_suspend a \<noteq> PTHREAD_CREATE_SUSPENDED"
    and l: "live_list s xs"
  shows "\<exists>s' t. thread_create2 E ci argp s =
      bindM (call_fun E (ci_start_routine info) (ci_start_arg info)) (\<lambda>v.
        seqM (pthread_exit E v) (thread_exit ''uthread_create.c'' 127 ''Thread has resumed after exit'')) s' \<and>
    threads s' = (threads s)(p := Some t) \<and> live_list s' (p # xs) \<and> pthread_self E s' = Some (Ret p s') \<and>
    th_state t = PS_RUNNING \<and> th_cleanup t = NULL \<and> specific_data t = NULL \<and> parent_thread t = NULL \<and>
    th_attr t = a \<and> pthread_priority t = at_prio (th_attr ct) \<and>
    map_option ci_newthread (creations s' ci) = Some p \<and>
    run s' = p \<and> cur s' = cur s \<and> inited s' \<and> threadstore s' = (threadstore s)(cur s := p) \<and> same_rest s s'"
proof -
  from create_first_run [OF u(1) m(1,2) i(1,2)] obtain s1 t where
    e: "create_first E ci s = Some (Ret p s1)" and
    f1: "run s1 = p" "cur s1 = cur s" "inited s1" "threads s1 = (threads s)(p := Some t)"
      "start_routine t = ci_start_routine info" "th_arg t = ci_start_arg info"
      "parent_thread t = ci_parent info" "threadid t = cur s"
      "creations s1 = (creations s)(ci := Some (info\<lparr>ci_newthread := p\<rparr>))"
      "thread_link_list s1 = thread_link_list s" "attrs s1 = attrs s"
      "threadstore s1 = (threadstore s)(cur s := p)" "same_rest s s1" by blast
  let ?i = "info\<lparr>ci_newthread := p\<rparr>"
  have np: "p \<notin> set xs" "ci_creator info \<noteq> p"
    using live_list_alloc [OF l, of p] m(3) c(2) by auto
  have "creations s1 ci = Some ?i" "threads s1 p = Some t" by (simp_all add: f1)
  moreover have "ref_attr s1 (ci_attr ?i) = Some a" using a ref_attr_same [OF f1(11)] by simp
  moreover have "threadid t \<noteq> 0" using u(2) f1(8) by simp
  moreover have "ci_creator ?i \<noteq> NULL" "ci_creator ?i \<noteq> p" "threads s1 (ci_creator ?i) = Some ct"
    using c np(2) by (simp_all add: f1(4))
  moreover have "live_list s1 xs"
    using l np(1) by (simp add: live_list_def f1(4,10) nlink_upd)
  ultimately obtain s2 t2 where
    e2: "create_rest E ci argp p s1 = create_run E argp p s2" and
    f2: "threads s2 = (threads s1)(p := Some t2)" "th_attr t2 = a" "pthread_priority t2 = at_prio (th_attr ct)"
      "th_state t2 = PS_RUNNING" "specific_data t2 = NULL" "th_cleanup t2 = NULL"
      "parent_thread t2 = parent_thread t" "start_routine t2 = start_routine t" "th_arg t2 = th_arg t"
      "live_list s2 (p # xs)" "run s2 = p" "creations s2 = creations s1" "inited s2" "cur s2 = cur s1"
      "threadstore s2 = threadstore s1" "same_rest s1 s2"
    using create_rest_run [OF i(1) _ _ m(2) _ f1(1,3) _ _ _ _ c(3,4) f _ np(1)] by blast
  have "thread_create2 E ci argp s = create_run E argp p s2"
    by (simp add: thread_create2_def bindM_run [where m = "create_first E ci", OF e] e2)
  moreover have "create_run E argp p s2 =
      bindM (call_fun E (ci_start_routine info) (ci_start_arg info)) (\<lambda>v.
        seqM (pthread_exit E v) (thread_exit ''uthread_create.c'' 127 ''Thread has resumed after exit'')) s2"
    using m(2) i(3) f1(5-7) f2(1,7-9) by (simp add: create_run_def)
  ultimately show ?thesis
    using f2 f1 i(3) by (intro exI [of _ s2] exI [of _ t2]) (simp add: pthread_self_Some same_rest_def)
qed

text \<open>C17: A thread that \<^verbatim>\<open>pthread_create\<close> starts registers itself before it runs its start routine:
  its structure is at the head of the list of live threads, is what \<^verbatim>\<open>pthread_self\<close> gives, is in
  state \<^verbatim>\<open>PS_RUNNING\<close>, without handlers and thread-specific data, with a copy of the attributes,
  and is what the creator is told.  No other structure changes.  When scheduling is not
  inherited its priority is the one in the creator's attributes, whatever priority the
  attribute object given to \<^verbatim>\<open>pthread_create\<close> has.\<close>

theorem created_thread_registered:
  assumes u: "cur s \<noteq> 1" "cur s \<noteq> 0"
    and m: "kres (malloc E) s = p" "p \<noteq> NULL" "threads s p = None"
    and i: "ci \<noteq> NULL" "creations s ci = Some info" "ci_parent info = NULL"
    and a: "ref_attr s (ci_attr info) = Some a"
    and c: "ci_creator info \<noteq> NULL" "threads s (ci_creator info) = Some ct"
      "0 \<le> at_prio (th_attr ct)" "at_prio (th_attr ct) \<le> 126"
    and f: "at_flags a AND PTHREAD_INHERIT_SCHED = 0" "at_suspend a \<noteq> PTHREAD_CREATE_SUSPENDED"
    and l: "live_list s xs"
  shows "\<exists>s' t. thread_create2 E ci argp s =
      bindM (call_fun E (ci_start_routine info) (ci_start_arg info)) (\<lambda>v.
        seqM (pthread_exit E v) (thread_exit ''uthread_create.c'' 127 ''Thread has resumed after exit'')) s' \<and>
    threads s' = (threads s)(p := Some t) \<and> live_list s' (p # xs) \<and> pthread_self E s' = Some (Ret p s') \<and>
    th_state t = PS_RUNNING \<and> th_cleanup t = NULL \<and> specific_data t = NULL \<and> parent_thread t = NULL \<and>
    th_attr t = a \<and> pthread_priority t = at_prio (th_attr ct) \<and>
    map_option ci_newthread (creations s' ci) = Some p"
  using create2_run [OF assms] by blast

definition demo_creating :: "demo_kern world" where
  "demo_creating = demo_world\<lparr>cur := 5, creations := [90 \<mapsto>
     \<lparr>ci_newthread = NULL, ci_parent = NULL, ci_creator = 10, ci_attr = Default_Attr,
      ci_start_routine = 55, ci_start_arg = 66, ci_ack = 100\<rparr>]\<rparr>"

theorem created_thread_registered_witness:
  "\<exists>s' t. thread_create2 demo_os 90 95 demo_creating =
      bindM (call_fun demo_os 55 66) (\<lambda>v.
        seqM (pthread_exit demo_os v) (thread_exit ''uthread_create.c'' 127 ''Thread has resumed after exit'')) s' \<and>
    threads s' = (threads demo_world)(1000 := Some t) \<and> live_list s' [1000, 20, 10] \<and> pthread_priority t = 64"
proof -
  let ?i = "\<lparr>ci_newthread = NULL, ci_parent = NULL, ci_creator = 10, ci_attr = Default_Attr,
      ci_start_routine = 55, ci_start_arg = 66, ci_ack = 100\<rparr>"
  have "live_list demo_creating [20, 10]" by (simp add: demo_creating_def live_list_def nlink_def)
  moreover have "cur demo_creating = 5" "kres (malloc demo_os) demo_creating = 1000"
    "threads demo_creating = threads demo_world" "creations demo_creating 90 = Some ?i"
    by (simp_all add: demo_creating_def kres_def)
  ultimately show ?thesis
    using created_thread_registered [of demo_creating demo_os 1000 90 ?i pthread_attr_default demo_thread "[20, 10]" 95]
    by (simp add: ref_attr_def pthread_attr_default_def PTHREAD_DEFAULT_PRIORITY_def PTHREAD_CREATE_RUNNING_def
        PTHREAD_CREATE_SUSPENDED_def) blast
qed

text \<open>What holds whenever a program returns, by its last step.\<close>

definition ends_with :: "('a, 's) prog \<Rightarrow> ('s \<Rightarrow> bool) \<Rightarrow> bool" where
  "ends_with m Q \<longleftrightarrow> (\<forall>s x t. m s = Some (Ret x t) \<longrightarrow> Q t)"

lemma ends_with_bind: "(\<And>x. ends_with (f x) Q) \<Longrightarrow> ends_with (bindM m f) Q"
  unfolding ends_with_def by blast

lemma ends_with_seq: "ends_with n Q \<Longrightarrow> ends_with (seqM m n) Q"
  unfolding ends_with_def by blast

lemma ends_with_last: "(\<And>s. Q (g s)) \<Longrightarrow> ends_with (seqM (modM g) (retM r)) Q"
  unfolding ends_with_def by simp

text \<open>The new thread uses \<^verbatim>\<open>create_info\<close>, a local variable of \<^verbatim>\<open>_thread_create\<close>, after it has posted the event
  that lets the creator go on.  Whenever \<^verbatim>\<open>_thread_create\<close> returns, the variable is gone, and a
  new thread that has not yet copied its attributes then reads through a dangling pointer.\<close>

lemma create_info_dangles:
  assumes ci: "ci \<noteq> NULL" and r: "thread_create E ci thread attr routine arg parent s = Some (Ret ret s')"
  shows "creations s' ci = None \<and> create_rest E ci argp p s' = Some (Fault Wild_Deref)"
proof -
  have "ends_with (thread_create E ci thread attr routine arg parent) (\<lambda>t. creations t ci = None)"
    unfolding thread_create_def Let_def
    by ((rule ends_with_last ends_with_bind ends_with_seq)+, simp)
  with r have "creations s' ci = None" unfolding ends_with_def by blast
  then show ?thesis using ci by (simp add: create_rest_def create_attr_def load_def seqM_def bindM_def)
qed


lemma create_info_dangles_witness:
  "\<exists>s'. pthread_create demo_os 90 NULL NULL 55 66 demo_world = Some (Ret 0 s') \<and>
     create_rest demo_os 90 95 1000 s' = Some (Fault Wild_Deref)"
proof -
  have "\<exists>s'. thread_create demo_os 90 NULL NULL 55 66 NULL demo_world = Some (Ret 0 s')"
    by (simp add: thread_create_def load_attr_def run_simps Let_def)
  then obtain s' where "thread_create demo_os 90 NULL NULL 55 66 NULL demo_world = Some (Ret 0 s')" ..
  with create_info_dangles [OF _ this, of 95 1000] show ?thesis by (simp add: pthread_create_def)
qed

end
