(* ===== verification/Once.thy ===== *)
theory Once
  imports MutexSpec
begin

text \<open>
  \<^verbatim>\<open>pthread_once\<close> of \<^verbatim>\<open>uthread_once.c\<close>.  The control block is a state word and a mutex
  variable, which \<^verbatim>\<open>PTHREAD_ONCE_INIT\<close> sets to \<^verbatim>\<open>NULL\<close> and no function of the library ever
  creates.
\<close>

abbreviation upd_once :: "addr \<Rightarrow> (pthread_once \<Rightarrow> pthread_once) \<Rightarrow> (unit, 'k world) prog" where
  "upd_once p f \<equiv> alter onces onces_update p f"

definition pthread_once_call :: "'k os \<Rightarrow> addr \<Rightarrow> addr \<Rightarrow> (int, 'k world) prog" where
  "pthread_once_call E once_control init_routine =
     seqM (PTHREAD_INIT E)
    (bindM (load onces once_control) (\<lambda>oc.
     if once_state oc = PTHREAD_NEEDS_INIT
     then bindM (pthread_mutex_lock E (once_mutex once_control)) (\<lambda>r.
          bindM (load onces once_control) (\<lambda>oc.
          seqM (if once_state oc = PTHREAD_NEEDS_INIT
                then seqM (call_init E init_routine)
                          (upd_once once_control (\<lambda>oc. oc\<lparr>once_state := PTHREAD_DONE_INIT\<rparr>))
                else retM ())
         (bindM (pthread_mutex_unlock E (once_mutex once_control)) (\<lambda>r. retM 0))))
     else retM 0))"

section \<open>The mutex of a fresh control block\<close>

lemma lock_null_variable:
  assumes "quiet s" and "mutex \<noteq> NULL" and "ptrs s mutex = Some NULL"
  shows "pthread_mutex_lock E mutex s = Some (Ret (-1) (with_errno EINVAL s))"
    and "pthread_mutex_unlock E mutex s = Some (Ret (-1) (with_errno EINVAL s))"
  using assms
  by (simp_all add: pthread_mutex_lock_def pthread_mutex_unlock_def pthread_mutex_unlock_by_def Let_def run_simps
      deliver_quiet [of "with_errno EINVAL s", simplified] retM_def)

lemma once_states [simp]: "PTHREAD_NEEDS_INIT \<noteq> PTHREAD_DONE_INIT" "PTHREAD_DONE_INIT \<noteq> PTHREAD_NEEDS_INIT"
  by (simp_all add: PTHREAD_NEEDS_INIT_def PTHREAD_DONE_INIT_def)

lemma quiet_onces [simp]: "quiet (s\<lparr>onces := h\<rparr>) = quiet s"
  by (simp add: quiet_def split: option.split)

lemma once_done:
  assumes "inited s" and "p \<noteq> NULL" and "onces s p = Some oc" and "once_state oc = PTHREAD_DONE_INIT"
  shows "pthread_once_call E p f s = Some (Ret 0 s)"
  using assms by (simp add: pthread_once_call_def retM_def)

text \<open>
  A fresh block: lock and unlock fail with \<^verbatim>\<open>EINVAL\<close>, unnoticed, around the call of the
  initialisation routine, here one that changes the kernel state only.
\<close>

lemma once_fresh:
  assumes q: "quiet s" and p: "p \<noteq> NULL" "onces s p = Some oc" "once_state oc = PTHREAD_NEEDS_INIT"
    and m: "ptrs s (once_mutex p) = Some NULL"
    and c: "\<And>u. call_init E f u = Some (Ret () (u\<lparr>kern := g (cur u) (kern u)\<rparr>))"
  shows "pthread_once_call E p f s = Some (Ret 0 ((with_errno EINVAL s)\<lparr>kern := g (cur s) (kern s),
    onces := (onces s)(p := Some (oc\<lparr>once_state := PTHREAD_DONE_INIT\<rparr>))\<rparr>))"
proof -
  have mp: "once_mutex p \<noteq> NULL" by (simp add: once_mutex_def)
  let ?s = "(with_errno EINVAL s)\<lparr>kern := g (cur s) (kern s),
    onces := (onces s)(p := Some (oc\<lparr>once_state := PTHREAD_DONE_INIT\<rparr>))\<rparr>"
  have u: "pthread_mutex_unlock E (once_mutex p) ?s = Some (Ret (-1) (with_errno EINVAL ?s))"
    by (rule lock_null_variable(2)) (use q m mp in simp_all)
  have "with_errno EINVAL ?s = ?s" by simp
  then show ?thesis
    using q p
    by (simp add: pthread_once_call_def run_simps retM_def
        bindM_run [where m = "pthread_mutex_lock E (once_mutex p)", OF lock_null_variable(1) [OF q mp m]]
        bindM_run [where m = "pthread_mutex_unlock E (once_mutex p)", OF u]
        seqM_run [where m = "call_init E f", OF c])
qed


section \<open>Properties\<close>

text \<open>With a control block fresh from \<^verbatim>\<open>PTHREAD_ONCE_INIT\<close> the first \<^verbatim>\<open>pthread_once\<close> calls the
  initialisation routine, once, and returns 0; every later call, of any thread, returns 0 and
  does nothing.\<close>

lemma once_runs_init:
  assumes q: "quiet s" and p: "p \<noteq> NULL" "onces s p = Some oc" "once_state oc = PTHREAD_NEEDS_INIT"
    and m: "ptrs s (once_mutex p) = Some NULL"
    and c: "\<And>u. call_init E f u = Some (Ret () (u\<lparr>kern := g (cur u) (kern u)\<rparr>))"
    and u: "inited (s\<lparr>cur := u\<rparr>)"
  shows "\<exists>s1. pthread_once_call E p f s = Some (Ret 0 s1) \<and> kern s1 = g (cur s) (kern s) \<and>
    pthread_once_call E p f' (s1\<lparr>cur := u\<rparr>) = Some (Ret 0 (s1\<lparr>cur := u\<rparr>))"
proof -
  obtain s1 where s1: "s1 = (with_errno EINVAL s)\<lparr>kern := g (cur s) (kern s),
    onces := (onces s)(p := Some (oc\<lparr>once_state := PTHREAD_DONE_INIT\<rparr>))\<rparr>" by blast
  have "pthread_once_call E p f s = Some (Ret 0 s1)"
    unfolding s1 by (rule once_fresh [OF q p m c])
  moreover have "inited (s1\<lparr>cur := u\<rparr>)" using u by (simp add: s1 inited_def run_def)
  then have "pthread_once_call E p f' (s1\<lparr>cur := u\<rparr>) = Some (Ret 0 (s1\<lparr>cur := u\<rparr>))"
    using p(1) by (intro once_done [of _ p "oc\<lparr>once_state := PTHREAD_DONE_INIT\<rparr>"]) (simp_all add: s1)
  ultimately show ?thesis by (simp add: s1)
qed

definition demo_once :: "demo_kern world" where
  "demo_once = demo_world\<lparr>onces := [95 \<mapsto> \<lparr>once_state = 0\<rparr>], ptrs := [99 \<mapsto> NULL]\<rparr>"

lemma demo_once_facts:
  "quiet demo_once" "onces demo_once 95 = Some \<lparr>once_state = 0\<rparr>" "ptrs demo_once 99 = Some NULL"
  "inited (demo_once\<lparr>cur := 2\<rparr>)" "quiet (with_errno EINVAL demo_once\<lparr>cur := 2\<rparr>)" "cur demo_once = 1" "kern demo_once = demo_kern0"
  by (simp_all add: demo_once_def quiet_def inited_def run_def)

lemma once_runs_init_witness:
  "\<exists>s1. pthread_once_call demo_os 95 5 demo_once = Some (Ret 0 s1) \<and> calls (kern s1) = [(5, NULL)] \<and>
    pthread_once_call demo_os 95 6 (s1\<lparr>cur := 2\<rparr>) = Some (Ret 0 (s1\<lparr>cur := 2\<rparr>))"
  using once_runs_init [of demo_once 95 "\<lparr>once_state = 0\<rparr>" demo_os 5 "\<lambda>u k. k\<lparr>calls := calls k @ [(5, NULL)]\<rparr>" 2 6]
  by (auto simp: demo_once_facts once_mutex_def PTHREAD_NEEDS_INIT_def demo_call_def seqM_def bindM_def retM_def)

text \<open>\<^verbatim>\<open>pthread_once\<close> does not keep other threads out.  The mutex variable of the block is \<^verbatim>\<open>NULL\<close>, so
  locking it fails, unnoticed; while one thread runs the routine, the state still asks for it,
  and the call of any other thread runs the routine as well instead of waiting.\<close>

lemma once_not_exclusive:
  assumes q: "quiet s" and p: "p \<noteq> NULL" "onces s p = Some oc" "once_state oc = PTHREAD_NEEDS_INIT"
    and m: "ptrs s (once_mutex p) = Some NULL"
    and c: "\<And>u. call_init E f u = Some (Ret () (u\<lparr>kern := g (cur u) (kern u)\<rparr>))"
    and u: "quiet (with_errno EINVAL s\<lparr>cur := u\<rparr>)"
  shows "\<exists>s1. pthread_once_call E p f s =
      seqM (call_init E f)
     (seqM (upd_once p (\<lambda>oc. oc\<lparr>once_state := PTHREAD_DONE_INIT\<rparr>))
     (bindM (pthread_mutex_unlock E (once_mutex p)) (\<lambda>r. retM 0))) s1 \<and>
    (\<exists>s2. pthread_once_call E p f (s1\<lparr>cur := u\<rparr>) = Some (Ret 0 s2) \<and> kern s2 = g u (kern s1))"
proof -
  have mp: "once_mutex p \<noteq> NULL" by (simp add: once_mutex_def)
  let ?s = "with_errno EINVAL s"
  have "pthread_once_call E p f s =
      seqM (call_init E f)
     (seqM (upd_once p (\<lambda>oc. oc\<lparr>once_state := PTHREAD_DONE_INIT\<rparr>))
     (bindM (pthread_mutex_unlock E (once_mutex p)) (\<lambda>r. retM 0))) ?s"
    using q p by (simp add: pthread_once_call_def run_simps
        bindM_run [where m = "pthread_mutex_lock E (once_mutex p)", OF lock_null_variable(1) [OF q mp m]])
  moreover have "pthread_once_call E p f (?s\<lparr>cur := u\<rparr>) = Some (Ret 0 ((with_errno EINVAL (?s\<lparr>cur := u\<rparr>))\<lparr>
      kern := g (cur (?s\<lparr>cur := u\<rparr>)) (kern (?s\<lparr>cur := u\<rparr>)),
      onces := (onces (?s\<lparr>cur := u\<rparr>))(p := Some (oc\<lparr>once_state := PTHREAD_DONE_INIT\<rparr>))\<rparr>))"
    by (rule once_fresh [OF u p(1) _ p(3) _ c]) (use p m in simp_all)
  ultimately show ?thesis by (intro exI [of _ ?s]) simp
qed

lemma once_not_exclusive_witness:
  "\<exists>s1 s2. pthread_once_call demo_os 95 5 (s1\<lparr>cur := 2\<rparr>) = Some (Ret 0 s2) \<and>
     calls (kern s2) = calls (kern s1) @ [(5, NULL)]"
proof -
  let ?g = "\<lambda>u k. k\<lparr>calls := calls k @ [(5, NULL)]\<rparr>"
  have "call_init demo_os 5 u = Some (Ret () (u\<lparr>kern := ?g (cur u) (kern u)\<rparr>))" for u
    by (simp add: demo_call_def seqM_def bindM_def retM_def)
  from once_not_exclusive [OF demo_once_facts(1) _ demo_once_facts(2) _ _ this demo_once_facts(5)]
  obtain s1 s2 where "pthread_once_call demo_os 95 5 (s1\<lparr>cur := 2\<rparr>) = Some (Ret 0 s2)"
    "kern s2 = ?g (2::nat) (kern s1)"
    by (auto simp: demo_once_facts once_mutex_def PTHREAD_NEEDS_INIT_def)
  then show ?thesis by (intro exI [of _ s1] exI [of _ s2]) simp
qed

end
