(* ===== verification/Delivery.thy ===== *)
theory Delivery
  imports SigCalls Keys
begin

text \<open>
  What \<^verbatim>\<open>_sys_deliver_pending_signals\<close> does: which signals a thread takes, in which order their
  handlers run, and that the loop of \<^verbatim>\<open>uthread_init.c\<close> ends.
\<close>


section \<open>Signal sets\<close>

text \<open>emx's \<^verbatim>\<open>_SIGMASK\<close> gives each signal a bit of its own.\<close>

definition sig_bits :: "'k os \<Rightarrow> (int \<Rightarrow> nat) \<Rightarrow> bool" where
  "sig_bits E b \<longleftrightarrow> (\<forall>n\<in>{0<..<int NSIG}. b n < 32 \<and> sigmask E n = push_bit (b n) 1) \<and> inj_on b {0<..<int NSIG}"

lemma bit_sigmask:
  assumes "sig_bits E b" and "0 < n" "n < int NSIG"
  shows "bit (sigmask E n) i \<longleftrightarrow> i = b n"
  using assms by (auto simp: sig_bits_def bit_simps)

lemma and_mask_iff:
  fixes x :: u32
  assumes "sig_bits E b" and "0 < n" "n < int NSIG"
  shows "x AND sigmask E n \<noteq> 0 \<longleftrightarrow> bit x (b n)"
proof
  assume "x AND sigmask E n \<noteq> 0"
  then obtain i where "bit (x AND sigmask E n) i" by (metis bit_0_eq bit_eqI bot_apply bot_bool_def)
  then show "bit x (b n)" using bit_sigmask [OF assms] by (auto simp: bit_simps)
next
  assume "bit x (b n)"
  then have "bit (x AND sigmask E n) (b n)" using bit_sigmask [OF assms] by (auto simp: bit_simps)
  then show "x AND sigmask E n \<noteq> 0" by auto
qed

text \<open>The signals a thread would take now: pending and not blocked.\<close>

definition takes :: "(int \<Rightarrow> nat) \<Rightarrow> thread_data \<Rightarrow> int \<Rightarrow> bool" where
  "takes b d n \<longleftrightarrow> bit (sig_pending d) (b n) \<and> \<not> bit (sig_blocked d) (b n)"

lemma takes_iff:
  assumes "sig_bits E b" and "0 < n" "n < int NSIG"
  shows "sig_pending d AND NOT (sig_blocked d) AND sigmask E n \<noteq> 0 \<longleftrightarrow> takes b d n"
proof -
  have b: "b n < 32" using assms by (simp add: sig_bits_def)
  have "sig_pending d AND NOT (sig_blocked d) AND sigmask E n
      = (sig_pending d AND NOT (sig_blocked d)) AND sigmask E n"
    by (simp only: and.assoc)
  then show ?thesis
    using b and_mask_iff [OF assms, of "sig_pending d AND NOT (sig_blocked d)"]
    by (simp only:) (simp add: takes_def bit_simps)
qed

lemma takes_nonzero:
  assumes "takes b d n" "b n < 32"
  shows "sig_pending d AND NOT (sig_blocked d) \<noteq> 0"
proof
  assume "sig_pending d AND NOT (sig_blocked d) = 0"
  then have "\<not> bit (sig_pending d AND NOT (sig_blocked d)) (b n)" by simp
  with assms show False by (simp add: takes_def bit_simps)
qed

text \<open>What delivery of signal \<open>n\<close> to a handler with \<^verbatim>\<open>SA_ACK\<close> leaves: not pending, and blocked until
  the handler is reinstalled or the signal acknowledged.\<close>

definition acked :: "'k os \<Rightarrow> int \<Rightarrow> thread_data \<Rightarrow> thread_data" where
  "acked E n d = d\<lparr>sig_pending := sig_pending d AND NOT (sigmask E n),
                   sig_blocked := sig_blocked d OR sigmask E n\<rparr>"

lemma takes_acked:
  assumes "sig_bits E b" and "0 < n" "n < int NSIG" and "0 < m" "m < int NSIG"
  shows "takes b (acked E n d) m \<longleftrightarrow> takes b d m \<and> m \<noteq> n"
proof -
  have "b m < 32" "b m = b n \<longleftrightarrow> m = n"
    using assms by (auto simp: sig_bits_def inj_on_def)
  then show ?thesis
    using bit_sigmask [OF assms(1-3)] by (auto simp: takes_def acked_def bit_simps)
qed

section \<open>Delivery of the pending signals\<close>

text \<open>Handlers of the application that leave the library's data alone.\<close>

definition plain_handlers :: "'k os \<Rightarrow> (addr \<Rightarrow> int \<Rightarrow> tid \<Rightarrow> 'k \<Rightarrow> 'k) \<Rightarrow> bool" where
  "plain_handlers E c \<longleftrightarrow>
     (\<forall>f n u. call_handler E f n u = Some (Ret () (u\<lparr>kern := c f n (cur u) (kern u)\<rparr>)))"

text \<open>Signals that neither end the process nor bypass the mask when they are delivered.\<close>

definition caught :: "thread_data \<Rightarrow> int \<Rightarrow> bool" where
  "caught d n \<longleftrightarrow> (\<exists>f. sa_handler (signals d (nat n)) = Handler f) \<and>
     sa_flags (signals d (nat n)) = SA_ACK \<and> fun_action (sig_info n) \<noteq> ST_TERM"

definition catcher :: "thread_data \<Rightarrow> int \<Rightarrow> addr" where
  "catcher d n = (case sa_handler (signals d (nat n)) of Handler f \<Rightarrow> f | _ \<Rightarrow> NULL)"

lemma deliver_caught:
  assumes c: "plain_handlers E c" and p: "p \<noteq> NULL" "threads s p = Some t"
    and n: "0 < n" "n < int NSIG" and h: "caught (tp t) n"
  shows "uthread_deliver_signal E p n s = Some (Ret 0 (s\<lparr>threads := (threads s)(p := Some (t\<lparr>tp := acked E n (tp t)\<rparr>)),
    kern := c (catcher (tp t) n) n (cur s) (kern s)\<rparr>))"
proof -
  obtain f where f: "sa_handler (signals (tp t) (nat n)) = Handler f" using h by (auto simp: caught_def)
  let ?s = "s\<lparr>threads := (threads s)(p := Some (t\<lparr>tp := acked E n (tp t)\<rparr>))\<rparr>"
  have "call_handler E f n ?s = Some (Ret () (?s\<lparr>kern := c f n (cur s) (kern s)\<rparr>))"
    using c by (simp add: plain_handlers_def)
  note ch = seqM_run [where m = "call_handler E f n", OF this]
  have fl: "sa_flags (signals (tp t) (nat n)) = SA_ACK" "fun_action (sig_info n) \<noteq> ST_TERM"
    using h by (simp_all add: caught_def)
  have "uthread_deliver_signal E p n s = seqM (call_handler E f n) (retM 0) ?s"
    using p n f fl by (simp add: uthread_deliver_signal_def Let_def run_handler_def invoke_def run_simps acked_def)
  then show ?thesis by (simp add: ch catcher_def f retM_def)
qed


text \<open>The signals the thread would take now, in the order the loop looks for them.\<close>

definition taking :: "(int \<Rightarrow> nat) \<Rightarrow> thread_data \<Rightarrow> int list" where
  "taking b d = filter (takes b d) [1..int NSIG - 1]"

lemma set_taking: "set (taking b d) = {n. 0 < n \<and> n < int NSIG \<and> takes b d n}"
  by (auto simp: taking_def)

lemma filter_but_head:
  assumes "filter P xs = x # ys" "distinct xs"
  shows "filter (\<lambda>y. P y \<and> y \<noteq> x) xs = ys"
proof -
  obtain us vs where "xs = us @ x # vs" "\<forall>u\<in>set us. \<not> P u" "P x" "ys = filter P vs"
    using assms(1) by (auto simp: filter_eq_Cons_iff)
  moreover from this assms(2) have "x \<notin> set vs" by simp
  ultimately show ?thesis by (auto simp: filter_empty_conv intro!: filter_cong)
qed

lemma taking_acked:
  assumes b: "sig_bits E b" and t: "taking b d = n # ns"
  shows "taking b (acked E n d) = ns"
proof -
  have "n \<in> set (taking b d)" by (simp add: t)
  then have n: "0 < n" "n < int NSIG" by (auto simp: set_taking)
  have "taking b (acked E n d) = filter (\<lambda>m. takes b d m \<and> m \<noteq> n) [1..int NSIG - 1]"
    unfolding taking_def by (rule filter_cong [OF refl]) (use takes_acked [OF b n] in auto)
  also have "\<dots> = ns"
    by (rule filter_but_head) (use t in \<open>simp_all add: taking_def\<close>)
  finally show ?thesis .
qed

lemma taking_head:
  assumes "taking b d = n # ns"
  shows "0 < n" "n < int NSIG" "takes b d n" "\<And>m. 0 < m \<Longrightarrow> m < n \<Longrightarrow> \<not> takes b d m"
proof -
  have "n \<in> set (taking b d)" by (simp add: assms)
  then show n: "0 < n" "n < int NSIG" "takes b d n" by (auto simp: set_taking)
  fix m assume m: "0 < m" "m < n"
  have "sorted (taking b d)" by (simp add: taking_def sorted_wrt_filter)
  then have "\<forall>k\<in>set (taking b d). n \<le> k" by (auto simp: assms)
  then show "\<not> takes b d m" using m n by (auto simp: set_taking)
qed

lemma deliver_skip:
  assumes b: "sig_bits E b" and p: "p \<noteq> NULL" "threads s p = Some t"
    and n: "takes b (tp t) n" "n < int NSIG"
  shows "0 < m \<Longrightarrow> m \<le> n \<Longrightarrow> (\<And>i. m \<le> i \<Longrightarrow> i < n \<Longrightarrow> \<not> takes b (tp t) i) \<Longrightarrow>
    deliver_loop E p m s = bindM (uthread_deliver_signal E p n) (\<lambda>_ s. deliver_loop E p 1 s) s"
proof (induction "nat (n - m)" arbitrary: m)
  case 0
  then have "m = n" by simp
  moreover have "0 < n" using 0 by simp
  ultimately show ?case
    using p n takes_iff [OF b, of n "tp t"] takes_nonzero [OF n(1)] b
    by (subst deliver_loop.simps) (simp add: run_simps sig_bits_def)
next
  case (Suc k)
  then have m: "0 < m" "m < n" "\<not> takes b (tp t) m" by simp_all
  have "deliver_loop E p m s = deliver_loop E p (m + 1) s"
    using p n m takes_iff [OF b, of m "tp t"] takes_nonzero [OF n(1)] b
    by (subst deliver_loop.simps) (simp add: run_simps sig_bits_def)
  then show ?case using Suc m by simp
qed

lemma deliver_none:
  assumes b: "sig_bits E b" and p: "p \<noteq> NULL" "threads s p = Some t" and n: "taking b (tp t) = []"
  shows "0 < m \<Longrightarrow> m \<le> int NSIG \<Longrightarrow> deliver_loop E p m s = Some (Ret () s)"
proof (induction "nat (int NSIG - m)" arbitrary: m)
  case 0
  then show ?case using p by (subst deliver_loop.simps) (simp add: run_simps retM_def)
next
  case (Suc k)
  then have m: "0 < m" "m < int NSIG" by simp_all
  have "m \<notin> set (taking b (tp t))" by (simp add: n)
  then have "\<not> takes b (tp t) m" using m by (auto simp: set_taking)
  then have z: "sig_pending (tp t) AND NOT (sig_blocked (tp t)) AND sigmask E m = 0"
    using takes_iff [OF b m, of "tp t"] by simp
  have "deliver_loop E p (m + 1) s = Some (Ret () s)"
    by (rule Suc.hyps) (use Suc.hyps(2) m in auto)
  then show ?case
    using p m z by (subst deliver_loop.simps) (simp add: run_simps retM_def)
qed

text \<open>What the delivery of the signals \<open>ns\<close> does to the thread's data and to the application.\<close>

definition after_delivery ::
  "'k os \<Rightarrow> (addr \<Rightarrow> int \<Rightarrow> tid \<Rightarrow> 'k \<Rightarrow> 'k) \<Rightarrow> addr \<Rightarrow> pthread \<Rightarrow> int list \<Rightarrow> 'k world \<Rightarrow> 'k world" where
  "after_delivery E c p t ns s =
     s\<lparr>threads := (threads s)(p := Some (t\<lparr>tp := fold (acked E) ns (tp t)\<rparr>)),
       kern := fold (\<lambda>n. c (catcher (tp t) n) n (cur s)) ns (kern s)\<rparr>"

lemma caught_acked [simp]:
  "caught (acked E n d) = caught d" "catcher (acked E n d) = catcher d"
  by (simp_all add: caught_def catcher_def acked_def fun_eq_iff)

lemma deliver_loop_caught:
  assumes b: "sig_bits E b" and c: "plain_handlers E c" and p: "p \<noteq> NULL"
  shows "threads s p = Some t \<Longrightarrow> taking b (tp t) = ns \<Longrightarrow> \<forall>n\<in>set ns. caught (tp t) n \<Longrightarrow>
    deliver_loop E p 1 s = Some (Ret () (after_delivery E c p t ns s))"
proof (induction ns arbitrary: s t)
  case Nil
  then have "deliver_loop E p 1 s = Some (Ret () s)"
    by (intro deliver_none [OF b p]) simp_all
  moreover have "after_delivery E c p t [] s = s"
    using Nil by (simp add: after_delivery_def fun_upd_idem)
  ultimately show ?case by simp
next
  case (Cons n ns)
  note h = taking_head [OF Cons.prems(2)]
  let ?t = "t\<lparr>tp := acked E n (tp t)\<rparr>"
  let ?s = "s\<lparr>threads := (threads s)(p := Some ?t), kern := c (catcher (tp t) n) n (cur s) (kern s)\<rparr>"
  have one: "uthread_deliver_signal E p n s = Some (Ret 0 ?s)"
    using Cons.prems(3) by (intro deliver_caught [OF c p Cons.prems(1) h(1,2)]) simp
  have "deliver_loop E p 1 s
      = bindM (uthread_deliver_signal E p n) (\<lambda>_ s. deliver_loop E p 1 s) s"
    using h by (intro deliver_skip [OF b p Cons.prems(1) h(3,2)]) auto
  also have "\<dots> = deliver_loop E p 1 ?s"
    by (simp add: bindM_run [where m = "uthread_deliver_signal E p n", OF one])
  also have "\<dots> = Some (Ret () (after_delivery E c p ?t ns ?s))"
    by (rule Cons.IH) (use taking_acked [OF b Cons.prems(2)] Cons.prems(3) in auto)
  also have "after_delivery E c p ?t ns ?s = after_delivery E c p t (n # ns) s"
    by (simp add: after_delivery_def)
  finally show ?case .
qed

text \<open>
  C19: \<open>_sys_deliver_pending_signals\<close> terminates, and it calls the handler of every signal that is
  pending and not blocked exactly once, in ascending order of the signal numbers.  Afterwards the thread has no
  signal left to take.  The signals are caught by \<open>SA_ACK\<close> handlers that leave the library's
  data alone.
\<close>

theorem pending_delivered_in_order:
  assumes "sig_bits E b" and "plain_handlers E c" and "p \<noteq> NULL" and "threads s p = Some t"
    and "\<forall>n\<in>set (taking b (tp t)). caught (tp t) n"
  shows "sys_deliver_pending_signals E p s =
           Some (Ret () (s\<lparr>threads := (threads s)(p := Some (t\<lparr>tp := fold (acked E) (taking b (tp t)) (tp t)\<rparr>)),
             kern := fold (\<lambda>n. c (catcher (tp t) n) n (cur s)) (taking b (tp t)) (kern s)\<rparr>)) \<and>
         taking b (fold (acked E) (taking b (tp t)) (tp t)) = [] \<and>
         sorted (taking b (tp t)) \<and> distinct (taking b (tp t))"
proof -
  have none_left: "taking b (fold (acked E) ns d) = []" if "taking b d = ns" for ns d
    using that by (induction ns arbitrary: d) (auto simp: taking_acked [OF assms(1)])
  show ?thesis
    using deliver_loop_caught [OF assms(1-4) refl assms(5)] none_left
    by (simp add: sys_deliver_pending_signals_def after_delivery_def)
      (simp add: taking_def sorted_wrt_filter)
qed

text \<open>The demo process: each signal has the bit of its number.\<close>

lemma demo_sig_bits: "sig_bits demo_os nat"
  by (auto simp: sig_bits_def inj_on_def)

lemma demo_plain_handlers:
  "plain_handlers demo_os (\<lambda>f n t k. k\<lparr>calls := calls k @ [(f, nat n)]\<rparr>)"
  by (simp add: plain_handlers_def run_simps demo_call_def seqM_def bindM_def retM_def)

definition demo_catching :: "u32 \<Rightarrow> u32 \<Rightarrow> demo_kern world" where
  "demo_catching pnd blk =
     demo_world\<lparr>threads := (threads demo_world)(10 := Some (demo_thread\<lparr>tp :=
       \<lparr>signals = (\<lambda>n. \<lparr>sa_handler = Handler (500 + n), sa_mask = 0, sa_flags = SA_ACK\<rparr>),
        sig_pending = pnd, sig_blocked = blk\<rparr>\<rparr>))\<rparr>"

theorem pending_delivered_in_order_witness:
  "\<exists>s. sys_deliver_pending_signals demo_os 10 (demo_catching 0x4006 0x4000) = Some (Ret () s) \<and>
       calls (kern s) = [(501, 1), (502, 2)]"
proof -
  let ?s = "demo_catching 0x4006 0x4000"
  let ?t = "demo_thread\<lparr>tp :=
       \<lparr>signals = (\<lambda>n. \<lparr>sa_handler = Handler (500 + n), sa_mask = 0, sa_flags = SA_ACK\<rparr>),
        sig_pending = 0x4006, sig_blocked = 0x4000\<rparr>\<rparr>"
  have u: "[1..int NSIG - 1] = [1,2,3,4,5,6,7,8,9,10,11,12,13,14,15,16,17,18,19,20,21]"
    by (simp add: upto.simps)
  have t: "taking nat (tp ?t) = [1, 2]" unfolding taking_def u by (simp add: takes_def bit_numeral_rec)
  have "\<forall>n\<in>set (taking nat (tp ?t)). caught (tp ?t) n"
    unfolding t by (simp add: caught_def sig_info_def sig_info_table_def)
  note pending_delivered_in_order [OF demo_sig_bits demo_plain_handlers, of 10 ?s ?t, OF _ _ this]
  then show ?thesis by (simp add: t [simplified] demo_catching_def catcher_def)
qed

end
