(* ===== verification/SigSpec.thy ===== *)
theory SigSpec
  imports Delivery Threads Mutex
begin

text \<open>
  What the signal calls promise: a raised signal that is blocked waits and is delivered when it
  is unblocked, \<^verbatim>\<open>pthread_sigaction\<close> installs what it later reports, \<^verbatim>\<open>pthread_kill\<close> wakes a sleeping
  thread, and a sleep that a signal interrupts runs the handlers before it returns.
\<close>

section \<open>Raising, holding back and releasing a signal\<close>

lemma taking_only:
  assumes "0 < n" "n < int NSIG" "\<And>m. 0 < m \<Longrightarrow> m < int NSIG \<Longrightarrow> takes b d m \<longleftrightarrow> m = n"
  shows "taking b d = [n]"
proof -
  have one: "distinct xs \<Longrightarrow> x \<in> set xs \<Longrightarrow> filter (\<lambda>m. m = x) xs = [x]" for xs and x :: int
    by (induction xs) (auto simp: filter_empty_conv)
  have "taking b d = filter (\<lambda>m. m = n) [1..int NSIG - 1]"
    unfolding taking_def by (rule filter_cong [OF refl]) (simp add: assms(3))
  then show ?thesis using assms(1,2) by (simp add: one)
qed

lemma deliver_now_run:
  assumes "sig_bits E b" and "plain_handlers E c" and "p \<noteq> NULL" and "threads s p = Some t"
    and "\<forall>n\<in>set (taking b (tp t)). caught (tp t) n"
  shows "deliver_now E p s = Some (Ret () (after_delivery E c p (t\<lparr>pend := 0\<rparr>) (taking b (tp t)) s))"
proof -
  let ?s = "s\<lparr>threads := (threads s)(p := Some (t\<lparr>pend := 0\<rparr>))\<rparr>"
  have "deliver_now E p s = sys_deliver_pending_signals E p ?s"
    using assms(3,4) by (simp add: deliver_now_def run_simps)
  also have "\<dots> = Some (Ret () (after_delivery E c p (t\<lparr>pend := 0\<rparr>) (taking b (tp t)) ?s))"
    unfolding sys_deliver_pending_signals_def
    by (rule deliver_loop_caught [OF assms(1,2,3)]) (use assms(5) in auto)
  finally show ?thesis by (simp add: after_delivery_def)
qed

definition raised :: "'k os \<Rightarrow> int \<Rightarrow> pthread \<Rightarrow> pthread" where
  "raised E n t = t\<lparr>tp := (tp t)\<lparr>sig_pending := sig_pending (tp t) OR sigmask E n\<rparr>\<rparr>"

lemma takes_raised:
  assumes "sig_bits E b" and "0 < n" "n < int NSIG" and "0 < m" "m < int NSIG"
  shows "takes b (tp (raised E n t)) m \<longleftrightarrow> takes b (tp t) m \<or> m = n \<and> \<not> bit (sig_blocked (tp t)) (b n)"
proof -
  have "b m < 32" "b m = b n \<longleftrightarrow> m = n" using assms by (auto simp: sig_bits_def inj_on_def)
  then show ?thesis
    using bit_sigmask [OF assms(1-3)] by (auto simp: takes_def raised_def bit_simps)
qed

lemma raise_blocked:
  assumes b: "sig_bits E b" and c: "plain_handlers E c"
    and s: "inited s" "threads s (run s) = Some t" "signals_blocked s = 0"
    and n: "0 < n" "n < int NSIG" "sys_sig_valid n" "caught (tp t) n"
    and t: "taking b (tp t) = []" "bit (sig_blocked (tp t)) (b n)"
  shows "pthread_raise E n s =
    Some (Ret 0 (s\<lparr>threads := (threads s)(run s := Some ((raised E n t)\<lparr>pend := 0\<rparr>))\<rparr>))"
proof -
  have r: "run s \<noteq> NULL" using s by (simp add: inited_def)
  let ?s = "s\<lparr>threads := (threads s)(run s := Some (raised E n t))\<rparr>"
  have tk: "taking b (tp (raised E n t)) = []"
    using t takes_raised [OF b n(1,2)] by (auto simp: taking_def filter_empty_conv)
  have d: "deliver_now E (run s) ?s
      = Some (Ret () (after_delivery E c (run s) ((raised E n t)\<lparr>pend := 0\<rparr>) [] ?s))"
    using deliver_now_run [OF b c r, of ?s "raised E n t"] tk by simp
  have "pthread_raise E n s = seqM (deliver_now E (run s)) (retM 0) ?s"
    using s n r by (auto simp: pthread_raise_def add_pending_def run_simps raised_def caught_def)
  then show ?thesis by (simp add: seqM_run [where m = "deliver_now E (run s)", OF d] retM_def after_delivery_def)
qed

text \<open>
  A raised signal that the calling thread blocks waits: \<^verbatim>\<open>pthread_raise\<close> runs no handler,
  \<^verbatim>\<open>pthread_sigpending\<close> then reports the signal, and the call of \<^verbatim>\<open>pthread_sigmask\<close> that unblocks
  it runs its handler, once, before it returns.
\<close>

lemma blocked_signal_waits:
  assumes "sig_bits E b" and "plain_handlers E c"
    and "inited s" and "threads s (run s) = Some t" and "signals_blocked s = 0"
    and "0 < n" and "n < int NSIG" and "sys_sig_valid n" and "caught (tp t) n"
    and "taking b (tp t) = []" and "bit (sig_blocked (tp t)) (b n)"
    and "\<forall>v. set_blocked E v = v AND NOT never" and "sig_blocked (tp t) AND never = 0"
    and "setp \<noteq> NULL" and "sigsets s setp = Some v0"
    and "iset \<noteq> NULL" and "sigsets s iset = Some (sigmask E n)" and "iset \<noteq> setp"
  shows "\<exists>s1 s2 s3 v.
    pthread_raise E n s = Some (Ret 0 s1) \<and> kern s1 = kern s \<and>
    pthread_sigpending E setp s1 = Some (Ret 0 s2) \<and> sigsets s2 setp = Some v \<and> bit v (b n) \<and>
    pthread_sigmask E SIG_UNBLOCK iset NULL s2 = Some (Ret 0 s3) \<and>
    kern s3 = c (catcher (tp t) n) n (cur s)
                (snd (libc_sigprocmask E SIG_UNBLOCK iset (cur s) (kern s)))"
proof -
  note b = assms(1) and c = assms(2) and n = assms(6,7)
  have r: "run s \<noteq> NULL" using assms(3) by (simp add: inited_def)
  define t1 where "t1 = (raised E n t)\<lparr>pend := 0\<rparr>"
  define s1 where "s1 = s\<lparr>threads := (threads s)(run s := Some t1)\<rparr>"
  define s2 where "s2 = s1\<lparr>sigsets := (sigsets s1)(setp := Some (sig_blocked (tp t1) AND sig_pending (tp t1)))\<rparr>"
  define t3 where "t3 = t1\<lparr>tp := (tp t1)\<lparr>sig_blocked := sig_blocked (tp t1) AND NOT (sigmask E n) AND NOT never\<rparr>\<rparr>"
  define s3 where "s3 = s2\<lparr>threads := (threads s2)(run s := Some t3),
    kern := snd (libc_sigprocmask E SIG_UNBLOCK iset (cur s) (kern s))\<rparr>"
  have sel: "inited s1" "inited s2" "run s1 = run s" "run s2 = run s" "cur s2 = cur s"
    "threads s1 (run s) = Some t1" "threads s2 (run s) = Some t1" "threads s3 (run s) = Some t3"
    "signals_blocked s2 = 0" "kern s2 = kern s" "sigsets s1 = sigsets s"
    "sigsets s2 iset = Some (sigmask E n)"
    using assms by (simp_all add: s1_def s2_def s3_def)
  have raise: "pthread_raise E n s = Some (Ret 0 s1)"
    unfolding s1_def t1_def by (rule raise_blocked) (use assms in auto)
  have pending: "pthread_sigpending E setp s1 = Some (Ret 0 s2)"
    using sel assms r by (simp add: pthread_sigpending_def run_simps s2_def retM_def)
  have reported: "bit (sig_blocked (tp t1) AND sig_pending (tp t1)) (b n)"
    using assms(11) bit_sigmask [OF b n] b n
    by (auto simp: t1_def raised_def bit_simps sig_bits_def)
  have t3: "takes b (tp t3) m \<longleftrightarrow> m = n" if m: "0 < m" "m < int NSIG" for m
  proof -
    have "b m < 32" "b m = b n \<longleftrightarrow> m = n" using b n m by (auto simp: sig_bits_def inj_on_def)
    moreover have "\<not> takes b (tp t) m" using assms(10) m set_taking [of b "tp t"] by auto
    moreover have "\<not> (bit (sig_blocked (tp t)) i \<and> bit never i)" for i
      using assms(13) by (metis bit_0_eq bit_and_iff bot_apply bot_bool_def)
    ultimately show ?thesis
      using bit_sigmask [OF b n] assms(11)
      by (auto simp: t3_def t1_def takes_def raised_def bit_simps)
  qed
  have tk: "taking b (tp t3) = [n]" by (rule taking_only [OF n]) (simp add: t3)
  have same: "caught (tp t3) = caught (tp t)" "catcher (tp t3) = catcher (tp t)"
    by (simp_all add: fun_eq_iff caught_def catcher_def t3_def t1_def raised_def)
  have d: "deliver_now E (run s) s3 = Some (Ret () (after_delivery E c (run s) (t3\<lparr>pend := 0\<rparr>) [n] s3))"
    using deliver_now_run [OF b c r, of s3 t3] tk same assms(9) sel by simp
  have "pthread_sigmask E SIG_UNBLOCK iset NULL s2 = seqM (deliver_now E (run s)) (retM 0) s3"
    using sel assms(12,16) r
    by (simp add: pthread_sigmask_def Let_def run_simps s3_def t3_def and.assoc kst_def)
  then have unblock: "pthread_sigmask E SIG_UNBLOCK iset NULL s2
      = Some (Ret 0 (after_delivery E c (run s) (t3\<lparr>pend := 0\<rparr>) [n] s3))"
    by (simp add: seqM_run [where m = "deliver_now E (run s)", OF d] retM_def)
  have "sigsets s2 setp = Some (sig_blocked (tp t1) AND sig_pending (tp t1))" by (simp add: s2_def)
  moreover have "kern s1 = kern s" by (simp add: s1_def)
  moreover have "kern (after_delivery E c (run s) (t3\<lparr>pend := 0\<rparr>) [n] s3)
      = c (catcher (tp t) n) n (cur s) (snd (libc_sigprocmask E SIG_UNBLOCK iset (cur s) (kern s)))"
    using same sel by (simp add: after_delivery_def s3_def)
  ultimately show ?thesis using raise pending reported unblock by blast
qed


definition demo_caught :: "u32 \<Rightarrow> u32 \<Rightarrow> pthread" where
  "demo_caught pnd blk = demo_thread\<lparr>tp :=
       \<lparr>signals = (\<lambda>n. \<lparr>sa_handler = Handler (500 + n), sa_mask = 0, sa_flags = SA_ACK\<rparr>),
        sig_pending = pnd, sig_blocked = blk\<rparr>\<rparr>"

definition demo_holding :: "demo_kern world" where
  "demo_holding = (demo_catching 0 0x4000)\<lparr>sigsets := [70 \<mapsto> 0x4000, 71 \<mapsto> 0]\<rparr>"

lemma demo_holding_sel [simp]:
  "inited demo_holding" "run demo_holding = 10" "cur demo_holding = 1"
  "threads demo_holding 10 = Some (demo_caught 0 0x4000)" "signals_blocked demo_holding = 0"
  "sigsets demo_holding = [70 \<mapsto> 0x4000, 71 \<mapsto> 0]" "kern demo_holding = demo_kern0"
  by (simp_all add: demo_holding_def demo_catching_def demo_caught_def)

lemma demo_caught_sel [simp]:
  "caught (tp (demo_caught pnd blk)) 14" "catcher (tp (demo_caught pnd blk)) 14 = 514"
  "sig_pending (tp (demo_caught pnd blk)) = pnd" "sig_blocked (tp (demo_caught pnd blk)) = blk"
  by (simp_all add: caught_def catcher_def demo_caught_def sig_info_def sig_info_table_def)

lemma blocked_signal_waits_witness:
  "\<exists>s1 s2 s3 v.
    pthread_raise demo_os 14 demo_holding = Some (Ret 0 s1) \<and> kern s1 = demo_kern0 \<and>
    pthread_sigpending demo_os 71 s1 = Some (Ret 0 s2) \<and> sigsets s2 71 = Some v \<and> bit v 14 \<and>
    pthread_sigmask demo_os SIG_UNBLOCK 70 NULL s2 = Some (Ret 0 s3) \<and> calls (kern s3) = [(514, 14)]"
proof -
  have "\<exists>s1 s2 s3 v.
    pthread_raise demo_os 14 demo_holding = Some (Ret 0 s1) \<and> kern s1 = kern demo_holding \<and>
    pthread_sigpending demo_os 71 s1 = Some (Ret 0 s2) \<and> sigsets s2 71 = Some v \<and> bit v (nat 14) \<and>
    pthread_sigmask demo_os SIG_UNBLOCK 70 NULL s2 = Some (Ret 0 s3) \<and>
    kern s3 = (kern demo_holding)\<lparr>calls := [(514, 14)]\<rparr>"
    by (rule ex_forward [OF blocked_signal_waits [OF demo_sig_bits demo_plain_handlers,
          of demo_holding "demo_caught 0 0x4000" 14 "push_bit 9 1" 71 0 70]])
      (auto simp: taking_def takes_def sys_sig_valid_def sys_sig_valid_table_def demo_nop_def)
  then show ?thesis by auto
qed

section \<open>Installing an action\<close>

text \<open>The pending signal that the code of \<^verbatim>\<open>pthread_sigaction\<close> discards with a new action.\<close>

definition discards :: "sigact \<Rightarrow> int \<Rightarrow> bool" where
  "discards a n \<longleftrightarrow>
     sa_handler a = SIG_IGN \<or> sa_handler a = SIG_DFL \<and> dfl_action (sig_info n) \<noteq> ST_IGNORE"

definition valid_action :: "int \<Rightarrow> bool" where
  "valid_action n \<longleftrightarrow> 1 \<le> n \<and> n < int NSIG \<and> n \<noteq> SIGKILL \<and> sys_sig_valid n"

definition with_action :: "'k os \<Rightarrow> int \<Rightarrow> sigact \<Rightarrow> thread_data \<Rightarrow> thread_data" where
  "with_action E n a d =
     d\<lparr>signals := (signals d)(nat n := a),
       sig_pending := if discards a n then sig_pending d AND NOT (sigmask E n) else sig_pending d\<rparr>"

lemma sigaction_install:
  assumes "inited s" "threads s (run s) = Some t" "valid_action n" "iact \<noteq> NULL" "sigacts s iact = Some a"
  shows "pthread_sigaction E n iact NULL s =
    Some (Ret 0 (s\<lparr>threads := (threads s)(run s := Some (t\<lparr>tp := with_action E n a (tp t)\<rparr>))\<rparr>))"
proof -
  have "run s \<noteq> NULL" using assms(1) by (simp add: inited_def)
  then show ?thesis using assms
    by (auto simp: pthread_sigaction_def sigaction_with_def Let_def run_simps valid_action_def
        with_action_def discards_def retM_def)
qed

lemma sigaction_read:
  assumes "inited s" "threads s (run s) = Some t" "valid_action n" "oact \<noteq> NULL" "sigacts s oact = Some x"
  shows "pthread_sigaction E n NULL oact s =
    Some (Ret 0 (s\<lparr>sigacts := (sigacts s)(oact := Some (signals (tp t) (nat n)))\<rparr>))"
proof -
  have "run s \<noteq> NULL" using assms(1) by (simp add: inited_def)
  then show ?thesis using assms
    by (auto simp: pthread_sigaction_def sigaction_with_def Let_def run_simps valid_action_def retM_def)
qed

text \<open>
  An action \<^verbatim>\<open>pthread_sigaction\<close> installs is the one it reports afterwards, and the actions of
  the other signals stay.  An invalid signal, or \<^verbatim>\<open>SIGKILL\<close>, is refused with \<^verbatim>\<open>EINVAL\<close> and changes nothing else.
\<close>

lemma sigaction_roundtrip:
  assumes "inited s" and "threads s (run s) = Some t"
    and "iact \<noteq> NULL" and "sigacts s iact = Some a" and "oact \<noteq> NULL" and "sigacts s oact = Some x"
  shows "(valid_action n \<longrightarrow> (\<exists>s1 s2 t1.
      pthread_sigaction E n iact NULL s = Some (Ret 0 s1) \<and>
      pthread_sigaction E n NULL oact s1 = Some (Ret 0 s2) \<and> sigacts s2 oact = Some a \<and>
      threads s2 (run s) = Some t1 \<and> signals (tp t1) = (signals (tp t))(nat n := a) \<and>
      sig_blocked (tp t1) = sig_blocked (tp t))) \<and>
    (\<not> valid_action n \<longrightarrow> pthread_sigaction E n iact oact s = Some (Ret (-1) (with_errno EINVAL s)))"
proof (intro conjI impI)
  assume v: "valid_action n"
  let ?s = "s\<lparr>threads := (threads s)(run s := Some (t\<lparr>tp := with_action E n a (tp t)\<rparr>))\<rparr>"
  have one: "pthread_sigaction E n iact NULL s = Some (Ret 0 ?s)"
    by (rule sigaction_install [OF assms(1,2) v assms(3,4)])
  have a: "signals (with_action E n a (tp t)) (nat n) = a" by (simp add: with_action_def)
  have two: "pthread_sigaction E n NULL oact ?s
      = Some (Ret 0 (?s\<lparr>sigacts := (sigacts s)(oact := Some a)\<rparr>))"
    by (subst sigaction_read [where t = "t\<lparr>tp := with_action E n a (tp t)\<rparr>" and x = x])
      (use assms v in \<open>simp_all add: a\<close>)
  show "\<exists>s1 s2 t1.
      pthread_sigaction E n iact NULL s = Some (Ret 0 s1) \<and>
      pthread_sigaction E n NULL oact s1 = Some (Ret 0 s2) \<and> sigacts s2 oact = Some a \<and>
      threads s2 (run s) = Some t1 \<and> signals (tp t1) = (signals (tp t))(nat n := a) \<and>
      sig_blocked (tp t1) = sig_blocked (tp t)"
    by (intro exI [where x = ?s] exI [where x = "?s\<lparr>sigacts := (sigacts s)(oact := Some a)\<rparr>"]
        exI [where x = "t\<lparr>tp := with_action E n a (tp t)\<rparr>"] conjI, rule one, rule two)
      (simp_all add: with_action_def)
next
  assume "\<not> valid_action n"
  then show "pthread_sigaction E n iact oact s = Some (Ret (-1) (with_errno EINVAL s))"
    using assms by (auto simp: pthread_sigaction_def sigaction_with_def run_simps valid_action_def retM_def)
qed

text \<open>
  \<^verbatim>\<open>pthread_sigaction\<close> discards a pending signal when its default action is set and that action
  is \<^emph>\<open>not\<close> to ignore the signal; a pending signal whose default action is to ignore it stays pending.
\<close>

lemma sigaction_discards_inverted:
  assumes "inited s" and "threads s (run s) = Some t" and "valid_action n"
    and "iact \<noteq> NULL" and "sigacts s iact = Some a" and "sa_handler a = SIG_DFL"
  shows "\<exists>s1 t1. pthread_sigaction E n iact NULL s = Some (Ret 0 s1) \<and> threads s1 (run s) = Some t1 \<and>
    sig_pending (tp t1) = (if dfl_action (sig_info n) = ST_IGNORE then sig_pending (tp t)
                           else sig_pending (tp t) AND NOT (sigmask E n))"
  using sigaction_install [OF assms(1-5)] assms(6) by (simp add: with_action_def discards_def)


definition demo_installing :: "demo_kern world" where
  "demo_installing = demo_world\<lparr>sigacts := [80 \<mapsto> default_sigact, 81 \<mapsto> default_sigact]\<rparr>"

lemma sigaction_roundtrip_witness:
  "pthread_sigaction demo_os 9 80 81 demo_installing = Some (Ret (-1) (with_errno EINVAL demo_installing)) \<and>
   (\<exists>s1 s2 t1. pthread_sigaction demo_os 2 80 NULL demo_installing = Some (Ret 0 s1) \<and>
      pthread_sigaction demo_os 2 NULL 81 s1 = Some (Ret 0 s2) \<and> sigacts s2 81 = Some default_sigact \<and>
      threads s2 10 = Some t1)"
proof -
  note r = sigaction_roundtrip [of demo_installing demo_thread 80 default_sigact 81 default_sigact]
  have v: "\<not> valid_action 9" "valid_action 2"
    by (simp_all add: valid_action_def sys_sig_valid_def sys_sig_valid_table_def)
  show ?thesis using r [of 9 demo_os] r [of 2 demo_os] v by (auto simp: demo_installing_def)
qed

lemma sigaction_discards_inverted_witness:
  "\<exists>s1 t1. pthread_sigaction demo_os 16 80 NULL demo_installing = Some (Ret 0 s1) \<and>
    threads s1 10 = Some t1 \<and> sig_pending (tp t1) = 0"
proof -
  have v: "valid_action 16"
    by (simp add: valid_action_def sys_sig_valid_def sys_sig_valid_table_def)
  show ?thesis
    using sigaction_discards_inverted [of demo_installing demo_thread 16 80 default_sigact demo_os] v
    by (auto simp: demo_installing_def default_sigact_def)
qed

section \<open>Sending a signal to a waiting thread\<close>

text \<open>The state in which \<^verbatim>\<open>pthread_kill\<close> has marked the signal and posted the semaphore of the wait.\<close>

definition woken :: "'k os \<Rightarrow> addr \<Rightarrow> int \<Rightarrow> pthread \<Rightarrow> hev \<Rightarrow> 'k world \<Rightarrow> 'k world" where
  "woken E p n t ev s =
     (blocked E s)\<lparr>threads := (threads s)(p := Some (raised E n t)),
                   kern := kst (DosPostEventSem E ev) (blocked E s)\<rparr>"

lemma kill_delivers:
  assumes "p \<noteq> NULL" "threads s p = Some t" "th_state t \<in> {PS_SLEEP_WAIT, PS_SIGWAIT}"
    and "th_data t = W_Abort ev"
  shows "kill_deliver E p n (blocked E s) = Some (Ret () (woken E p n t ev s))"
  using assms
  by (auto simp: kill_deliver_def add_pending_def post_abort_def run_simps woken_def raised_def kst_def retM_def)


lemma kill_idle:
  assumes "quiet s" and "threads u (run s) = threads s (run s)" "cur u = cur s"
    "threadstore u = threadstore s" "signals_blocked u = signals_blocked s + 1"
  shows "seqM (deliver_if_pending E (run s)) f (unblocked E u) = f (unblocked E u)"
  using assms(1) by (rule quietE) (use assms in \<open>auto simp: deliver_if_pending_def run_simps unblocked_def\<close>)

lemma kill_idle_blocked:
  "quiet s \<Longrightarrow> seqM (deliver_if_pending E (run s)) f (unblocked E (blocked E s)) = f (unblocked E (blocked E s))"
  by (rule kill_idle) (simp_all add: blocked_def)

lemma kill_steps:
  "quiet s \<Longrightarrow> bindM (pthread_self E) g s = g (run s) s"
  "seqM (thread_kern_sig_block E) m u = m (blocked E u)"
  "seqM (thread_kern_sig_unblock E) m u = m (unblocked E u)"
  "live_list s xs \<Longrightarrow> bindM (find_thread (thread_link_list (blocked E s)) p) g (blocked E s) =
     g (if p \<in> set xs then p else NULL) (blocked E s)"
  by (simp_all add: block_run find_live_blocked del: sig_block_run sig_unblock_run)

lemma kill_found:
  assumes q: "quiet s" and l: "live_list s xs" and p: "p \<in> set xs" "threads s p = Some t"
    and n: "0 < n" "n < int NSIG" "sys_sig_valid n" "sa_handler (signals (tp t) (nat n)) \<noteq> SIG_IGN"
    and go: "kill_deliver E p n (blocked E s) = Some (Ret () s2)"
    and s2: "threads s2 (run s) = threads s (run s)" "cur s2 = cur s" "threadstore s2 = threadstore s"
      "signals_blocked s2 = signals_blocked s + 1"
  shows "pthread_kill E p n s = Some (Ret 0 (unblocked E s2))"
proof -
  have pn: "p \<noteq> NULL" using p live_list_alloc [OF l] by blast
  note idle = kill_idle [OF q s2, of E]
  note go = seqM_run [where m = "kill_deliver E p n", OF go]
  show ?thesis
    using p n pn
    by (simp add: pthread_kill_def kill_steps(1) [OF q] kill_steps(2,3) kill_steps(4) [OF l] run_simps go
        del: sig_block_run sig_unblock_run) (simp add: bindM_def idle retM_def)
qed

lemma kill_sleeper:
  assumes q: "quiet s" and l: "live_list s xs" and "p \<noteq> run s" and p: "p \<in> set xs" "threads s p = Some t"
    and t: "th_state t \<in> {PS_SLEEP_WAIT, PS_SIGWAIT}" "th_data t = W_Abort ev"
    and n: "0 < n" "n < int NSIG" "sys_sig_valid n" "sa_handler (signals (tp t) (nat n)) \<noteq> SIG_IGN"
  shows "pthread_kill E p n s = Some (Ret 0 (unblocked E (woken E p n t ev s)))"
proof (rule kill_found [OF q l p n])
  have "p \<noteq> NULL" using p live_list_alloc [OF l] by blast
  then show "kill_deliver E p n (blocked E s) = Some (Ret () (woken E p n t ev s))"
    by (rule kill_delivers [OF _ p(2) t])
qed (use assms(3) in \<open>simp_all add: woken_def blocked_def\<close>)

text \<open>A running thread other than the first only gets the signal marked and counted.\<close>

definition counted :: "'k os \<Rightarrow> addr \<Rightarrow> int \<Rightarrow> pthread \<Rightarrow> 'k world \<Rightarrow> 'k world" where
  "counted E p n t s =
     (blocked E s)\<lparr>threads := (threads s)(p := Some ((raised E n t)\<lparr>pend := pend t + 1\<rparr>))\<rparr>"

lemma kill_runner:
  assumes q: "quiet s" and l: "live_list s xs" and "p \<noteq> run s" and p: "p \<in> set xs" "threads s p = Some t"
    and t: "th_state t = PS_RUNNING" "threadid t \<noteq> 1"
    and n: "0 < n" "n < int NSIG" "sys_sig_valid n" "sa_handler (signals (tp t) (nat n)) \<noteq> SIG_IGN"
  shows "pthread_kill E p n s = Some (Ret 0 (unblocked E (counted E p n t s)))"
proof (rule kill_found [OF q l p n])
  have "p \<noteq> NULL" using p live_list_alloc [OF l] by blast
  then show "kill_deliver E p n (blocked E s) = Some (Ret () (counted E p n t s))"
    using p t by (simp add: kill_deliver_def add_pending_def count_pending_def run_simps counted_def raised_def)
qed (use assms(3) in \<open>simp_all add: counted_def blocked_def\<close>)

lemma kill_errors:
  assumes q: "quiet s" and l: "live_list s xs"
  shows "0 \<le> n \<Longrightarrow> n < int NSIG \<Longrightarrow> p \<notin> set xs \<Longrightarrow>
      pthread_kill E p n s = Some (Ret ESRCH (unblocked E (blocked E s)))"
    and "n < 0 \<or> int NSIG \<le> n \<Longrightarrow> pthread_kill E p n s = Some (Ret EINVAL s)"
    and "0 \<le> n \<Longrightarrow> n < int NSIG \<Longrightarrow> p \<in> set xs \<Longrightarrow> threads s p = Some t \<Longrightarrow>
      n = 0 \<or> sa_handler (signals (tp t) (nat n)) = SIG_IGN \<Longrightarrow>
      pthread_kill E p n s = Some (Ret 0 (unblocked E (blocked E s)))"
proof -
  note steps = kill_steps(1) [OF q] kill_steps(2,3) kill_steps(4) [OF l] run_simps
  show "0 \<le> n \<Longrightarrow> n < int NSIG \<Longrightarrow> p \<notin> set xs \<Longrightarrow>
      pthread_kill E p n s = Some (Ret ESRCH (unblocked E (blocked E s)))"
    by (simp add: pthread_kill_def steps del: sig_block_run sig_unblock_run)
      (simp add: bindM_def kill_idle_blocked [OF q] retM_def)
  show "n < 0 \<or> int NSIG \<le> n \<Longrightarrow> pthread_kill E p n s = Some (Ret EINVAL s)"
    using q by (auto simp: pthread_kill_def run_simps retM_def)
  assume a: "0 \<le> n" "n < int NSIG" "p \<in> set xs" "threads s p = Some t"
  have p: "p \<noteq> NULL" using a(3) live_list_alloc [OF l] by blast
  assume "n = 0 \<or> sa_handler (signals (tp t) (nat n)) = SIG_IGN"
  then show "pthread_kill E p n s = Some (Ret 0 (unblocked E (blocked E s)))"
  proof
    assume "n = 0"
    with a p show ?thesis
      by (simp add: pthread_kill_def steps del: sig_block_run sig_unblock_run)
        (simp add: bindM_def kill_idle_blocked [OF q] retM_def)
  next
    assume "sa_handler (signals (tp t) (nat n)) = SIG_IGN"
    with a p show ?thesis
      by (simp add: pthread_kill_def steps del: sig_block_run sig_unblock_run)
        (simp add: bindM_def kill_idle_blocked [OF q] retM_def)
  qed
qed

text \<open>
  C28: \<^verbatim>\<open>pthread_kill\<close> of a thread that sleeps or waits for a signal marks the signal pending in that
  thread and posts the event semaphore it waits on, inside one \<^verbatim>\<open>DosEnterMustComplete\<close> section; no
  other thread changes.  An address that is no thread on the list gives \<^verbatim>\<open>ESRCH\<close>, an invalid signal
  \<^verbatim>\<open>EINVAL\<close>, and an ignored signal, or signal 0, is only checked for.
\<close>

theorem kill_wakes_waiting:
  assumes "quiet s" and "live_list s xs" and "p \<noteq> run s"
  shows "(p \<in> set xs \<and> threads s p = Some t \<and> th_state t \<in> {PS_SLEEP_WAIT, PS_SIGWAIT} \<and>
      th_data t = W_Abort ev \<and> 0 < n \<and> n < int NSIG \<and> sys_sig_valid n \<and>
      sa_handler (signals (tp t) (nat n)) \<noteq> SIG_IGN \<longrightarrow>
      (\<exists>s'. pthread_kill E p n s = Some (Ret 0 s') \<and>
        threads s' = (threads s)(p := Some (raised E n t)) \<and> signals_blocked s' = signals_blocked s \<and>
        kern s' = snd (DosExitMustComplete E (cur s) (snd (DosPostEventSem E ev (cur s)
                    (snd (DosEnterMustComplete E (cur s) (kern s)))))))) \<and>
    (0 \<le> n \<and> n < int NSIG \<and> p \<notin> set xs \<longrightarrow>
      pthread_kill E p n s = Some (Ret ESRCH (unblocked E (blocked E s)))) \<and>
    (n < 0 \<or> int NSIG \<le> n \<longrightarrow> pthread_kill E p n s = Some (Ret EINVAL s)) \<and>
    (p \<in> set xs \<and> threads s p = Some t \<and> 0 \<le> n \<and> n < int NSIG \<and>
      (n = 0 \<or> sa_handler (signals (tp t) (nat n)) = SIG_IGN) \<longrightarrow>
      pthread_kill E p n s = Some (Ret 0 (unblocked E (blocked E s))))"
  using kill_sleeper [OF assms(1,2,3)] kill_errors [OF assms(1,2)]
  by (intro conjI impI) (force simp: woken_def unblocked_def blocked_def kst_def | blast)+

definition demo_dozing :: "demo_kern world" where
  "demo_dozing = demo_world\<lparr>threads := (threads demo_world)(20 := Some (demo_thread\<lparr>th_self := 2,
     threadid := 2, nxt := 10, th_state := PS_SLEEP_WAIT, th_data := W_Abort 91\<rparr>))\<rparr>"

theorem kill_wakes_waiting_witness:
  "\<exists>s'. pthread_kill demo_os 20 15 demo_dozing = Some (Ret 0 s') \<and>
     (\<exists>t. threads s' 20 = Some t \<and> sig_pending (tp t) = 0x8000) \<and> posts (kern s') 91 = 1"
proof -
  have s: "quiet demo_dozing" "live_list demo_dozing [20, 10]" "20 \<noteq> run demo_dozing"
    by (simp_all add: quiet_def demo_dozing_def live_list_def nlink_def inited_def)
  show ?thesis
    using kill_wakes_waiting [OF s, of "the (threads demo_dozing 20)" 91 15 demo_os]
    by (auto simp: demo_dozing_def raised_def sys_sig_valid_def sys_sig_valid_table_def
        default_sigact_def demo_nop_def)
qed

section \<open>A sleep that a signal interrupts\<close>

text \<open>The state in which \<^verbatim>\<open>pthread_sleep\<close> waits, on an event semaphore \<open>ev\<close> of its own.\<close>

definition dozing :: "hev \<Rightarrow> 'k \<Rightarrow> pthread \<Rightarrow> 'k world \<Rightarrow> 'k world" where
  "dozing ev k t s = s\<lparr>kern := k,
     threads := (threads s)(run s := Some (t\<lparr>th_data := W_Abort ev, th_state := PS_SLEEP_WAIT\<rparr>))\<rparr>"

text \<open>
  C29: \<^verbatim>\<open>pthread_sleep\<close> waits \<open>sec * 1000\<close> milliseconds, computed in 32 bits.  When the wait is cut short
  by a post, the handlers of the signals that have become pending run, in ascending order, before it
  returns \<^verbatim>\<open>EINTR\<close> with \<^verbatim>\<open>errno\<close> set; when the time is over it returns 0 and runs no handler.  The
  thread is running again either way.
\<close>

theorem sleep_interrupted:
  assumes "sig_bits E b" and "plain_handlers E c"
    and "inited s" and "threads s (run s) = Some t"
    and "DosCreateEventSem E 0 (cur s) (kern s) = ((0, ev), k)"
    and "DosWaitEventSem E ev (sec * 1000) (dozing ev k t s) = Some (Ret rc s1)"
    and "run s1 = run s" and "threads s1 (run s) = Some t1"
    and "\<forall>n\<in>set (taking b (tp t1)). caught (tp t1) n"
  shows "\<exists>s' t'. pthread_sleep E sec s = Some (Ret (if rc = 0 then word_of_int EINTR else 0) s') \<and>
    threads s' (run s) = Some t' \<and> th_state t' = PS_RUNNING \<and>
    (rc = 0 \<longrightarrow> errnos s' (cur s1) = EINTR \<and> taking b (tp t') = []) \<and>
    kern s' = snd (DosCloseEventSem E ev (cur s1)
      (if rc = 0 then fold (\<lambda>n. c (catcher (tp t1) n) n (cur s1)) (taking b (tp t1)) (kern s1)
       else kern s1))"
proof -
  have r: "run s \<noteq> NULL" using assms(3) by (simp add: inited_def)
  define s2 where "s2 = s1\<lparr>threads := (threads s1)(run s := Some (t1\<lparr>th_state := PS_RUNNING\<rparr>))\<rparr>"
  have "pthread_sleep E sec s = bindM (if rc \<noteq> 0 then retM 0
      else seqM (deliver_now E (run s)) (seqM (set_errno EINTR) (retM (word_of_int EINTR))))
    (\<lambda>result. seqM (kcall (DosCloseEventSem E ev)) (retM result)) s2"
    using assms(3,4,5,8) r
    by (simp add: bindM_run [where m = "DosWaitEventSem E ev (sec * 1000)", OF assms(6) [unfolded dozing_def]] pthread_sleep_def sleep_until_def begin_wait_def end_wait_def run_simps
        kres_def kst_def s2_def)
  note sleep = this
  show ?thesis
  proof (cases "rc = 0")
    case True
    let ?t = "t1\<lparr>th_state := PS_RUNNING, pend := 0\<rparr>"
    have d: "deliver_now E (run s) s2 = Some (Ret () (after_delivery E c (run s) ?t (taking b (tp t1)) s2))"
      using deliver_now_run [OF assms(1,2) r, of s2 "t1\<lparr>th_state := PS_RUNNING\<rparr>"] assms(9)
      by (simp add: s2_def)
    have "taking b (fold (acked E) ns d) = []" if "taking b d = ns" for ns d
      using that by (induction ns arbitrary: d) (auto simp: taking_acked [OF assms(1)])
    then show ?thesis using True sleep assms(7)
      by (simp add: run_simps retM_def seqM_run [where m = "deliver_now E (run s)", OF d])
        (simp add: after_delivery_def s2_def kst_def)
  next
    case False
    with sleep show ?thesis using assms(7)
      by (simp add: run_simps retM_def) (simp add: s2_def kst_def)
  qed
qed


text \<open>The demo sleeper: a wait that ends at once, with signal 15 posted, and one that times out.\<close>

definition demo_nap :: "demo_kern world" where
  "demo_nap = (demo_catching 0x8002 0)\<lparr>kern := demo_kern0\<lparr>posts := (\<lambda>_. 0)(100 := 1)\<rparr>\<rparr>"

lemma demo_catching_sel [simp]:
  "inited (demo_catching pnd blk)" "run (demo_catching pnd blk) = 10" "cur (demo_catching pnd blk) = 1"
  "threads (demo_catching pnd blk) 10 = Some (demo_caught pnd blk)" "kern (demo_catching pnd blk) = demo_kern0"
  by (simp_all add: demo_catching_def demo_caught_def)

theorem sleep_interrupted_witness:
  "\<exists>s'. pthread_sleep demo_os 5 demo_nap = Some (Ret 4 s') \<and> calls (kern s') = [(501, 1), (515, 15)]"
proof -
  let ?t = "demo_caught 0x8002 0"
  let ?k = "(kern demo_nap)\<lparr>next_handle := 101\<rparr>"
  let ?w = "dozing 100 ?k ?t demo_nap"
  let ?s1 = "?w\<lparr>kern := ?k\<lparr>posts := (posts ?k)(100 := 0)\<rparr>\<rparr>"
  let ?t1 = "?t\<lparr>th_data := W_Abort 100, th_state := PS_SLEEP_WAIT\<rparr>"
  have u: "[1..int NSIG - 1] = [1,2,3,4,5,6,7,8,9,10,11,12,13,14,15,16,17,18,19,20,21]"
    by (simp add: upto.simps)
  have nap: "inited demo_nap" "run demo_nap = 10" "cur demo_nap = 1" "threads demo_nap 10 = Some ?t"
    "kern demo_nap = demo_kern0\<lparr>posts := (\<lambda>_. 0)(100 := 1)\<rparr>"
    by (simp_all add: demo_nap_def)
  have t: "taking nat (tp ?t1) = [1, 15]" unfolding taking_def u by (simp add: takes_def bit_numeral_rec)
  have c: "\<forall>n\<in>set (taking nat (tp ?t1)). caught (tp ?t1) n" "catcher (tp ?t1) 1 = 501" "catcher (tp ?t1) 15 = 515"
    unfolding t by (simp_all add: caught_def catcher_def demo_caught_def sig_info_def sig_info_table_def)
  have new: "DosCreateEventSem demo_os 0 (cur demo_nap) (kern demo_nap) = ((0, 100), ?k)"
    by (simp add: nap demo_new_def)
  have wait: "DosWaitEventSem demo_os 100 (5 * 1000) ?w = Some (Ret 0 ?s1)"
    by (simp add: demo_wait_def dozing_def nap)
  have "threads demo_nap (run demo_nap) = Some ?t" "run ?s1 = run demo_nap"
    "threads ?s1 (run demo_nap) = Some ?t1"
    by (simp_all add: dozing_def nap)
  from sleep_interrupted [OF demo_sig_bits demo_plain_handlers nap(1) this(1) new wait this(2,3) c(1)]
  show ?thesis using nap c by (simp only: t) (auto simp: dozing_def demo_ok_def)
qed

end
