(* ===== verification/Terminate.thy ===== *)
theory Terminate
  imports Delivery
begin

text \<open>
  \<^verbatim>\<open>uthread_terminate\<close> of \<^verbatim>\<open>uthread_init.c\<close>: its loop over the threads stops and the process ends.
\<close>

section \<open>Ending the process\<close>

text \<open>States from which \<^verbatim>\<open>uthread_terminate\<close> takes a thread out before it ends the process.\<close>

definition stuck :: "pthread_state \<Rightarrow> bool" where
  "stuck st \<longleftrightarrow> st \<in> {PS_MUTEX_WAIT, PS_FDLR_WAIT, PS_FDLW_WAIT, PS_FDR_WAIT, PS_FDW_WAIT,
     PS_SELECT_WAIT, PS_SLEEP_WAIT, PS_WAIT_WAIT, PS_SIGWAIT, PS_SUSPENDED, PS_SIGTHREAD}"

text \<open>A waiting thread's data are those of its wait.\<close>

definition wait_ok :: "'k world \<Rightarrow> pthread \<Rightarrow> bool" where
  "wait_ok s t \<longleftrightarrow>
     (th_state t = PS_MUTEX_WAIT \<longrightarrow> (\<exists>m. th_data t = W_Mutex m \<and>
        (m \<noteq> NULL \<longrightarrow> (\<exists>pm. ptrs s m = Some pm \<and> (pm \<noteq> NULL \<longrightarrow> mutexes s pm \<noteq> None))))) \<and>
     (th_state t \<in> {PS_SELECT_WAIT, PS_SLEEP_WAIT, PS_WAIT_WAIT, PS_SIGWAIT} \<longrightarrow>
        (\<exists>ev. th_data t = W_Abort ev))"

lemma wait_ok_upd [simp]: "wait_ok (kern_update f s) = wait_ok s" "wait_ok (threads_update g s) = wait_ok s"
  by (simp_all add: wait_ok_def fun_eq_iff)

text \<open>The effect of one visit to a waiting thread \<open>q\<close>: it runs or is dead, and nothing else changes but the kernel.\<close>

definition let_go :: "addr \<Rightarrow> pthread \<Rightarrow> 'k world \<Rightarrow> 'k world \<Rightarrow> bool" where
  "let_go q t s s' \<longleftrightarrow> (\<exists>u. threads s' = (threads s)(q := Some u) \<and>
     th_state u \<in> {PS_RUNNING, PS_DEAD} \<and> nxt u = nxt t) \<and>
     mutexes s' = mutexes s \<and> ptrs s' = ptrs s \<and> thread_initial s' = thread_initial s"

lemma fun_upd_iff [simp]: "h(q := a) = h(q := b) \<longleftrightarrow> a = b"
  by (metis fun_upd_same)

lemma mark_run:
  assumes "q \<noteq> NULL" "threads s q = Some t"
  shows "\<exists>s'. terminate_mark E q s = Some (Ret True s') \<and> let_go q t s s'"
  using assms
  by (cases "threadid t = 1"; cases "kres (DosKillThread E (threadid t)) s = 0")
    (simp_all add: terminate_mark_def run_simps let_go_def retM_def)

lemma release_awaited_run:
  assumes "th_state t = PS_MUTEX_WAIT" "wait_ok s t"
  shows "\<exists>k. release_awaited E t s = Some (Ret () (s\<lparr>kern := k\<rparr>))"
proof -
  obtain m where m: "th_data t = W_Mutex m" and
    pm: "m \<noteq> NULL \<Longrightarrow> \<exists>pm. ptrs s m = Some pm \<and> (pm \<noteq> NULL \<longrightarrow> mutexes s pm \<noteq> None)"
    using assms by (auto simp: wait_ok_def)
  have skip: "\<exists>k. retM () s = Some (Ret () (s\<lparr>kern := k\<rparr>))"
    by (rule exI [where x = "kern s"]) (simp add: retM_def)
  show ?thesis
  proof (cases "m = NULL")
    case False
    then obtain p where p: "ptrs s m = Some p" "p \<noteq> NULL \<longrightarrow> mutexes s p \<noteq> None" using pm by blast
    show ?thesis
    proof (cases "p = NULL")
      case True
      with False p m skip show ?thesis by (simp add: release_awaited_def)
    next
      case False
      with p obtain mx where "mutexes s p = Some mx" by auto
      with False \<open>m \<noteq> NULL\<close> p m show ?thesis
        by (auto simp: release_awaited_def run_simps retM_def)
    qed
  qed (use m skip in \<open>simp add: release_awaited_def\<close>)
qed

lemma post_abort_run:
  assumes "th_state t \<in> {PS_SELECT_WAIT, PS_SLEEP_WAIT, PS_WAIT_WAIT, PS_SIGWAIT}" "wait_ok s t"
  shows "\<exists>k. post_abort E t s = Some (Ret () (s\<lparr>kern := k\<rparr>))"
  using assms by (auto simp: wait_ok_def post_abort_def run_simps retM_def)

lemma kern_then_mark:
  assumes "m s = Some (Ret () (s\<lparr>kern := k\<rparr>))" "q \<noteq> NULL" "threads s q = Some t"
  shows "\<exists>s'. seqM m (terminate_mark E q) s = Some (Ret True s') \<and> let_go q t s s'"
  using mark_run [of q "s\<lparr>kern := k\<rparr>" t E] assms
  by (auto simp: seqM_run [where m = m, OF assms(1)] let_go_def)

lemma visit_stuck:
  assumes q: "q \<noteq> NULL" "threads s q = Some t" and st: "stuck (th_state t)" and w: "wait_ok s t"
  shows "\<exists>s'. terminate_visit E q t s = Some (Ret True s') \<and> let_go q t s s'"
proof -
  have mut: ?thesis if "th_state t = PS_MUTEX_WAIT"
    using release_awaited_run [OF that w, of E] that kern_then_mark [OF _ q, of "release_awaited E t"]
    by (auto simp: terminate_visit_def)
  have ab: ?thesis if "th_state t \<in> {PS_SELECT_WAIT, PS_SLEEP_WAIT, PS_WAIT_WAIT, PS_SIGWAIT}"
    using post_abort_run [OF that w, of E] that kern_then_mark [OF _ q, of "post_abort E t"]
    by (auto simp: terminate_visit_def)
  have fd: ?thesis if "th_state t \<in> {PS_FDLR_WAIT, PS_FDLW_WAIT, PS_FDR_WAIT, PS_FDW_WAIT}"
    using mark_run [of q "s\<lparr>threads := (threads s)(q := Some (t\<lparr>pend := pend t + 1\<rparr>))\<rparr>"
        "t\<lparr>pend := pend t + 1\<rparr>" E] that q
    by (auto simp: terminate_visit_def let_go_def)
  have sus: ?thesis if "th_state t \<in> {PS_SUSPENDED, PS_SIGTHREAD}"
    using mark_run [of q "s\<lparr>kern := kst (DosResumeThread E (threadid t)) s\<rparr>" t E] that q
    by (auto simp: terminate_visit_def let_go_def run_simps)
  show ?thesis using mut ab fd sus st by (auto simp: stuck_def)
qed

definition still_stuck :: "'k world \<Rightarrow> addr list \<Rightarrow> addr list" where
  "still_stuck s ps = filter (\<lambda>q. case threads s q of Some t \<Rightarrow> stuck (th_state t) | None \<Rightarrow> False) ps"

lemma let_go_fewer:
  assumes f: "let_go q t s s'" and q: "q \<in> set ps" "threads s q = Some t" "stuck (th_state t)"
  shows "length (still_stuck s' ps) < length (still_stuck s ps)"
proof -
  obtain u where u: "threads s' = (threads s)(q := Some u)" "\<not> stuck (th_state u)"
    using f by (auto simp: let_go_def stuck_def)
  have "still_stuck s' ps = filter (\<lambda>p. p \<noteq> q) (still_stuck s ps)"
    using u by (auto simp: still_stuck_def intro!: filter_cong)
  moreover have "q \<in> set (still_stuck s ps)" using q by (simp add: still_stuck_def)
  ultimately show ?thesis by (simp add: length_filter_less)
qed

lemma let_go_chain:
  "let_go q t s s' \<Longrightarrow> threads s q = Some t \<Longrightarrow> nlink (threads s') = nlink (threads s)"
  by (auto simp: let_go_def)

lemma let_go_wait_ok:
  assumes "let_go q t s s'" "\<And>p v. p \<in> set ps \<Longrightarrow> threads s p = Some v \<Longrightarrow> wait_ok s v"
  shows "p \<in> set ps \<Longrightarrow> threads s' p = Some v \<Longrightarrow> wait_ok s' v"
  using assms by (auto simp: let_go_def wait_ok_def split: if_splits)

text \<open>What the loop does to the threads: those in other states are left as they are.\<close>

definition only_let_go :: "(addr \<Rightarrow> pthread option) \<Rightarrow> (addr \<Rightarrow> pthread option) \<Rightarrow> bool" where
  "only_let_go h h' \<longleftrightarrow> (\<forall>q t. h q = Some t \<longrightarrow>
     h' q = Some t \<or> stuck (th_state t) \<and> (\<exists>u. h' q = Some u \<and> th_state u \<in> {PS_RUNNING, PS_DEAD}))"

lemma only_let_go_refl [simp]: "only_let_go h h"
  by (simp add: only_let_go_def)

lemma only_let_go_trans:
  assumes "only_let_go h h1" "only_let_go h1 h2"
  shows "only_let_go h h2"
  unfolding only_let_go_def
proof (intro allI impI)
  fix q t
  assume "h q = Some t"
  then consider "h1 q = Some t" | u where "stuck (th_state t)" "h1 q = Some u" "th_state u \<in> {PS_RUNNING, PS_DEAD}"
    using assms(1) unfolding only_let_go_def by blast
  then show "h2 q = Some t \<or> stuck (th_state t) \<and> (\<exists>u. h2 q = Some u \<and> th_state u \<in> {PS_RUNNING, PS_DEAD})"
  proof cases
    case 1
    then show ?thesis using assms(2) unfolding only_let_go_def by blast
  next
    case 2
    then have "\<not> stuck (th_state u)" by (auto simp: stuck_def)
    then have "h2 q = Some u" using 2(2) assms(2) unfolding only_let_go_def by blast
    with 2 show ?thesis by blast
  qed
qed

lemma let_go_only: "let_go q t s s' \<Longrightarrow> threads s q = Some t \<Longrightarrow> stuck (th_state t) \<Longrightarrow> only_let_go (threads s) (threads s')"
  by (auto simp: let_go_def only_let_go_def split: if_splits)

lemma terminate_loop_ends:
  assumes "chain (nlink (threads s)) (thread_initial s) ps"
    and "\<And>q t. q \<in> set ps \<Longrightarrow> threads s q = Some t \<Longrightarrow> wait_ok s t"
    and "chain (nlink (threads s)) p xs" and "set xs \<subseteq> set ps"
  shows "\<exists>s'. terminate_loop E p s = Some (Ret () s') \<and>
    (\<forall>q\<in>set xs. \<exists>t. threads s' q = Some t \<and> \<not> stuck (th_state t)) \<and>
    only_let_go (threads s) (threads s') \<and>
    (\<forall>q. q \<notin> set ps \<longrightarrow> threads s' q = threads s q)"
  using assms
proof (induction "length (still_stuck s ps)" arbitrary: s p xs rule: less_induct)
  case less
  show ?case using less.prems(3,4)
  proof (induction xs arbitrary: p)
    case Nil
    then show ?case by (subst terminate_loop.simps) (simp add: retM_def)
  next
    case (Cons x xs)
    then obtain t where x: "p = x" "x \<noteq> NULL" "threads s x = Some t" "x \<in> set ps"
      "chain (nlink (threads s)) (nxt t) xs" by (auto simp: nlink_Some)
    show ?case
    proof (cases "stuck (th_state t)")
      case False
      then have "terminate_visit E x t = retM False"
        by (cases "th_state t") (simp_all add: terminate_visit_def stuck_def)
      then have "terminate_loop E p s = terminate_loop E (nxt t) s"
        using x by (subst terminate_loop.simps) simp
      moreover obtain s' where s': "terminate_loop E (nxt t) s = Some (Ret () s')"
        "\<forall>q\<in>set xs. \<exists>t. threads s' q = Some t \<and> \<not> stuck (th_state t)"
        "only_let_go (threads s) (threads s')"
        "\<forall>q. q \<notin> set ps \<longrightarrow> threads s' q = threads s q"
        using Cons.IH [OF x(5)] Cons.prems(2) by auto
      moreover have "threads s' x = Some t" using s'(3) x(3) False unfolding only_let_go_def by blast
      ultimately show ?thesis using False by auto
    next
      case True
      obtain s1 where s1: "terminate_visit E x t s = Some (Ret True s1)" "let_go x t s s1"
        using visit_stuck [OF x(2,3) True less.prems(2) [OF x(4,3)]] by blast
      have step: "terminate_loop E p s = terminate_loop E (thread_initial s1) s1"
        using x by (subst terminate_loop.simps)
          (simp add: bindM_run [where m = "terminate_visit E x t", OF s1(1)])
      have "chain (nlink (threads s1)) (thread_initial s1) ps"
        using less.prems(1) let_go_chain [OF s1(2) x(3)] s1(2) by (simp add: let_go_def)
      moreover have "wait_ok s1 v" if "q \<in> set ps" "threads s1 q = Some v" for q v
        by (rule let_go_wait_ok [OF s1(2) less.prems(2) that])
      ultimately
      obtain s' where s': "terminate_loop E (thread_initial s1) s1 = Some (Ret () s')"
        "\<forall>q\<in>set ps. \<exists>t. threads s' q = Some t \<and> \<not> stuck (th_state t)"
        "only_let_go (threads s1) (threads s')"
        "\<forall>q. q \<notin> set ps \<longrightarrow> threads s' q = threads s1 q"
        using less.hyps [OF let_go_fewer [OF s1(2) x(4,3) True], of "thread_initial s1" ps] by auto
      have "only_let_go (threads s) (threads s')"
        by (rule only_let_go_trans [OF let_go_only [OF s1(2) x(3) True] s'(3)])
      moreover have "threads s1 q = threads s q" if "q \<notin> set ps" for q
        using s1(2) x(4) that by (auto simp: let_go_def)
      ultimately show ?thesis using step s'(1,2,4) Cons.prems(2)
        by (intro exI [where x = s'] conjI ballI allI impI) auto
    qed
  qed
qed

text \<open>
  C20: \<^verbatim>\<open>uthread_terminate\<close> always ends the process: its loop over the threads stops, because each
  restart leaves one waiting thread less, and \<^verbatim>\<open>DosExit\<close> is reached.  Of the threads that can be reached
  from \<^verbatim>\<open>_thread_initial\<close> those that wait for a mutex, a file, an event or to be resumed have then been marked running or dead.
  Every other thread but the caller is as it was; in particular one that waits on a condition variable or for another
  thread to end, for which the loop has no case, is left in its wait.
\<close>

theorem terminate_ends_process:
  assumes "inited s" and "threads s (run s) = Some me"
    and "chain (nlink (threads s)) (thread_initial s) ps"
    and "\<forall>q\<in>set ps. \<forall>t. threads s q = Some t \<longrightarrow> wait_ok s t"
  shows "\<exists>s'. uthread_terminate E signo s = Some (Stop (Exit_Process 3) s') \<and>
    (\<forall>q t. q \<noteq> run s \<and> threads s q = Some t \<longrightarrow>
       (if q \<in> set ps \<and> stuck (th_state t)
        then \<exists>u. threads s' q = Some u \<and> th_state u \<in> {PS_RUNNING, PS_DEAD}
        else threads s' q = Some t)) \<and>
    (\<forall>q t. q \<noteq> run s \<and> threads s q = Some t \<and> th_state t \<in> {PS_COND_WAIT, PS_JOIN} \<longrightarrow> threads s' q = Some t)"
proof -
  have r: "run s \<noteq> NULL" using assms(1) by (simp add: inited_def)
  define s1 where "s1 = s\<lparr>kern := kst (DosSetPriority E) s,
    threads := (threads s)(run s := Some (me\<lparr>th_state := PS_DEAD\<rparr>))\<rparr>"
  have n: "nlink (threads s1) = nlink (threads s)" using assms(2) by (simp add: s1_def)
  have w: "wait_ok s1 t" if "q \<in> set ps" "threads s1 q = Some t" for q t
    using assms(4) that by (auto simp: s1_def wait_ok_def split: if_splits)
  obtain s' where s': "terminate_loop E (thread_initial s) s1 = Some (Ret () s')"
    "\<forall>q\<in>set ps. \<exists>t. threads s' q = Some t \<and> \<not> stuck (th_state t)"
    "only_let_go (threads s1) (threads s')" "\<forall>q. q \<notin> set ps \<longrightarrow> threads s' q = threads s1 q"
    using terminate_loop_ends [of s1 ps "thread_initial s" ps E] assms(3) w n
    by (auto simp: s1_def)
  have "uthread_terminate E signo s
      = seqM (terminate_loop E (thread_initial s)) (stopM (Exit_Process 3)) s1"
    using assms(1,2) r by (simp add: uthread_terminate_def run_simps s1_def)
  also have "\<dots> = Some (Stop (Exit_Process 3) s')"
    by (simp add: seqM_run [where m = "terminate_loop E (thread_initial s)", OF s'(1)] stopM_def)
  finally have e: "uthread_terminate E signo s = Some (Stop (Exit_Process 3) s')" .
  have o: "if q \<in> set ps \<and> stuck (th_state t) then \<exists>u. threads s' q = Some u \<and> th_state u \<in> {PS_RUNNING, PS_DEAD}
      else threads s' q = Some t" if q: "q \<noteq> run s" "threads s q = Some t" for q t
  proof -
    have s1: "threads s1 q = Some t" using q by (simp add: s1_def)
    then have "threads s' q = Some t \<or> stuck (th_state t) \<and> (\<exists>u. threads s' q = Some u \<and> th_state u \<in> {PS_RUNNING, PS_DEAD})"
      using s'(3) unfolding only_let_go_def by blast
    then show ?thesis using s1 s'(2,4) by fastforce
  qed
  have "\<not> stuck PS_COND_WAIT" "\<not> stuck PS_JOIN" by (simp_all add: stuck_def)
  with o have "threads s' q = Some t" if "q \<noteq> run s" "threads s q = Some t" "th_state t \<in> {PS_COND_WAIT, PS_JOIN}" for q t
    using that by fastforce
  with e o show ?thesis by blast
qed

text \<open>A sleeping initial thread, and one that waits on a condition variable; a third thread ends the process.\<close>

definition demo_sleepers :: "demo_kern world" where
  "demo_sleepers = demo_world\<lparr>threads := [
     10 \<mapsto> demo_thread\<lparr>nxt := 15, th_state := PS_SLEEP_WAIT, th_data := W_Abort 90\<rparr>,
     15 \<mapsto> demo_thread\<lparr>th_self := 3, threadid := 3, th_state := PS_COND_WAIT, th_data := W_Cond 32\<rparr>,
     20 \<mapsto> demo_thread\<lparr>th_self := 2, threadid := 2, nxt := 10, th_state := PS_RUNNING\<rparr>], cur := 2\<rparr>"

theorem terminate_ends_process_witness:
  "\<exists>s' t u. uthread_terminate demo_os 2 demo_sleepers = Some (Stop (Exit_Process 3) s') \<and>
    threads s' 10 = Some t \<and> th_state t \<in> {PS_RUNNING, PS_DEAD} \<and> threads s' 15 = Some u \<and> th_state u = PS_COND_WAIT"
proof -
  have r: "run demo_sleepers = 20" "inited demo_sleepers" by (simp_all add: demo_sleepers_def run_def inited_def)
  have c: "chain (nlink (threads demo_sleepers)) (thread_initial demo_sleepers) [10, 15]"
    by (simp add: demo_sleepers_def nlink_def)
  have w: "\<forall>q\<in>set [10, 15]. \<forall>t. threads demo_sleepers q = Some t \<longrightarrow> wait_ok demo_sleepers t"
    by (simp add: demo_sleepers_def wait_ok_def)
  have t: "threads demo_sleepers 20 = Some (demo_thread\<lparr>th_self := 2, threadid := 2, nxt := 10, th_state := PS_RUNNING\<rparr>)"
    "\<exists>t. threads demo_sleepers 10 = Some t \<and> stuck (th_state t)"
    "\<exists>u. threads demo_sleepers 15 = Some u \<and> th_state u = PS_COND_WAIT"
    by (simp_all add: demo_sleepers_def stuck_def)
  from terminate_ends_process [OF r(2) t(1) [folded r(1)] c w, of demo_os 2] obtain s' where
    s': "uthread_terminate demo_os 2 demo_sleepers = Some (Stop (Exit_Process 3) s')"
      "\<And>q t. q \<noteq> 20 \<Longrightarrow> threads demo_sleepers q = Some t \<Longrightarrow>
        (if q \<in> set [10, 15] \<and> stuck (th_state t) then \<exists>u. threads s' q = Some u \<and> th_state u \<in> {PS_RUNNING, PS_DEAD}
         else threads s' q = Some t)"
      "\<And>q t. q \<noteq> 20 \<Longrightarrow> threads demo_sleepers q = Some t \<Longrightarrow> th_state t \<in> {PS_COND_WAIT, PS_JOIN} \<Longrightarrow> threads s' q = Some t"
    unfolding r(1) by blast
  from t(2) s'(2) [of 10] have "\<exists>u. threads s' 10 = Some u \<and> th_state u \<in> {PS_RUNNING, PS_DEAD}" by auto
  moreover from t(3) s'(3) [of 15] have "\<exists>u. threads s' 15 = Some u \<and> th_state u = PS_COND_WAIT" by auto
  ultimately show ?thesis using s'(1) by blast
qed

end
