(* ===== verification/Locking.thy ===== *)
theory Locking
  imports Signals
begin

text \<open>
  \<^verbatim>\<open>locking\<close> of \<^verbatim>\<open>uthread_locking.c\<close>, which locks or unlocks a range of a file.  A lock that another process
  holds is asked for again every second until it is granted or a signal is pending for the
  calling thread.
\<close>

abbreviation F_RDLCK :: int where "F_RDLCK \<equiv> 1"
abbreviation F_UNLCK :: int where "F_UNLCK \<equiv> 2"
abbreviation F_WRLCK :: int where "F_WRLCK \<equiv> 3"
abbreviation ERROR_LOCK_VIOLATION :: apiret where "ERROR_LOCK_VIOLATION \<equiv> 33"

section \<open>The call\<close>

definition no_area :: filelock where
  "no_area = \<lparr>lOffset = 0, lRange = 0\<rparr>"

definition area_at :: "int \<Rightarrow> u32 \<Rightarrow> filelock" where
  "area_at off len = \<lparr>lOffset = off, lRange = if len \<noteq> 0 then len else 0x7fffffff\<rparr>"

text \<open>The areas to unlock and to lock.\<close>

definition lock_areas :: "'k os \<Rightarrow> int \<Rightarrow> int \<Rightarrow> u32 \<Rightarrow> ((filelock \<times> filelock) option, 'k world) prog" where
  "lock_areas E fd locktype len =
     (if locktype = F_UNLCK
      then bindM (kcall (libc_tell E fd)) (\<lambda>off. retM (Some (area_at off len, no_area)))
      else if locktype = F_RDLCK \<or> locktype = F_WRLCK
      then bindM (kcall (libc_tell E fd)) (\<lambda>off. retM (Some (no_area, area_at off len)))
      else retM None)"

text \<open>The first request; a file system without shared locks (175) is asked for an exclusive one.\<close>

definition lock_first ::
  "'k os \<Rightarrow> int \<Rightarrow> filelock \<Rightarrow> filelock \<Rightarrow> u32 \<Rightarrow> (apiret \<times> u32, 'k world) prog" where
  "lock_first E fd u l lockflags =
     bindM (DosSetFileLocks E fd u l 0 lockflags) (\<lambda>rc.
     if rc = 175 \<and> lockflags AND 1 \<noteq> 0
     then bindM (DosSetFileLocks E fd u l 0 (lockflags AND NOT 1)) (\<lambda>rc.
          retM (rc, lockflags AND NOT 1))
     else retM (rc, lockflags))"

partial_function (option) lock_wait ::
  "'k os \<Rightarrow> addr \<Rightarrow> int \<Rightarrow> filelock \<Rightarrow> filelock \<Rightarrow> u32 \<Rightarrow> apiret \<Rightarrow> 'k world \<Rightarrow> (apiret, 'k world) res option" where
  "lock_wait E self fd u l lockflags rc s =
     (if rc = ERROR_LOCK_VIOLATION
      then bindM (load threads self) (\<lambda>t s.
           if pend t = 0
           then bindM (DosSetFileLocks E fd u l 1000 lockflags) (\<lambda>rc s.
                lock_wait E self fd u l lockflags rc s) s
           else retM rc s) s
      else retM rc s)"

declare lock_wait.simps [code]

definition lock_errno :: "apiret \<Rightarrow> int option" where
  "lock_errno rc =
     (if rc = 1 then Some EPERM
      else if rc = 6 then Some EBADF
      else if rc = 36 then Some ENOLCK
      else if rc = 87 then Some EINVAL
      else if rc = 95 then Some EINTR
      else if rc = 174 \<or> rc = 175 then Some EPERM
      else None)"

definition lock_done :: "apiret \<Rightarrow> (int, 'k world) prog" where
  "lock_done rc =
     seqM (case lock_errno rc of None \<Rightarrow> retM () | Some e \<Rightarrow> set_errno e)
      (retM (if rc = 0 then 0 else -1))"

definition lock_state_of :: "int \<Rightarrow> pthread_state" where
  "lock_state_of locktype = (if locktype = F_RDLCK then PS_FDLR_WAIT else PS_FDLW_WAIT)"

definition locking :: "'k os \<Rightarrow> int \<Rightarrow> int \<Rightarrow> u32 \<Rightarrow> (int, 'k world) prog" where
  "locking E fd locktype len =
     bindM (pthread_self E) (\<lambda>self.
     bindM (lock_areas E fd locktype len) (\<lambda>areas.
     case areas of
       None \<Rightarrow> seqM (set_errno EINVAL) (retM (-1))
     | Some (u, l) \<Rightarrow>
         bindM (lock_first E fd u l (if locktype = F_RDLCK then 1 else 0)) (\<lambda>(rc, lockflags).
         bindM (if locktype \<noteq> F_UNLCK
                then seqM (upd_thread self (\<lambda>t. t\<lparr>th_state := lock_state_of locktype\<rparr>))
                    (bindM (lock_wait E self fd u l lockflags rc) (\<lambda>rc.
                     seqM (upd_thread self (\<lambda>t. t\<lparr>th_state := PS_RUNNING\<rparr>))
                    (seqM (whenM (rc = ERROR_LOCK_VIOLATION) (set_errno EINTR)) (retM rc))))
                else seqM (whenM (rc = ERROR_LOCK_VIOLATION) (set_errno EAGAIN)) (retM rc)) (\<lambda>rc.
          lock_done rc))))"

section \<open>Waiting for a lock\<close>

text \<open>The requests \<open>0, \<dots>, n - 1\<close>, made in the states \<open>w i\<close>, find the range locked and no signal pending.\<close>

definition busy_rounds ::
  "'k os \<Rightarrow> addr \<Rightarrow> (apiret, 'k world) prog \<Rightarrow> (nat \<Rightarrow> 'k world) \<Rightarrow> nat \<Rightarrow> bool" where
  "busy_rounds E p req w n \<longleftrightarrow>
     (\<forall>i<n. (\<exists>t. threads (w i) p = Some t \<and> pend t = 0) \<and>
            req (w i) = Some (Ret ERROR_LOCK_VIOLATION (w (Suc i))))"

lemma lock_wait_rounds:
  assumes "p \<noteq> NULL" and "busy_rounds E p (DosSetFileLocks E fd u l 1000 fl) w n"
  shows "lock_wait E p fd u l fl ERROR_LOCK_VIOLATION (w 0) =
    lock_wait E p fd u l fl ERROR_LOCK_VIOLATION (w n)"
  using assms(2)
proof (induction n)
  case (Suc n)
  then have w: "\<exists>t. threads (w n) p = Some t \<and> pend t = 0"
    "DosSetFileLocks E fd u l 1000 fl (w n) = Some (Ret ERROR_LOCK_VIOLATION (w (Suc n)))"
    by (auto simp: busy_rounds_def)
  have "lock_wait E p fd u l fl ERROR_LOCK_VIOLATION (w n) =
      lock_wait E p fd u l fl ERROR_LOCK_VIOLATION (w (Suc n))"
    using assms(1) w(1) by (subst lock_wait.simps)
      (auto simp: run_simps bindM_run [where m = "DosSetFileLocks E fd u l 1000 fl", OF w(2)])
  with Suc show ?case by (simp add: busy_rounds_def)
qed simp

lemma lock_wait_interrupted:
  "p \<noteq> NULL \<Longrightarrow> threads s p = Some t \<Longrightarrow> pend t \<noteq> 0 \<Longrightarrow>
     lock_wait E p fd u l fl ERROR_LOCK_VIOLATION s = Some (Ret ERROR_LOCK_VIOLATION s)"
  by (subst lock_wait.simps) (simp add: run_simps retM_def)

lemma lock_wait_answered:
  assumes "p \<noteq> NULL" "threads s p = Some t" "pend t = 0"
    and r: "DosSetFileLocks E fd u l 1000 fl s = Some (Ret rc s2)" "rc \<noteq> ERROR_LOCK_VIOLATION"
  shows "lock_wait E p fd u l fl ERROR_LOCK_VIOLATION s = Some (Ret rc s2)"
  using assms(1-3,5)
  by (subst lock_wait.simps) (simp add: run_simps retM_def lock_wait.simps [of E p fd u l fl rc]
    bindM_run [where m = "DosSetFileLocks E fd u l 1000 fl", OF r(1)])

lemma locking_start:
  assumes s: "inited s" and ty: "ty = F_RDLCK \<or> ty = F_WRLCK"
    and k: "libc_tell E fd (cur s) (kern s) = (off, k)"
    and first: "DosSetFileLocks E fd no_area (area_at off len) 0 (if ty = F_RDLCK then 1 else 0) (s\<lparr>kern := k\<rparr>)
      = Some (Ret ERROR_LOCK_VIOLATION s1)"
    and t1: "threads s1 (run s) = Some t1"
  shows "locking E fd ty len s =
    bindM (lock_wait E (run s) fd no_area (area_at off len) (if ty = F_RDLCK then 1 else 0) ERROR_LOCK_VIOLATION)
     (\<lambda>rc. seqM (upd_thread (run s) (\<lambda>t. t\<lparr>th_state := PS_RUNNING\<rparr>))
      (seqM (whenM (rc = ERROR_LOCK_VIOLATION) (set_errno EINTR)) (lock_done rc)))
     (s1\<lparr>threads := (threads s1)(run s := Some (t1\<lparr>th_state := lock_state_of ty\<rparr>))\<rparr>)"
proof -
  have r: "run s \<noteq> NULL" using s by (simp add: inited_def)
  let ?fl = "if ty = F_RDLCK then 1 else 0 :: u32"
  have lf: "lock_first E fd no_area (area_at off len) ?fl (s\<lparr>kern := k\<rparr>) = Some (Ret (ERROR_LOCK_VIOLATION, ?fl) s1)"
    by (simp add: lock_first_def retM_def
      bindM_run [where m = "DosSetFileLocks E fd no_area (area_at off len) 0 ?fl", OF first])
  have "ty \<noteq> F_UNLCK" using ty by auto
  with s ty k r t1 show ?thesis
    by (simp add: locking_def lock_areas_def run_simps kres_def kst_def
      bindM_run [where m = "lock_first E fd no_area (area_at off len) ?fl", OF lf])
qed

text \<open>
  C34: A lock that is not free is waited for.  \<^verbatim>\<open>locking\<close> asks again as long as the range is locked and no
  signal is pending, for any number of rounds; when a request is granted it returns 0, and
  when a signal has become pending it gives up with \<^verbatim>\<open>EINTR\<close>.  The thread is running
  again in both cases.
\<close>

theorem locking_waits:
  assumes "inited s" and "ty = F_RDLCK \<or> ty = F_WRLCK"
    and "libc_tell E fd (cur s) (kern s) = (off, k)"
    and "fl = (if ty = F_RDLCK then 1 else 0)"
    and "DosSetFileLocks E fd no_area (area_at off len) 0 fl (s\<lparr>kern := k\<rparr>) = Some (Ret ERROR_LOCK_VIOLATION s1)"
    and "threads s1 (run s) = Some t1"
    and "w 0 = s1\<lparr>threads := (threads s1)(run s := Some (t1\<lparr>th_state := lock_state_of ty\<rparr>))\<rparr>"
    and "busy_rounds E (run s) (DosSetFileLocks E fd no_area (area_at off len) 1000 fl) w n"
    and "threads (w n) (run s) = Some tn"
  shows "(pend tn \<noteq> 0 \<longrightarrow> (\<exists>s'. locking E fd ty len s = Some (Ret (-1) s') \<and> errnos s' (cur (w n)) = EINTR \<and>
      threads s' = (threads (w n))(run s := Some (tn\<lparr>th_state := PS_RUNNING\<rparr>)) \<and> kern s' = kern (w n))) \<and>
    (\<forall>s2 t2. pend tn = 0 \<and> threads s2 (run s) = Some t2 \<and>
      DosSetFileLocks E fd no_area (area_at off len) 1000 fl (w n) = Some (Ret 0 s2) \<longrightarrow>
      locking E fd ty len s = Some (Ret 0 (s2\<lparr>threads := (threads s2)(run s := Some (t2\<lparr>th_state := PS_RUNNING\<rparr>))\<rparr>)))"
proof -
  have r: "run s \<noteq> NULL" using assms(1) by (simp add: inited_def)
  let ?wait = "lock_wait E (run s) fd no_area (area_at off len) fl ERROR_LOCK_VIOLATION"
  have start: "locking E fd ty len s = bindM ?wait
     (\<lambda>rc. seqM (upd_thread (run s) (\<lambda>t. t\<lparr>th_state := PS_RUNNING\<rparr>))
      (seqM (whenM (rc = ERROR_LOCK_VIOLATION) (set_errno EINTR)) (lock_done rc))) (w 0)"
    unfolding assms(4,7) by (rule locking_start) (use assms in auto)
  note rounds = lock_wait_rounds [OF r assms(8)]
  have inter: "?wait (w 0) = Some (Ret ERROR_LOCK_VIOLATION (w n))" if "pend tn \<noteq> 0"
    using rounds lock_wait_interrupted [OF r assms(9) that] by simp
  have grant: "?wait (w 0) = Some (Ret 0 s2)"
    if "pend tn = 0" "DosSetFileLocks E fd no_area (area_at off len) 1000 fl (w n) = Some (Ret 0 s2)" for s2
    using rounds lock_wait_answered [OF r assms(9) that] by simp
  show ?thesis
  proof (intro conjI allI impI)
    assume "pend tn \<noteq> 0"
    from start [unfolded bindM_run [where m = ?wait, OF inter [OF this]]]
    show "\<exists>s'. locking E fd ty len s = Some (Ret (-1) s') \<and> errnos s' (cur (w n)) = EINTR \<and>
      threads s' = (threads (w n))(run s := Some (tn\<lparr>th_state := PS_RUNNING\<rparr>)) \<and> kern s' = kern (w n)"
      using r assms(9) by (simp add: run_simps lock_done_def lock_errno_def retM_def)
  next
    fix s2 t2
    assume a: "pend tn = 0 \<and> threads s2 (run s) = Some t2 \<and>
      DosSetFileLocks E fd no_area (area_at off len) 1000 fl (w n) = Some (Ret 0 s2)"
    then have "?wait (w 0) = Some (Ret 0 s2)" using grant by blast
    from start [unfolded bindM_run [where m = ?wait, OF this]]
    show "locking E fd ty len s = Some (Ret 0 (s2\<lparr>threads := (threads s2)(run s := Some (t2\<lparr>th_state := PS_RUNNING\<rparr>))\<rparr>))"
      using r a by (simp add: run_simps lock_done_def lock_errno_def retM_def)
  qed
qed


text \<open>A file that is locked at the first request, and a signal that comes during the second.\<close>

definition busy_file :: "int \<Rightarrow> filelock \<Rightarrow> filelock \<Rightarrow> u32 \<Rightarrow> u32 \<Rightarrow> (apiret, 'k world) prog" where
  "busy_file fd u l tmo fl s =
     Some (Ret ERROR_LOCK_VIOLATION (if tmo = 0 then s else
       s\<lparr>threads := (threads s)(run s := map_option (\<lambda>t. t\<lparr>pend := pend t + 1\<rparr>) (threads s (run s)))\<rparr>))"

theorem locking_waits_witness:
  "\<exists>s'. locking (demo_os\<lparr>DosSetFileLocks := busy_file\<rparr>) 5 F_WRLCK 100 demo_world = Some (Ret (-1) s') \<and>
     errnos s' 1 = EINTR"
proof -
  let ?E = "demo_os\<lparr>DosSetFileLocks := busy_file\<rparr>"
  let ?w0 = "demo_world\<lparr>threads := (threads demo_world)(10 := Some (demo_thread\<lparr>th_state := PS_FDLW_WAIT\<rparr>))\<rparr>"
  let ?t1 = "demo_thread\<lparr>th_state := PS_FDLW_WAIT, pend := 1\<rparr>"
  let ?w1 = "demo_world\<lparr>threads := (threads demo_world)(10 := Some ?t1)\<rparr>"
  have id: "demo_world\<lparr>kern := demo_kern0\<rparr> = demo_world" by (simp add: demo_world_def)
  have b: "busy_rounds ?E (run demo_world) (DosSetFileLocks ?E 5 no_area (area_at 0 100) 1000 0)
      (\<lambda>i. if i = 0 then ?w0 else ?w1) 1"
    by (simp add: busy_rounds_def busy_file_def)
  show ?thesis
    using locking_waits [of demo_world F_WRLCK ?E 5 0 demo_kern0 0 100 demo_world demo_thread, OF _ _ _ _ _ _ _ b, of ?t1]
    by (auto simp: id busy_file_def lock_state_of_def)
qed

section \<open>Unlocking, errors, and file systems without shared locks\<close>

text \<open>
  The result of \<^verbatim>\<open>locking\<close> is 0 exactly when the operating system's last answer is 0.  Unlocking
  asks once, reports a failure by an error number and never waits; an operation that is neither
  a lock nor an unlock is refused with \<^verbatim>\<open>EINVAL\<close> before the system is asked; a shared lock
  that the file system does not know is replaced by an exclusive one.
\<close>

lemma locking_answers:
  assumes "inited s" and "threads s (run s) = Some t"
    and "libc_tell E fd (cur s) (kern s) = (off, k)"
  shows "(ty \<notin> {F_RDLCK, F_UNLCK, F_WRLCK} \<longrightarrow> locking E fd ty len s = Some (Ret (-1) (with_errno EINVAL s))) \<and>
    (\<forall>rc s1. DosSetFileLocks E fd (area_at off len) no_area 0 0 (s\<lparr>kern := k\<rparr>) = Some (Ret rc s1) \<longrightarrow>
      locking E fd F_UNLCK len s = Some (if rc = 0 then Ret 0 s1
        else Ret (-1) (case if rc = ERROR_LOCK_VIOLATION then Some EAGAIN else lock_errno rc of
                         None \<Rightarrow> s1 | Some e \<Rightarrow> with_errno e s1))) \<and>
    (\<forall>s1 s2 t2. DosSetFileLocks E fd no_area (area_at off len) 0 1 (s\<lparr>kern := k\<rparr>) = Some (Ret 175 s1) \<and>
      DosSetFileLocks E fd no_area (area_at off len) 0 0 s1 = Some (Ret 0 s2) \<and> threads s2 (run s) = Some t2 \<longrightarrow>
      locking E fd F_RDLCK len s = Some (Ret 0 (s2\<lparr>threads := (threads s2)(run s := Some (t2\<lparr>th_state := PS_RUNNING\<rparr>))\<rparr>)))"
proof (intro conjI allI impI)
  assume "ty \<notin> {F_RDLCK, F_UNLCK, F_WRLCK}"
  then show "locking E fd ty len s = Some (Ret (-1) (with_errno EINVAL s))"
    using assms(1) by (simp add: locking_def lock_areas_def run_simps retM_def)
next
  fix rc s1
  assume r: "DosSetFileLocks E fd (area_at off len) no_area 0 0 (s\<lparr>kern := k\<rparr>) = Some (Ret rc s1)"
  show "locking E fd F_UNLCK len s = Some (if rc = 0 then Ret 0 s1
        else Ret (-1) (case if rc = ERROR_LOCK_VIOLATION then Some EAGAIN else lock_errno rc of
                         None \<Rightarrow> s1 | Some e \<Rightarrow> with_errno e s1))"
    using assms(1,3)
    by (auto simp: locking_def lock_areas_def lock_first_def run_simps kres_def kst_def lock_done_def lock_errno_def
        retM_def bindM_run [where m = "DosSetFileLocks E fd (area_at off len) no_area 0 0", OF r])
next
  fix s1 s2 t2
  assume a: "DosSetFileLocks E fd no_area (area_at off len) 0 1 (s\<lparr>kern := k\<rparr>) = Some (Ret 175 s1) \<and>
      DosSetFileLocks E fd no_area (area_at off len) 0 0 s1 = Some (Ret 0 s2) \<and> threads s2 (run s) = Some t2"
  have "run s \<noteq> NULL" using assms(1) by (simp add: inited_def)
  moreover have "lock_first E fd no_area (area_at off len) 1 (s\<lparr>kern := k\<rparr>) = Some (Ret (0, 0) s2)"
    using a by (simp add: lock_first_def bindM_def retM_def)
  note lf = bindM_run [where m = "lock_first E fd no_area (area_at off len) 1", OF this]
  have "lock_wait E (run s) fd no_area (area_at off len) 0 0 u = Some (Ret 0 u)" for u
    by (subst lock_wait.simps) (simp add: retM_def)
  note lw = bindM_run [where m = "lock_wait E (run s) fd no_area (area_at off len) 0 0", OF this]
  ultimately show "locking E fd F_RDLCK len s =
      Some (Ret 0 (s2\<lparr>threads := (threads s2)(run s := Some (t2\<lparr>th_state := PS_RUNNING\<rparr>))\<rparr>))"
    using assms(1,3) a
    by (simp add: locking_def lock_areas_def run_simps kres_def kst_def lf lw lock_done_def lock_errno_def retM_def)
qed

lemma locking_answers_witness:
  "locking demo_os 5 7 100 demo_world = Some (Ret (-1) (with_errno EINVAL demo_world)) \<and>
   locking demo_os 5 F_UNLCK 100 demo_world = Some (Ret 0 demo_world)"
proof -
  have id: "demo_world\<lparr>kern := demo_kern0\<rparr> = demo_world" by (simp add: demo_world_def)
  show ?thesis
    using locking_answers [of demo_world demo_thread demo_os 5 0 demo_kern0 7 100]
    by (simp add: id retM_def)
qed

end
