(* ===== verification/Dl.thy ===== *)
theory Dl
  imports Signals
begin

text \<open>
  Loading modules at run time: \<^verbatim>\<open>uthread_dlopen.c\<close>, and the same functions under their standard
  names in \<^verbatim>\<open>dl_dlopen.c\<close>, \<^verbatim>\<open>dl_dlsym.c\<close>, \<^verbatim>\<open>dl_dlclose.c\<close> and \<^verbatim>\<open>dl_dlerror.c\<close>, as compiled for threads.
  The error message is kept in the 128 bytes of the thread structure's \<^verbatim>\<open>dlerror\<close>.
\<close>

section \<open>The formats of the messages\<close>

fun digits :: "nat \<Rightarrow> string" where
  "digits n = (if n < 10 then [char_of (48 + n)] else digits (n div 10) @ [char_of (48 + n mod 10)])"

declare digits.simps [simp del]

text \<open>The directive \<^verbatim>\<open>%d\<close> of \<^verbatim>\<open>sprintf\<close>.\<close>

definition decimal :: "int \<Rightarrow> string" where
  "decimal i = (if i < 0 then ''-'' @ digits (nat (- i)) else digits (nat i))"

definition quoted :: "string \<Rightarrow> string" where
  "quoted m = [CHR 0x22] @ m @ [CHR 0x22]"

definition loading_msg :: "int \<Rightarrow> string \<Rightarrow> string" where
  "loading_msg e m = ''error '' @ decimal e @ '' loading module '' @ quoted m"

definition opening_msg :: "int \<Rightarrow> string \<Rightarrow> string" where
  "opening_msg e m = ''error '' @ decimal e @ '' opening module '' @ quoted m"

definition handle_msg :: "int \<Rightarrow> string" where
  "handle_msg h = ''invalid module handle '' @ decimal h"

definition function_msg :: "string \<Rightarrow> string \<Rightarrow> string" where
  "function_msg a b = ''no function '' @ quoted a @ '' in module '' @ quoted b"

text \<open>\<^verbatim>\<open>sprintf\<close> into \<^verbatim>\<open>self->dlerror\<close>: the terminating zero needs a byte as well.\<close>

definition dlerror_size :: nat where
  "dlerror_size = 128"

definition set_dlerror :: "addr \<Rightarrow> string \<Rightarrow> (unit, 'k world) prog" where
  "set_dlerror p m =
     (if length m < dlerror_size then upd_thread p (\<lambda>t. t\<lparr>th_dlerror := m\<rparr>) else faultM Out_Of_Bounds)"

section \<open>The calls\<close>

definition load_errno :: "apiret \<Rightarrow> int" where
  "load_errno rc =
     (if rc \<in> {2, 3, 26} then ENOENT
      else if rc = 4 then ENFILE
      else if rc = 5 then EACCES
      else if rc = 8 then ENOMEM
      else if rc \<in> {32, 33, 36, 108} then EBUSY
      else if rc = 95 then EINTR
      else if rc = 123 then ENAMETOOLONG
      else ENOEXEC)"

text \<open>\<open>load_module\<close> is the body that \<^verbatim>\<open>pthread_dlopen\<close> and \<^verbatim>\<open>dlopen\<close> share; they cast the handle to \<^verbatim>\<open>int\<close> and \<^verbatim>\<open>void *\<close>.\<close>

definition load_module :: "'k os \<Rightarrow> string \<Rightarrow> (addr, 'k world) prog" where
  "load_module E dlname =
     bindM (pthread_self E) (\<lambda>self.
     bindM (kcall (DosLoadModule E 79 dlname)) (\<lambda>(rc, pszmodule, handle).
     if rc \<noteq> 0
     then seqM (set_errno (load_errno rc))
         (seqM (set_dlerror self (if pszmodule \<noteq> [] then loading_msg (load_errno rc) pszmodule
                                  else opening_msg (load_errno rc) dlname))
          (retM NULL))
     else retM handle))"

definition to_int :: "addr \<Rightarrow> int" where
  "to_int a = sint (word_of_nat a :: u32)"

definition to_handle :: "int \<Rightarrow> addr" where
  "to_handle i = unat (word_of_int i :: u32)"

definition pthread_dlopen :: "'k os \<Rightarrow> string \<Rightarrow> int \<Rightarrow> (int, 'k world) prog" where
  "pthread_dlopen E dlname flags = bindM (load_module E dlname) (\<lambda>h. retM (to_int h))"

definition dlopen :: "'k os \<Rightarrow> string \<Rightarrow> int \<Rightarrow> (addr, 'k world) prog" where
  "dlopen E dlname flags = load_module E dlname"

definition pthread_dlerror :: "'k os \<Rightarrow> (string, 'k world) prog" where
  "pthread_dlerror E = bindM (pthread_self E) (\<lambda>self. bindM (load threads self) (\<lambda>t. retM (th_dlerror t)))"

definition dlerror :: "'k os \<Rightarrow> (string, 'k world) prog" where
  "dlerror E = bindM (pthread_self E) (\<lambda>self. bindM (load threads self) (\<lambda>t. retM (th_dlerror t)))"

definition pthread_dlclose :: "'k os \<Rightarrow> int \<Rightarrow> (unit, 'k world) prog" where
  "pthread_dlclose E handle = seqM (kcall (DosFreeModule E (to_handle handle))) (retM ())"

definition dlclose :: "'k os \<Rightarrow> addr \<Rightarrow> (unit, 'k world) prog" where
  "dlclose E handle = seqM (kcall (DosFreeModule E handle)) (retM ())"

text \<open>\<open>shown\<close> is the handle as \<^verbatim>\<open>%d\<close> prints it.\<close>

definition find_symbol :: "'k os \<Rightarrow> addr \<Rightarrow> int \<Rightarrow> string \<Rightarrow> (addr, 'k world) prog" where
  "find_symbol E handle shown fnname =
     bindM (pthread_self E) (\<lambda>self.
     bindM (kcall (DosQueryProcAddr E handle fnname)) (\<lambda>(rc, func).
     if rc \<noteq> 0
     then seqM (if rc = ERROR_INVALID_HANDLE
                then seqM (set_dlerror self (handle_msg shown)) (set_errno EINVAL)
                else bindM (kcall (DosQueryModuleName E handle 79)) (\<lambda>(rc, pszmodule).
                     seqM (set_dlerror self (function_msg pszmodule fnname)) (set_errno ENOSYS)))
         (retM NULL)
     else retM func))"

definition pthread_dlsym :: "'k os \<Rightarrow> int \<Rightarrow> string \<Rightarrow> (addr, 'k world) prog" where
  "pthread_dlsym E handle fnname = find_symbol E (to_handle handle) handle fnname"

definition dlsym :: "'k os \<Rightarrow> addr \<Rightarrow> string \<Rightarrow> (addr, 'k world) prog" where
  "dlsym E handle fnname = find_symbol E handle (to_int handle) fnname"

section \<open>What the calls report\<close>

lemma digits_length: "n < 10 ^ Suc k \<Longrightarrow> length (digits n) \<le> Suc k"
proof (induction k arbitrary: n)
  case 0
  then show ?case by (subst digits.simps) simp
next
  case (Suc k)
  have "length (digits (n div 10)) \<le> Suc k" by (rule Suc.IH) (use Suc.prems in auto)
  then show ?case by (subst digits.simps) simp
qed

text \<open>The numeral is the number: \<open>digits\<close> can be read back.\<close>

definition digit_value :: "char \<Rightarrow> nat" where
  "digit_value c = of_char c - 48"

definition number :: "string \<Rightarrow> nat" where
  "number ds = fold (\<lambda>c n. 10 * n + digit_value c) ds 0"

lemma number_digits: "number (digits n) = n"
proof (induction n rule: digits.induct)
  case (1 n)
  have d: "digit_value (char_of (48 + m)) = m" if "m < 10" for m
    using that by (simp add: digit_value_def)
  show ?case
  proof (cases "n < 10")
    case True
    then show ?thesis by (subst digits.simps) (simp add: number_def d)
  next
    case False
    then have "number (digits n) = 10 * number (digits (n div 10)) + digit_value (char_of (48 + n mod 10))"
      by (subst digits.simps) (simp add: number_def)
    then show ?thesis using 1 [OF False] d [of "n mod 10"] by simp
  qed
qed

lemma set_dlerror_run:
  "p \<noteq> NULL \<Longrightarrow> threads s p = Some t \<Longrightarrow> length m < dlerror_size \<Longrightarrow>
     seqM (set_dlerror p m) f s = f (s\<lparr>threads := (threads s)(p := Some (t\<lparr>th_dlerror := m\<rparr>))\<rparr>)"
  by (simp add: set_dlerror_def)

lemma load_errno_known: "load_errno rc \<in> {ENOENT, ENFILE, EACCES, ENOMEM, EBUSY, EINTR, ENAMETOOLONG, ENOEXEC}"
  by (simp add: load_errno_def)

lemma opening_msg_length: "length (opening_msg (load_errno rc) m) \<le> length m + 26"
proof -
  have "length (decimal (load_errno rc)) \<le> 2"
    using load_errno_known [of rc] digits_length [of "nat (load_errno rc)" 1] by (auto simp: decimal_def)
  then show ?thesis by (simp add: opening_msg_def quoted_def)
qed


lemma opening_msg_longer: "length m < length (opening_msg e m)"
  by (simp add: opening_msg_def quoted_def)

text \<open>
  When the system cannot load a module, \<^verbatim>\<open>pthread_dlopen\<close> returns 0 and sets \<^verbatim>\<open>errno\<close> to the error number of
  the table, and \<^verbatim>\<open>pthread_dlerror\<close> then gives the message with that number, in decimal, and the name
  of the file.  This holds for names of up to 101 characters.  The message is written to a
  buffer of 128 bytes without a check: a name of 128 characters or more overruns it.
\<close>

lemma dlopen_reports:
  assumes "inited s" and "threads s (run s) = Some t"
    and "DosLoadModule E 79 name (cur s) (kern s) = ((rc, [], h), k)" and "rc \<noteq> 0"
  shows "if length name \<le> 101
    then \<exists>s'. pthread_dlopen E name flags s = Some (Ret 0 s') \<and>
      errnos s' = (errnos s)(cur s := load_errno rc) \<and>
      pthread_dlerror E s' = Some (Ret (opening_msg (load_errno rc) name) s') \<and>
      number (decimal (load_errno rc)) = nat (load_errno rc)
    else 128 \<le> length name \<longrightarrow> pthread_dlopen E name flags s = Some (Fault Out_Of_Bounds)"
proof -
  have r: "run s \<noteq> NULL" using assms(1) by (simp add: inited_def)
  note run = pthread_dlopen_def load_module_def run_simps kres_def kst_def
  show ?thesis
  proof (cases "length name \<le> 101")
    case True
    then have m: "length (opening_msg (load_errno rc) name) < dlerror_size"
      using opening_msg_length [of rc name] by (simp add: dlerror_size_def)
    have "number (decimal (load_errno rc)) = nat (load_errno rc)"
      using load_errno_known [of rc] by (auto simp: decimal_def number_digits)
    then show ?thesis
      using True r assms by (simp add: run set_dlerror_run [OF _ _ m] to_int_def pthread_dlerror_def retM_def)
  next
    case False
    then have "\<not> length (opening_msg (load_errno rc) name) < dlerror_size" if "128 \<le> length name"
      using that opening_msg_longer [of name "load_errno rc"] by (simp add: dlerror_size_def)
    then show ?thesis using False assms by (auto simp: run set_dlerror_def faultM_def)
  qed
qed

lemma dlopen_reports_witness:
  "\<exists>s'. pthread_dlopen demo_os ''X'' 0 demo_world = Some (Ret 0 s') \<and> errnos s' 1 = ENOENT \<and>
    pthread_dlerror demo_os s' = Some (Ret (opening_msg 2 ''X'') s')"
  using dlopen_reports [of demo_world demo_thread demo_os "''X''" 2 NULL demo_kern0 0]
  by (auto simp: load_errno_def)

lemma to_handle_to_int: "h < 2 ^ 32 \<Longrightarrow> to_handle (to_int h) = h"
  by (simp add: to_handle_def to_int_def unat_of_nat take_bit_nat_eq_self)

text \<open>
  A module that was loaded is reached by the number \<^verbatim>\<open>pthread_dlopen\<close> returned for it, also where the
  handle of the system does not fit a signed number: \<^verbatim>\<open>pthread_dlsym\<close> searches that module and
  \<^verbatim>\<open>pthread_dlclose\<close> frees it.
\<close>

lemma module_handle_roundtrip:
  assumes "inited s" and "h < 2 ^ 32"
    and "DosLoadModule E 79 name (cur s) (kern s) = ((0, m, h), k)"
    and "DosQueryProcAddr E h fn (cur s) k = ((0, f), k')"
  shows "\<exists>i s1 s2 s3. pthread_dlopen E name flags s = Some (Ret i s1) \<and>
    pthread_dlsym E i fn s1 = Some (Ret f s2) \<and>
    pthread_dlclose E i s2 = Some (Ret () s3) \<and> kern s3 = snd (DosFreeModule E h (cur s) k')"
  using assms
  by (simp add: pthread_dlopen_def load_module_def pthread_dlsym_def find_symbol_def pthread_dlclose_def
      to_handle_to_int run_simps kres_def kst_def retM_def)

definition demo_module :: "demo_kern os" where
  "demo_module = demo_os\<lparr>DosLoadModule := (\<lambda>n nm t k. ((0, [], 0xFFFF0001), k)),
     DosQueryProcAddr := (\<lambda>h nm t k. if h = 0xFFFF0001 then ((0, 600), k) else ((6, NULL), k))\<rparr>"

lemma module_handle_roundtrip_witness:
  "\<exists>i s1 s2. pthread_dlopen demo_module ''M'' 0 demo_world = Some (Ret i s1) \<and>
    pthread_dlsym demo_module i ''f'' s1 = Some (Ret 600 s2)"
  using module_handle_roundtrip [where s = demo_world and h = "0xFFFF0001" and E = demo_module and name = "''M''"
    and fn = "''f''" and flags = 0 and m = "[]" and f = 600 and k = demo_kern0 and k' = demo_kern0]
  by (auto simp: demo_module_def)

text \<open>
  A function that is not in the module is reported with \<^verbatim>\<open>ENOSYS\<close> and a message in which the two
  names are exchanged: it says that no function with the module's name is in a module with
  the function's name.  A bad handle is reported with \<^verbatim>\<open>EINVAL\<close> and the handle.
\<close>

lemma dlsym_reports:
  assumes "inited s" and "threads s (run s) = Some t"
    and "DosQueryProcAddr E (to_handle i) fn (cur s) (kern s) = ((rc, f), k)" and "rc \<noteq> 0"
    and "DosQueryModuleName E (to_handle i) 79 (cur s) k = ((0, m), k')"
    and "length m < 80" and "length fn \<le> 20" and "\<bar>i\<bar> < 2 ^ 31"
  shows "\<exists>s' t'. pthread_dlsym E i fn s = Some (Ret NULL s') \<and> threads s' (run s) = Some t' \<and>
    errnos s' (cur s) = (if rc = ERROR_INVALID_HANDLE then EINVAL else ENOSYS) \<and>
    th_dlerror t' = (if rc = ERROR_INVALID_HANDLE then ''invalid module handle '' @ decimal i
      else ''no function '' @ quoted m @ '' in module '' @ quoted fn)"
proof -
  have r: "run s \<noteq> NULL" using assms(1) by (simp add: inited_def)
  have "length (digits (nat \<bar>i\<bar>)) \<le> 10" using digits_length [of "nat \<bar>i\<bar>" 9] assms(8) by simp
  then have "length (handle_msg i) < dlerror_size"
    by (auto simp: handle_msg_def decimal_def dlerror_size_def split: if_splits)
  moreover have "length (function_msg m fn) < dlerror_size"
    using assms(6,7) by (simp add: function_msg_def quoted_def dlerror_size_def)
  ultimately show ?thesis
    using r assms
    by (simp add: pthread_dlsym_def find_symbol_def run_simps kres_def kst_def set_dlerror_run retM_def
        handle_msg_def function_msg_def)
qed

lemma dlsym_reports_witness:
  "\<exists>s' t'. pthread_dlsym demo_os 1 ''f'' demo_world = Some (Ret NULL s') \<and> threads s' 10 = Some t' \<and>
    th_dlerror t' = ''no function '' @ quoted ''MOD'' @ '' in module '' @ quoted ''f''"
  using dlsym_reports [of demo_world demo_thread demo_os 1 "''f''" 127 NULL demo_kern0 "''MOD''" demo_kern0]
  by auto

end
