(* ===== verification/Alarm.thy ===== *)
theory Alarm
  imports SigSpec Create
begin

text \<open>
  \<^verbatim>\<open>uthread_alarm.c\<close>: an alarm is a thread that waits on an event semaphore, which a timer of the system posts,
  and then sends \<^verbatim>\<open>SIGALRM\<close> to the thread that set it.
\<close>

section \<open>The alarm thread and the call\<close>

definition alarm_thread :: "'k os \<Rightarrow> addr \<Rightarrow> (addr, 'k world) prog" where
  "alarm_thread E client =
     bindM (load threads client) (\<lambda>c.
     let ev = alarm_event c in
     seqM (DosWaitEventSem E ev SEM_INDEFINITE_WAIT)
    (bindM (load threads client) (\<lambda>c.
     seqM (if alarm_timeout c \<noteq> 0
           then seqM (store_ptr (alarm_slot E client) NULL)
               (seqM (upd_thread client (\<lambda>t. t\<lparr>alarm_timer := 0, alarm_event := 0, alarm_timeout := 0\<rparr>))
               (seqM (pthread_kill E client SIGALRM) (retM ())))
           else seqM (store_ptr (alarm_slot E client) NULL)
                (upd_thread client (\<lambda>t. t\<lparr>alarm_timer := 0, alarm_event := 0\<rparr>)))
    (seqM (kcall (DosCloseEventSem E ev)) (retM NULL)))))"

abbreviation DC_SEM_SHARED :: u32 where "DC_SEM_SHARED \<equiv> 1"

text \<open>
  \<open>ci\<close> is the address of the local variable \<^verbatim>\<open>create_info\<close> of the call of \<^verbatim>\<open>pthread_create\<close>, \<open>routine\<close> that of
  \<^verbatim>\<open>_alarm_thread\<close>.  The last branch of the source, for a negative unsigned number, is never
  taken.
\<close>

definition alarm_cancel :: "'k os \<Rightarrow> addr \<Rightarrow> (unit, 'k world) prog" where
  "alarm_cancel E self =
     seqM (upd_thread self (\<lambda>t. t\<lparr>alarm_timeout := 0\<rparr>))
    (bindM (load threads self) (\<lambda>t.
     seqM (whenM (alarm_timer t \<noteq> 0) (seqM (kcall (DosStopTimer E (alarm_timer t))) (retM ())))
     (whenM (alarm_event t \<noteq> 0) (seqM (kcall (DosPostEventSem E (alarm_event t))) (retM ())))))"

definition alarm_prepare :: "'k os \<Rightarrow> addr \<Rightarrow> addr \<Rightarrow> addr \<Rightarrow> (unit, 'k world) prog" where
  "alarm_prepare E ci routine self =
     bindM (load threads self) (\<lambda>t.
     bindM (if alarm_timer t \<noteq> 0 then load ptrs (alarm_slot E self) else retM NULL) (\<lambda>th.
     if th \<noteq> NULL
     then seqM (kcall (DosStopTimer E (alarm_timer t))) (retM ())
     else bindM (kcall (DosCreateEventSem E DC_SEM_SHARED)) (\<lambda>(rc, ev).
          seqM (whenM (rc = 0) (upd_thread self (\<lambda>t. t\<lparr>alarm_event := ev\<rparr>)))
         (seqM (pthread_create E ci (alarm_slot E self) NULL routine self) (retM ())))))"

definition alarm_start :: "'k os \<Rightarrow> addr \<Rightarrow> u32 \<Rightarrow> (unit, 'k world) prog" where
  "alarm_start E self sec =
     bindM (load threads self) (\<lambda>t.
     bindM (kcall (DosAsyncTimer E (sec * 1000) (alarm_event t))) (\<lambda>(rc, timer).
     seqM (whenM (rc = 0) (upd_thread self (\<lambda>t. t\<lparr>alarm_timer := timer\<rparr>)))
      (upd_thread self (\<lambda>t. t\<lparr>alarm_timeout := sec\<rparr>))))"

definition pthread_alarm :: "'k os \<Rightarrow> addr \<Rightarrow> addr \<Rightarrow> u32 \<Rightarrow> (u32, 'k world) prog" where
  "pthread_alarm E ci routine sec =
     bindM (pthread_self E) (\<lambda>self.
     seqM (if sec = 0 then alarm_cancel E self
           else seqM (alarm_prepare E ci routine self) (alarm_start E self sec))
      (retM 0))"

section \<open>The alarm goes off\<close>

definition disarmed :: "pthread \<Rightarrow> pthread" where
  "disarmed t = t\<lparr>alarm_timer := 0, alarm_event := 0, alarm_timeout := 0\<rparr>"

text \<open>The state in which the alarm thread sends the signal.\<close>

definition rung :: "'k os \<Rightarrow> addr \<Rightarrow> pthread \<Rightarrow> 'k world \<Rightarrow> 'k world" where
  "rung E p t s = s\<lparr>ptrs := (ptrs s)(alarm_slot E p := Some NULL), threads := (threads s)(p := Some (disarmed t))\<rparr>"

lemma alarm_thread_wakes:
  assumes p: "p \<noteq> NULL" "threads s p = Some t"
    and w: "DosWaitEventSem E (alarm_event t) SEM_INDEFINITE_WAIT s = Some (Ret rc s1)"
    and t1: "threads s1 p = Some t1" and slot: "alarm_slot E p \<noteq> NULL" "ptrs s1 (alarm_slot E p) = Some v"
  shows "alarm_timeout t1 \<noteq> 0 \<Longrightarrow> pthread_kill E p SIGALRM (rung E p t1 s1) = Some (Ret r s2) \<Longrightarrow>
      alarm_thread E p s = Some (Ret NULL (s2\<lparr>kern := snd (DosCloseEventSem E (alarm_event t) (cur s2) (kern s2))\<rparr>))"
    and "alarm_timeout t1 = 0 \<Longrightarrow>
      alarm_thread E p s = Some (Ret NULL ((rung E p t1 s1)\<lparr>kern := snd (DosCloseEventSem E (alarm_event t) (cur s1) (kern s1))\<rparr>))"
proof -
  note wait = seqM_run [where m = "DosWaitEventSem E (alarm_event t) SEM_INDEFINITE_WAIT", OF w]
  {
    assume n: "alarm_timeout t1 \<noteq> 0" and k: "pthread_kill E p SIGALRM (rung E p t1 s1) = Some (Ret r s2)"
    show "alarm_thread E p s = Some (Ret NULL (s2\<lparr>kern := snd (DosCloseEventSem E (alarm_event t) (cur s2) (kern s2))\<rparr>))"
      using p t1 slot n
      by (simp add: alarm_thread_def Let_def run_simps wait retM_def kst_def
        seqM_run [where m = "pthread_kill E p SIGALRM", OF k [unfolded rung_def disarmed_def]])
  }
  assume "alarm_timeout t1 = 0"
  moreover from this have "disarmed t1 = t1\<lparr>alarm_timer := 0, alarm_event := 0\<rparr>"
    by (cases t1) (simp add: disarmed_def)
  ultimately show "alarm_thread E p s =
    Some (Ret NULL ((rung E p t1 s1)\<lparr>kern := snd (DosCloseEventSem E (alarm_event t) (cur s1) (kern s1))\<rparr>))"
    using p t1 slot by (simp add: alarm_thread_def Let_def run_simps wait retM_def kst_def rung_def)
qed


text \<open>What a target of \<^verbatim>\<open>SIGALRM\<close> has to be: on the list of live threads, with the signal not ignored.\<close>

definition alarmable :: "'k world \<Rightarrow> addr \<Rightarrow> pthread \<Rightarrow> addr list \<Rightarrow> bool" where
  "alarmable s p t xs \<longleftrightarrow> live_list s xs \<and> p \<in> set xs \<and> threads s p = Some t \<and> p \<noteq> run s \<and>
     sa_handler (signals (tp t) (nat SIGALRM)) \<noteq> SIG_IGN"

lemma SIGALRM_valid: "0 < SIGALRM" "SIGALRM < int NSIG" "sys_sig_valid SIGALRM"
  by (simp_all add: sys_sig_valid_def sys_sig_valid_table_def)

lemma rung_target:
  assumes "quiet s" "alarmable s p t xs"
  shows "quiet (rung E p t s)" "alarmable (rung E p t s) p (disarmed t) xs"
proof -
  have "run (rung E p t s) = run s" by (simp add: rung_def)
  then show "quiet (rung E p t s)" "alarmable (rung E p t s) p (disarmed t) xs"
    using assms
    by (auto simp: alarmable_def quiet_def rung_def disarmed_def live_list_def split: option.splits)
qed

text \<open>
  C32: When the timer posts its event, the alarm thread clears the alarm of the thread that set it and
  sends it \<^verbatim>\<open>SIGALRM\<close>: the signal is pending in that thread, and a sleeping one is woken by a post of the semaphore
  it waits on.  No other thread structure changes, and the event semaphore of the alarm is closed.
\<close>

theorem alarm_goes_off:
  assumes "p \<noteq> NULL" and "threads s p = Some t"
    and "DosWaitEventSem E (alarm_event t) SEM_INDEFINITE_WAIT s = Some (Ret rc s1)"
    and "quiet s1" and "alarmable s1 p t1 xs" and "alarm_timeout t1 \<noteq> 0"
    and "alarm_slot E p \<noteq> NULL" and "ptrs s1 (alarm_slot E p) = Some v"
    and "th_state t1 \<in> {PS_SLEEP_WAIT, PS_SIGWAIT}" and "th_data t1 = W_Abort ev"
  shows "\<exists>s'. alarm_thread E p s = Some (Ret NULL s') \<and>
    threads s' = (threads s1)(p := Some (raised E SIGALRM (disarmed t1))) \<and>
    ptrs s' (alarm_slot E p) = Some NULL \<and>
    kern s' = snd (DosCloseEventSem E (alarm_event t) (cur s1) (snd (DosExitMustComplete E (cur s1)
      (snd (DosPostEventSem E ev (cur s1) (snd (DosEnterMustComplete E (cur s1) (kern s1))))))))"
proof -
  let ?s = "rung E p t1 s1"
  note q = rung_target [OF assms(4,5), of E]
  have "pthread_kill E p SIGALRM ?s = Some (Ret 0 (unblocked E (woken E p SIGALRM (disarmed t1) ev ?s)))"
    by (rule kill_sleeper [OF q(1)])
      (use q(2) assms(9,10) SIGALRM_valid in \<open>auto simp: alarmable_def disarmed_def\<close>)
  from alarm_thread_wakes(1) [OF assms(1-3) _ assms(7,8,6) this] show ?thesis
    using assms(5)
    by (simp add: alarmable_def) (simp add: woken_def unblocked_def blocked_def rung_def kst_def)
qed

section \<open>Cancelling an alarm\<close>

lemma alarm_cancel_run:
  assumes "inited s" "threads s (run s) = Some t" "alarm_timer t \<noteq> 0" "alarm_event t \<noteq> 0"
  shows "pthread_alarm E ci routine 0 s =
    Some (Ret 0 (s\<lparr>threads := (threads s)(run s := Some (t\<lparr>alarm_timeout := 0\<rparr>)),
      kern := snd (DosPostEventSem E (alarm_event t) (cur s) (snd (DosStopTimer E (alarm_timer t) (cur s) (kern s))))\<rparr>))"
proof -
  have "run s \<noteq> NULL" using assms(1) by (simp add: inited_def)
  then show ?thesis using assms
    by (simp add: pthread_alarm_def alarm_cancel_def run_simps kst_def retM_def)
qed

text \<open>
  A cancelled alarm does not go off.  \<^verbatim>\<open>pthread_alarm (0)\<close> stops the timer and posts the event; the alarm
  thread, which runs then, sends no signal: the only change to any thread structure is that the alarm is cleared.
\<close>

lemma alarm_cancelled:
  assumes "inited s" and "p = run s" and "threads s p = Some t" and "alarm_timer t \<noteq> 0" and "alarm_event t \<noteq> 0"
    and "k1 = snd (DosPostEventSem E (alarm_event t) (cur s) (snd (DosStopTimer E (alarm_timer t) (cur s) (kern s))))"
    and "\<And>v. kern v = k1 \<Longrightarrow>
      DosWaitEventSem E (alarm_event t) SEM_INDEFINITE_WAIT v = Some (Ret 0 (v\<lparr>kern := k2\<rparr>))"
    and "alarm_slot E p \<noteq> NULL" and "ptrs s (alarm_slot E p) = Some w"
  shows "\<exists>s1 s2. pthread_alarm E ci routine 0 s = Some (Ret 0 s1) \<and>
    alarm_thread E p (s1\<lparr>cur := u\<rparr>) = Some (Ret NULL s2) \<and>
    threads s2 = (threads s)(p := Some (disarmed t)) \<and> ptrs s2 (alarm_slot E p) = Some NULL"
proof -
  have r: "p \<noteq> NULL" using assms(1,2) by (simp add: inited_def)
  obtain s1 where s1: "s1 = s\<lparr>threads := (threads s)(p := Some (t\<lparr>alarm_timeout := 0\<rparr>)), kern := k1\<rparr>" by blast
  have c: "pthread_alarm E ci routine 0 s = Some (Ret 0 s1)"
    unfolding s1 assms(6) using alarm_cancel_run [OF assms(1), of t E ci routine] assms(2-5) by simp
  let ?t = "t\<lparr>alarm_timeout := 0\<rparr>" and ?s1 = "s1\<lparr>cur := u, kern := k2\<rparr>"
  have p1: "threads (s1\<lparr>cur := u\<rparr>) p = Some ?t" by (simp add: s1)
  have w: "DosWaitEventSem E (alarm_event ?t) SEM_INDEFINITE_WAIT (s1\<lparr>cur := u\<rparr>) = Some (Ret 0 ?s1)"
    using assms(7) [of "s1\<lparr>cur := u\<rparr>"] by (simp add: s1)
  have "alarm_thread E p (s1\<lparr>cur := u\<rparr>) = Some (Ret NULL ((rung E p ?t ?s1)\<lparr>kern :=
      snd (DosCloseEventSem E (alarm_event ?t) (cur ?s1) (kern ?s1))\<rparr>))"
    by (rule alarm_thread_wakes(2) [OF r p1 w _ assms(8), of ?t]) (use assms(9) in \<open>simp_all add: s1\<close>)
  then show ?thesis using c by (simp add: s1 rung_def disarmed_def)
qed

text \<open>Setting an alarm while the old timer and the old alarm thread are still recorded.\<close>

lemma alarm_again_run:
  assumes "inited s" "run s = p" "threads s p = Some t" "alarm_timer t \<noteq> 0"
    and "alarm_slot E p \<noteq> NULL" "ptrs s (alarm_slot E p) = Some w" "w \<noteq> NULL" "sec \<noteq> 0"
    and "DosAsyncTimer E (sec * 1000) (alarm_event t) (cur s) (snd (DosStopTimer E (alarm_timer t) (cur s) (kern s))) = ((rc, n), k)"
  shows "pthread_alarm E ci routine sec s = Some (Ret 0 (s\<lparr>threads := (threads s)(p :=
      Some (t\<lparr>alarm_timer := (if rc = 0 then n else alarm_timer t), alarm_timeout := sec\<rparr>)), kern := k\<rparr>))"
proof -
  have "p \<noteq> NULL" using assms(1,2) by (simp add: inited_def)
  then show ?thesis using assms
    by (simp add: pthread_alarm_def alarm_prepare_def alarm_start_def run_simps kst_def kres_def retM_def)
qed

text \<open>
  An alarm that is set again before the alarm thread has seen that the last one was cancelled goes off at
  once.  \<^verbatim>\<open>pthread_alarm\<close> finds the old timer and the old thread and uses them again, but the event is still
  posted from the cancellation, so the thread does not wait, finds a timeout again and sends \<^verbatim>\<open>SIGALRM\<close>, whatever the number of seconds.
\<close>

lemma alarm_set_again_goes_off:
  assumes "inited s" and "p = run s" and "threads s p = Some t" and "alarm_timer t \<noteq> 0" and "alarm_event t \<noteq> 0"
    and "alarm_slot E p \<noteq> NULL" and "ptrs s (alarm_slot E p) = Some w" and "w \<noteq> NULL" and "sec \<noteq> 0"
    and "\<And>c k. posted (snd (DosPostEventSem E (alarm_event t) c k))"
    and "\<And>n c k. posted k \<Longrightarrow> posted (snd (DosStopTimer E n c k))"
    and "\<And>ms c k. posted k \<Longrightarrow> posted (snd (DosAsyncTimer E ms (alarm_event t) c k))"
    and "\<And>v. posted (kern v) \<Longrightarrow>
      DosWaitEventSem E (alarm_event t) SEM_INDEFINITE_WAIT v = Some (Ret 0 (v\<lparr>kern := took (kern v)\<rparr>))"
    and "live_list s xs" and "p \<in> set xs" and "th_state t = PS_RUNNING" and "threadid t \<noteq> 1"
    and "sa_handler (signals (tp t) (nat SIGALRM)) \<noteq> SIG_IGN"
    and "quiet (s\<lparr>cur := u\<rparr>)" and "run (s\<lparr>cur := u\<rparr>) \<noteq> p"
  shows "\<exists>s1 s2 s3 t3. pthread_alarm E ci routine 0 s = Some (Ret 0 s1) \<and>
    pthread_alarm E ci routine sec s1 = Some (Ret 0 s2) \<and>
    alarm_thread E p (s2\<lparr>cur := u\<rparr>) = Some (Ret NULL s3) \<and> threads s3 p = Some t3 \<and>
    sig_pending (tp t3) = sig_pending (tp t) OR sigmask E SIGALRM \<and> pend t3 = pend t + 1"
proof -
  have r: "p \<noteq> NULL" using assms(1,2) by (simp add: inited_def)
  obtain k1 where k1: "k1 = snd (DosPostEventSem E (alarm_event t) (cur s) (snd (DosStopTimer E (alarm_timer t) (cur s) (kern s))))" by blast
  obtain s1 where s1: "s1 = s\<lparr>threads := (threads s)(p := Some (t\<lparr>alarm_timeout := 0\<rparr>)), kern := k1\<rparr>" by blast
  have cancel: "pthread_alarm E ci routine 0 s = Some (Ret 0 s1)"
    unfolding s1 k1 using alarm_cancel_run [OF assms(1), of t E ci routine] assms(2-5) by simp
  obtain k2 where k2: "k2 = snd (DosStopTimer E (alarm_timer t) (cur s) k1)" by blast
  obtain rc n k3 where k3: "DosAsyncTimer E (sec * 1000) (alarm_event t) (cur s) k2 = ((rc, n), k3)" by (metis surj_pair)
  obtain t2 where t2: "t2 = t\<lparr>alarm_timer := (if rc = 0 then n else alarm_timer t), alarm_timeout := sec\<rparr>" by blast
  obtain s2 where s2: "s2 = s\<lparr>threads := (threads s)(p := Some t2), kern := k3\<rparr>" by blast
  have f1: "inited s1" "run s1 = p" "threads s1 p = Some (t\<lparr>alarm_timeout := 0\<rparr>)" "ptrs s1 = ptrs s" "cur s1 = cur s"
    using assms(1,2) by (simp_all add: s1)
  have "DosAsyncTimer E (sec * 1000) (alarm_event (t\<lparr>alarm_timeout := 0\<rparr>)) (cur s1)
      (snd (DosStopTimer E (alarm_timer (t\<lparr>alarm_timeout := 0\<rparr>)) (cur s1) (kern s1))) = ((rc, n), k3)"
    using k3 by (simp add: k2 s1)
  from alarm_again_run [OF f1(1-3) _ assms(6) _ assms(8,9) this]
  have again: "pthread_alarm E ci routine sec s1 = Some (Ret 0 s2)"
    using assms(4,7) f1(4) by (simp add: s2 s1 t2)
  have "posted k1" unfolding k1 by (rule assms(10))
  then have "posted k2" unfolding k2 by (rule assms(11))
  then have p3: "posted k3" using assms(12) [of k2 "sec * 1000" "cur s"] k3 by simp
  let ?s2 = "s2\<lparr>cur := u\<rparr>" and ?s3 = "s2\<lparr>cur := u, kern := took k3\<rparr>"
  have w: "DosWaitEventSem E (alarm_event t2) SEM_INDEFINITE_WAIT ?s2 = Some (Ret 0 ?s3)"
    using assms(13) [of ?s2] p3 by (simp add: s2 t2)
  have t3: "threads ?s2 p = Some t2" "threads ?s3 p = Some t2" by (simp_all add: s2)
  have q: "quiet ?s3" "alarmable ?s3 p t2 xs"
    using assms(3,14,15,18-20) by (auto simp: quiet_def alarmable_def s2 t2 run_def live_list_def inited_def split: option.splits)
  note q4 = rung_target [OF q, of E]
  have kill: "pthread_kill E p SIGALRM (rung E p t2 ?s3) =
      Some (Ret 0 (unblocked E (counted E p SIGALRM (disarmed t2) (rung E p t2 ?s3))))"
    by (rule kill_runner [OF q4(1)])
      (use q4(2) assms(16,17) SIGALRM_valid in \<open>auto simp: alarmable_def disarmed_def t2\<close>)
  have "alarm_timeout t2 \<noteq> 0" "ptrs ?s3 (alarm_slot E p) = Some w" using assms(7,9) by (simp_all add: t2 s2)
  from alarm_thread_wakes(1) [OF r t3(1) w t3(2) assms(6) this(2,1) kill]
  obtain s3 where s3: "alarm_thread E p ?s2 = Some (Ret NULL s3)"
    "threads s3 = threads (unblocked E (counted E p SIGALRM (disarmed t2) (rung E p t2 ?s3)))" by auto
  then have "threads s3 p = Some ((raised E SIGALRM (disarmed t2))\<lparr>pend := pend t2 + 1\<rparr>)"
    by (simp add: counted_def unblocked_def disarmed_def)
  with cancel again s3(1) show ?thesis by (auto simp: raised_def disarmed_def t2)
qed


section \<open>Two threads and an alarm\<close>

text \<open>The demo process with OS thread 2 running, whose alarm is set: timer 300, event 90.\<close>

definition demo_armed :: pthread where
  "demo_armed = demo_thread\<lparr>th_self := 2, threadid := 2, nxt := 10, alarm_timer := 300, alarm_event := 90,
     alarm_timeout := 60\<rparr>"

definition demo_alarm :: "nat \<Rightarrow> pthread \<Rightarrow> demo_kern world" where
  "demo_alarm u t = demo_world\<lparr>cur := u, threads := (threads demo_world)(20 := Some t),
     ptrs := (ptrs demo_world)(25 := Some 77)\<rparr>"

lemma demo_armed_sel [simp]:
  "nxt demo_armed = 10" "alarm_timer demo_armed = 300" "alarm_event demo_armed = 90" "pend demo_armed = 0"
  "alarm_timeout demo_armed = 60" "th_state demo_armed = PS_RUNNING" "threadid demo_armed = 2"
  "tp demo_armed = tp demo_thread"
  by (simp_all add: demo_armed_def)

lemma demo_alarm_sel [simp]:
  "threads (demo_alarm u t) = (threads demo_world)(20 := Some t)"
  "ptrs (demo_alarm u t) = (ptrs demo_world)(25 := Some 77)"
  "cur (demo_alarm u t) = u" "kern (demo_alarm u t) = demo_kern0"
  "run (demo_alarm (Suc 0) t) = 10" "run (demo_alarm 2 t) = 20"
  "inited (demo_alarm (Suc 0) t)" "inited (demo_alarm 2 t)" "quiet (demo_alarm (Suc 0) t)"
  "(demo_alarm 2 t)\<lparr>cur := Suc 0\<rparr> = demo_alarm (Suc 0) t"
  by (simp_all add: demo_alarm_def run_def inited_def quiet_def)

lemma demo_alarm_list [simp]: "nxt t = 10 \<Longrightarrow> live_list (demo_alarm u t) [20, 10]"
  by (simp add: demo_alarm_def live_list_def nlink_def)

theorem alarm_goes_off_witness:
  "\<exists>s'. alarm_thread demo_os 20 ((demo_alarm 1 (demo_armed\<lparr>th_state := PS_SLEEP_WAIT, th_data := W_Abort 91\<rparr>))
      \<lparr>kern := demo_kern0\<lparr>posts := (\<lambda>_. 0)(90 := 1)\<rparr>\<rparr>) = Some (Ret NULL s') \<and>
    posts (kern s') 91 = 1 \<and> (\<exists>t. threads s' 20 = Some t \<and> sig_pending (tp t) = 0x4000)"
proof -
  let ?t = "demo_armed\<lparr>th_state := PS_SLEEP_WAIT, th_data := W_Abort 91\<rparr>"
  let ?s = "(demo_alarm 1 ?t)\<lparr>kern := demo_kern0\<lparr>posts := (\<lambda>_. 0)(90 := 1)\<rparr>\<rparr>"
  let ?s1 = "(demo_alarm 1 ?t)\<lparr>kern := demo_kern0\<lparr>posts := (\<lambda>_. 0)\<rparr>\<rparr>"
  have w: "DosWaitEventSem demo_os (alarm_event ?t) SEM_INDEFINITE_WAIT ?s = Some (Ret 0 ?s1)"
    by (simp add: demo_wait_def fun_upd_idem)
  have a: "alarmable ?s1 20 ?t [20, 10]" by (simp add: alarmable_def default_sigact_def)
  show ?thesis
    using alarm_goes_off [OF _ _ w _ a, of 77 91]
    by (auto simp: raised_def disarmed_def demo_ok_def demo_nop_def)
qed

lemma alarm_cancelled_witness:
  "\<exists>s1 s2 t. pthread_alarm demo_os 0 0 0 (demo_alarm 2 demo_armed) = Some (Ret 0 s1) \<and>
    alarm_thread demo_os 20 (s1\<lparr>cur := 1\<rparr>) = Some (Ret NULL s2) \<and> threads s2 20 = Some t \<and> sig_pending (tp t) = 0"
  using alarm_cancelled [of "demo_alarm 2 demo_armed" 20 demo_armed "demo_kern0\<lparr>posts := (posts demo_kern0)(90 := 1)\<rparr>"
      demo_os demo_kern0 77 0 0 1]
  by (auto simp: disarmed_def demo_wait_def demo_ok_def fun_upd_idem)

lemma alarm_set_again_goes_off_witness:
  "\<exists>s1 s2 s3 t. pthread_alarm demo_os 0 0 0 (demo_alarm 2 demo_armed) = Some (Ret 0 s1) \<and>
    pthread_alarm demo_os 0 0 3600 s1 = Some (Ret 0 s2) \<and>
    alarm_thread demo_os 20 (s2\<lparr>cur := 1\<rparr>) = Some (Ret NULL s3) \<and> threads s3 20 = Some t \<and> sig_pending (tp t) = 0x4000"
  using alarm_set_again_goes_off [of "demo_alarm 2 demo_armed" 20 demo_armed demo_os 77 3600 "\<lambda>k. 0 < posts k 90"
      "\<lambda>k. k\<lparr>posts := (posts k)(90 := posts k 90 - 1)\<rparr>" "[20, 10]" 1 0 0]
  by (auto simp: demo_wait_def demo_ok_def default_sigact_def Let_def)

end
