(* ===== verification/Select.thy ===== *)
theory Select
  imports SigSpec Cond
begin

text \<open>
  \<^verbatim>\<open>uthread_select.c\<close>: \<^verbatim>\<open>pthread_select\<close> starts a thread that polls with \<^verbatim>\<open>select\<close> and waits for it on an event
  semaphore, which a signal can post as well.  The two share a \<open>select_st\<close>, which the one that
  finishes last frees.
\<close>

abbreviation upd_select :: "addr \<Rightarrow> (select_st \<Rightarrow> select_st) \<Rightarrow> (unit, 'k world) prog" where
  "upd_select p f \<equiv> alter selections selections_update p f"

section \<open>The polling thread\<close>

definition copy_set :: "bool \<Rightarrow> addr \<Rightarrow> (int set option, 'k world) prog" where
  "copy_set given p = (if given then bindM (load fdsets p) (\<lambda>f. retM (Some f)) else retM None)"

definition paste_set :: "bool \<Rightarrow> addr \<Rightarrow> int set option \<Rightarrow> (unit, 'k world) prog" where
  "paste_set given p f =
     (case f of Some f \<Rightarrow> if given then alter fdsets fdsets_update p (\<lambda>_. f) else retM () | None \<Rightarrow> retM ())"

definition check_stdin :: "addr \<Rightarrow> (bool, 'k world) prog" where
  "check_stdin sel =
     bindM (load selections sel) (\<lambda>v.
     if sel_isrdfds v then bindM (load fdsets (sel_readfds v)) (\<lambda>f. retM (0 \<in> f)) else retM False)"

text \<open>\<^verbatim>\<open>FD_SET\<close> of descriptor 0 in the copy when there is input to read.\<close>

definition add_stdin :: "'k os \<Rightarrow> bool \<Rightarrow> int set option \<Rightarrow> (int set option, 'k world) prog" where
  "add_stdin E chkstdin rd =
     (if chkstdin
      then bindM (kcall (libc_fionread E 0)) (\<lambda>(res, charcount).
           retM (if res = 0 \<and> 0 < charcount then map_option (insert 0) rd else rd))
      else retM rd)"

definition poll_round :: "'k os \<Rightarrow> addr \<Rightarrow> bool \<Rightarrow> (int, 'k world) prog" where
  "poll_round E sel chkstdin =
     bindM (load selections sel) (\<lambda>v.
     bindM (copy_set (sel_isrdfds v) (sel_readfds v)) (\<lambda>rd.
     bindM (copy_set (sel_iswrfds v) (sel_writefds v)) (\<lambda>wr.
     bindM (copy_set (sel_isexfds v) (sel_exceptfds v)) (\<lambda>ex.
     bindM (libc_select E (sel_nfds v) (if chkstdin then map_option (\<lambda>f. f - {0}) rd else rd) wr ex (0, 0))
      (\<lambda>(result, rd, wr, ex).
     bindM (add_stdin E chkstdin rd) (\<lambda>rd.
     seqM (if 0 < result
           then seqM (upd_select sel (\<lambda>v. v\<lparr>sel_done := sel_done v + 1\<rparr>))
               (seqM (paste_set (sel_isrdfds v) (sel_readfds v) rd)
               (seqM (paste_set (sel_iswrfds v) (sel_writefds v) wr)
                     (paste_set (sel_isexfds v) (sel_exceptfds v) ex)))
           else if result \<noteq> 0 then upd_select sel (\<lambda>v. v\<lparr>sel_done := sel_done v + 1\<rparr>)
           else seqM (DosSleep E 1) (retM ()))
      (retM result)))))))"

partial_function (option) poll_loop ::
  "'k os \<Rightarrow> addr \<Rightarrow> bool \<Rightarrow> 'k world \<Rightarrow> (int, 'k world) res option" where
  "poll_loop E sel chkstdin s =
     bindM (poll_round E sel chkstdin) (\<lambda>result.
     bindM (load selections sel) (\<lambda>v s.
       if sel_event v \<noteq> 0 \<and> sel_done v = 0 then poll_loop E sel chkstdin s else retM result s)) s"

definition thread_select :: "'k os \<Rightarrow> addr \<Rightarrow> (unit, 'k world) prog" where
  "thread_select E sel =
     bindM (load selections sel) (\<lambda>v.
     let event = sel_event v in
     bindM (check_stdin sel) (\<lambda>chkstdin.
     bindM (poll_loop E sel chkstdin) (\<lambda>result.
     bindM (load selections sel) (\<lambda>v.
     if sel_event v \<noteq> 0
     then bindM (getM errno) (\<lambda>e.
          seqM (upd_select sel (\<lambda>v. v\<lparr>sel_errno := (if result < 0 then e else 0)\<rparr>))
         (seqM (upd_select sel (\<lambda>v. v\<lparr>sel_result := result\<rparr>))
         (seqM (upd_select sel (\<lambda>v. v\<lparr>sel_done := 3\<rparr>))
         (seqM (kcall (DosPostEventSem E event)) (retM ())))))
     else seqM (upd_select sel (\<lambda>v. v\<lparr>sel_done := 3\<rparr>)) (free selections selections_update sel)))))"

section \<open>The call\<close>

text \<open>The timeout in milliseconds, in 32-bit arithmetic.\<close>

definition select_msecs :: "(int \<times> int) option \<Rightarrow> u32" where
  "select_msecs tmo =
     (case tmo of
        None \<Rightarrow> SEM_INDEFINITE_WAIT
      | Some (sec, usec) \<Rightarrow>
          if sec \<noteq> 0 \<or> usec \<noteq> 0
          then word_of_int sec * 1000 + sdiv32 (word_of_int usec) 1000
          else SEM_IMMEDIATE_RETURN)"

definition select_args ::
  "int \<Rightarrow> addr \<Rightarrow> addr \<Rightarrow> addr \<Rightarrow> (int \<times> int) option \<Rightarrow> select_st \<Rightarrow> select_st" where
  "select_args nfds rd wr ex tmo v =
     v\<lparr>sel_nfds := nfds,
       sel_isrdfds := rd \<noteq> NULL, sel_readfds := if rd \<noteq> NULL then rd else sel_readfds v,
       sel_iswrfds := wr \<noteq> NULL, sel_writefds := if wr \<noteq> NULL then wr else sel_writefds v,
       sel_isexfds := ex \<noteq> NULL, sel_exceptfds := if ex \<noteq> NULL then ex else sel_exceptfds v,
       sel_istimeout := tmo \<noteq> None,
       sel_timeout := case tmo of None \<Rightarrow> sel_timeout v | Some t \<Rightarrow> t\<rparr>"

text \<open>\<^verbatim>\<open>while (sel->done && sel->done != 3) DosSleep(1);\<close>\<close>

partial_function (option) select_drain :: "'k os \<Rightarrow> addr \<Rightarrow> 'k world \<Rightarrow> (unit, 'k world) res option" where
  "select_drain E sel s =
     bindM (load selections sel) (\<lambda>v s.
       if sel_done v \<noteq> 0 \<and> sel_done v \<noteq> 3
       then bindM (DosSleep E 1) (\<lambda>_ s. select_drain E sel s) s
       else retM () s) s"

declare poll_loop.simps [code] select_drain.simps [code]

definition select_collect :: "'k os \<Rightarrow> addr \<Rightarrow> (int, 'k world) prog" where
  "select_collect E sel =
     bindM (load selections sel) (\<lambda>v.
     if sel_done v = 0
     then seqM (upd_select sel (\<lambda>v. v\<lparr>sel_event := 0\<rparr>)) (seqM (set_errno ETIMEDOUT) (retM (-1)))
     else seqM (select_drain E sel)
         (seqM (upd_select sel (\<lambda>v. v\<lparr>sel_event := 0\<rparr>))
         (bindM (load selections sel) (\<lambda>v.
          seqM (whenM (sel_errno v \<noteq> 0) (set_errno (sel_errno v)))
         (seqM (free selections selections_update sel) (retM (sel_result v)))))))"

definition select_wait :: "'k os \<Rightarrow> addr \<Rightarrow> addr \<Rightarrow> u32 \<Rightarrow> (int, 'k world) prog" where
  "select_wait E self sel msecs =
     bindM (kcall (DosCreateEventSem E 0)) (\<lambda>(rc, ev).
     let ev = (if rc = 0 then ev else 0) in
     seqM (upd_select sel (\<lambda>v. v\<lparr>sel_event := ev, sel_done := 0\<rparr>))
    (bindM (kcall (beginthread E Thread_Select 65536 sel)) (\<lambda>t.
     if t = -1
     then seqM (upd_select sel (\<lambda>v. v\<lparr>sel_event := 0\<rparr>))
         (seqM (kcall (DosCloseEventSem E ev)) (retM (-1)))
     else seqM (upd_thread self (\<lambda>t. t\<lparr>th_data := W_Abort ev, th_state := PS_SELECT_WAIT\<rparr>))
         (seqM (DosWaitEventSem E ev msecs)
         (seqM (upd_thread self (\<lambda>t. t\<lparr>th_state := PS_RUNNING\<rparr>))
         (bindM (select_collect E sel) (\<lambda>result.
          seqM (kcall (DosCloseEventSem E ev)) (retM result))))))))"

definition select_result :: "'k os \<Rightarrow> addr \<Rightarrow> int \<Rightarrow> (int, 'k world) prog" where
  "select_result E self result =
     bindM (load threads self) (\<lambda>t.
     if pend t \<noteq> 0
     then seqM (deliver_now E self)
         (if result \<le> 0 then seqM (set_errno EINTR) (retM (-1)) else retM result)
     else retM result)"

definition pthread_select :: "'k os \<Rightarrow> int \<Rightarrow> addr \<Rightarrow> addr \<Rightarrow> addr \<Rightarrow> addr \<Rightarrow> (int, 'k world) prog" where
  "pthread_select E nfds rd wr ex timeout =
     bindM (pthread_self E) (\<lambda>self.
     bindM (load threads self) (\<lambda>t.
     seqM (whenM (pend t \<noteq> 0) (deliver_now E self))
    (bindM (if timeout = NULL then retM None else bindM (load timevals timeout) (\<lambda>v. retM (Some v))) (\<lambda>tmo.
     bindM (kcall (malloc E)) (\<lambda>sel.
     bindM (if sel = NULL then seqM (set_errno ENOMEM) (retM (-1))
            else bindM (getM (junk_select E)) (\<lambda>junk.
                 seqM (fresh selections selections_update sel (select_args nfds rd wr ex tmo junk))
                  (select_wait E self sel (select_msecs tmo)))) (\<lambda>result.
     select_result E self result))))))"


section \<open>The polling thread ends when there is something to report\<close>

text \<open>The sets of a call: what a poll copies, and how it puts its results back, in the order of the code.\<close>

definition set_at :: "bool \<Rightarrow> addr \<Rightarrow> (addr \<Rightarrow> int set option) \<Rightarrow> int set option" where
  "set_at given p F = (if given then F p else None)"

definition pasted_set :: "bool \<Rightarrow> addr \<Rightarrow> int set option \<Rightarrow> (addr \<Rightarrow> int set option) \<Rightarrow> addr \<Rightarrow> int set option" where
  "pasted_set given p f F = (case f of Some f \<Rightarrow> if given then F(p := Some f) else F | None \<Rightarrow> F)"

definition pasted :: "select_st \<Rightarrow> int set option \<Rightarrow> int set option \<Rightarrow> int set option \<Rightarrow>
  (addr \<Rightarrow> int set option) \<Rightarrow> addr \<Rightarrow> int set option" where
  "pasted v rd wr ex F = pasted_set (sel_isexfds v) (sel_exceptfds v) ex
     (pasted_set (sel_iswrfds v) (sel_writefds v) wr (pasted_set (sel_isrdfds v) (sel_readfds v) rd F))"

definition set_there :: "bool \<Rightarrow> addr \<Rightarrow> (addr \<Rightarrow> int set option) \<Rightarrow> bool" where
  "set_there given p F \<longleftrightarrow> (given \<longrightarrow> p \<noteq> NULL \<and> F p \<noteq> None)"

definition sets_there :: "select_st \<Rightarrow> (addr \<Rightarrow> int set option) \<Rightarrow> bool" where
  "sets_there v F \<longleftrightarrow> set_there (sel_isrdfds v) (sel_readfds v) F \<and> set_there (sel_iswrfds v) (sel_writefds v) F \<and>
     set_there (sel_isexfds v) (sel_exceptfds v) F"

definition has_stdin :: "int set option \<Rightarrow> bool" where
  "has_stdin f \<longleftrightarrow> (case f of Some f \<Rightarrow> 0 \<in> f | None \<Rightarrow> False)"

text \<open>What \<^verbatim>\<open>FIONREAD\<close> says of descriptor 0, asked when the caller's set has it, and the call's effect.\<close>

definition stdin_ready :: "'k os \<Rightarrow> bool \<Rightarrow> 'k world \<Rightarrow> bool" where
  "stdin_ready E chk s \<longleftrightarrow> chk \<and> (case kres (libc_fionread E 0) s of (res, n) \<Rightarrow> res = 0 \<and> 0 < n)"

definition after_fionread :: "'k os \<Rightarrow> bool \<Rightarrow> 'k world \<Rightarrow> 'k" where
  "after_fionread E chk s = (if chk then kst (libc_fionread E 0) s else kern s)"

text \<open>The read set a successful poll leaves.\<close>

definition with_stdin :: "'k os \<Rightarrow> bool \<Rightarrow> 'k world \<Rightarrow> int set option \<Rightarrow> int set option" where
  "with_stdin E chk s rd = (if stdin_ready E chk s then map_option (insert 0) rd else rd)"

lemma copy_set_run [run_simps]:
  "set_there given p (fdsets s) \<Longrightarrow> bindM (copy_set given p) n s = n (set_at given p (fdsets s)) s"
  by (auto simp: copy_set_def set_there_def set_at_def run_simps)

lemma paste_set_run [run_simps]:
  "set_there given p (fdsets s) \<Longrightarrow> seqM (paste_set given p f) n s = n (s\<lparr>fdsets := pasted_set given p f (fdsets s)\<rparr>)"
  "set_there given p (fdsets s) \<Longrightarrow> paste_set given p f s = Some (Ret () (s\<lparr>fdsets := pasted_set given p f (fdsets s)\<rparr>))"
  by (auto simp: paste_set_def set_there_def pasted_set_def run_simps retM_def alter_def modM_def split: option.splits)

lemma set_there_pasted [simp]: "set_there given p F \<Longrightarrow> set_there given p (pasted_set g q f F)"
  by (auto simp: set_there_def pasted_set_def split: option.split)

lemma add_stdin_run [run_simps]:
  "bindM (add_stdin E chk rd) n s = n (with_stdin E chk s rd) (s\<lparr>kern := after_fionread E chk s\<rparr>)"
  by (auto simp: add_stdin_def with_stdin_def stdin_ready_def after_fionread_def run_simps kres_def kst_def split: prod.split)

lemma check_stdin_run [run_simps]:
  "sel \<noteq> NULL \<Longrightarrow> selections s sel = Some v \<Longrightarrow> sets_there v (fdsets s) \<Longrightarrow>
     bindM (check_stdin sel) n s = n (has_stdin (set_at (sel_isrdfds v) (sel_readfds v) (fdsets s))) s"
  by (auto simp: check_stdin_def sets_there_def set_there_def set_at_def has_stdin_def run_simps)

text \<open>The state in which a poll that finds something leaves the process.\<close>

definition found_in :: "'k os \<Rightarrow> bool \<Rightarrow> addr \<Rightarrow> select_st \<Rightarrow> int set option \<Rightarrow> int set option \<Rightarrow> int set option \<Rightarrow>
  'k world \<Rightarrow> 'k world" where
  "found_in E chk sel v rd wr ex s = s\<lparr>kern := after_fionread E chk s, selections := (selections s)(sel := Some v),
     fdsets := pasted v (with_stdin E chk s rd) wr ex (fdsets s)\<rparr>"

definition polled :: "bool \<Rightarrow> int set option \<Rightarrow> int set option" where
  "polled chk rd = (if chk then map_option (\<lambda>f. f - {0}) rd else rd)"

lemma poll_round_ready:
  assumes "sel \<noteq> NULL" "selections s sel = Some v" "sets_there v (fdsets s)"
    and l: "libc_select E (sel_nfds v) (polled chk (set_at (sel_isrdfds v) (sel_readfds v) (fdsets s)))
      (set_at (sel_iswrfds v) (sel_writefds v) (fdsets s)) (set_at (sel_isexfds v) (sel_exceptfds v) (fdsets s)) (0, 0) s =
      Some (Ret (r, rd, wr, ex) s1)"
    and "0 < r" "selections s1 sel = Some v" "sets_there v (fdsets s1)"
  shows "poll_round E sel chk s = Some (Ret r (found_in E chk sel (v\<lparr>sel_done := sel_done v + 1\<rparr>) rd wr ex s1))"
  using assms(1-3,5-7)
  by (simp add: poll_round_def run_simps sets_there_def bindM_run [where m = "libc_select E (sel_nfds v) _ _ _ (0, 0)", OF l [unfolded polled_def]] found_in_def pasted_def retM_def)

lemma poll_round_nothing:
  assumes "sel \<noteq> NULL" "selections s sel = Some v" "sets_there v (fdsets s)"
    and l: "libc_select E (sel_nfds v) (polled chk (set_at (sel_isrdfds v) (sel_readfds v) (fdsets s)))
      (set_at (sel_iswrfds v) (sel_writefds v) (fdsets s)) (set_at (sel_isexfds v) (sel_exceptfds v) (fdsets s)) (0, 0) s =
      Some (Ret (0, rd, wr, ex) s1)"
    and d: "DosSleep E 1 (s1\<lparr>kern := after_fionread E chk s1\<rparr>) = Some (Ret rc s2)"
  shows "poll_round E sel chk s = Some (Ret 0 s2)"
  using assms(1-3)
  by (simp add: poll_round_def run_simps sets_there_def
    bindM_run [where m = "libc_select E (sel_nfds v) _ _ _ (0, 0)", OF l [unfolded polled_def]] seqM_run [where m = "DosSleep E 1", OF d] retM_def)

text \<open>The rounds \<open>0, \<dots>, n - 1\<close>, in the states \<open>w i\<close>, find nothing, and nobody has given up waiting.\<close>

definition idle_rounds :: "'k os \<Rightarrow> addr \<Rightarrow> bool \<Rightarrow> (nat \<Rightarrow> 'k world) \<Rightarrow> nat \<Rightarrow> bool" where
  "idle_rounds E sel chk w n \<longleftrightarrow>
     (\<forall>i<n. poll_round E sel chk (w i) = Some (Ret 0 (w (Suc i))) \<and>
        (\<exists>v. selections (w (Suc i)) sel = Some v \<and> sel_event v \<noteq> 0 \<and> sel_done v = 0))"

lemma poll_loop_idle:
  assumes "sel \<noteq> NULL" "idle_rounds E sel chk w n"
  shows "poll_loop E sel chk (w 0) = poll_loop E sel chk (w n)"
  using assms(2)
proof (induction n)
  case (Suc n)
  then obtain v where w: "poll_round E sel chk (w n) = Some (Ret 0 (w (Suc n)))"
    and v: "selections (w (Suc n)) sel = Some v" "sel_event v \<noteq> 0" "sel_done v = 0"
    by (auto simp: idle_rounds_def)
  have "poll_loop E sel chk (w n) = poll_loop E sel chk (w (Suc n))"
    using assms(1) v by (subst poll_loop.simps)
      (simp add: run_simps bindM_run [where m = "poll_round E sel chk", OF w])
  with Suc show ?case by (simp add: idle_rounds_def)
qed simp

lemma poll_loop_stops:
  assumes r: "poll_round E sel chk s = Some (Ret r s1)" and "sel \<noteq> NULL" "selections s1 sel = Some v"
    and "sel_event v = 0 \<or> sel_done v \<noteq> 0"
  shows "poll_loop E sel chk s = Some (Ret r s1)"
  using assms(2-4)
  by (subst poll_loop.simps) (auto simp: run_simps bindM_run [where m = "poll_round E sel chk", OF r] retM_def)

text \<open>What the polling thread leaves for the caller, who waits on the event until then.\<close>

definition reported :: "select_st \<Rightarrow> int \<Rightarrow> select_st" where
  "reported v r = v\<lparr>sel_errno := 0, sel_result := r, sel_done := 3\<rparr>"

definition posted_in :: "'k os \<Rightarrow> bool \<Rightarrow> addr \<Rightarrow> select_st \<Rightarrow> int set option \<Rightarrow> int set option \<Rightarrow> int set option \<Rightarrow>
  int \<Rightarrow> 'k world \<Rightarrow> 'k world" where
  "posted_in E chk sel v rd wr ex r s = (found_in E chk sel (reported v r) rd wr ex s)
     \<lparr>kern := snd (DosPostEventSem E (sel_event v) (cur s) (after_fionread E chk s))\<rparr>"

lemma pasted_upd [simp]:
  "pasted (sel_done_update f1 v) = pasted v" "pasted (sel_result_update f2 v) = pasted v" "pasted (sel_errno_update f3 v) = pasted v"
  "pasted (reported v r) = pasted v"
  by (simp_all add: pasted_def reported_def fun_eq_iff)

lemma thread_reports:
  assumes "sel \<noteq> NULL" "idle_rounds E sel chk w n"
    and "selections (w 0) sel = Some v" "sets_there v (fdsets (w 0))" "sel_event v \<noteq> 0" "sel_done v = 0"
    and chk: "chk = has_stdin (set_at (sel_isrdfds v) (sel_readfds v) (fdsets (w 0)))"
    and "selections (w n) sel = Some v" "sets_there v (fdsets (w n))"
    and l: "libc_select E (sel_nfds v) (polled chk (set_at (sel_isrdfds v) (sel_readfds v) (fdsets (w n))))
      (set_at (sel_iswrfds v) (sel_writefds v) (fdsets (w n))) (set_at (sel_isexfds v) (sel_exceptfds v) (fdsets (w n)))
      (0, 0) (w n) = Some (Ret (r, rd, wr, ex) s1)"
    and "0 < r" "selections s1 sel = Some v" "sets_there v (fdsets s1)"
  shows "thread_select E sel (w 0) = Some (Ret () (posted_in E chk sel v rd wr ex r s1))"
proof -
  have "poll_loop E sel chk (w n) = Some (Ret r (found_in E chk sel (v\<lparr>sel_done := 1\<rparr>) rd wr ex s1))"
    by (rule poll_loop_stops [where v = "v\<lparr>sel_done := 1\<rparr>", OF poll_round_ready [OF assms(1,8,9) l assms(11-13), unfolded \<open>sel_done v = 0\<close>, simplified] assms(1)])
       (simp_all add: found_in_def)
  then have loop: "poll_loop E sel chk (w 0) = Some (Ret r (found_in E chk sel (v\<lparr>sel_done := 1\<rparr>) rd wr ex s1))"
    using poll_loop_idle [OF assms(1,2)] by simp
  show ?thesis using assms(1,5,11)
    by (simp add: thread_select_def run_simps Let_def assms(3) check_stdin_run [OF assms(1,3,4)] chk [symmetric]
      bindM_run [where m = "poll_loop E sel chk", OF loop] found_in_def posted_in_def reported_def retM_def kst_def)
qed

text \<open>The caller's structure as the call fills it in, and the state in which the caller waits and the polling thread starts.\<close>

definition select_struct :: "'k os \<Rightarrow> int \<Rightarrow> addr \<Rightarrow> addr \<Rightarrow> addr \<Rightarrow> addr \<Rightarrow> hev \<Rightarrow> 'k world \<Rightarrow> select_st" where
  "select_struct E nfds rd wr ex timeout ev s =
     (select_args nfds rd wr ex (if timeout = NULL then None else timevals s timeout) (junk_select E s))\<lparr>sel_event := ev, sel_done := 0\<rparr>"

definition select_waiting :: "addr \<Rightarrow> select_st \<Rightarrow> hev \<Rightarrow> 'k \<Rightarrow> 'k world \<Rightarrow> 'k world" where
  "select_waiting sel v ev k s = s\<lparr>selections := (selections s)(sel := Some v), kern := k,
     threads := (threads s)(run s := map_option (\<lambda>t. t\<lparr>th_data := W_Abort ev, th_state := PS_SELECT_WAIT\<rparr>) (threads s (run s)))\<rparr>"

lemma select_wait_run:
  assumes "sel \<noteq> NULL" "p \<noteq> NULL" "selections s sel = Some v0" "threads s p = Some t0" "p = run s"
    and new: "DosCreateEventSem E 0 (cur s) (kern s) = ((0, ev), k1)"
    and start: "beginthread E Thread_Select 65536 sel (cur s) k1 = (tid, k2)" "tid \<noteq> -1"
    and v: "v = v0\<lparr>sel_event := ev, sel_done := 0\<rparr>"
    and w: "DosWaitEventSem E ev msecs (select_waiting sel v ev k2 s) = Some (Ret rc u)"
    and u: "selections u sel = Some (reported v r)" "threads u p = Some t"
  shows "select_wait E p sel msecs s = Some (Ret r (u\<lparr>threads := (threads u)(p := Some (t\<lparr>th_state := PS_RUNNING\<rparr>)),
    selections := (selections u)(sel := None), kern := snd (DosCloseEventSem E ev (cur u) (kern u))\<rparr>))"
proof -
  have d: "select_drain E sel (u\<lparr>threads := g\<rparr>) = Some (Ret () (u\<lparr>threads := g\<rparr>))" for g
    using assms(1) u(1) by (subst select_drain.simps) (simp add: run_simps retM_def reported_def)
  have w': "DosWaitEventSem E ev msecs (s\<lparr>selections := (selections s)(sel := Some (v0\<lparr>sel_event := ev, sel_done := 0\<rparr>)), kern := k2,
      threads := (threads s)(p := Some (t0\<lparr>th_data := W_Abort ev, th_state := PS_SELECT_WAIT\<rparr>))\<rparr>) = Some (Ret rc u)"
    using w assms(4,5) by (simp add: select_waiting_def v)
  show ?thesis
    using assms(1-4) new start u
    by (simp add: select_wait_def select_collect_def run_simps kres_def kst_def reported_def retM_def free_def modM_def
      seqM_run [where m = "DosWaitEventSem E ev msecs", OF w'] seqM_run [where m = "select_drain E sel", OF d])
qed

text \<open>
  C33: \<^verbatim>\<open>pthread_select\<close> with any of the three sets: when, after any number of polls that find nothing, \<^verbatim>\<open>select\<close> finds \<open>r > 0\<close>
  descriptors ready before the wait ends, and no signal is pending, the call returns \<open>r\<close> with the sets that \<^verbatim>\<open>select\<close> left written
  to the caller's, the polling thread ended, its event posted and then closed, the shared structure freed, \<^verbatim>\<open>errno\<close>
  untouched and the caller running again.  Descriptor 0 is kept out of the read set given to \<^verbatim>\<open>select\<close>; it is in the set the caller
  gets back when there is input for it, but it is not in \<open>r\<close> and does not end the polling: it is reported only
  along with another descriptor.  The wait returns in the state in which the polling thread ends.
\<close>

theorem select_reports_ready:
  assumes "inited s" "threads s (run s) = Some t" "pend t = 0"
    and "timeout \<noteq> NULL \<longrightarrow> timevals s timeout \<noteq> None"
    and "malloc E (cur s) (kern s) = (sel, k0)" "sel \<noteq> NULL"
    and "DosCreateEventSem E 0 (cur s) k0 = ((0, ev), k1)" "ev \<noteq> 0"
    and "beginthread E Thread_Select 65536 sel (cur s) k1 = (tid, k2)" "tid \<noteq> -1"
    and v: "v = select_struct E nfds rd wr ex timeout ev (s\<lparr>kern := k0\<rparr>)" "sets_there v (fdsets s)"
    and chk: "chk = has_stdin (set_at (rd \<noteq> NULL) rd (fdsets s))"
    and w: "w 0 = (select_waiting sel v ev k2 s)\<lparr>cur := u\<rparr>" "idle_rounds E sel chk w n"
    and "selections (w n) sel = Some v" "sets_there v (fdsets (w n))"
    and "libc_select E nfds (polled chk (set_at (rd \<noteq> NULL) rd (fdsets (w n)))) (set_at (wr \<noteq> NULL) wr (fdsets (w n)))
      (set_at (ex \<noteq> NULL) ex (fdsets (w n))) (0, 0) (w n) = Some (Ret (r, rd', wr', ex') s1)" "0 < r"
    and "selections s1 sel = Some v" "sets_there v (fdsets s1)" "threads s1 (run s) = Some t1" "pend t1 = 0"
    and wait: "\<forall>s'. thread_select E sel (w 0) = Some (Ret () s') \<longrightarrow>
      DosWaitEventSem E ev (select_msecs (if timeout = NULL then None else timevals s timeout))
        (select_waiting sel v ev k2 s) = Some (Ret 0 (s'\<lparr>cur := cur s\<rparr>))"
  shows "\<exists>s'. pthread_select E nfds rd wr ex timeout s = Some (Ret r s') \<and>
    fdsets s' = pasted v (with_stdin E chk s1 rd') wr' ex' (fdsets s1) \<and>
    selections s' sel = None \<and> threads s' (run s) = Some (t1\<lparr>th_state := PS_RUNNING\<rparr>) \<and> errnos s' = errnos s1 \<and>
    kern s' = snd (DosCloseEventSem E ev (cur s) (snd (DosPostEventSem E ev (cur s1) (after_fionread E chk s1))))"
proof -
  let ?tmo = "if timeout = NULL then None else timevals s timeout"
  have run: "run s \<noteq> NULL" using assms(1) by (simp add: inited_def)
  let ?v0 = "select_args nfds rd wr ex ?tmo (junk_select E (s\<lparr>kern := k0\<rparr>))"
  have v': "sel_isrdfds v = (rd \<noteq> NULL)" "sel_iswrfds v = (wr \<noteq> NULL)" "sel_isexfds v = (ex \<noteq> NULL)" "sel_nfds v = nfds"
    "sel_event v = ev" "sel_done v = 0"
    and sets: "set_at (rd \<noteq> NULL) (sel_readfds v) F = set_at (rd \<noteq> NULL) rd F" "set_at (wr \<noteq> NULL) (sel_writefds v) F = set_at (wr \<noteq> NULL) wr F"
    "set_at (ex \<noteq> NULL) (sel_exceptfds v) F = set_at (ex \<noteq> NULL) ex F" for F
    by (simp_all add: v(1) select_struct_def select_args_def set_at_def)
  have w0: "selections (w 0) sel = Some v" "fdsets (w 0) = fdsets s" by (simp_all add: w(1) select_waiting_def)
  let ?u = "(posted_in E chk sel v rd' wr' ex' r s1)\<lparr>cur := cur s\<rparr>"
  have "thread_select E sel (w 0) = Some (Ret () (posted_in E chk sel v rd' wr' ex' r s1))"
    by (rule thread_reports [where v = v and rd = rd' and wr = wr' and ex = ex' and n = n, OF assms(6) w(2) w0(1), unfolded v' sets w0(2)])
      (use assms(8,12,13,16-21) in blast)+
  with wait have "DosWaitEventSem E ev (select_msecs ?tmo) (select_waiting sel v ev k2 s) = Some (Ret 0 ?u)" by simp
  moreover have "select_waiting sel v ev k2 s = select_waiting sel v ev k2 (s\<lparr>kern := k0, selections := (selections s)(sel := Some ?v0)\<rparr>)"
    by (simp add: select_waiting_def)
  ultimately have "select_wait E (run s) sel (select_msecs ?tmo) (s\<lparr>kern := k0, selections := (selections s)(sel := Some ?v0)\<rparr>) =
    Some (Ret r (?u\<lparr>threads := (threads ?u)(run s := Some (t1\<lparr>th_state := PS_RUNNING\<rparr>)), selections := (selections ?u)(sel := None),
      kern := snd (DosCloseEventSem E ev (cur ?u) (kern ?u))\<rparr>))"
    by (intro select_wait_run [where ?v0.0 = ?v0 and v = v and rc = 0 and ?t0.0 = t, OF assms(6) run])
      (use assms(2,7,9,10,22) in \<open>simp_all add: posted_in_def found_in_def v(1) select_struct_def\<close>)
  then show ?thesis
    using assms(1-6,23) run
    by (auto simp: pthread_select_def run_simps kres_def kst_def fresh_def bindM_def seqM_def retM_def modM_def select_result_def
      posted_in_def found_in_def v' load_def getM_def kcall_def)
qed

section \<open>Input on descriptor 0 alone is never reported\<close>

text \<open>A structure for a call with a set of descriptors to read, at \<open>p\<close>, and no other.\<close>

definition reads_only :: "select_st \<Rightarrow> addr \<Rightarrow> bool" where
  "reads_only v p \<longleftrightarrow> sel_isrdfds v \<and> sel_readfds v = p \<and> p \<noteq> NULL \<and> \<not> sel_iswrfds v \<and> \<not> sel_isexfds v"

lemma reads_only_sets:
  assumes "reads_only v p"
  shows "sel_isrdfds v \<and> sel_readfds v = p \<and> \<not> sel_iswrfds v \<and> \<not> sel_isexfds v"
    and "sets_there v F \<longleftrightarrow> F p \<noteq> None"
    and "pasted v (Some g) wr ex F = F(p := Some g)"
  using assms by (auto simp: reads_only_def sets_there_def set_there_def pasted_def pasted_set_def split: option.split)

text \<open>\<open>silent E\<close>: no socket is ever ready, so \<^verbatim>\<open>select\<close> reports 0 at once.\<close>

definition silent :: "'k os \<Rightarrow> bool" where
  "silent E \<longleftrightarrow> (\<forall>n rd wr ex u. libc_select E n rd wr ex (0, 0) u = Some (Ret (0, rd, wr, ex) u)) \<and>
     (\<forall>u. DosSleep E 1 u = Some (Ret 0 u))"

definition polls_stdin :: "'k world \<Rightarrow> addr \<Rightarrow> bool" where
  "polls_stdin s sel \<longleftrightarrow> sel \<noteq> NULL \<and> (\<exists>v p f. selections s sel = Some v \<and> reads_only v p \<and> fdsets s p = Some f \<and>
     sel_event v \<noteq> 0 \<and> sel_done v = 0)"

lemma poll_round_silent:
  assumes "silent E" "polls_stdin s sel"
  shows "\<exists>k. poll_round E sel True s = Some (Ret 0 (s\<lparr>kern := k\<rparr>)) \<and> polls_stdin (s\<lparr>kern := k\<rparr>) sel"
proof -
  obtain v p f where v: "sel \<noteq> NULL" "selections s sel = Some v" "reads_only v p" "fdsets s p = Some f"
    "sel_event v \<noteq> 0" "sel_done v = 0" using assms(2) by (auto simp: polls_stdin_def)
  have "\<exists>k. poll_round E sel True s = Some (Ret 0 (s\<lparr>kern := k\<rparr>))"
    using poll_round_nothing [OF v(1,2)] assms(1) v(4) reads_only_sets(2) [OF v(3)] unfolding silent_def by blast
  then show ?thesis using v by (auto simp: polls_stdin_def)
qed

lemma poll_loop_silent: "poll_loop E sel chk s = Some y \<Longrightarrow> chk \<and> silent E \<longrightarrow> \<not> polls_stdin s sel"
proof (erule poll_loop.raw_induct [rotated])
  fix loop :: "'k os \<Rightarrow> addr \<Rightarrow> bool \<Rightarrow> 'k world \<Rightarrow> (int, 'k world) res option"
    and E sel chk and s :: "'k world" and y
  assume IH: "\<And>E sel chk s y. loop E sel chk s = Some y \<Longrightarrow> chk \<and> silent E \<longrightarrow> \<not> polls_stdin s sel"
    and st: "bindM (poll_round E sel chk) (\<lambda>result.
       bindM (load selections sel) (\<lambda>v s.
       if sel_event v \<noteq> 0 \<and> sel_done v = 0 then loop E sel chk s else retM result s)) s = Some y"
  show "chk \<and> silent E \<longrightarrow> \<not> polls_stdin s sel"
  proof (intro impI notI)
    assume a: "chk \<and> silent E" and p: "polls_stdin s sel"
    then obtain k where k: "poll_round E sel True s = Some (Ret 0 (s\<lparr>kern := k\<rparr>))" "polls_stdin (s\<lparr>kern := k\<rparr>) sel"
      using poll_round_silent by blast
    then obtain v where v: "sel \<noteq> NULL" "selections s sel = Some v" "sel_event v \<noteq> 0" "sel_done v = 0"
      by (auto simp: polls_stdin_def)
    have "chk = True" using a by simp
    then have "loop E sel chk (s\<lparr>kern := k\<rparr>) = Some y"
      using st v by (simp add: bindM_run [where m = "poll_round E sel True", OF k(1)] run_simps)
    with IH a k(2) show False by blast
  qed
qed

text \<open>
  A thread that selects on descriptor 0 waits for ever when nothing but input on descriptor 0 arrives.  The polling
  thread takes 0 out of the set it gives to \<^verbatim>\<open>select\<close> and puts it back into its copy when input is
  there, but it reports only a positive result of \<^verbatim>\<open>select\<close>, so its loop does not end,
  whatever \<^verbatim>\<open>FIONREAD\<close> says.
\<close>

lemma select_misses_stdin:
  assumes "silent E" and "sel \<noteq> NULL" and "selections s sel = Some v" and "reads_only v p"
    and "fdsets s p = Some f" and "0 \<in> f" and "sel_event v \<noteq> 0" and "sel_done v = 0"
  shows "thread_select E sel s = None"
proof -
  have "polls_stdin s sel" using assms by (auto simp: polls_stdin_def)
  then have "poll_loop E sel True s = None"
    using poll_loop_silent [of E sel True s] assms(1) by (cases "poll_loop E sel True s") auto
  then have "bindM (poll_loop E sel True) n s = None" for n :: "int \<Rightarrow> (unit, 'a world) prog"
    by (simp add: bindM_def)
  then show ?thesis
    using assms(2,3,5,6) reads_only_sets(1,2) [OF assms(4)]
    by (simp add: thread_select_def Let_def check_stdin_run [OF assms(2,3)] set_at_def has_stdin_def)
qed

section \<open>A call that is interrupted or times out\<close>

text \<open>
  When the wait of \<^verbatim>\<open>pthread_select\<close> ends before the polling thread has found anything, the call
  gives up: it returns -1 and clears the event of the shared structure.  If a signal is pending
  its handler runs first and \<^verbatim>\<open>errno\<close> is \<^verbatim>\<open>EINTR\<close>; otherwise, also for a timeout, for which \<^verbatim>\<open>select\<close> returns 0, it is
  \<^verbatim>\<open>ETIMEDOUT\<close>.
\<close>

lemma select_gives_up:
  assumes "sig_bits E b" and "plain_handlers E c" and "p \<noteq> NULL" and "sel \<noteq> NULL"
    and "selections s sel = Some v" and "threads s p = Some t"
    and "DosCreateEventSem E 0 (cur s) (kern s) = ((0, ev), k1)"
    and "beginthread E Thread_Select 65536 sel (cur s) k1 = (tid, k2)" and "tid \<noteq> -1"
    and "DosWaitEventSem E ev msecs (s\<lparr>selections := (selections s)(sel := Some (v\<lparr>sel_event := ev, sel_done := 0\<rparr>)), kern := k2,
        threads := (threads s)(p := Some (t\<lparr>th_data := W_Abort ev, th_state := PS_SELECT_WAIT\<rparr>))\<rparr>) = Some (Ret rc s1)"
    and "selections s1 sel = Some v1" and "sel_done v1 = 0" and "threads s1 p = Some t1"
    and "\<forall>n\<in>set (taking b (tp t1)). caught (tp t1) n"
  shows "\<exists>s'. bindM (select_wait E p sel msecs) (select_result E p) s = Some (Ret (-1) s') \<and>
    selections s' sel = Some (v1\<lparr>sel_event := 0\<rparr>) \<and>
    errnos s' (cur s1) = (if pend t1 \<noteq> 0 then EINTR else ETIMEDOUT) \<and>
    kern s' = (let k = snd (DosCloseEventSem E ev (cur s1) (kern s1)) in
      if pend t1 \<noteq> 0 then fold (\<lambda>n. c (catcher (tp t1) n) n (cur s1)) (taking b (tp t1)) k else k)"
proof -
  let ?s0 = "s\<lparr>selections := (selections s)(sel := Some (v\<lparr>sel_event := ev, sel_done := 0\<rparr>)), kern := k2,
        threads := (threads s)(p := Some (t\<lparr>th_data := W_Abort ev, th_state := PS_SELECT_WAIT\<rparr>))\<rparr>"
  obtain s2 where s2: "s2 = s1\<lparr>threads := (threads s1)(p := Some (t1\<lparr>th_state := PS_RUNNING\<rparr>)),
    selections := (selections s1)(sel := Some (v1\<lparr>sel_event := 0\<rparr>)), errnos := (errnos s1)(cur s1 := ETIMEDOUT),
    kern := snd (DosCloseEventSem E ev (cur s1) (kern s1))\<rparr>" by blast
  have "bindM (select_wait E p sel msecs) (select_result E p) s = select_result E p (-1) s2"
    using assms(3-9,11-13)
    by (simp add: select_wait_def select_collect_def run_simps kres_def kst_def s2
      seqM_run [where m = "DosWaitEventSem E ev msecs", OF assms(10)]) (simp add: bindM_def retM_def)
  moreover have "select_result E p (-1) s2 = Some (Ret (-1) (if pend t1 \<noteq> 0
      then (after_delivery E c p (t1\<lparr>th_state := PS_RUNNING, pend := 0\<rparr>) (taking b (tp t1)) s2)\<lparr>errnos := (errnos s2)(cur s2 := EINTR)\<rparr>
      else s2))"
  proof (cases "pend t1 = 0")
    case True
    then show ?thesis using assms(3) by (simp add: select_result_def run_simps s2 retM_def)
  next
    case False
    have d: "deliver_now E p s2 = Some (Ret () (after_delivery E c p (t1\<lparr>th_state := PS_RUNNING, pend := 0\<rparr>) (taking b (tp t1)) s2))"
      using deliver_now_run [OF assms(1,2,3), of s2 "t1\<lparr>th_state := PS_RUNNING\<rparr>"] assms(14) by (simp add: s2)
    have "threads s2 p = Some (t1\<lparr>th_state := PS_RUNNING\<rparr>)" by (simp add: s2)
    with False assms(3) show ?thesis
      by (simp add: select_result_def run_simps seqM_run [where m = "deliver_now E p", OF d] retM_def)
        (simp add: after_delivery_def)
  qed
  ultimately show ?thesis by (auto simp: after_delivery_def s2 Let_def)
qed

text \<open>
  A poll that is under way when \<^verbatim>\<open>pthread_select\<close> gives up still writes its result through the pointer to the
  caller's set, after the call has returned; then the polling thread frees the shared structure.
\<close>

lemma select_writes_late:
  assumes "sel \<noteq> NULL" and "selections s sel = Some v" and "reads_only v p" and "fdsets s p = Some f" and "0 \<notin> f"
    and "sel_event v = 0"
    and "libc_select E (sel_nfds v) (Some f) None None (0, 0) s = Some (Ret (r, Some g, None, None) s1)"
    and "0 < r" and "selections s1 sel = Some v" and "fdsets s1 p = Some f"
  shows "\<exists>s'. thread_select E sel s = Some (Ret () s') \<and> fdsets s' p = Some g \<and> selections s' sel = None"
proof -
  note R = reads_only_sets [OF assms(3)]
  have sets: "sets_there v (fdsets s)" "sets_there v (fdsets s1)" using R(2) assms(4,10) by simp_all
  have l: "libc_select E (sel_nfds v) (polled False (set_at (sel_isrdfds v) (sel_readfds v) (fdsets s)))
      (set_at (sel_iswrfds v) (sel_writefds v) (fdsets s)) (set_at (sel_isexfds v) (sel_exceptfds v) (fdsets s)) (0, 0) s =
      Some (Ret (r, Some g, None, None) s1)"
    using assms(4,7) R(1) by (simp add: polled_def set_at_def)
  have "poll_loop E sel False s = Some (Ret r (found_in E False sel (v\<lparr>sel_done := sel_done v + 1\<rparr>) (Some g) None None s1))"
    by (rule poll_loop_stops [where v = "v\<lparr>sel_done := sel_done v + 1\<rparr>", OF poll_round_ready [OF assms(1,2) sets(1) l assms(8,9) sets(2)] assms(1)])
       (use assms(6) in \<open>simp_all add: found_in_def\<close>)
  note loop = bindM_run [where m = "poll_loop E sel False", OF this]
  show ?thesis
    using assms(1,2,4,5,6) R
    by (simp add: thread_select_def run_simps check_stdin_run [OF assms(1,2) sets(1)] set_at_def has_stdin_def loop found_in_def with_stdin_def stdin_ready_def free_def modM_def)
qed


section \<open>Witnesses\<close>

definition demo_reading :: "int set \<Rightarrow> hev \<Rightarrow> int \<Rightarrow> select_st" where
  "demo_reading f ev d = demo_select\<lparr>sel_nfds := 8, sel_isrdfds := True, sel_readfds := 61, sel_event := ev, sel_done := d\<rparr>"

definition demo_polling :: "int set \<Rightarrow> select_st \<Rightarrow> demo_kern world" where
  "demo_polling f v = demo_world\<lparr>selections := [62 \<mapsto> v], fdsets := [61 \<mapsto> f]\<rparr>"

lemma demo_reading_sel [simp]:
  "reads_only (demo_reading f ev d) 61" "sel_nfds (demo_reading f ev d) = 8" "sel_event (demo_reading f ev d) = ev"
  "sel_done (demo_reading f ev d) = d"
  by (simp_all add: reads_only_def demo_reading_def demo_select_def)

lemma demo_polling_sel [simp]:
  "selections (demo_polling f v) = [62 \<mapsto> v]" "fdsets (demo_polling f v) = [61 \<mapsto> f]"
  "kern (demo_polling f v) = demo_kern0" "cur (demo_polling f v) = 1" "run (demo_polling f v) = 10"
  "threads (demo_polling f v) = threads demo_world"
  by (simp_all add: demo_polling_def)

text \<open>Descriptor 5 is always ready.\<close>

definition ready_five :: "demo_kern os" where
  "ready_five = demo_os\<lparr>libc_select := (\<lambda>n rd wr ex t. retM (1, Some {5}, None, None))\<rparr>"

text \<open>
  Nothing is ready at the first poll; descriptor 5 is after the first sleep of the polling thread.  There is input for descriptor 0.
  The second definition adds the wait of the caller, which ends in the state in which the polling thread ends.
\<close>

definition five_later :: "demo_kern os" where
  "five_later = demo_os\<lparr>
     libc_select := (\<lambda>n rd wr ex t s. if next_handle (kern s) = 101 then Some (Ret (0, Some {}, Some {}, None) s)
       else Some (Ret (1, Some {5}, Some {}, None) s)),
     DosSleep := (\<lambda>ms s. Some (Ret 0 (s\<lparr>kern := (kern s)\<lparr>next_handle := Suc (next_handle (kern s))\<rparr>\<rparr>))),
     libc_fionread := (\<lambda>fd t k. ((0, 12), k))\<rparr>"

definition waits_for_five :: "demo_kern os" where
  "waits_for_five = five_later\<lparr>DosWaitEventSem := (\<lambda>ev tmo s. Some (Ret 0
     ((posted_in five_later True 1000 (the (selections s 1000)) (Some {5}) (Some {}) None 1
        (s\<lparr>cur := 2, kern := (kern s)\<lparr>next_handle := 102\<rparr>\<rparr>))\<lparr>cur := cur s\<rparr>)))\<rparr>"

lemma waits_posted [simp]: "posted_in waits_for_five = posted_in five_later"
  by (simp add: posted_in_def found_in_def with_stdin_def stdin_ready_def after_fionread_def waits_for_five_def fun_eq_iff)

theorem select_reports_ready_witness:
  "\<exists>s'. pthread_select waits_for_five 8 61 63 NULL NULL (demo_world\<lparr>fdsets := [61 \<mapsto> {0, 5, 6}, 63 \<mapsto> {7}]\<rparr>) = Some (Ret 1 s') \<and>
    fdsets s' = [61 \<mapsto> {0, 5}, 63 \<mapsto> {}] \<and> posts (kern s') 100 = 1"
proof -
  let ?E = waits_for_five and ?s = "demo_world\<lparr>fdsets := [61 \<mapsto> {0, 5, 6}, 63 \<mapsto> {7}]\<rparr>"
  let ?k = "\<lambda>n. demo_kern0\<lparr>brk := 1100, next_handle := n\<rparr>"
  define v where v: "v = select_struct ?E 8 61 63 NULL NULL 100 (?s\<lparr>kern := demo_kern0\<lparr>brk := 1100\<rparr>\<rparr>)"
  define w where w: "w i = (select_waiting 1000 v 100 (?k (101 + i)) ?s)\<lparr>cur := 2\<rparr>" for i
  define F :: "addr \<Rightarrow> int set option" where F: "F = [61 \<mapsto> {0, 5, 6}, 63 \<mapsto> {7}]"
  have vs: "sel_isrdfds v" "sel_readfds v = 61" "sel_iswrfds v" "sel_writefds v = 63" "\<not> sel_isexfds v" "sel_nfds v = 8"
    "sel_event v = 100" "sel_done v = 0" by (simp_all add: v select_struct_def select_args_def)
  have f: "fdsets (w i) = F" "selections (w i) 1000 = Some v" for i
    by (simp_all add: w select_waiting_def F)
  have sets: "sets_there v F" using vs by (simp add: sets_there_def set_there_def F)
  have E: "libc_select ?E 8 rd wr ex (0, 0) (w 0) = Some (Ret (0, Some {}, Some {}, None) (w 0))"
    "libc_select ?E 8 rd wr ex (0, 0) (w 1) = Some (Ret (1, Some {5}, Some {}, None) (w 1))"
    "DosSleep ?E 1 ((w 0)\<lparr>kern := kern (w 0)\<rparr>) = Some (Ret 0 (w 1))"
    "libc_fionread ?E = (\<lambda>fd t k. ((0, 12), k))" for rd wr ex
    by (simp_all add: waits_for_five_def five_later_def select_waiting_def w)
  have "poll_round ?E 1000 True (w 0) = Some (Ret 0 (w 1))"
    by (rule poll_round_nothing [where s = "w 0" and v = v, unfolded vs(6) f(1), OF _ f(2) sets E(1)])
      (use E(3) in \<open>simp_all add: after_fionread_def kst_def E(4)\<close>)
  then have idle: "idle_rounds ?E 1000 True w 1" using vs f by (simp add: idle_rounds_def)
  have "thread_select ?E 1000 (w 0) = Some (Ret () (posted_in five_later True 1000 v (Some {5}) (Some {}) None 1 (w 1)))"
    using thread_reports [OF _ idle f(2) _ _ vs(8) _ f(2), unfolded f(1), where rd = "Some {5}" and wr = "Some {}" and ex = None and r = 1 and ?s1.0 = "w 1"]
      sets vs f E(2) by (simp add: F has_stdin_def set_at_def)
  moreover
  let ?W = "select_waiting 1000 v 100 (?k 101) ?s"
  have W: "selections ?W 1000 = Some v" "cur ?W = 1" "?W\<lparr>cur := 2, kern := (kern ?W)\<lparr>next_handle := 102\<rparr>\<rparr> = w 1"
    by (simp_all add: w select_waiting_def)
  have "DosWaitEventSem ?E 100 m ?W = Some (Ret 0 ((posted_in five_later True 1000 v (Some {5}) (Some {}) None 1 (w 1))\<lparr>cur := 1\<rparr>))" for m
    unfolding W(3) [symmetric] by (simp add: waits_for_five_def W(1,2))
  ultimately have wait: "\<forall>s'. thread_select ?E 1000 (w 0) = Some (Ret () s') \<longrightarrow>
      DosWaitEventSem ?E 100 (select_msecs (if NULL = NULL then None else timevals ?s NULL)) ?W = Some (Ret 0 (s'\<lparr>cur := cur ?s\<rparr>))"
    by simp
  have E': "malloc ?E (cur ?s) (kern ?s) = (1000, demo_kern0\<lparr>brk := 1100\<rparr>)"
    "DosCreateEventSem ?E 0 (cur ?s) (demo_kern0\<lparr>brk := 1100\<rparr>) = ((0, 100), ?k 101)"
    "beginthread ?E Thread_Select 65536 1000 (cur ?s) (?k 101) = (5, ?k 101)"
    "inited ?s" "threads ?s (run ?s) = Some demo_thread" "pend demo_thread = 0"
    "threads (w 1) (run ?s) = Some (demo_thread\<lparr>th_data := W_Abort 100, th_state := PS_SELECT_WAIT\<rparr>)"
    by (simp_all add: waits_for_five_def five_later_def demo_new_def inited_def run_def w select_waiting_def)
  have chk: "True = has_stdin (set_at (61 \<noteq> NULL) 61 (fdsets ?s))" by (simp add: has_stdin_def set_at_def)
  have F0: "fdsets ?s = F" by (simp add: F)
  from select_reports_ready [where timeout = NULL and nfds = 8 and rd = 61 and wr = 63 and ex = NULL and u = 2 and w = w and n = 1 and r = 1,
      OF E'(4,5,6) _ E'(1) _ E'(2) _ E'(3) _ v _ chk _ idle f(2) _ E(2) _ f(2) _ E'(7) _ wait, unfolded f F0] sets
  have "\<exists>s'. pthread_select ?E 8 61 63 NULL NULL ?s = Some (Ret 1 s') \<and>
    fdsets s' = pasted v (with_stdin ?E True (w 1) (Some {5})) (Some {}) None F \<and>
    kern s' = snd (DosCloseEventSem ?E 100 (cur ?s) (snd (DosPostEventSem ?E 100 (cur (w 1)) (after_fionread ?E True (w 1)))))"
    by (auto simp: w)
  moreover have "pasted v (with_stdin ?E True (w 1) (Some {5})) (Some {}) None F = [61 \<mapsto> {0, 5}, 63 \<mapsto> {}]"
    by (simp add: pasted_def pasted_set_def vs with_stdin_def stdin_ready_def kres_def E(4) F)
  moreover have "posts (snd (DosCloseEventSem ?E 100 (cur ?s) (snd (DosPostEventSem ?E 100 (cur (w 1)) (after_fionread ?E True (w 1)))))) 100 = 1"
    by (simp add: waits_for_five_def five_later_def after_fionread_def kst_def demo_ok_def w select_waiting_def)
  ultimately show ?thesis by auto
qed

lemma select_misses_stdin_witness:
  "thread_select (demo_os\<lparr>libc_fionread := (\<lambda>fd t k. ((0, 12), k))\<rparr>) 62 (demo_polling {0} (demo_reading {0} 90 0)) = None"
  by (rule select_misses_stdin [where v = "demo_reading {0} 90 0" and f = "{0}" and p = 61])
    (simp_all add: silent_def retM_def)

lemma select_writes_late_witness:
  "\<exists>s'. thread_select ready_five 62 (demo_polling {5, 6} (demo_reading {5, 6} 0 0)) = Some (Ret () s') \<and>
    fdsets s' 61 = Some {5} \<and> selections s' 62 = None"
  by (rule select_writes_late [where v = "demo_reading {5, 6} 0 0" and f = "{5, 6}" and r = 1 and ?s1.0 = "demo_polling {5, 6} (demo_reading {5, 6} 0 0)"])
    (simp_all add: ready_five_def retM_def)

lemma select_gives_up_witness:
  "\<exists>s'. bindM (select_wait demo_os 10 62 200) (select_result demo_os 10) (demo_polling {5} (demo_reading {5} 90 0)) =
      Some (Ret (-1) s') \<and> errnos s' 1 = ETIMEDOUT"
proof -
  let ?s = "demo_polling {5} (demo_reading {5} 90 0)" and ?v = "(demo_reading {5} 90 0)\<lparr>sel_event := 100, sel_done := 0\<rparr>"
  let ?k = "demo_kern0\<lparr>next_handle := 101\<rparr>" and ?t = "demo_thread\<lparr>th_data := W_Abort 100, th_state := PS_SELECT_WAIT\<rparr>"
  let ?s1 = "?s\<lparr>selections := (selections ?s)(62 := Some ?v), kern := ?k, threads := (threads ?s)(10 := Some ?t)\<rparr>"
  have new: "DosCreateEventSem demo_os 0 (cur ?s) (kern ?s) = ((0, 100), ?k)" by (simp add: demo_new_def)
  have start: "beginthread demo_os Thread_Select 65536 62 (cur ?s) ?k = (5, ?k)" by simp
  have wait: "DosWaitEventSem demo_os 100 200 ?s1 = Some (Ret ERROR_TIMEOUT ?s1)" by (simp add: demo_wait_def)
  have plain: "\<forall>n\<in>set (taking nat (tp ?t)). caught (tp ?t) n" by (simp add: taking_def takes_def)
  have sel: "selections ?s 62 = Some (demo_reading {5} 90 0)" "threads ?s 10 = Some demo_thread"
    "selections ?s1 62 = Some ?v" "sel_done ?v = 0" "threads ?s1 10 = Some ?t" by simp_all
  from select_gives_up [OF demo_sig_bits demo_plain_handlers _ _ sel(1,2) new start _ wait sel(3,4,5) plain]
  show ?thesis by (simp, elim exE conjE) (rule exI, rule conjI, assumption, simp)
qed

end
