(* ===== verification/Register.thy ===== *)
theory Register
  imports Create
begin

text \<open>
  The first call of a thread into the library: \<^verbatim>\<open>_thread_init\<close> of \<^verbatim>\<open>uthread_self.c\<close> gives it a structure
  and puts that at the head of the list of live threads.  The last section has the priority it starts with.
\<close>

text \<open>The initial thread, at its first call.\<close>

definition first_thread :: "'k world \<Rightarrow> bool" where
  "first_thread s \<longleftrightarrow> thread_initial s = NULL \<and> cur s = 1"

lemma thread_init_run:
  assumes r: "run s = NULL" and m: "kres (malloc E) s = p" "p \<noteq> NULL"
  shows "\<exists>s' t. thread_init E s = Some (Ret p s') \<and> threads s' = (threads s)(p := Some t) \<and>
    threadstore s' = (threadstore s)(cur s := p) \<and> thread_link_list s' = p \<and> thread_dead s' = thread_dead s \<and>
    thread_initial s' = (if first_thread s then p else thread_initial s) \<and> cur s' = cur s \<and> nxt t = thread_link_list s \<and> threadid t = cur s \<and>
    th_state t = PS_RUNNING \<and> parent_thread t = NULL \<and> th_attr t = pthread_attr_default \<and>
    th_cleanup t = NULL \<and> specific_data t = NULL \<and> pend t = 0"
proof -
  let ?j = "junk_thread E (s\<lparr>kern := kst (malloc E) s\<rparr>)"
  obtain t1 where t1: "t1 = ?j\<lparr>start_routine := NULL, th_arg := NULL,
      parent_thread := NULL, th_self := cur s, threadid := cur s, pthread_priority := 32\<rparr>" by blast
  obtain s1 where s1: "s1 = s\<lparr>kern := kst (malloc E) s, threadstore := (threadstore s)(cur s := p),
      threads := (threads s)(p := Some t1)\<rparr>" by blast
  obtain s1' where s1': "s1' = s1\<lparr>thread_initial := if first_thread s then p else thread_initial s\<rparr>" by blast
  have f1: "run s1 = p" "threads s1' p = Some t1" by (simp_all add: s1' s1 run_def)
  have "thread_init_again s1 = Some (Ret p s1)" using f1(1) m(2) by (simp add: thread_init_again_def retM_def)
  then have "PTHREAD_INIT_with thread_init_again s1 = Some (Ret () s1')"
    using f1(1) by (simp add: PTHREAD_INIT_with_def seqM_run [where m = thread_init_again] first_thread_def modM_def retM_def s1')
      (simp add: s1)
  moreover have "run s1' = p" using f1(1) by (simp add: s1')
  ultimately have "pthread_self_with E thread_init_again s1 = Some (Ret p s1')"
    using m(2) by (simp add: pthread_self_with_def seqM_run [where m = "PTHREAD_INIT_with thread_init_again"] retM_def)
  from init_with_run [where E = E and self = "pthread_self_with E thread_init_again", OF this m(2) f1(2)] obtain s2 t2 where
    e: "pthread_init_with E (pthread_self_with E thread_init_again) s1 = Some (Ret () s2)"
    and s2: "so_loaded (s1'\<lparr>threads := (threads s1')(p := Some t2)\<rparr>) s2"
    and t2: "t2 = t1\<lparr>pend := 0, tp := fresh_signals ((tp t1)\<lparr>sig_blocked := 0, sig_pending := 0\<rparr>) NSIG\<rparr>" by blast
  note f = so_loaded_sel [OF s2]
  have f2: "threads s2 p = Some t2" "cur s2 = cur s" "thread_link_list s2 = thread_link_list s"
    by (simp_all add: f) (simp_all add: s1' s1)
  let ?rest = "seqM (upd_thread p (\<lambda>t. t\<lparr>th_attr := pthread_attr_default\<rparr>))
    (bindM (kcall (DosGetInfoBlocks E)) (\<lambda>ulpri.
     seqM (upd_thread p (\<lambda>t. t\<lparr>pthread_priority := initial_priority ulpri,
             specific_data := NULL, th_cleanup := NULL, th_queue := NULL, qnxt := NULL,
             th_flags := 0\<rparr>))
    (seqM (thread_kern_enter_crit_sec E)
    (bindM (getM thread_link_list) (\<lambda>first.
     seqM (upd_thread p (\<lambda>t. t\<lparr>nxt := first\<rparr>))
    (seqM (modM (\<lambda>s. s\<lparr>thread_link_list := p\<rparr>))
    (seqM (thread_kern_leave_crit_sec E)
    (seqM (PTHREAD_NEW_STATE p PS_RUNNING ''uthread_self.c'' 84) (retM p)))))))))"
  have "thread_init E s = seqM (pthread_init_with E (pthread_self_with E thread_init_again)) ?rest s1"
    using r m by (simp add: thread_init_def run_simps set_thread_run_def s1 t1)
  also have "\<dots> = ?rest s2"
    by (rule seqM_run [where m = "pthread_init_with E (pthread_self_with E thread_init_again)", OF e])
  finally have e1: "thread_init E s = ?rest s2" .
  obtain t3 where t3: "t3 = t2\<lparr>th_attr := pthread_attr_default, pthread_priority := initial_priority
      (kres (DosGetInfoBlocks E) s2), specific_data := NULL, th_cleanup := NULL, th_queue := NULL, qnxt := NULL,
      th_flags := 0, nxt := thread_link_list s, th_state := PS_RUNNING,
      th_fname := ''uthread_self.c'', th_lineno := 84\<rparr>" by blast
  obtain s3 where s3: "s3 = s2\<lparr>thread_link_list := p, kern := kst (DosExitCritSec E)
      (s2\<lparr>kern := kst (DosEnterCritSec E) (s2\<lparr>kern := kst (DosGetInfoBlocks E) s2\<rparr>)\<rparr>),
      threads := (threads s2)(p := Some t3)\<rparr>" by blast
  have "?rest s2 = Some (Ret p s3)"
    using m(2) f2 by (simp add: run_simps retM_def s3 t3)
  with e1 have "thread_init E s = Some (Ret p s3)" by (rule trans)
  then show ?thesis
    by (intro exI [of _ s3] exI [of _ t3]) (simp add: s3 f, simp add: s1' s1 t3 t2 t1)
qed

lemma registered:
  assumes s: "run s = NULL" and live: "live_list s xs"
    and m: "kres (malloc E) s = p" "p \<noteq> NULL" "p \<notin> set xs"
  shows "\<exists>s' t. thread_init E s = Some (Ret p s') \<and> threads s' = (threads s)(p := Some t) \<and>
    live_list s' (p # xs) \<and> cur s' = cur s \<and> run s' = p \<and> thread_dead s' = thread_dead s \<and>
    thread_initial s' = (if first_thread s then p else thread_initial s) \<and> threadid t = cur s \<and>
    th_state t = PS_RUNNING \<and> th_attr t = pthread_attr_default \<and> th_cleanup t = NULL \<and>
    specific_data t = NULL \<and> parent_thread t = NULL"
proof -
  from thread_init_run [OF s m(1,2)] obtain s' t where
    r: "thread_init E s = Some (Ret p s')" "threads s' = (threads s)(p := Some t)"
      "threadstore s' = (threadstore s)(cur s := p)" "thread_link_list s' = p" "thread_dead s' = thread_dead s"
      "thread_initial s' = (if first_thread s then p else thread_initial s)" "cur s' = cur s"
    and t: "nxt t = thread_link_list s" "threadid t = cur s" "th_state t = PS_RUNNING"
      "parent_thread t = NULL" "th_attr t = pthread_attr_default" "th_cleanup t = NULL" "specific_data t = NULL"
    by blast
  have "live_list s' (p # xs)"
    by (rule live_list_new [OF live m(2,3) t(1) r(4)]) (simp_all add: r(2))
  moreover have "run s' = p" using r(3,7) by (simp add: run_def)
  ultimately show ?thesis using r t by blast
qed

lemma self_run:
  assumes s: "run s = NULL" and live: "live_list s xs"
    and m: "fst (malloc E (cur s) (if first_thread s then kern s else kst (DosEnterMustComplete E) s)) = p"
      "p \<noteq> NULL" "p \<notin> set xs"
  shows "\<exists>s' t. pthread_self E s = Some (Ret p s') \<and> threads s' = (threads s)(p := Some t) \<and>
    live_list s' (p # xs) \<and> threadid t = cur s \<and> th_state t = PS_RUNNING \<and>
    th_attr t = pthread_attr_default \<and> th_cleanup t = NULL \<and> specific_data t = NULL \<and>
    (first_thread s \<longrightarrow> thread_initial s' = p) \<and> run s' = p \<and> inited s' \<and>
    parent_thread t = NULL \<and> thread_dead s' = thread_dead s"
proof (cases "first_thread s")
  case True
  with m(1) have "kres (malloc E) s = p" by (simp add: kres_def)
  from registered [OF s live this m(2,3)] True obtain s' t where
    r: "thread_init E s = Some (Ret p s')" "threads s' = (threads s)(p := Some t)"
      "live_list s' (p # xs)" "run s' = p" "thread_initial s' = p" "thread_dead s' = thread_dead s"
    and t: "threadid t = cur s" "th_state t = PS_RUNNING" "th_attr t = pthread_attr_default" "th_cleanup t = NULL"
      "specific_data t = NULL" "parent_thread t = NULL" by auto
  have "s'\<lparr>thread_initial := p\<rparr> = s'" using r(5) by (cases s') simp
  then have "PTHREAD_INIT_with (thread_init E) s = Some (Ret () s')"
    using True r(4) by (simp add: PTHREAD_INIT_with_def first_thread_def seqM_run [where m = "thread_init E", OF r(1)] modM_def)
  then have "pthread_self E s = Some (Ret p s')"
    using r(4) m(2) by (simp add: pthread_self_def pthread_self_with_def
        seqM_run [where m = "PTHREAD_INIT_with (thread_init E)"] retM_def)
  moreover have "inited s'" using r(4,5) m(2) by (simp add: inited_def)
  ultimately show ?thesis using r(2-6) t by auto
next
  case False
  have "kres (malloc E) (blocked E s) = p" using m(1) False by (simp add: kres_def blocked_def)
  moreover have "run (blocked E s) = NULL" "live_list (blocked E s) xs"
    using s live by (simp_all add: blocked_def)
  ultimately obtain s' t where
    r: "thread_init E (blocked E s) = Some (Ret p s')" "threads s' = (threads s)(p := Some t)"
      "live_list s' (p # xs)" "run s' = p" "cur s' = cur s"
      "thread_initial s' = (if first_thread (blocked E s) then p else thread_initial (blocked E s))"
      "thread_dead s' = thread_dead (blocked E s)"
    and t: "threadid t = cur s" "th_state t = PS_RUNNING" "th_attr t = pthread_attr_default" "th_cleanup t = NULL"
      "specific_data t = NULL" "parent_thread t = NULL" using registered [of "blocked E s" xs E p] m(2,3) by auto
  have "PTHREAD_INIT_with (thread_init E) s = Some (Ret () s)"
    using False unfolding first_thread_def by (auto simp: PTHREAD_INIT_with_def retM_def)
  then have "pthread_self E s = Some (Ret p (unblocked E s'))"
    using s by (simp add: pthread_self_def pthread_self_with_def block_run
        seqM_run [where m = "PTHREAD_INIT_with (thread_init E)"] bindM_run [where m = "thread_init E", OF r(1)]
        retM_def del: sig_block_run sig_unblock_run)
  moreover have "inited (unblocked E s')"
    using r(4,5,6) m(2) False by (auto simp: inited_def first_thread_def unblocked_def blocked_def)
  moreover have "live_list (unblocked E s') (p # xs)" "threads (unblocked E s') = threads s'"
    "run (unblocked E s') = p" "thread_dead (unblocked E s') = thread_dead s"
    using r(3,4,7) by (simp_all add: unblocked_def blocked_def)
  ultimately show ?thesis using r(2) t False by auto
qed

text \<open>
  The first call of \<^verbatim>\<open>pthread_self\<close> by a thread without a structure gives it one and returns it: running, with the
  default attributes, no handlers and no data, at the head of the list of live threads, and
  recorded as the initial thread if it is thread 1 and there was none.  The next call returns the same
  structure and changes nothing.
\<close>

lemma self_registers:
  assumes s: "run s = NULL" and live: "live_list s xs"
    and m: "fst (malloc E (cur s) (if first_thread s then kern s else kst (DosEnterMustComplete E) s)) = p"
      "p \<noteq> NULL" "p \<notin> set xs"
  shows "\<exists>s' t. pthread_self E s = Some (Ret p s') \<and> threads s' = (threads s)(p := Some t) \<and>
    live_list s' (p # xs) \<and> threadid t = cur s \<and> th_state t = PS_RUNNING \<and>
    th_attr t = pthread_attr_default \<and> th_cleanup t = NULL \<and> specific_data t = NULL \<and>
    (first_thread s \<longrightarrow> thread_initial s' = p) \<and> pthread_self E s' = Some (Ret p s')"
  using self_run [OF assms] pthread_self_Some by metis

definition demo_fresh :: "demo_kern world" where
  "demo_fresh = demo_world\<lparr>threads := Map.empty, threadstore := (\<lambda>_. NULL), thread_link_list := NULL, thread_initial := NULL\<rparr>"

lemma demo_fresh_ok:
  "run demo_fresh = NULL" "live_list demo_fresh []" "first_thread demo_fresh"
  "kern demo_fresh = demo_kern0" "threads demo_fresh = Map.empty" "thread_dead demo_fresh = NULL" "cur demo_fresh = 1"
  by (simp_all add: demo_fresh_def run_def live_list_def first_thread_def)

lemma self_registers_witness:
  "\<exists>s' t. pthread_self demo_os demo_fresh = Some (Ret 1000 s') \<and> live_list s' [1000] \<and>
     threads s' = [1000 \<mapsto> t] \<and> th_state t = PS_RUNNING \<and> thread_initial s' = 1000 \<and>
     pthread_self demo_os s' = Some (Ret 1000 s')"
  using self_registers [OF demo_fresh_ok(1,2), of demo_os 1000] demo_fresh_ok(3-5) by fastforce

section \<open>The priority of a registered thread\<close>

text \<open>
  The OS gives the priority of a thread as a word with the class in its second byte and the level in its five lowest
  bits; \<^verbatim>\<open>_thread_init\<close> puts them together with masks and shifts.
\<close>

lemma and_field: "x AND push_bit n (mask m) = push_bit n (take_bit m (drop_bit n x))" for x :: int
  by (rule bit_eqI) (auto simp: bit_simps)

lemma drop_push: "drop_bit n (push_bit (n + m) x) = push_bit m x" for x :: int
  by (rule bit_eqI) (auto simp: bit_simps intro: arg_cong [where f = "bit x"])

lemma or_push:
  fixes a b :: int assumes "0 \<le> a" "a < 2 ^ n"
  shows "a OR push_bit n b = a + push_bit n b"
proof -
  have "a AND push_bit n b = 0"
  proof (rule bit_eqI)
    fix k
    have "\<not> bit a k" if "n \<le> k"
      using assms that by (metis bit_take_bit_iff linorder_not_le take_bit_int_eq_self)
    then show "bit (a AND push_bit n b) k = bit 0 k" by (auto simp: bit_simps)
  qed
  then show ?thesis by (simp add: disjunctive_add_eq_or)
qed

lemma uint_self: "take_bit 32 (uint u) = uint u" for u :: u32
  using uint_bounded [of u] uint_ge_0 [of u] by (simp add: take_bit_int_eq_self_iff)

lemma level_bits: "uint (u AND 0x1f :: u32) = uint u mod 32"
proof -
  have "(31 :: int) = mask 5" by (simp add: mask_eq_exp_minus_1)
  then have "uint u AND 31 = take_bit 5 (uint u)" by (simp only: take_bit_eq_mask)
  then show ?thesis by (simp add: unsigned_and_eq take_bit_eq_mod)
qed

lemma class_bits: "uint (drop_bit 3 (u AND 0xff00) :: u32) = 32 * (uint u div 256 mod 256)"
proof -
  have m: "(0xff00 :: int) = push_bit 8 (mask 8)" by (simp add: mask_eq_exp_minus_1 push_bit_eq_mult)
  have "uint (drop_bit 3 (u AND 0xff00)) = drop_bit 3 (uint u AND 0xff00)"
    by (simp add: unsigned_drop_bit_eq unsigned_and_eq uint_self)
  also have "\<dots> = push_bit 5 (take_bit 8 (drop_bit 8 (uint u)))"
    unfolding m and_field using drop_push [of 3 5] by simp
  finally show ?thesis by (simp add: push_bit_eq_mult take_bit_eq_mod drop_bit_eq_div)
qed

text \<open>The reference: 32 levels to each class from 1 on, and at most the maximum.\<close>

definition priority_of :: "int \<Rightarrow> int \<Rightarrow> int" where
  "priority_of class level =
     (if class = 0 then PTHREAD_MAX_PRIORITY else min PTHREAD_MAX_PRIORITY (32 * (class - 1) + level))"

text \<open>
  C16: For every word the OS can give, the masks and shifts of \<^verbatim>\<open>_thread_init\<close> compute the priority of the reference: 32 times
  the class less one, plus the level, cut at 126; a word of class 0, for which the subtraction wraps around, gives 126.  The
  result is a priority that \<^verbatim>\<open>pthread_setprio\<close> accepts.
\<close>

theorem initial_priority_arith:
  "initial_priority u = priority_of (uint u div 256 mod 256) (uint u mod 32) \<and>
   PTHREAD_MIN_PRIORITY \<le> initial_priority u \<and> initial_priority u \<le> PTHREAD_MAX_PRIORITY"
proof -
  let ?c = "uint u div 256 mod 256" and ?l = "uint u mod 32"
  let ?x = "if ?c = 0 then 2 ^ 27 - 1 else ?c - 1"
  have "uint (drop_bit 3 (u AND 0xff00) - 32 :: u32) = (32 * ?c - 32) mod 2 ^ 32"
    by (simp only: uint_word_ariths class_bits) simp
  also have "\<dots> = push_bit 5 ?x" by (simp add: push_bit_eq_mult)
  finally have "uint ((u AND 0x1f) OR (drop_bit 3 (u AND 0xff00) - 32) :: u32) = ?l + push_bit 5 ?x"
    using or_push [of ?l 5] by (simp add: unsigned_or_eq level_bits)
  moreover have "0 \<le> ?l" by simp
  ultimately have "initial_priority u = priority_of ?c ?l"
    by (auto simp: initial_priority_def priority_of_def PTHREAD_MAX_PRIORITY_def push_bit_eq_mult min_def Let_def)
  moreover have "0 \<le> priority_of ?c ?l" "priority_of ?c ?l \<le> 126"
    by (auto simp: priority_of_def PTHREAD_MAX_PRIORITY_def min_def intro: add_nonneg_nonneg)
  ultimately show ?thesis by (simp add: PTHREAD_MIN_PRIORITY_def PTHREAD_MAX_PRIORITY_def)
qed

end
