(* ===== verification/Stages.thy ===== *)
theory Stages
  imports Select Alarm Locking Dl Once Cond Attrs Queue
begin

text \<open>
  The directory of threads as an invariant of the whole process: the two lists are well formed and disjoint,
  every word of thread-local storage holds \<^verbatim>\<open>NULL\<close> or a thread on one of them, no two OS threads
  share a structure, and the union of each structure holds the member its state says.  \<open>stage\<close> says where the calling thread stands; \<open>keeps\<close> is a Hoare triple
  whose pre- and postcondition are the same stage, with one rule for each way to build a program,
  so that a call is checked by following its definition.  A program that is \<open>valid\<close> also never reads a
  member of the union that was not written last.
\<close>

section \<open>The wait data of a thread\<close>

text \<open>
  The member of \<^verbatim>\<open>union pthread_wait_data\<close> that the library reads in a state.  Nothing reads it in the states that
  allow any member; \<^verbatim>\<open>locking\<close> enters the two states of a file lock without writing one.
\<close>

fun fits :: "pthread_state \<Rightarrow> wait_data \<Rightarrow> bool" where
  "fits PS_MUTEX_WAIT w = (\<exists>m. w = W_Mutex m)"
| "fits PS_COND_WAIT w = (\<exists>c. w = W_Cond c)"
| "fits PS_FDR_WAIT w = (\<exists>fd br fn. w = W_Fd fd br fn)"
| "fits PS_FDW_WAIT w = (\<exists>fd br fn. w = W_Fd fd br fn)"
| "fits PS_SELECT_WAIT w = (\<exists>ev. w = W_Abort ev)"
| "fits PS_SLEEP_WAIT w = (\<exists>ev. w = W_Abort ev)"
| "fits PS_WAIT_WAIT w = (\<exists>ev. w = W_Abort ev)"
| "fits PS_SIGWAIT w = (\<exists>ev. w = W_Abort ev)"
| "fits _ w = True"

abbreviation wait_ok :: "pthread \<Rightarrow> bool" where
  "wait_ok t \<equiv> fits (th_state t) (th_data t)"

definition waits_ok :: "addr set \<Rightarrow> (addr \<Rightarrow> pthread option) \<Rightarrow> bool" where
  "waits_ok R h \<longleftrightarrow> (\<forall>p t. h p = Some t \<longrightarrow> p \<in> R \<or> wait_ok t)"

lemma waits_okD: "waits_ok R h \<Longrightarrow> h p = Some t \<Longrightarrow> p \<notin> R \<Longrightarrow> wait_ok t"
  unfolding waits_ok_def by blast

lemma waits_ok_upd: "waits_ok R h \<Longrightarrow> p \<in> R \<or> wait_ok t \<Longrightarrow> waits_ok R (h(p := Some t))"
  by (simp add: waits_ok_def)

lemma waits_ok_mono: "waits_ok R h \<Longrightarrow> R \<subseteq> R' \<Longrightarrow> waits_ok R' h"
  unfolding waits_ok_def by blast

lemma waits_ok_empty [simp]: "waits_ok R Map.empty"
  by (simp add: waits_ok_def)

section \<open>The directory\<close>

text \<open>
  \<open>own k\<close> is the memory that the allocator has handed out in the kernel state \<open>k\<close>; \<open>new\<close> holds a structure
  that its thread has stored in its word of local storage but not yet put on the list.
\<close>

definition directory ::
  "('k \<Rightarrow> addr set) \<Rightarrow> 'k world \<Rightarrow> addr list \<Rightarrow> addr list \<Rightarrow> addr set \<Rightarrow> bool" where
  "directory own s xs ds new \<longleftrightarrow>
     lists_ok s xs ds \<and> dom (threads s) \<subseteq> own (kern s) \<and> new \<inter> (set xs \<union> set ds) = {} \<and>
     new \<subseteq> dom (threads s) - {NULL} \<and>
     (\<forall>u. threadstore s u \<in> insert NULL (set xs \<union> set ds \<union> new)) \<and>
     (\<forall>u v. threadstore s u = threadstore s v \<longrightarrow> threadstore s u = NULL \<or> u = v)"

definition sound :: "('k \<Rightarrow> addr set) \<Rightarrow> 'k world \<Rightarrow> bool" where
  "sound own s \<longleftrightarrow> waits_ok {} (threads s) \<and> (\<exists>xs ds. directory own s xs ds {})"

text \<open>
  \<open>Loose\<close>: the thread is not registered, or is and lives.  \<open>Live p\<close>, \<open>Dead p\<close>: its structure is \<open>p\<close>,
  on the list of live or of dead threads.  \<open>Unlisted p\<close>: \<open>p\<close> is on no list.  A new structure comes from
  \<^verbatim>\<open>malloc\<close>, so that state and union are whatever was in the memory: \<open>Fresh p\<close> when it is on no list, \<open>Raw p\<close> when
  it is on the list of live threads and its state has not been set yet.
\<close>

datatype stage = Loose | Live addr | Dead addr | Unlisted addr | Fresh addr | Raw addr

fun raw :: "stage \<Rightarrow> addr set" where
  "raw (Fresh p) = {p}"
| "raw (Raw p) = {p}"
| "raw _ = {}"

definition at_stage :: "('k \<Rightarrow> addr set) \<Rightarrow> stage \<Rightarrow> 'k world \<Rightarrow> bool" where
  "at_stage own z s \<longleftrightarrow> waits_ok (raw z) (threads s) \<and> (case z of
     Loose \<Rightarrow> (\<exists>xs ds. directory own s xs ds {} \<and> run s \<in> insert NULL (set xs))
   | Live p \<Rightarrow> (\<exists>xs ds. directory own s xs ds {} \<and> run s = p \<and> p \<in> set xs)
   | Dead p \<Rightarrow> (\<exists>xs ds. directory own s xs ds {} \<and> run s = p \<and> p \<in> set ds)
   | Unlisted p \<Rightarrow> (\<exists>xs ds. directory own s xs ds {p} \<and> run s = p)
   | Fresh p \<Rightarrow> (\<exists>xs ds. directory own s xs ds {p} \<and> run s = p)
   | Raw p \<Rightarrow> (\<exists>xs ds. directory own s xs ds {} \<and> run s = p \<and> p \<in> set xs))"

fun settled :: "stage \<Rightarrow> bool" where
  "settled (Unlisted p) = False"
| "settled (Fresh p) = False"
| "settled (Raw p) = False"
| "settled _ = True"

lemma settled_raw [simp]: "settled z \<Longrightarrow> raw z = {}"
  by (cases z) simp_all

lemma at_stage_sound: "at_stage own z s \<Longrightarrow> settled z \<Longrightarrow> sound own s"
  by (cases z) (auto simp: at_stage_def sound_def)

lemma at_stage_Live: "at_stage own (Live p) s \<Longrightarrow> at_stage own Loose s \<and> run s = p"
  by (auto simp: at_stage_def)

text \<open>What a stage depends on.\<close>

lemma dom_nlink: "dom (nlink h) = dom h"
  by (auto simp: nlink_def)

lemma at_stage_cong:
  assumes "nlink (threads s') = nlink (threads s)" "thread_link_list s' = thread_link_list s"
    "thread_dead s' = thread_dead s" "threadstore s' = threadstore s" "cur s' = cur s"
    "own (kern s) \<subseteq> own (kern s')" and w: "waits_ok (raw z) (threads s) \<Longrightarrow> waits_ok (raw z) (threads s')"
    and s: "at_stage own z s"
  shows "at_stage own z s'"
proof -
  have "dom (threads s') = dom (threads s)"
    using assms(1) dom_nlink by metis
  moreover have "lists_ok s' = lists_ok s"
    using assms(1-3) by (intro ext) (simp add: lists_ok_def live_list_def dead_list_def)
  moreover have "run s' = run s" using assms(4,5) by (simp add: run_def)
  ultimately have "directory own s xs ds new \<Longrightarrow> directory own s' xs ds new" for xs ds new
    using assms(4,6) by (auto simp: directory_def)
  with s w \<open>run s' = run s\<close> show ?thesis
    unfolding at_stage_def by (cases z) (simp only: stage.case; blast)+
qed

section \<open>Programs that keep a stage\<close>

text \<open>A thread that ends is dead; a process may end at any time.\<close>

definition ended :: "('k \<Rightarrow> addr set) \<Rightarrow> stop \<Rightarrow> 'k world \<Rightarrow> bool" where
  "ended own e s \<longleftrightarrow> (case e of Exit_Process n \<Rightarrow> sound own s | End_Thread \<Rightarrow> \<exists>p. at_stage own (Dead p) s)"

lemma ended_sound: "ended own e s \<Longrightarrow> sound own s"
  by (auto simp: ended_def intro: at_stage_sound split: stop.splits)

definition valid ::
  "('k \<Rightarrow> addr set) \<Rightarrow> ('k world \<Rightarrow> bool) \<Rightarrow> ('a, 'k world) prog \<Rightarrow> ('a \<Rightarrow> 'k world \<Rightarrow> bool) \<Rightarrow> bool" where
  "valid own P m Q \<longleftrightarrow> (\<forall>s. P s \<longrightarrow>
     (\<forall>x t. m s = Some (Ret x t) \<longrightarrow> Q x t) \<and> (\<forall>e t. m s = Some (Stop e t) \<longrightarrow> ended own e t) \<and>
     m s \<noteq> Some (Fault Bad_Union))"

definition keeps :: "('k \<Rightarrow> addr set) \<Rightarrow> stage \<Rightarrow> ('a, 'k world) prog \<Rightarrow> bool" where
  "keeps own z m \<longleftrightarrow> valid own (at_stage own z) m (\<lambda>_. at_stage own z)"

text \<open>The same for one outcome, as induction over a \<^theory_text>\<open>partial_function\<close> has it.\<close>

primrec ends_ok :: "('k \<Rightarrow> addr set) \<Rightarrow> stage \<Rightarrow> ('a, 'k world) res \<Rightarrow> bool" where
  "ends_ok own z (Ret x t) \<longleftrightarrow> at_stage own z t"
| "ends_ok own z (Stop e t) \<longleftrightarrow> ended own e t"
| "ends_ok own z (Fault e) \<longleftrightarrow> e \<noteq> Bad_Union"

lemma keepsI: "(\<And>s r. m s = Some r \<Longrightarrow> at_stage own z s \<longrightarrow> ends_ok own z r) \<Longrightarrow> keeps own z m"
  unfolding keeps_def valid_def by (metis ends_ok.simps)

lemma keepsD: "m s = Some r \<Longrightarrow> keeps own z m \<Longrightarrow> at_stage own z s \<longrightarrow> ends_ok own z r"
  unfolding keeps_def valid_def by (cases r) auto

text \<open>Such an induction generalises every argument; \<open>e' = e\<close> keeps the one that stands for the services.\<close>

lemma keeps_loopI:
  "(\<And>s r. m s = Some r \<Longrightarrow> e = e \<longrightarrow> at_stage own z s \<longrightarrow> ends_ok own z r) \<Longrightarrow> keeps own z m"
  by (rule keepsI) simp

lemma keeps_loopD:
  "m s = Some r \<Longrightarrow> (e' = e \<Longrightarrow> keeps own z m) \<Longrightarrow> e' = e \<longrightarrow> at_stage own z s \<longrightarrow> ends_ok own z r"
  by (blast dest: keepsD)

lemma valid_bind:
  "valid own P m Q \<Longrightarrow> (\<And>x. valid own (Q x) (f x) R) \<Longrightarrow> valid own P (bindM m f) R"
  unfolding valid_def bindM_def
  by (intro allI impI conjI; simp split: option.splits res.splits; blast?)

lemma valid_seq: "valid own P m (\<lambda>_. Q) \<Longrightarrow> valid own Q n R \<Longrightarrow> valid own P (seqM m n) R"
  unfolding seqM_def by (rule valid_bind)

lemma valid_ret: "(\<And>s. P s \<Longrightarrow> Q x s) \<Longrightarrow> valid own P (retM x) Q"
  by (simp add: valid_def retM_def)

lemma valid_mod: "(\<And>s. P s \<Longrightarrow> Q () (g s)) \<Longrightarrow> valid own P (modM g) Q"
  by (simp add: valid_def modM_def)

lemma valid_conseq:
  "valid own P m Q \<Longrightarrow> (\<And>s. P' s \<Longrightarrow> P s) \<Longrightarrow> (\<And>x s. Q x s \<Longrightarrow> Q' x s) \<Longrightarrow> valid own P' m Q'"
  unfolding valid_def by blast

named_theorems keeps_rules \<open>how programs that keep a stage are built\<close>

lemma keeps_bind [keeps_rules]:
  "keeps own z m \<Longrightarrow> (\<And>x. keeps own z (f x)) \<Longrightarrow> keeps own z (bindM m f)"
  unfolding keeps_def by (rule valid_bind)

lemma keeps_seq [keeps_rules]: "keeps own z m \<Longrightarrow> keeps own z n \<Longrightarrow> keeps own z (seqM m n)"
  unfolding keeps_def by (rule valid_seq)

lemma keeps_ret [keeps_rules]: "keeps own z (retM x)"
  unfolding keeps_def by (rule valid_ret)

lemma keeps_fault [keeps_rules]: "e \<noteq> Bad_Union \<Longrightarrow> keeps own z (faultM e)"
  by (simp add: keeps_def valid_def faultM_def)

lemma keeps_stop [keeps_rules]: "settled z \<Longrightarrow> keeps own z (stopM (Exit_Process n))"
  by (auto simp: keeps_def valid_def stopM_def ended_def intro: at_stage_sound)

lemma keeps_get [keeps_rules]: "keeps own z (getM g)"
  by (simp add: keeps_def valid_def getM_def)

lemma keeps_load [keeps_rules]: "keeps own z (load h p)"
  by (simp add: keeps_def valid_def load_def split: option.split)

lemma keeps_when [keeps_rules]: "keeps own z m \<Longrightarrow> keeps own z (whenM b m)"
  by (cases b) (simp_all add: keeps_ret)

lemma keeps_if [keeps_rules]: "keeps own z m \<Longrightarrow> keeps own z n \<Longrightarrow> keeps own z (if b then m else n)"
  by simp

lemma keeps_if_app [keeps_rules]:
  "keeps own z m \<Longrightarrow> keeps own z n \<Longrightarrow> keeps own z (\<lambda>s. if b s then m s else n s)"
  unfolding keeps_def valid_def by (metis (full_types))

lemma keeps_app: "(\<And>x. keeps own z (f x)) \<Longrightarrow> keeps own z (\<lambda>s. f (g s) s)"
  unfolding keeps_def valid_def by blast

lemma keeps_option [keeps_rules]:
  "keeps own z m \<Longrightarrow> (\<And>x. keeps own z (f x)) \<Longrightarrow> keeps own z (case v of None \<Rightarrow> m | Some x \<Rightarrow> f x)"
  by (cases v) simp_all

lemma keeps_prod [keeps_rules]: "(\<And>x y. keeps own z (f x y)) \<Longrightarrow> keeps own z (case v of (x, y) \<Rightarrow> f x y)"
  by (cases v) simp

lemma keeps_for [keeps_rules]: "(\<And>i. keeps own z (f i)) \<Longrightarrow> keeps own z (forM is f)"
  by (induction "is") (simp_all add: keeps_rules)

lemma keeps_until [keeps_rules]: "(\<And>i. keeps own z (f i)) \<Longrightarrow> keeps own z (untilM is f)"
  by (induction "is") (simp_all add: keeps_rules)

lemma keeps_mod: "(\<And>s. at_stage own z s \<Longrightarrow> at_stage own z (g s)) \<Longrightarrow> keeps own z (modM g)"
  unfolding keeps_def by (rule valid_mod)

text \<open>Writes that touch no thread structure and no word of local storage.\<close>

definition inert :: "('k world \<Rightarrow> 'k world) \<Rightarrow> bool" where
  "inert g \<longleftrightarrow> (\<forall>s. threads (g s) = threads s \<and> thread_link_list (g s) = thread_link_list s \<and>
     thread_dead (g s) = thread_dead s \<and> threadstore (g s) = threadstore s \<and> cur (g s) = cur s \<and>
     kern (g s) = kern s)"

lemma inert_stage: "inert g \<Longrightarrow> at_stage own z s \<Longrightarrow> at_stage own z (g s)"
  by (rule at_stage_cong [of "g s" s]) (simp_all add: inert_def)

lemma keeps_inert: "inert g \<Longrightarrow> keeps own z (modM g)"
  by (rule keeps_mod) (rule inert_stage)

lemma inert_update [simp]:
  "inert (errnos_update f1)" "inert (mutexes_update f2)" "inert (conds_update f3)"
  "inert (attrs_update f4)" "inert (mattrs_update f5)" "inert (cattrs_update f6)"
  "inert (cleanups_update f7)" "inert (queues_update f8)" "inert (onces_update f9)"
  "inert (arrays_update f10)" "inert (creations_update f11)" "inert (selections_update f12)"
  "inert (fdsets_update f13)" "inert (timevals_update f14)" "inert (ptrs_update f15)"
  "inert (ints_update f16)" "inert (sigsets_update f17)" "inert (sigacts_update f18)"
  "inert (thread_initial_update f19)" "inert (signals_blocked_update f20)"
  "inert (key_table_update f21)" "inert (doloaddll_update f22)" "inert (so_cancel_update f23)"
  "inert (thread_critical_update f24)"
  by (simp_all add: inert_def)

lemma inert_mod [simp]: "(\<And>s. inert (g s)) \<Longrightarrow> inert (\<lambda>s. g s s)"
  by (simp add: inert_def)

lemma keeps_mod_inert [keeps_rules]: "(\<And>s. inert (g s)) \<Longrightarrow> keeps own z (modM (\<lambda>s. g s s))"
  by (rule keeps_inert) simp

lemma keeps_alter: "(\<And>f. inert (hu f)) \<Longrightarrow> keeps own z (alter h hu p f)"
  unfolding alter_def by (intro keeps_rules) simp

lemma keeps_free: "(\<And>f. inert (hu f)) \<Longrightarrow> keeps own z (free h hu p)"
  unfolding free_def by (intro keeps_rules) simp

lemma keeps_fresh: "(\<And>f. inert (hu f)) \<Longrightarrow> keeps own z (fresh h hu p v)"
  unfolding fresh_def by (intro keeps_rules) simp

lemmas keeps_heaps [keeps_rules] = inert_update(2-18) [THEN keeps_alter] inert_update(2-18) [THEN keeps_free]
  inert_update(2-18) [THEN keeps_fresh]

lemma alter_Stop [simp]: "alter h hu p f s \<noteq> Some (Stop e t)"
  by (simp add: alter_def bindM_def load_def modM_def split: option.split)

lemma alter_Fault [simp]: "alter h hu p f s \<noteq> Some (Fault Bad_Union)"
  by (simp add: alter_def bindM_def load_def modM_def split: option.split)

text \<open>A write to a thread structure, unless it changes the link.\<close>

lemma stage_thread:
  assumes s: "at_stage own z s" and v: "threads s p = Some v" "nxt v' = nxt v" "wait_ok v \<Longrightarrow> wait_ok v'"
  shows "at_stage own z (s\<lparr>threads := (threads s)(p := Some v')\<rparr>)"
proof (rule at_stage_cong [OF _ _ _ _ _ _ _ s])
  show "nlink (threads (s\<lparr>threads := (threads s)(p := Some v')\<rparr>)) = nlink (threads s)" using v(1,2) by simp
  show "waits_ok (raw z) (threads (s\<lparr>threads := (threads s)(p := Some v')\<rparr>))" if "waits_ok (raw z) (threads s)"
    using that waits_okD [OF that v(1)] v(3) by (auto intro!: waits_ok_upd)
qed simp_all

lemma keeps_thread [keeps_rules]:
  assumes "\<And>t. nxt (f t) = nxt t" "\<And>t. wait_ok t \<Longrightarrow> wait_ok (f t)"
  shows "keeps own z (upd_thread p f)"
  unfolding keeps_def valid_def
proof (intro allI impI conjI)
  fix s x t assume s: "at_stage own z s" and "upd_thread p f s = Some (Ret x t)"
  then obtain v where v: "threads s p = Some v" "t = threads_update (\<lambda>_. (threads s)(p := Some (f v))) s"
    by auto
  with stage_thread [OF s v(1), of "f v"] assms show "at_stage own z t" by simp
qed simp_all

definition any_data :: "pthread_state \<Rightarrow> bool" where
  "any_data st \<longleftrightarrow> (\<forall>w. fits st w)"

lemma any_data [simp]:
  "any_data PS_RUNNING" "any_data PS_SIGTHREAD" "any_data PS_JOIN" "any_data PS_SUSPENDED" "any_data PS_DEAD"
  "any_data PS_FDLR_WAIT" "any_data PS_FDLW_WAIT" "any_data st \<Longrightarrow> fits st w"
  by (simp_all add: any_data_def)

lemma any_data_lock [simp]: "any_data (lock_state_of locktype)"
  by (simp add: lock_state_of_def)

lemma keeps_new_state [keeps_rules]: "any_data st \<Longrightarrow> keeps own z (PTHREAD_NEW_STATE p st file line)"
  unfolding PTHREAD_NEW_STATE_def by (intro keeps_rules) simp_all

text \<open>A thread writes the union and then its state.\<close>

lemma keeps_wait [keeps_rules]:
  assumes "fits st w"
  shows "keeps own z (begin_wait p w st)"
  unfolding keeps_def valid_def
proof (intro allI impI conjI)
  fix s x t assume s: "at_stage own z s" and "begin_wait p w st s = Some (Ret x t)"
  then obtain v where v: "threads s p = Some v"
    "t = s\<lparr>threads := (threads s)(p := Some (v\<lparr>th_data := w, th_state := st\<rparr>))\<rparr>"
    by (auto simp: begin_wait_def seqM_def bindM_def split: option.splits res.splits)
  with stage_thread [OF s v(1), of "v\<lparr>th_data := w, th_state := st\<rparr>"] assms show "at_stage own z t" by simp
qed (auto simp: begin_wait_def seqM_def bindM_def split: option.splits res.splits)

text \<open>What a caller that is not registering just now loads from a thread structure has the member its state says.\<close>

lemma keeps_load_thread:
  assumes "settled z" "\<And>t. wait_ok t \<Longrightarrow> keeps own z (f t)"
  shows "keeps own z (bindM (load threads p) f)"
  unfolding keeps_def valid_def
proof (intro allI impI)
  fix s assume s: "at_stage own z s"
  show "(\<forall>x t. bindM (load threads p) f s = Some (Ret x t) \<longrightarrow> at_stage own z t) \<and>
    (\<forall>e t. bindM (load threads p) f s = Some (Stop e t) \<longrightarrow> ended own e t) \<and>
    bindM (load threads p) f s \<noteq> Some (Fault Bad_Union)"
  proof (cases "\<exists>t. p \<noteq> NULL \<and> threads s p = Some t")
    case True
    then obtain t where t: "p \<noteq> NULL" "threads s p = Some t" by blast
    with s assms(1) have "wait_ok t" by (auto simp: at_stage_def dest: waits_okD)
    from assms(2) [OF this] s t show ?thesis by (simp add: keeps_def valid_def)
  next
    case False
    then show ?thesis by (auto simp: bindM_def load_def split: option.splits)
  qed
qed

lemma begin_wait_fold:
  "seqM (upd_thread p (\<lambda>t. t\<lparr>th_data := w\<rparr>)) (seqM (upd_thread p (\<lambda>t. t\<lparr>th_state := st\<rparr>)) n) =
    seqM (begin_wait p w st) n"
  by (simp add: begin_wait_def seqM_seq)

lemma keeps_errno [keeps_rules]: "keeps own z (set_errno e)"
  unfolding set_errno_def by (rule keeps_inert) (simp add: inert_def)

lemma keeps_run [keeps_rules]: "keeps own z thread_run"
  unfolding thread_run_def by (intro keeps_rules)

section \<open>The services\<close>

text \<open>
  A service that returns at once may only add to the memory in use.  One that blocks lets the other threads run, and
  one that calls back lets the application run: they may change everything, but at the end the calling
  thread stands where it stood, and the directory is what it has to be.  This is what the library
  promises to the others in turn.
\<close>

definition grows :: "('k \<Rightarrow> addr set) \<Rightarrow> (tid \<Rightarrow> 'k \<Rightarrow> 'a \<times> 'k) \<Rightarrow> bool" where
  "grows own f \<longleftrightarrow> (\<forall>u k. own k \<subseteq> own (snd (f u k)))"

definition stays :: "('k \<Rightarrow> addr set) \<Rightarrow> ('a, 'k world) prog \<Rightarrow> bool" where
  "stays own m \<longleftrightarrow> (\<forall>z. settled z \<longrightarrow> keeps own z m)"

lemma keeps_kcall:
  assumes "grows own f"
  shows "keeps own z (kcall f)"
proof -
  have "at_stage own z (s\<lparr>kern := kst f s\<rparr>)" if "at_stage own z s" for s
    by (rule at_stage_cong [OF _ _ _ _ _ _ _ that]) (use assms in \<open>simp_all add: grows_def kst_def\<close>)
  then show ?thesis by (simp add: keeps_def valid_def kcall_end)
qed

lemma keeps_stays: "stays own m \<Longrightarrow> settled z \<Longrightarrow> keeps own z m"
  by (simp add: stays_def)

locale calm_os =
  fixes E :: "'k os" and own :: "'k \<Rightarrow> addr set"
  assumes malloc_new: "malloc E u k = (p, k') \<Longrightarrow> p \<noteq> NULL \<Longrightarrow> p \<notin> own k \<and> p \<in> own k'"
    and grows_malloc: "grows own (malloc E)"
    and grows_cancel: "grows own (call_so_cancel E f fd)"
    and grows_CreateMutexSem: "grows own (DosCreateMutexSem E)"
    and grows_ReleaseMutexSem: "grows own (DosReleaseMutexSem E h)"
    and grows_CloseMutexSem: "grows own (DosCloseMutexSem E h)"
    and grows_CreateEventSem: "grows own (DosCreateEventSem E a)"
    and grows_PostEventSem: "grows own (DosPostEventSem E ev)"
    and grows_CloseEventSem: "grows own (DosCloseEventSem E ev)"
    and grows_EnterCritSec: "grows own (DosEnterCritSec E)"
    and grows_ExitCritSec: "grows own (DosExitCritSec E)"
    and grows_EnterMustComplete: "grows own (DosEnterMustComplete E)"
    and grows_ExitMustComplete: "grows own (DosExitMustComplete E)"
    and grows_beginthread: "grows own (beginthread E entry stack arg)"
    and grows_ResumeThread: "grows own (DosResumeThread E u)"
    and grows_KillThread: "grows own (DosKillThread E u)"
    and grows_SetPriority: "grows own (DosSetPriority E)"
    and grows_LoadModule: "grows own (DosLoadModule E n name)"
    and grows_FreeModule: "grows own (DosFreeModule E md)"
    and grows_QueryModuleName: "grows own (DosQueryModuleName E md n)"
    and grows_QueryProcAddr: "grows own (DosQueryProcAddr E md name)"
    and grows_AsyncTimer: "grows own (DosAsyncTimer E ms ev)"
    and grows_StopTimer: "grows own (DosStopTimer E h)"
    and grows_GetInfoBlocks: "grows own (DosGetInfoBlocks E)"
    and grows_signal: "grows own (libc_signal E signo act)"
    and grows_sigprocmask: "grows own (libc_sigprocmask E how setp)"
    and grows_alarm: "grows own (libc_alarm E secs)"
    and grows_tell: "grows own (libc_tell E fd)"
    and grows_fionread: "grows own (libc_fionread E fd)"
    and grows_gettimeofday: "grows own (gettimeofday E)"
    and stays_handler: "stays own (call_handler E fn signo)"
    and stays_fun: "stays own (call_fun E fn arg)"
    and stays_init: "stays own (call_init E fn)"
    and stays_RequestMutexSem: "stays own (DosRequestMutexSem E h ms)"
    and stays_WaitEventSem: "stays own (DosWaitEventSem E ev ms)"
    and stays_SuspendThread: "stays own (DosSuspendThread E u)"
    and stays_WaitThread: "stays own (DosWaitThread E u)"
    and stays_Sleep: "stays own (DosSleep E ms)"
    and stays_SetFileLocks: "stays own (DosSetFileLocks E fd la lb ms fl)"
    and stays_kill: "stays own (libc_kill E signo)"
    and stays_sleep: "stays own (libc_sleep E secs)"
    and stays_read: "stays own (libc_read E fd buf len)"
    and stays_write: "stays own (libc_write E fd buf len)"
    and stays_select: "stays own (libc_select E nfds rd wr ex tmo)"
begin

lemmas all_grow = grows_malloc grows_cancel grows_CreateMutexSem grows_ReleaseMutexSem
  grows_CloseMutexSem grows_CreateEventSem grows_PostEventSem grows_CloseEventSem
  grows_EnterCritSec grows_ExitCritSec grows_EnterMustComplete grows_ExitMustComplete
  grows_beginthread grows_ResumeThread grows_KillThread grows_SetPriority grows_LoadModule
  grows_FreeModule grows_QueryModuleName grows_QueryProcAddr grows_AsyncTimer grows_StopTimer
  grows_GetInfoBlocks grows_signal grows_sigprocmask grows_alarm grows_tell grows_fionread
  grows_gettimeofday

lemmas all_stay = stays_handler stays_fun stays_init stays_RequestMutexSem stays_WaitEventSem
  stays_SuspendThread stays_WaitThread stays_Sleep stays_SetFileLocks stays_kill stays_sleep
  stays_read stays_write stays_select

lemmas calls_keep [keeps_rules] = all_grow [THEN keeps_kcall]

lemmas blocking_keeps [keeps_rules] = all_stay [THEN keeps_stays]

end

end
