(* ===== verification/Keep.thy ===== *)
theory Keep
  imports Stages
begin

text \<open>
  Every function of the library keeps the stage of its caller, given the services of \<open>calm_os\<close>: the functions
  that only read and write structures by following their definitions, registration by
  the passage of a new structure through the stage \<open>Unlisted\<close>.
\<close>

section \<open>Case distinctions\<close>

lemma keeps_state [keeps_rules]:
  assumes "keeps own z m1" "keeps own z m2" "keeps own z m3" "keeps own z m4" "keeps own z m5" "keeps own z m6" "keeps own z m7" "keeps own z m8" 
    "keeps own z m9" "keeps own z m10" "keeps own z m11" "keeps own z m12" "keeps own z m13" "keeps own z m14" "keeps own z m15" "keeps own z m16"
  shows "keeps own z (case st of PS_RUNNING \<Rightarrow> m1 | PS_SIGTHREAD \<Rightarrow> m2 | PS_MUTEX_WAIT \<Rightarrow> m3
    | PS_COND_WAIT \<Rightarrow> m4 | PS_FDLR_WAIT \<Rightarrow> m5 | PS_FDLW_WAIT \<Rightarrow> m6 | PS_FDR_WAIT \<Rightarrow> m7
    | PS_FDW_WAIT \<Rightarrow> m8 | PS_SELECT_WAIT \<Rightarrow> m9 | PS_SLEEP_WAIT \<Rightarrow> m10 | PS_WAIT_WAIT \<Rightarrow> m11
    | PS_SIGWAIT \<Rightarrow> m12 | PS_JOIN \<Rightarrow> m13 | PS_SUSPENDED \<Rightarrow> m14 | PS_DEAD \<Rightarrow> m15 | PS_STATE_MAX \<Rightarrow> m16)"
  using assms by (cases st) simp_all

lemma keeps_handler [keeps_rules]:
  assumes "keeps own z m1" "keeps own z m2" "keeps own z m3" "keeps own z m4" "\<And>f. keeps own z (m5 f)"
  shows "keeps own z (case h of SIG_DFL \<Rightarrow> m1 | SIG_IGN \<Rightarrow> m2 | SIG_ERR \<Rightarrow> m3 | SIG_ACK \<Rightarrow> m4
    | Handler f \<Rightarrow> m5 f)"
  using assms by (cases h) simp_all

lemma keeps_attr_ref [keeps_rules]:
  "keeps own z m \<Longrightarrow> (\<And>a. keeps own z (f a)) \<Longrightarrow> keeps own z (case r of Default_Attr \<Rightarrow> m | Attr_At a \<Rightarrow> f a)"
  by (cases r) simp_all

section \<open>Registration\<close>

lemma keeps_find_thread [keeps_rules]: "keeps own z (find_thread p target)"
  by (rule keepsI, erule find_thread.raw_induct [rotated], erule keepsD)
     (intro keeps_rules; rule keepsI; blast)

lemma keeps_find_previous [keeps_rules]: "keeps own z (find_previous p self)"
  by (rule keepsI, erule find_previous.raw_induct [rotated], erule keepsD)
     (intro keeps_rules; rule keepsI; blast)

lemma keeps_find_sibling [keeps_rules]: "keeps own z (find_sibling p self)"
  by (rule keepsI, erule find_sibling.raw_induct [rotated], erule keepsD)
     (intro keeps_rules; rule keepsI; blast)

lemma keeps_data_thread [keeps_rules]: "keeps own z (data_thread p)"
  by (rule keepsI, erule data_thread.raw_induct [rotated], erule keepsD)
     (intro keeps_rules; rule keepsI; blast)

lemma lists_ok_alloc:
  "lists_ok s xs ds \<Longrightarrow> x \<in> set xs \<union> set ds \<Longrightarrow> x \<noteq> NULL \<and> x \<in> dom (threads s)"
  unfolding lists_ok_def live_list_def dead_list_def
  using chain_notnull chain_alloc nlink_None by (metis Un_iff domIff)

lemma at_stage_run: "at_stage own z s \<Longrightarrow> z \<noteq> Loose \<Longrightarrow> run s \<noteq> NULL"
  by (cases z) (auto simp: at_stage_def directory_def dest: lists_ok_alloc)

lemma stageI:
  "directory own s xs ds {} \<Longrightarrow> run s = p \<Longrightarrow> p \<in> set xs \<Longrightarrow> waits_ok {p} (threads s) \<Longrightarrow> at_stage own (Raw p) s"
  "directory own s xs ds {} \<Longrightarrow> run s = p \<Longrightarrow> p \<in> set ds \<Longrightarrow> waits_ok {} (threads s) \<Longrightarrow> at_stage own (Dead p) s"
  "directory own s xs ds {p} \<Longrightarrow> run s = p \<Longrightarrow> waits_ok {p} (threads s) \<Longrightarrow> at_stage own (Fresh p) s"
  "directory own s xs ds {p} \<Longrightarrow> run s = p \<Longrightarrow> waits_ok {} (threads s) \<Longrightarrow> at_stage own (Unlisted p) s"
  unfolding at_stage_def stage.case raw.simps by blast+

text \<open>A fresh structure, stored in the word of local storage, is on no list.\<close>

lemma directory_new:
  assumes d: "directory own s xs ds {}" and p: "p \<noteq> NULL" "p \<notin> own (kern s)" "p \<in> own k'" "own (kern s) \<subseteq> own k'"
  shows "directory own (s\<lparr>kern := k', threads := (threads s)(p := Some v),
    threadstore := (threadstore s)(cur s := p)\<rparr>) xs ds {p}"
proof -
  have l: "lists_ok s xs ds" and o: "dom (threads s) \<subseteq> own (kern s)" using d by (auto simp: directory_def)
  then have n: "p \<notin> set xs" "p \<notin> set ds" using p(2) lists_ok_alloc [OF l] by blast+
  then have "lists_ok (s\<lparr>kern := k', threads := (threads s)(p := Some v),
    threadstore := (threadstore s)(cur s := p)\<rparr>) xs ds"
    using l by (simp add: lists_ok_def live_list_def dead_list_def nlink_upd)
  moreover have "threadstore s u \<noteq> p" for u
  proof -
    have "threadstore s u \<in> insert NULL (set xs \<union> set ds)" using d by (simp add: directory_def)
    with n p(1) show ?thesis by auto
  qed
  ultimately show ?thesis
    using d n o p unfolding directory_def by auto
qed

text \<open>A new thread enters at the head of the list of live threads, one that ends at the head of that of the dead.\<close>

lemma stage_enlist:
  assumes s: "at_stage own (Fresh p) s" and t: "threads s p = Some t"
  shows "at_stage own (Raw p) (s\<lparr>threads := (threads s)(p := Some (t\<lparr>nxt := thread_link_list s\<rparr>)), thread_link_list := p\<rparr>)"
    (is "at_stage own _ ?s")
proof -
  from s obtain xs ds where d: "directory own s xs ds {p}" and r: "run s = p" and w: "waits_ok {p} (threads s)"
    by (auto simp: at_stage_def)
  have "directory own ?s (p # xs) ds {}"
    using d t by (auto simp: directory_def lists_ok_def live_list_def dead_list_def nlink_upd)
  then show ?thesis by (rule stageI) (simp_all add: r waits_ok_upd [OF w])
qed

lemma stage_bury:
  assumes s: "at_stage own (Unlisted p) s" and t: "threads s p = Some t"
  shows "at_stage own (Dead p) (s\<lparr>threads := (threads s)(p := Some (t\<lparr>nxt := thread_dead s\<rparr>)), thread_dead := p\<rparr>)"
    (is "at_stage own _ ?s")
proof -
  from s obtain xs ds where d: "directory own s xs ds {p}" and r: "run s = p" and w: "waits_ok {} (threads s)"
    by (auto simp: at_stage_def)
  have "directory own ?s xs (p # ds) {}"
    using d t by (auto simp: directory_def lists_ok_def live_list_def dead_list_def nlink_upd)
  then show ?thesis by (rule stageI) (simp_all add: r waits_ok_upd [OF w] waits_okD [OF w t])
qed

text \<open>A live thread leaves the list of live threads.\<close>

lemma waits_ok_relinked:
  assumes "waits_ok R h" "relinked X h h'"
  shows "waits_ok R h'"
  unfolding waits_ok_def
proof (intro allI impI)
  fix q t assume "h' q = Some t"
  then obtain u where u: "h q = Some u" "t = u\<lparr>nxt := nxt t\<rparr>" using assms(2) unfolding relinked_def by blast
  have "wait_ok (u\<lparr>nxt := nxt t\<rparr>) = wait_ok u" by simp
  then show "q \<in> R \<or> wait_ok t" using waits_okD [OF assms(1) u(1)] u(2) by metis
qed

lemma stage_unlink:
  assumes s: "at_stage own (Live p) s"
  shows "\<exists>s'. exit_unlink p s = Some (Ret () s') \<and> at_stage own (Unlisted p) s'"
proof -
  from s obtain xs ds where d: "directory own s xs ds {}" and p: "run s = p" "p \<in> set xs"
    and w: "waits_ok {} (threads s)"
    by (auto simp: at_stage_def)
  have l: "live_list s xs" "dead_list s ds" "set xs \<inter> set ds = {}" using d by (auto simp: directory_def lists_ok_def)
  obtain t where t: "threads s p = Some t" "p \<noteq> NULL" using live_list_alloc [OF l(1) p(2)] by blast
  from exit_unlink_run [OF l(1) p(2) t(1)] obtain h first where
    h: "exit_unlink p s = Some (Ret () (s\<lparr>threads := h, thread_link_list := first\<rparr>))"
      "chain (nlink h) first (remove1 p xs)" "relinked (set xs - {p}) (threads s) h" by blast
  have m: "p \<notin> set (remove1 p xs)" "set xs = insert p (set (remove1 p xs))"
    using live_list_distinct [OF l(1)] p(2) by auto
  have "h p = Some t" using h(3) t(1) by (auto simp: relinked_def)
  moreover have "dom h \<subseteq> dom (threads s)" using h(3) unfolding relinked_def by (metis domD domI subsetI)
  moreover have "chain (nlink h) (thread_dead s) ds"
    by (rule dead_list_relinked [OF l(2) [unfolded dead_list_def] h(3)]) (use l(3) in auto)
  ultimately have "directory own (s\<lparr>threads := h, thread_link_list := first\<rparr>) (remove1 p xs) ds {p}"
    using d h(2) m p l(3) t(2)
    by (auto simp: directory_def lists_ok_def live_list_def dead_list_def) (blast+)?
  then have "at_stage own (Unlisted p) (s\<lparr>threads := h, thread_link_list := first\<rparr>)"
    by (rule stageI) (simp_all add: p(1) waits_ok_relinked [OF w h(3)])
  with h(1) show ?thesis by blast
qed

text \<open>The programs between the stages.\<close>

lemma valid_keeps: "keeps own z m \<Longrightarrow> valid own (at_stage own z) n Q \<Longrightarrow> valid own (at_stage own z) (seqM m n) Q"
  unfolding keeps_def by (rule valid_seq)

lemma valid_keeps_bind:
  "keeps own z m \<Longrightarrow> (\<And>x. valid own (at_stage own z) (f x) Q) \<Longrightarrow> valid own (at_stage own z) (bindM m f) Q"
  unfolding keeps_def by (rule valid_bind)

lemma valid_enlist:
  assumes "valid own (at_stage own (Raw p)) n Q"
  shows "valid own (at_stage own (Fresh p)) (bindM (getM thread_link_list) (\<lambda>first.
     seqM (upd_thread p (\<lambda>t. t\<lparr>nxt := first\<rparr>))
    (seqM (modM (\<lambda>s. s\<lparr>thread_link_list := p\<rparr>)) n))) Q" (is "valid own _ ?m Q")
  unfolding valid_def
proof (intro allI impI)
  fix s assume s: "at_stage own (Fresh p) s"
  then obtain t where t: "threads s p = Some t" "p \<noteq> NULL" by (auto simp: at_stage_def directory_def)
  show "(\<forall>x t. ?m s = Some (Ret x t) \<longrightarrow> Q x t) \<and> (\<forall>e t. ?m s = Some (Stop e t) \<longrightarrow> ended own e t) \<and>
    ?m s \<noteq> Some (Fault Bad_Union)"
    using assms [unfolded valid_def] stage_enlist [OF s t(1)] t by simp
qed

text \<open>Setting the state of a new thread completes its structure.\<close>

lemma valid_new_state:
  assumes "any_data st"
  shows "valid own (at_stage own (Raw p)) (PTHREAD_NEW_STATE p st file line) (\<lambda>_. at_stage own (Live p))"
  unfolding valid_def
proof (intro allI impI)
  fix s assume s: "at_stage own (Raw p) s"
  then obtain xs ds where d: "directory own s xs ds {}" and p: "run s = p" "p \<in> set xs"
    and w: "waits_ok {p} (threads s)"
    by (auto simp: at_stage_def)
  then obtain t where t: "threads s p = Some t" "p \<noteq> NULL"
    using lists_ok_alloc [of s xs ds p] by (auto simp: directory_def)
  let ?s = "s\<lparr>threads := (threads s)(p := Some (t\<lparr>th_state := st, th_fname := file, th_lineno := line\<rparr>))\<rparr>"
  have "at_stage own (Raw p) ?s"
    using s t by (intro at_stage_cong [OF _ _ _ _ _ _ _ s]) (simp_all add: waits_ok_upd)
  moreover have "waits_ok {} (threads ?s)"
    using w assms by (auto simp: waits_ok_def)
  ultimately have "at_stage own (Live p) ?s" by (simp add: at_stage_def)
  then show "(\<forall>x t. PTHREAD_NEW_STATE p st file line s = Some (Ret x t) \<longrightarrow> at_stage own (Live p) t) \<and>
    (\<forall>e t. PTHREAD_NEW_STATE p st file line s = Some (Stop e t) \<longrightarrow> ended own e t) \<and>
    PTHREAD_NEW_STATE p st file line s \<noteq> Some (Fault Bad_Union)"
    using t by (simp add: PTHREAD_NEW_STATE_def)
qed

lemma valid_exit_unlink: "valid own (at_stage own (Live p)) (exit_unlink p) (\<lambda>_. at_stage own (Unlisted p))"
  unfolding valid_def using stage_unlink by fastforce

lemma valid_unregistered:
  "valid own P n Q \<Longrightarrow>
     valid own (\<lambda>s. P s \<and> run s = NULL) (bindM thread_run (\<lambda>p. if p \<noteq> NULL then m p else n)) Q"
  by (simp add: valid_def) blast

lemma keeps_enlisted:
  assumes "at_stage own (Live p) s" shows "at_stage own Loose s"
  using at_stage_Live [OF assms] by simp

context calm_os
begin

lemma valid_new:
  assumes new: "\<And>p. p \<noteq> NULL \<Longrightarrow> valid own (at_stage own (Fresh p)) (n p) Q"
    and null: "valid own (\<lambda>_. True) (n NULL) Q"
  shows "valid own (at_stage own Loose) (bindM (kcall (malloc E)) (\<lambda>p.
     bindM (getM (junk_thread E)) (\<lambda>junk.
     seqM (whenM (p \<noteq> NULL) (fresh threads threads_update p junk))
    (seqM (set_thread_run p) (n p))))) Q" (is "valid own _ ?m Q")
  unfolding valid_def
proof (intro allI impI)
  fix s assume s: "at_stage own Loose s"
  obtain p k' where m: "malloc E (cur s) (kern s) = (p, k')" by fastforce
  show "(\<forall>x t. ?m s = Some (Ret x t) \<longrightarrow> Q x t) \<and> (\<forall>e t. ?m s = Some (Stop e t) \<longrightarrow> ended own e t) \<and>
    ?m s \<noteq> Some (Fault Bad_Union)"
  proof (cases "p = NULL")
    case True
    with m null show ?thesis
      by (simp add: valid_def kres_def set_thread_run_def)
  next
    case False
    let ?j = "junk_thread E (s\<lparr>kern := k'\<rparr>)"
    let ?s = "s\<lparr>kern := k', threads := (threads s)(p := Some ?j), threadstore := (threadstore s)(cur s := p)\<rparr>"
    from s obtain xs ds where d: "directory own s xs ds {}" and w: "waits_ok {} (threads s)" by (auto simp: at_stage_def)
    have "own (kern s) \<subseteq> own k'" using grows_malloc m unfolding grows_def by (metis snd_conv)
    with malloc_new [OF m False] False d have "at_stage own (Fresh p) ?s"
      by (intro stageI(3) directory_new) (auto simp: run_def intro!: waits_ok_upd waits_ok_mono [OF w])
    with new [OF False] False m show ?thesis
      by (simp add: valid_def kres_def kst_def set_thread_run_def)
  qed
qed

section \<open>Registration\<close>

lemma keeps_load_so [keeps_rules]: "keeps own z (load_so_dll E)"
  unfolding load_so_dll_def by (intro keeps_rules calls_keep; simp)

lemma keeps_INIT_with [keeps_rules]: "keeps own z ti \<Longrightarrow> keeps own z (PTHREAD_INIT_with ti)"
  unfolding PTHREAD_INIT_with_def by (intro keeps_rules; simp)

lemma keeps_sig_block [keeps_rules]: "keeps own z (thread_kern_sig_block E)" "keeps own z (thread_kern_sig_unblock E)"
  unfolding thread_kern_sig_block_def thread_kern_sig_unblock_def by (intro keeps_rules; simp)+

lemma keeps_crit_sec [keeps_rules]:
  "keeps own z (thread_kern_enter_crit_sec E)" "keeps own z (thread_kern_leave_crit_sec E)"
  unfolding thread_kern_enter_crit_sec_def thread_kern_leave_crit_sec_def by (intro keeps_rules)+

lemma keeps_self_with [keeps_rules]: "keeps own z ti \<Longrightarrow> keeps own z (pthread_self_with E ti)"
  unfolding pthread_self_with_def by (intro keeps_rules)

lemma keeps_init_with [keeps_rules]: "keeps own z self \<Longrightarrow> keeps own z (pthread_init_with E self)"
  unfolding pthread_init_with_def by (intro keeps_rules; simp)

lemma keeps_init_again [keeps_rules]: "keeps own z thread_init_again"
  unfolding thread_init_again_def by (intro keeps_rules) simp

text \<open>Registering a thread that has no structure yet.\<close>

lemma valid_thread_init:
  "valid own (\<lambda>s. at_stage own Loose s \<and> run s = NULL) (thread_init E) (\<lambda>p. at_stage own (Live p))"
  unfolding thread_init_def
  by (rule valid_unregistered, rule valid_new)
     ((rule valid_enlist valid_new_state [THEN valid_seq] valid_ret | rule valid_keeps valid_keeps_bind
        | intro keeps_rules | (simp; fail) | assumption)+,
      simp add: valid_def faultM_def)

lemma thread_init_registered: "run s \<noteq> NULL \<Longrightarrow> thread_init E s = Some (Ret (run s) s)"
  by (simp add: thread_init_def retM_def)

lemma keeps_thread_init [keeps_rules]: "keeps own z (thread_init E)"
  unfolding keeps_def valid_def
proof (intro allI impI)
  fix s assume s: "at_stage own z s"
  show "(\<forall>x t. thread_init E s = Some (Ret x t) \<longrightarrow> at_stage own z t) \<and>
    (\<forall>e t. thread_init E s = Some (Stop e t) \<longrightarrow> ended own e t) \<and> thread_init E s \<noteq> Some (Fault Bad_Union)"
  proof (cases "run s = NULL")
    case True
    with s at_stage_run have "z = Loose" by blast
    with True s valid_thread_init keeps_enlisted show ?thesis unfolding valid_def by blast
  qed (use s in \<open>simp add: thread_init_registered\<close>)
qed

lemma keeps_PTHREAD_INIT [keeps_rules]: "keeps own z (PTHREAD_INIT E)"
  unfolding PTHREAD_INIT_def by (intro keeps_rules)

lemma keeps_pthread_self [keeps_rules]: "keeps own z (pthread_self E)"
  unfolding pthread_self_def by (intro keeps_rules)

lemma keeps_pthread_init [keeps_rules]: "keeps own z (pthread_init E)"
  unfolding pthread_init_def by (intro keeps_rules)

text \<open>\<^verbatim>\<open>pthread_self\<close> makes a thread that is not registered a live one.\<close>

lemma valid_pthread_self: "valid own (at_stage own Loose) (pthread_self E) (\<lambda>p. at_stage own (Live p))"
proof -
  have I: "valid own (at_stage own Loose) (PTHREAD_INIT E) (\<lambda>_. at_stage own Loose)"
    using keeps_PTHREAD_INIT unfolding keeps_def .
  have b: "valid own (\<lambda>s. at_stage own Loose s \<and> run s = NULL)
      (seqM (thread_kern_sig_block E) (bindM (thread_init E) (\<lambda>p. seqM (thread_kern_sig_unblock E) (retM p))))
      (\<lambda>p. at_stage own (Live p))"
  proof (rule valid_seq [OF _ valid_bind [OF valid_thread_init]])
    have "at_stage own Loose (s\<lparr>kern := kst (DosEnterMustComplete E) s, signals_blocked := signals_blocked s + 1\<rparr>)"
      if "at_stage own Loose s" for s
      by (rule at_stage_cong [OF _ _ _ _ _ _ _ that])
         (use grows_EnterMustComplete in \<open>simp_all add: grows_def kst_def\<close>)
    then show "valid own (\<lambda>s. at_stage own Loose s \<and> run s = NULL) (thread_kern_sig_block E)
      (\<lambda>_ s. at_stage own Loose s \<and> run s = NULL)"
      by (simp add: valid_def thread_kern_sig_block_def modM_def)
  qed (intro valid_keeps valid_ret keeps_rules)
  have r: "at_stage own (Live (run s)) s" if "at_stage own Loose s" "run s \<noteq> NULL" for s
    using that by (auto simp: at_stage_def)
  show ?thesis
    unfolding pthread_self_def pthread_self_with_def PTHREAD_INIT_def [symmetric]
    by (rule valid_seq [OF I]) (use b r in \<open>simp add: valid_def retM_def\<close>)
qed


lemma keeps_load_attr [keeps_rules]: "keeps own z (load_attr r)"
  unfolding load_attr_def by (intro keeps_rules)

lemma keeps_create_attr [keeps_rules]: "keeps own z (create_attr ci thread)"
  unfolding create_attr_def by (intro keeps_rules; simp)

lemma keeps_wake_parent [keeps_rules]: "keeps own z (exit_wake_parent E self)"
  unfolding exit_wake_parent_def by (intro keeps_rules; simp)

section \<open>The other functions\<close>

text \<open>Where a function can block or call back, its caller is \<open>settled\<close>: on a list, or not registered.\<close>

text \<open>Terminating the process.\<close>

lemma terminate_keep [keeps_rules]:
  assumes "settled z"
  shows
    "keeps own z (thread_seterrno E thread error)" "keeps own z (pthread_equal E t1 t2)"
    "keeps own z (terminate_mark E others)"
  using assms unfolding thread_seterrno_def pthread_equal_def terminate_mark_def
  by (intro keeps_rules; simp)+

text \<open>The functions that read the union, in a state in which it has the member they read.\<close>

lemma keeps_release_awaited [keeps_rules]: "\<exists>m. th_data t = W_Mutex m \<Longrightarrow> keeps own z (release_awaited E t)"
  unfolding release_awaited_def by (auto intro!: keeps_rules)

lemma keeps_post_abort [keeps_rules]: "\<exists>ev. th_data t = W_Abort ev \<Longrightarrow> keeps own z (post_abort E t)"
  unfolding post_abort_def by (auto intro!: keeps_rules)

lemma keeps_awaited_fd [keeps_rules]: "\<exists>fd br fn. th_data t = W_Fd fd br fn \<Longrightarrow> keeps own z (awaited_fd t)"
  unfolding awaited_fd_def by (auto intro!: keeps_rules)

lemma keeps_terminate_visit: "settled z \<Longrightarrow> wait_ok t \<Longrightarrow> keeps own z (terminate_visit E others t)"
  unfolding terminate_visit_def by (cases "th_state t"; simp; (intro keeps_rules; simp))

lemma keeps_terminate_loop [keeps_rules]: "settled z \<Longrightarrow> keeps own z (terminate_loop E others)"
  by (rule keeps_loopI [where e = E],
      erule terminate_loop.raw_induct
        [where P = "\<lambda>E' x1 s r. E' = E \<longrightarrow> at_stage own z s \<longrightarrow> ends_ok own z r", rotated],
      erule keeps_loopD, hypsubst)
     (intro keeps_if_app keeps_ret keeps_load_thread keeps_bind [OF keeps_terminate_visit];
      (assumption | (rule keeps_app)?, rule keepsI; blast))

lemma terminate_keep2 [keeps_rules]: "settled z \<Longrightarrow> keeps own z (uthread_terminate E signo)"
  unfolding uthread_terminate_def by (intro keeps_rules; simp)

text \<open>Delivering signals.\<close>

lemma deliver_keep [keeps_rules]:
  assumes "settled z"
  shows
    "keeps own z (invoke E h signo)" "keeps own z (run_handler E p signo sa old_blocked)"
    "keeps own z (uthread_deliver_signal E p signo)"
  using assms unfolding
    invoke_def run_handler_def uthread_deliver_signal_def Let_def
  by (intro keeps_rules; simp)+

lemma keeps_deliver_loop [keeps_rules]: "settled z \<Longrightarrow> keeps own z (deliver_loop E p signo)"
  by (rule keeps_loopI [where e = E],
      erule deliver_loop.raw_induct
        [where P = "\<lambda>E' x1 x2 s r. E' = E \<longrightarrow> at_stage own z s \<longrightarrow> ends_ok own z r", rotated],
      erule keeps_loopD, hypsubst)
     (intro keeps_rules; (simp; fail | (rule keeps_app)?, rule keepsI; blast))

lemma deliver_keep2 [keeps_rules]:
  assumes "settled z"
  shows
    "keeps own z (sys_deliver_pending_signals E p)" "keeps own z (deliver_now E p)"
    "keeps own z (deliver_if_pending E p)"
  using assms unfolding
    sys_deliver_pending_signals_def deliver_now_def deliver_if_pending_def
  by (intro keeps_rules; simp)+

text \<open>The signal calls, and the calls a signal interrupts.\<close>

lemma signal_call_keep [keeps_rules]:
  "keeps own z (uthread_so_cancel E fd)" "keeps own z (add_pending E p signo)" "keeps own z (count_pending p)"
  "keeps own z (end_wait p)"
  unfolding uthread_so_cancel_def add_pending_def count_pending_def end_wait_def by (intro keeps_rules; simp)+

lemma keeps_kill_deliver [keeps_rules]: "settled z \<Longrightarrow> keeps own z (kill_deliver E p signo)"
  unfolding kill_deliver_def
proof (rule keeps_load_thread, assumption)
  fix t assume z: "settled z" and t: "wait_ok t"
  show "keeps own z (case th_state t of
       PS_FDR_WAIT \<Rightarrow>
         seqM (add_pending E p signo)
        (bindM (awaited_fd t) (\<lambda>fd.
         bindM (uthread_so_cancel E fd) (\<lambda>r. whenM (r \<noteq> 0) (count_pending p))))
     | PS_FDW_WAIT \<Rightarrow>
         seqM (add_pending E p signo)
        (bindM (awaited_fd t) (\<lambda>fd.
         bindM (uthread_so_cancel E fd) (\<lambda>r. whenM (r \<noteq> 0) (count_pending p))))
     | PS_SELECT_WAIT \<Rightarrow>
         seqM (add_pending E p signo) (seqM (count_pending p) (post_abort E t))
     | PS_SLEEP_WAIT \<Rightarrow> seqM (add_pending E p signo) (post_abort E t)
     | PS_SIGWAIT \<Rightarrow> seqM (add_pending E p signo) (post_abort E t)
     | PS_RUNNING \<Rightarrow>
         if threadid t = 1 then libc_kill E signo
         else seqM (add_pending E p signo) (count_pending p)
     | _ \<Rightarrow> seqM (add_pending E p signo) (count_pending p))"
    using z t by (cases "th_state t") (auto intro!: keeps_rules)
qed

lemma keeps_sighandler [keeps_rules]: "settled z \<Longrightarrow> keeps own z (uthread_emx_sighandler E signo)"
  unfolding uthread_emx_sighandler_def
proof (rule keeps_bind, intro keeps_rules, rule keeps_seq, intro keeps_rules, rule keeps_load_thread, assumption, rule keeps_seq)
  fix self t assume z: "settled z" and t: "wait_ok t"
  show "keeps own z (case th_state t of
             PS_FDR_WAIT \<Rightarrow> bindM (awaited_fd t) (\<lambda>fd. seqM (uthread_so_cancel E fd) (retM ()))
           | PS_FDW_WAIT \<Rightarrow> bindM (awaited_fd t) (\<lambda>fd. seqM (uthread_so_cancel E fd) (retM ()))
           | PS_SELECT_WAIT \<Rightarrow> post_abort E t
           | PS_SLEEP_WAIT \<Rightarrow> post_abort E t
           | PS_SIGWAIT \<Rightarrow> post_abort E t
           | _ \<Rightarrow> retM ())"
    using t by (cases "th_state t") (auto intro!: keeps_rules)
qed (intro keeps_rules; simp)

lemma signal_call_keep2 [keeps_rules]:
  assumes "settled z"
  shows
    "keeps own z (pthread_kill E pthread signo)"
    "keeps own z (pthread_sigmask E how iset oset)" "keeps own z (pthread_sigpending E setp)"
    "keeps own z (pthread_raise E signo)"
    "keeps own z (pthread_pause E)" "keeps own z (pthread_yield E)"
    "keeps own z (pthread_read E fd buf len)" "keeps own z (pthread_write E fd buf len)"
  using assms unfolding
    pthread_kill_def pthread_sigmask_def pthread_sigpending_def
    pthread_raise_def pthread_pause_def pthread_yield_def pthread_read_def pthread_write_def
    Let_def
  by (intro keeps_rules; simp)+

lemma signal_call_keep3 [keeps_rules]: "settled z \<Longrightarrow> keeps own z (pthread_sigsuspend E maskp)"
  unfolding pthread_sigsuspend_def Let_def by (intro keeps_rules; simp)

lemma keeps_sigaction_with [keeps_rules]:
  "settled z \<Longrightarrow> keeps own z rd \<Longrightarrow> (\<And>a. keeps own z (wr a)) \<Longrightarrow> keeps own z (sigaction_with E signo rd wr)"
  unfolding sigaction_with_def Let_def by (intro keeps_rules; simp)

lemma signal_call_keep4 [keeps_rules]:
  assumes "settled z"
  shows
    "keeps own z (pthread_sigaction E signo iact oact)"
    "keeps own z (pthread_signal E sig handler)"
  using assms unfolding
    pthread_sigaction_def pthread_signal_def
  by (intro keeps_rules; simp)+

lemma keeps_sleep_until [keeps_rules]: "settled z \<Longrightarrow> keeps own z m \<Longrightarrow> keeps own z (sleep_until E ms m)"
  unfolding sleep_until_def by (intro keeps_rules; simp)

lemma signal_call_keep5 [keeps_rules]:
  assumes "settled z"
  shows
    "keeps own z (pthread_sleep E sec)" "keeps own z (pthread_sleep2 E millisec)"
  using assms unfolding
    pthread_sleep_def pthread_sleep2_def
  by (intro keeps_rules; simp)+

text \<open>Mutexes.\<close>

lemma mutex_keep [keeps_rules]:
  assumes "settled z"
  shows
    "keeps own z (read_mutex mutex)" "keeps own z (write_mutex mutex f)"
  using assms unfolding
    read_mutex_def write_mutex_def
  by (intro keeps_rules; simp)+

lemma keeps_close_mutex_loop [keeps_rules]: "settled z \<Longrightarrow> keeps own z (close_mutex_loop E mtx)"
  by (rule keeps_loopI [where e = E],
      erule close_mutex_loop.raw_induct
        [where P = "\<lambda>E' x1 s r. E' = E \<longrightarrow> at_stage own z s \<longrightarrow> ends_ok own z r", rotated],
      erule keeps_loopD, hypsubst)
     (intro keeps_rules; (simp; fail | (rule keeps_app)?, rule keepsI; blast))

lemma mutex_keep2 [keeps_rules]:
  assumes "settled z"
  shows
    "keeps own z (pthread_mutex_init E mutex mutex_attr)"
    "keeps own z (pthread_mutex_destroy E mutex)" "keeps own z (pthread_mutex_trylock E mutex)"
    "keeps own z (pthread_mutex_unlock E mutex)"
    "keeps own z (pthread_mutex_getprioceiling E attr)"
    "keeps own z (pthread_mutex_setprioceiling E attr)"
  using assms unfolding
    pthread_mutex_init_def pthread_mutex_destroy_def pthread_mutex_trylock_def
    pthread_mutex_unlock_def pthread_mutex_unlock_by_def pthread_mutex_getprioceiling_def pthread_mutex_setprioceiling_def
    Let_def
  by (intro keeps_rules; simp)+

lemma keeps_mutex_wait [keeps_rules]: "settled z \<Longrightarrow> keeps own z m \<Longrightarrow> keeps own z (mutex_wait current mutex m)"
  unfolding mutex_wait_def begin_wait_fold by (intro keeps_rules; simp)

lemma mutex_keep3 [keeps_rules]: "settled z \<Longrightarrow> keeps own z (pthread_mutex_lock E mutex)"
  unfolding pthread_mutex_lock_def Let_def by (intro keeps_rules; simp)

lemma mutex_keep4 [keeps_rules]: "settled z \<Longrightarrow> keeps own z (pthread_once_call E once_control init_routine)"
  unfolding pthread_once_call_def by (intro keeps_rules; simp)

text \<open>Condition variables.\<close>

lemma cond_keep [keeps_rules]:
  assumes "settled z"
  shows
    "keeps own z (read_cond cond)" "keeps own z (write_cond cond f)"
  using assms unfolding
    read_cond_def write_cond_def
  by (intro keeps_rules; simp)+

lemma keeps_close_event_loop [keeps_rules]: "settled z \<Longrightarrow> keeps own z (close_event_loop E event)"
  by (rule keeps_loopI [where e = E],
      erule close_event_loop.raw_induct
        [where P = "\<lambda>E' x1 s r. E' = E \<longrightarrow> at_stage own z s \<longrightarrow> ends_ok own z r", rotated],
      erule keeps_loopD, hypsubst)
     (intro keeps_rules; (simp; fail | (rule keeps_app)?, rule keepsI; blast))

lemma cond_keep2 [keeps_rules]:
  assumes "settled z"
  shows
    "keeps own z (pthread_cond_init E cond cond_attr)"
    "keeps own z (pthread_cond_destroy E cond)" "keeps own z (pthread_cond_signal E cond)"
    "keeps own z (pthread_cond_broadcast E cond)"
  using assms unfolding
    pthread_cond_init_def pthread_cond_destroy_def pthread_cond_signal_def
    pthread_cond_broadcast_def Let_def
  by (intro keeps_rules; simp)+

lemma keeps_cond_block [keeps_rules]:
  "settled z \<Longrightarrow> keeps own z m \<Longrightarrow> keeps own z (cond_block E current cond mutex tmo m)"
  unfolding cond_block_def cond_block_by_def begin_wait_fold by (intro keeps_rules; simp)

lemma cond_keep3 [keeps_rules]:
  assumes "settled z"
  shows
    "keeps own z (pthread_cond_wait E cond mutex)"
    "keeps own z (pthread_cond_timedwait E cond mutex abstime)"
  using assms unfolding
    pthread_cond_wait_block pthread_cond_timedwait_def
  by (intro keeps_rules; simp)+

text \<open>Thread-specific data.\<close>

lemma key_keep [keeps_rules]:
  assumes "settled z"
  shows
    "keeps own z (key_entry key)" "keeps own z (pthread_key_allocate_data E)"
    "keeps own z (upd_key key f)"
  using assms unfolding
    key_entry_def pthread_key_allocate_data_def upd_key_def
  by (intro keeps_rules; simp)+

lemma keeps_key_create_loop [keeps_rules]: "settled z \<Longrightarrow> keeps own z (key_create_loop key destructor)"
  by (rule keepsI, erule key_create_loop.raw_induct [rotated], erule keepsD)
     (intro keeps_rules; (simp; fail | rule keepsI; blast))

lemma key_keep2 [keeps_rules]:
  assumes "settled z"
  shows
    "keeps own z (pthread_key_create E key destructor)"
    "keeps own z (pthread_key_delete E key2)" "keeps own z (cleanup_key E thread key3)"
    "keeps own z (set_key pthread data key2 val)"
  using assms unfolding
    pthread_key_create_def pthread_key_delete_def cleanup_key_def set_key_def Let_def
  by (intro keeps_rules; simp)+

lemma key_keep3 [keeps_rules]:
  assumes "settled z"
  shows
    "keeps own z (thread_cleanupspecific E)" "keeps own z (pthread_setspecific E key val)"
    "keeps own z (pthread_getspecific E key)"
  using assms unfolding
    thread_cleanupspecific_def pthread_setspecific_def pthread_getspecific_def
  by (intro keeps_rules; simp)+

text \<open>Attribute objects.\<close>

lemma attr_keep [keeps_rules]:
  assumes "settled z"
  shows
    "keeps own z (attr_object attr)" "keeps own z (fail_errno e)"
    "keeps own z (pthread_attr_init E attr)" "keeps own z (pthread_attr_destroy E attr)"
    "keeps own z (pthread_attr_setstacksize E attr stacksize)"
    "keeps own z (pthread_attr_getstacksize E attr stacksize2)"
  using assms unfolding
    attr_object_def fail_errno_def pthread_attr_init_def pthread_attr_destroy_def
    pthread_attr_setstacksize_def pthread_attr_getstacksize_def
  by (intro keeps_rules; simp)+

lemma attr_keep2 [keeps_rules]:
  assumes "settled z"
  shows
    "keeps own z (pthread_attr_setstackaddr E attr stackaddr)"
    "keeps own z (pthread_attr_getstackaddr E attr stackaddr)"
    "keeps own z (pthread_attr_setdetachstate E attr detachstate)"
    "keeps own z (pthread_attr_getdetachstate E attr detachstate2)"
    "keeps own z (pthread_attr_setprio E attr priority)"
    "keeps own z (pthread_attr_setcreatesuspend_np E attr)"
    "keeps own z (pthread_attr_setschedpolicy attr policy)"
    "keeps own z (pthread_mutexattr_init E attr)"
    "keeps own z (pthread_mutexattr_destroy E attr)"
    "keeps own z (pthread_mutexattr_setkind_np E attr kind)"
    "keeps own z (pthread_mutexattr_getkind_np E attr)"
    "keeps own z (pthread_mutexattr_getprioceiling E attr prioceiling)"
  using assms unfolding
    pthread_attr_setstackaddr_def pthread_attr_getstackaddr_def pthread_attr_setdetachstate_def
    pthread_attr_getdetachstate_def pthread_attr_setprio_def
    pthread_attr_setcreatesuspend_np_def pthread_attr_setschedpolicy_def
    pthread_mutexattr_init_def pthread_mutexattr_destroy_def pthread_mutexattr_setkind_np_def
    pthread_mutexattr_getkind_np_def pthread_mutexattr_getprioceiling_def
  by (intro keeps_rules; simp)+

lemma attr_keep3 [keeps_rules]:
  assumes "settled z"
  shows
    "keeps own z (pthread_mutexattr_setprioceiling E attr prioceiling)"
    "keeps own z (pthread_condattr_init E attr)"
    "keeps own z (pthread_condattr_destroy E attr)"
  using assms unfolding
    pthread_mutexattr_setprioceiling_def pthread_condattr_init_def pthread_condattr_destroy_def
  by (intro keeps_rules; simp)+

text \<open>Calls on other threads.\<close>

lemma thread_call_keep [keeps_rules]:
  assumes "settled z"
  shows
    "keeps own z (suspend_visit E pthread thread)"
    "keeps own z (resume_visit E pthread thread)"
    "keeps own z (store_return thread_return pthread)"
  using assms unfolding
    suspend_visit_def resume_visit_def store_return_def
  by (intro keeps_rules; simp)+

lemma keeps_suspend_loop [keeps_rules]: "settled z \<Longrightarrow> keeps own z (suspend_loop E pthread thread ret)"
  by (rule keeps_loopI [where e = E],
      erule suspend_loop.raw_induct
        [where P = "\<lambda>E' x1 x2 x3 s r. E' = E \<longrightarrow> at_stage own z s \<longrightarrow> ends_ok own z r", rotated],
      erule keeps_loopD, hypsubst)
     (intro keeps_rules; (simp; fail | (rule keeps_app)?, rule keepsI; blast))

lemma keeps_resume_loop [keeps_rules]: "settled z \<Longrightarrow> keeps own z (resume_loop E pthread thread ret)"
  by (rule keeps_loopI [where e = E],
      erule resume_loop.raw_induct
        [where P = "\<lambda>E' x1 x2 x3 s r. E' = E \<longrightarrow> at_stage own z s \<longrightarrow> ends_ok own z r", rotated],
      erule keeps_loopD, hypsubst)
     (intro keeps_rules; (simp; fail | (rule keeps_app)?, rule keepsI; blast))

lemma thread_call_keep2 [keeps_rules]:
  assumes "settled z"
  shows
    "keeps own z (pthread_getprio E pthread)" "keeps own z (pthread_setprio E pthread prio)"
    "keeps own z (pthread_suspend_np E thread)" "keeps own z (pthread_resume_np E thread)"
    "keeps own z (join_wait E pthread thread_return)"
    "keeps own z (pthread_detach E p_pthread)"
  using assms unfolding
    pthread_getprio_def pthread_setprio_def pthread_suspend_np_def pthread_resume_np_def
    join_wait_def pthread_detach_def
  by (intro keeps_rules; simp)+

lemma thread_call_keep3 [keeps_rules]: "settled z \<Longrightarrow> keeps own z (pthread_join E pthread thread_return)"
  unfolding pthread_join_def by (intro keeps_rules; simp)

text \<open>Queues of threads.\<close>

lemma queue_keep [keeps_rules]:
  assumes "settled z"
  shows
    "keeps own z (thread_queue_init queue)" "keeps own z (thread_queue_enq E queue thread)"
    "keeps own z (thread_queue_get queue)" "keeps own z (thread_queue_deq E queue)"
    "keeps own z (read_link queue prev)" "keeps own z (write_link queue prev v)"
    "keeps own z (read_llink llist prev)"
  using assms unfolding
    thread_queue_init_def thread_queue_enq_def thread_queue_get_def thread_queue_deq_def
    read_link_def write_link_def read_llink_def Let_def
  by (intro keeps_rules; simp)+

lemma keeps_queue_remove_loop [keeps_rules]: "settled z \<Longrightarrow> keeps own z (queue_remove_loop queue thread prev)"
  by (rule keepsI, erule queue_remove_loop.raw_induct [rotated], erule keepsD)
     (intro keeps_rules; (simp; fail | rule keepsI; blast))

lemma keeps_llist_remove_loop [keeps_rules]: "settled z \<Longrightarrow> keeps own z (llist_remove_loop llist thread prev)"
  by (rule keepsI, erule llist_remove_loop.raw_induct [rotated], erule keepsD)
     (intro keeps_rules; (simp; fail | rule keepsI; blast))

lemma queue_keep2 [keeps_rules]:
  assumes "settled z"
  shows
    "keeps own z (thread_queue_remove E queue thread)"
    "keeps own z (pthread_llist_remove E llist thread)"
  using assms unfolding
    thread_queue_remove_def pthread_llist_remove_def
  by (intro keeps_rules; simp)+

text \<open>File locks and modules.\<close>

lemma file_keep [keeps_rules]:
  assumes "settled z"
  shows
    "keeps own z (lock_areas E fd locktype len)" "keeps own z (lock_first E fd u l lockflags)"
    "keeps own z (lock_done rc)"
  using assms unfolding
    lock_areas_def lock_first_def lock_done_def
  by (intro keeps_rules; simp)+

lemma keeps_lock_wait [keeps_rules]: "settled z \<Longrightarrow> keeps own z (lock_wait E self fd u l lockflags rc)"
  by (rule keeps_loopI [where e = E],
      erule lock_wait.raw_induct
        [where P = "\<lambda>E' x1 x2 x3 x4 x5 x6 s r. E' = E \<longrightarrow> at_stage own z s \<longrightarrow> ends_ok own z r", rotated],
      erule keeps_loopD, hypsubst)
     (intro keeps_rules; (simp; fail | (rule keeps_app)?, rule keepsI; blast))

lemma file_keep2 [keeps_rules]:
  assumes "settled z"
  shows
    "keeps own z (locking E fd locktype len)" "keeps own z (set_dlerror p m)"
    "keeps own z (load_module E dlname)"
  using assms unfolding
    locking_def set_dlerror_def load_module_def
  by (intro keeps_rules; simp)+

lemma file_keep3 [keeps_rules]:
  assumes "settled z"
  shows
    "keeps own z (find_symbol E handle shown fnname)"
    "keeps own z (pthread_dlopen E dlname flags)" "keeps own z (dlopen E dlname flags)"
    "keeps own z (pthread_dlerror E)" "keeps own z (dlerror E)"
    "keeps own z (pthread_dlclose E handle2)" "keeps own z (dlclose E handle)"
  using assms unfolding
    find_symbol_def pthread_dlopen_def dlopen_def pthread_dlerror_def dlerror_def
    pthread_dlclose_def dlclose_def
  by (intro keeps_rules; simp)+

lemma file_keep4 [keeps_rules]:
  assumes "settled z"
  shows
    "keeps own z (pthread_dlsym E handle fnname)" "keeps own z (dlsym E handle2 fnname)"
  using assms unfolding
    pthread_dlsym_def dlsym_def
  by (intro keeps_rules; simp)+

text \<open>\<^verbatim>\<open>pthread_select\<close> and the thread that polls for it.\<close>

lemma select_keep [keeps_rules]:
  assumes "settled z"
  shows
    "keeps own z (copy_set given p)" "keeps own z (paste_set given p f)"
    "keeps own z (check_stdin sel)" "keeps own z (add_stdin E chkstdin rd)"
    "keeps own z (poll_round E sel chkstdin)"
  using assms unfolding
    copy_set_def paste_set_def check_stdin_def add_stdin_def poll_round_def
  by (intro keeps_rules; simp)+

lemma keeps_poll_loop [keeps_rules]: "settled z \<Longrightarrow> keeps own z (poll_loop E sel chkstdin)"
  by (rule keeps_loopI [where e = E],
      erule poll_loop.raw_induct
        [where P = "\<lambda>E' x1 x2 s r. E' = E \<longrightarrow> at_stage own z s \<longrightarrow> ends_ok own z r", rotated],
      erule keeps_loopD, hypsubst)
     (intro keeps_rules; (simp; fail | (rule keeps_app)?, rule keepsI; blast))

lemma keeps_select_drain [keeps_rules]: "settled z \<Longrightarrow> keeps own z (select_drain E sel)"
  by (rule keeps_loopI [where e = E],
      erule select_drain.raw_induct
        [where P = "\<lambda>E' x1 s r. E' = E \<longrightarrow> at_stage own z s \<longrightarrow> ends_ok own z r", rotated],
      erule keeps_loopD, hypsubst)
     (intro keeps_rules; (simp; fail | (rule keeps_app)?, rule keepsI; blast))

lemma select_keep2 [keeps_rules]:
  assumes "settled z"
  shows
    "keeps own z (thread_select E sel)" "keeps own z (select_collect E sel)"
    "keeps own z (select_result E self result)"
  using assms unfolding
    thread_select_def select_collect_def select_result_def Let_def
  by (intro keeps_rules; simp)+

lemma select_keep3 [keeps_rules]:
  assumes "settled z"
  shows
    "keeps own z (select_wait E self sel msecs)"
    "keeps own z (pthread_select E nfds rd wr ex timeout)"
  using assms unfolding
    select_wait_def pthread_select_def Let_def
  by (intro keeps_rules; simp)+

text \<open>Creating a thread, as its creator sees it, and alarms.\<close>

lemma create_keep [keeps_rules]: "settled z \<Longrightarrow> keeps own z (thread_create E ci thread attr routine arg parent)"
  unfolding thread_create_def Let_def by (intro keeps_rules; simp)

lemma create_keep2 [keeps_rules]:
  assumes "settled z"
  shows
    "keeps own z (pthread_create E ci thread attr routine arg)"
    "keeps own z (alarm_thread E client)" "keeps own z (alarm_cancel E self)"
    "keeps own z (alarm_start E self sec)"
  using assms unfolding
    pthread_create_def alarm_thread_def alarm_cancel_def alarm_start_def Let_def
  by (intro keeps_rules; simp)+

lemma create_keep3 [keeps_rules]:
  assumes "settled z"
  shows
    "keeps own z (alarm_prepare E ci routine self)"
    "keeps own z (pthread_alarm E ci routine sec)"
  using assms unfolding
    alarm_prepare_def pthread_alarm_def
  by (intro keeps_rules; simp)+

text \<open>What a thread does on the way out.\<close>

lemma exit_keep [keeps_rules]:
  assumes "settled z"
  shows
    "keeps own z (pthread_cleanup_push E routine routine_arg)"
    "keeps own z (pthread_cleanup_pop E execute)" "keeps own z (thread_exit fname lineno str)"
    "keeps own z (exit_attr_cleanup E self)"
  using assms unfolding
    pthread_cleanup_push_def pthread_cleanup_pop_def thread_exit_def exit_attr_cleanup_def Let_def
  by (intro keeps_rules; simp)+

lemma keeps_sched_state [keeps_rules]:
  "settled z \<Longrightarrow> any_data st \<Longrightarrow> keeps own z (thread_kern_sched_state E st fname lineno)"
  unfolding thread_kern_sched_state_def by (intro keeps_rules; simp)

lemma keeps_exit_handlers [keeps_rules]: "settled z \<Longrightarrow> keeps own z (exit_handlers E self)"
  by (rule keeps_loopI [where e = E],
      erule exit_handlers.raw_induct
        [where P = "\<lambda>E' x1 s r. E' = E \<longrightarrow> at_stage own z s \<longrightarrow> ends_ok own z r", rotated],
      erule keeps_loopD, hypsubst)
     (intro keeps_rules; (simp; fail | (rule keeps_app)?, rule keepsI; blast))

text \<open>
  \<^verbatim>\<open>pthread_exit\<close>: the caller is a live thread while its handlers and destructors run, on no list between the two, and
  dead when it sleeps for the last time.
\<close>

lemma valid_bury:
  assumes "valid own (at_stage own (Dead p)) n Q"
  shows "valid own (at_stage own (Unlisted p)) (bindM (getM thread_dead) (\<lambda>dead.
     seqM (upd_thread p (\<lambda>t. t\<lparr>nxt := dead\<rparr>))
    (seqM (modM (\<lambda>s. s\<lparr>thread_dead := p\<rparr>)) n))) Q" (is "valid own _ ?m Q")
  unfolding valid_def
proof (intro allI impI)
  fix s assume s: "at_stage own (Unlisted p) s"
  then obtain t where t: "threads s p = Some t" "p \<noteq> NULL" by (auto simp: at_stage_def directory_def)
  show "(\<forall>x t. ?m s = Some (Ret x t) \<longrightarrow> Q x t) \<and> (\<forall>e t. ?m s = Some (Stop e t) \<longrightarrow> ended own e t) \<and>
    ?m s \<noteq> Some (Fault Bad_Union)"
    using assms [unfolded valid_def] stage_bury [OF s t(1)] t by simp
qed

lemma valid_exit_bury: "valid own (at_stage own (Live p)) (exit_bury E p) (\<lambda>_. at_stage own (Dead p))"
proof -
  have fin: "valid own (at_stage own (Dead p)) (seqM (thread_kern_leave_crit_sec E) (thread_kern_sig_unblock E))
    (\<lambda>_. at_stage own (Dead p))"
    unfolding keeps_def [symmetric] by (intro keeps_rules)
  show ?thesis
    unfolding exit_bury_def
    by (rule valid_keeps, intro keeps_rules, rule valid_seq [OF valid_exit_unlink],
        rule valid_keeps, intro keeps_rules, rule valid_bury [OF fin])
qed

lemma pthread_exit_sound: "valid own (at_stage own Loose) (pthread_exit E status) (\<lambda>_ _. False)"
proof -
  have last: "valid own (at_stage own (Dead p)) (seqM (thread_kern_sched_state E PS_DEAD f l)
    (seqM (stopM End_Thread) n)) Q" for p f l n and Q :: "unit \<Rightarrow> 'k world \<Rightarrow> bool"
    by (rule valid_keeps, intro keeps_rules, simp)
       (auto simp: valid_def stopM_def ended_def)
  show ?thesis
    unfolding pthread_exit_def
    by (rule valid_bind [OF valid_pthread_self], (rule valid_keeps, (intro keeps_rules; simp))+,
        rule valid_seq [OF valid_exit_bury last])
qed

lemma keeps_pthread_exit: "keeps own Loose (pthread_exit E status)"
  using pthread_exit_sound unfolding keeps_def by (rule valid_conseq) simp_all

text \<open>A new thread: its structure is on no list until it has taken its attributes.\<close>

lemma valid_create_first:
  "valid own (at_stage own Loose) (create_first E ci) (\<lambda>p. at_stage own (Fresh p))"
  unfolding create_first_def
  by (rule valid_new)
     ((rule valid_ret | rule valid_keeps valid_keeps_bind | intro keeps_rules | (simp; fail))+,
      simp add: valid_def alter_def modM_def getM_def faultM_def bindM_def seqM_def load_def split: option.split)

lemma valid_create_enlist:
  "valid own (at_stage own (Fresh p)) (create_enlist E p) (\<lambda>_. at_stage own (Raw p))"
proof -
  have fin: "valid own (at_stage own (Raw p)) (thread_kern_leave_crit_sec E) (\<lambda>_. at_stage own (Raw p))"
    unfolding keeps_def [symmetric] by (intro keeps_rules)
  show ?thesis
    unfolding create_enlist_def
    by (rule valid_keeps, (intro keeps_rules; simp), rule valid_keeps, intro keeps_rules, rule valid_enlist [OF fin])
qed

lemma keeps_create_run: "keeps own Loose (create_run E argp thread)"
  unfolding create_run_def by (intro keeps_rules keeps_pthread_exit; simp)

text \<open>The state is set between the two: suspended or running.\<close>

lemma valid_create_state:
  "valid own (at_stage own (Raw p))
    (if b then seqM (PTHREAD_NEW_STATE p PS_SUSPENDED f l) (bindM (DosSuspendThread E u) (\<lambda>rc. retM ()))
     else PTHREAD_NEW_STATE p PS_RUNNING f2 l2) (\<lambda>_. at_stage own (Live p))"
proof -
  have "valid own (at_stage own (Live p)) (bindM (DosSuspendThread E u) (\<lambda>rc. retM ())) (\<lambda>_. at_stage own (Live p))"
    unfolding keeps_def [symmetric] by (intro keeps_rules; simp)
  then show ?thesis by (cases b) (simp_all add: valid_seq [OF valid_new_state] valid_new_state)
qed

lemma keeps_setprio: "keeps own z (pthread_setprio E pthread prio)"
  unfolding pthread_setprio_def by (intro keeps_rules; simp)

lemma keeps_thread_create2: "keeps own Loose (thread_create2 E ci argp)"
proof -
  have rest: "valid own (at_stage own (Live p)) m (\<lambda>_. at_stage own Loose)"
    if "keeps own Loose m" for p and m :: "(unit, 'k world) prog"
    by (rule valid_conseq [OF that [unfolded keeps_def] keeps_enlisted])
  show ?thesis
    unfolding thread_create2_def create_rest_def keeps_def
    by (rule valid_bind [OF valid_create_first], rule valid_keeps, intro keeps_rules,
        rule valid_seq [OF valid_create_enlist], rule valid_keeps_bind, intro keeps_rules,
        rule valid_keeps_bind, rule keeps_setprio, rule valid_keeps_bind, intro keeps_rules,
        rule valid_seq [OF valid_create_state], rule rest, rule keeps_create_run)
qed


end

end
