(* ===== verification/System.thy ===== *)
theory System
  imports Keep Register
begin

text \<open>
  The process as a transition system: the threads of the application call the functions of the library, one at a time,
  the OS switches between threads and starts new ones, and the application writes to its own memory.
  In every reachable state the directory of threads is what it has to be, and no call reads the wrong member of the
  union in a thread structure.
\<close>

section \<open>Calls and steps\<close>

definition ignoring :: "('a, 's) prog \<Rightarrow> (unit, 's) prog" where
  "ignoring m = seqM m (retM ())"

text \<open>
  The functions a thread can enter the library by: those an application calls, the handler emx calls, and the
  functions in which the threads of the library start (\<open>thread_create2\<close>, \<open>thread_select\<close>, \<open>alarm_thread\<close>).
\<close>

inductive lib_call :: "'k os \<Rightarrow> (unit, 'k world) prog \<Rightarrow> bool" for E where
  "lib_call E (ignoring (pthread_self E))"
| "lib_call E (ignoring (pthread_init E))"
| "lib_call E (ignoring (pthread_equal E t1 t2))"
| "lib_call E (ignoring (pthread_exit E status))"
| "lib_call E (ignoring (pthread_create E ci thread attr routine arg))"
| "lib_call E (ignoring (thread_create2 E ci argp))"
| "lib_call E (ignoring (pthread_join E pthread thread_return))"
| "lib_call E (ignoring (pthread_detach E p_pthread))"
| "lib_call E (ignoring (pthread_getprio E pthread))"
| "lib_call E (ignoring (pthread_setprio E pthread prio))"
| "lib_call E (ignoring (pthread_suspend_np E thread))"
| "lib_call E (ignoring (pthread_resume_np E thread))"
| "lib_call E (ignoring (pthread_yield E))"
| "lib_call E (ignoring (pthread_once_call E once_control init_routine))"
| "lib_call E (ignoring (pthread_cleanup_push E routine routine_arg))"
| "lib_call E (ignoring (pthread_cleanup_pop E execute))"
| "lib_call E (ignoring (pthread_kill E pthread signo))"
| "lib_call E (ignoring (pthread_raise E signo))"
| "lib_call E (ignoring (pthread_sigmask E how iset oset))"
| "lib_call E (ignoring (pthread_sigaction E signo iact oact))"
| "lib_call E (ignoring (pthread_signal E sig handler))"
| "lib_call E (ignoring (pthread_sigpending E setp))"
| "lib_call E (ignoring (pthread_sigsuspend E maskp))"
| "lib_call E (ignoring (pthread_pause E))"
| "lib_call E (ignoring (uthread_emx_sighandler E signo))"
| "lib_call E (ignoring (pthread_mutex_init E mutex mutex_attr))"
| "lib_call E (ignoring (pthread_mutex_destroy E mutex))"
| "lib_call E (ignoring (pthread_mutex_lock E mutex))"
| "lib_call E (ignoring (pthread_mutex_trylock E mutex))"
| "lib_call E (ignoring (pthread_mutex_unlock E mutex))"
| "lib_call E (ignoring (pthread_mutex_getprioceiling E attr))"
| "lib_call E (ignoring (pthread_mutex_setprioceiling E attr))"
| "lib_call E (ignoring (pthread_cond_init E cond cond_attr))"
| "lib_call E (ignoring (pthread_cond_destroy E cond))"
| "lib_call E (ignoring (pthread_cond_wait E cond mutex))"
| "lib_call E (ignoring (pthread_cond_timedwait E cond mutex abstime))"
| "lib_call E (ignoring (pthread_cond_signal E cond))"
| "lib_call E (ignoring (pthread_cond_broadcast E cond))"
| "lib_call E (ignoring (pthread_key_create E key destructor))"
| "lib_call E (ignoring (pthread_key_delete E key))"
| "lib_call E (ignoring (pthread_setspecific E key val))"
| "lib_call E (ignoring (pthread_getspecific E key))"
| "lib_call E (ignoring (pthread_attr_init E attr))"
| "lib_call E (ignoring (pthread_attr_destroy E attr))"
| "lib_call E (ignoring (pthread_attr_setstacksize E attr stacksize))"
| "lib_call E (ignoring (pthread_attr_getstacksize E attr stacksize))"
| "lib_call E (ignoring (pthread_attr_setstackaddr E attr stackaddr))"
| "lib_call E (ignoring (pthread_attr_getstackaddr E attr stackaddr))"
| "lib_call E (ignoring (pthread_attr_setdetachstate E attr detachstate))"
| "lib_call E (ignoring (pthread_attr_getdetachstate E attr detachstate))"
| "lib_call E (ignoring (pthread_attr_setprio E attr priority))"
| "lib_call E (ignoring (pthread_attr_setcreatesuspend_np E attr))"
| "lib_call E (ignoring (pthread_attr_setschedpolicy attr policy))"
| "lib_call E (ignoring (pthread_mutexattr_init E attr))"
| "lib_call E (ignoring (pthread_mutexattr_destroy E attr))"
| "lib_call E (ignoring (pthread_mutexattr_setkind_np E attr kind))"
| "lib_call E (ignoring (pthread_mutexattr_getkind_np E attr))"
| "lib_call E (ignoring (pthread_mutexattr_getprioceiling E attr prioceiling))"
| "lib_call E (ignoring (pthread_mutexattr_setprioceiling E attr prioceiling))"
| "lib_call E (ignoring (pthread_condattr_init E attr))"
| "lib_call E (ignoring (pthread_condattr_destroy E attr))"
| "lib_call E (ignoring (pthread_read E fd buf len))"
| "lib_call E (ignoring (pthread_write E fd buf len))"
| "lib_call E (ignoring (pthread_sleep E sec))"
| "lib_call E (ignoring (pthread_sleep2 E millisec))"
| "lib_call E (ignoring (pthread_select E nfds rd wr ex timeout))"
| "lib_call E (ignoring (thread_select E sel))"
| "lib_call E (ignoring (locking E fd locktype len))"
| "lib_call E (ignoring (pthread_alarm E ci routine sec))"
| "lib_call E (ignoring (alarm_thread E client))"
| "lib_call E (ignoring (pthread_dlopen E dlname flags))"
| "lib_call E (ignoring (dlopen E dlname flags))"
| "lib_call E (ignoring (pthread_dlerror E))"
| "lib_call E (ignoring (dlerror E))"
| "lib_call E (ignoring (pthread_dlsym E handle fnname))"
| "lib_call E (ignoring (dlsym E handle fnname))"
| "lib_call E (ignoring (pthread_dlclose E handle))"
| "lib_call E (ignoring (dlclose E handle))"
| "lib_call E (ignoring (thread_queue_init queue))"
| "lib_call E (ignoring (thread_queue_enq E queue thread))"
| "lib_call E (ignoring (thread_queue_get queue))"
| "lib_call E (ignoring (thread_queue_deq E queue))"
| "lib_call E (ignoring (thread_queue_remove E queue thread))"
| "lib_call E (ignoring (pthread_llist_remove E llist thread))"

text \<open>
  A thread may run unless its structure is on the list of dead threads; a number whose thread has ended, or has none, is
  given to a new thread, whose word of local storage is \<^verbatim>\<open>NULL\<close>.
\<close>

definition on_duty :: "'k world \<Rightarrow> tid \<Rightarrow> bool" where
  "on_duty s u \<longleftrightarrow> threadstore s u = NULL \<or> (\<exists>xs. live_list s xs \<and> threadstore s u \<in> set xs)"

definition off_duty :: "'k world \<Rightarrow> tid \<Rightarrow> bool" where
  "off_duty s u \<longleftrightarrow> (\<forall>xs. live_list s xs \<longrightarrow> threadstore s u \<notin> set xs)"

inductive reachable :: "'k os \<Rightarrow> 'k world \<Rightarrow> 'k world \<Rightarrow> bool" for E s0 where
  start: "reachable E s0 s0"
| call: "reachable E s0 s \<Longrightarrow> lib_call E m \<Longrightarrow> m s = Some (Ret () t) \<Longrightarrow> reachable E s0 t"
| leave: "reachable E s0 s \<Longrightarrow> lib_call E m \<Longrightarrow> m s = Some (Stop End_Thread t) \<Longrightarrow> on_duty t u \<Longrightarrow>
    reachable E s0 (t\<lparr>cur := u\<rparr>)"
| switch: "reachable E s0 s \<Longrightarrow> on_duty s u \<Longrightarrow> reachable E s0 (s\<lparr>cur := u\<rparr>)"
| born: "reachable E s0 s \<Longrightarrow> off_duty s u \<Longrightarrow>
    reachable E s0 (s\<lparr>cur := u, threadstore := (threadstore s)(u := NULL)\<rparr>)"
| app: "reachable E s0 s \<Longrightarrow> inert g \<Longrightarrow> reachable E s0 (g s)"

text \<open>The state before the first call: no thread is registered.\<close>

definition booted :: "'k world \<Rightarrow> bool" where
  "booted s \<longleftrightarrow> threads s = Map.empty \<and> thread_link_list s = NULL \<and> thread_dead s = NULL \<and>
     (\<forall>u. threadstore s u = NULL)"

section \<open>The invariant\<close>

context calm_os
begin

lemma lib_call_keeps: "lib_call E m \<Longrightarrow> keeps own Loose m"
  by (induction rule: lib_call.induct)
     (unfold ignoring_def, (intro keeps_rules keeps_pthread_exit keeps_thread_create2; simp)+)

lemma booted_stage: "booted s \<Longrightarrow> at_stage own Loose s"
  unfolding at_stage_def stage.case
  by (intro conjI exI [of _ "[]"])
     (simp_all add: booted_def directory_def lists_ok_def live_list_def dead_list_def run_def)

lemma switch_stage: "sound own s \<Longrightarrow> on_duty s u \<Longrightarrow> at_stage own Loose (s\<lparr>cur := u\<rparr>)"
proof -
  assume "sound own s" and u: "on_duty s u"
  then obtain xs ds where d: "directory own s xs ds {}" and w: "waits_ok {} (threads s)" by (auto simp: sound_def)
  then have "live_list s xs" by (simp add: directory_def lists_ok_def)
  with u have "threadstore s u \<in> insert NULL (set xs)"
    unfolding on_duty_def using live_list_unique by blast
  moreover have "directory own (s\<lparr>cur := u\<rparr>) xs ds {}"
    using d by (simp add: directory_def lists_ok_def live_list_def dead_list_def)
  ultimately show ?thesis unfolding at_stage_def stage.case using w by (auto simp: run_def)
qed

lemma born_stage:
  assumes "sound own s" and u: "off_duty s u"
  shows "at_stage own Loose (s\<lparr>cur := u, threadstore := (threadstore s)(u := NULL)\<rparr>)"
proof -
  from assms obtain xs ds where "directory own s xs ds {}" and w: "waits_ok {} (threads s)" by (auto simp: sound_def)
  then have "directory own (s\<lparr>cur := u, threadstore := (threadstore s)(u := NULL)\<rparr>) xs ds {}"
    by (auto simp: directory_def lists_ok_def live_list_def dead_list_def)
  then show ?thesis unfolding at_stage_def stage.case using w by (auto simp: run_def)
qed

lemma reachable_stage:
  assumes "booted s0" "reachable E s0 s"
  shows "at_stage own Loose s"
  using assms(2)
proof induction
  case start
  show ?case by (rule booted_stage [OF assms(1)])
next
  case (call s m t)
  then show ?case using lib_call_keeps unfolding keeps_def valid_def by blast
next
  case (leave s m t u)
  then have "sound own t" using lib_call_keeps ended_sound unfolding keeps_def valid_def by blast
  then show ?case using leave.hyps(4) by (rule switch_stage)
next
  case (switch s u)
  then show ?case using switch_stage at_stage_sound settled.simps by blast
next
  case (born s u)
  then show ?case using born_stage at_stage_sound settled.simps by blast
next
  case (app s g)
  then show ?case using inert_stage by blast
qed

end

section \<open>An instance\<close>

lemma stays_kern:
  assumes "\<And>s r. m s = Some r \<Longrightarrow> \<exists>x t. r = Ret x t \<and> t = s\<lparr>kern := kern t\<rparr> \<and> own (kern s) \<subseteq> own (kern t)"
  shows "stays own m"
  unfolding stays_def
proof (intro allI impI, rule keepsI, intro impI)
  fix z s r assume s: "at_stage own z s" and "m s = Some r"
  from assms [OF this(2)] obtain x t where t: "r = Ret x t" "t = s\<lparr>kern := kern t\<rparr>" "own (kern s) \<subseteq> own (kern t)"
    by blast
  obtain k where "t = s\<lparr>kern := k\<rparr>" using t(2) by blast
  with t(3) have "at_stage own z t" by (intro at_stage_cong [OF _ _ _ _ _ _ _ s]) simp_all
  with t(1) show "ends_ok own z r" by simp
qed

definition demo_own :: "demo_kern \<Rightarrow> addr set" where
  "demo_own k = {..<brk k}"

lemmas demo_blocking = demo_request_def demo_wait_def demo_call_def Let_def retM_def seqM_def bindM_def

interpretation calm_demo: calm_os demo_os demo_own
  by unfold_locales
     (((rule stays_kern)?; auto simp: demo_own_def grows_def demo_release_def demo_close_def demo_new_def
        demo_nop_def demo_ok_def demo_blocking kern_upd_id split: option.splits if_splits)+)

section \<open>Searches return\<close>

lemma setprio_returns:
  assumes "inited s" and live: "live_list s xs"
  shows "\<exists>r t. pthread_setprio E p prio s = Some (Ret r t)"
proof (cases "p \<in> set xs")
  case True
  then obtain t where "p \<noteq> NULL" "threads s p = Some t" using live_list_alloc [OF live] by blast
  with True assms(1) show ?thesis
    by (cases "prio < 0 \<or> 126 < prio"; cases "threadid t = 0")
       (auto simp: pthread_setprio_def block_run find_live_blocked [OF live] run_simps retM_def
        PTHREAD_MIN_PRIORITY_def PTHREAD_MAX_PRIORITY_def simp del: sig_block_run sig_unblock_run)
next
  case False
  then show ?thesis
    using setprio_error [OF assms] by (cases "prio < 0 \<or> 126 < prio") auto
qed

lemma resume_returns:
  assumes "inited s" and live: "live_list s xs"
  shows "\<exists>r t. pthread_resume_np E p s = Some (Ret r t)"
proof (cases "p \<in> set xs")
  case True
  then obtain t where "threads s p = Some t" using live_list_alloc [OF live] by blast
  note found = assms True this
  show ?thesis
    using resume_suspended [OF found] resume_running [OF found] resume_waiting [OF found]
    by (cases "th_state t = PS_SUSPENDED"; cases "th_state t = PS_RUNNING") auto
next
  case False
  then show ?thesis using resume_absent [OF assms] by simp
qed

section \<open>A thread that registers\<close>

text \<open>The initial thread calls \<^verbatim>\<open>pthread_self\<close> in a process that nobody has called the library in.\<close>

lemma demo_first_call:
  "\<exists>s t. reachable demo_os demo_fresh s \<and> inited s \<and> live_list s [1000] \<and> thread_dead s = NULL \<and> run s = 1000 \<and>
     threads s 1000 = Some t \<and> th_attr t = pthread_attr_default \<and> th_cleanup t = NULL \<and>
     specific_data t = NULL \<and> parent_thread t = NULL"
proof -
  from self_run [OF demo_fresh_ok(1,2), of demo_os 1000] demo_fresh_ok(3-6) obtain s t where
    e: "pthread_self demo_os demo_fresh = Some (Ret 1000 s)" and s: "inited s" "live_list s [1000]" "thread_dead s = NULL"
      "run s = 1000" "threads s = [1000 \<mapsto> t]" "th_attr t = pthread_attr_default" "th_cleanup t = NULL"
      "specific_data t = NULL" "parent_thread t = NULL" by fastforce
  have "lib_call demo_os (ignoring (pthread_self demo_os))" by (rule lib_call.intros)
  moreover have "ignoring (pthread_self demo_os) demo_fresh = Some (Ret () s)"
    by (simp add: ignoring_def seqM_run [where m = "pthread_self demo_os", OF e] retM_def)
  ultimately have "reachable demo_os demo_fresh s" by (rule reachable.call [OF reachable.start])
  with s show ?thesis by auto
qed

lemma demo_fresh_booted: "booted demo_fresh"
  by (simp add: booted_def demo_fresh_def)

section \<open>The directory in every reachable state\<close>

lemma reachable_directory:
  assumes "calm_os E own" "booted s0" "reachable E s0 s"
  shows "\<exists>xs ds. directory own s xs ds {} \<and> run s \<in> insert NULL (set xs)"
  using calm_os.reachable_stage [OF assms] by (simp add: at_stage_def)

text \<open>
  C1: In every state an application can bring the process to, by any sequence of calls of the library by any threads,
  the list of live threads and that of dead threads are well formed and disjoint; the word of local storage of
  each OS thread is \<^verbatim>\<open>NULL\<close> or a structure on one of the lists, and of the running thread one on
  the list of live threads; and no two OS threads share a structure.  \<open>E\<close> is a system whose
  allocator hands out memory that is not in use and whose blocking calls and callbacks leave the
  directory to the calling thread as they have to.
\<close>

theorem thread_lists_sound:
  assumes "calm_os E own" "booted s0" "reachable E s0 s"
  shows "\<exists>xs ds. live_list s xs \<and> dead_list s ds \<and> set xs \<inter> set ds = {} \<and> run s \<in> insert NULL (set xs) \<and>
    (\<forall>u. threadstore s u \<in> insert NULL (set xs \<union> set ds)) \<and>
    (\<forall>u v. threadstore s u = threadstore s v \<longrightarrow> threadstore s u = NULL \<or> u = v)"
proof -
  obtain xs ds where d: "directory own s xs ds {}" "run s \<in> insert NULL (set xs)"
    using reachable_directory [OF assms] by blast
  then show ?thesis by (intro exI [of _ xs] exI [of _ ds]) (auto simp: directory_def lists_ok_def)
qed

theorem thread_lists_sound_witness:
  "\<exists>s xs ds. reachable demo_os demo_fresh s \<and> thread_link_list s = 1000 \<and> live_list s xs \<and> dead_list s ds \<and>
     set xs \<inter> set ds = {} \<and> run s \<in> set xs \<and> (\<forall>u. threadstore s u \<in> insert NULL (set xs \<union> set ds))"
proof -
  obtain s where s: "reachable demo_os demo_fresh s" "live_list s [1000]" "run s = 1000"
    using demo_first_call by blast
  from thread_lists_sound [OF calm_demo.calm_os_axioms demo_fresh_booted s(1)] s(2,3) show ?thesis
    by (intro exI [of _ s]) (auto simp: live_list_def s(1))
qed

text \<open>
  C14: A call that ends the thread, which is \<^verbatim>\<open>pthread_exit\<close> or one that runs it through a callback, leaves the structure of that
  thread on the list of dead threads and not on that of live ones, in every reachable state.
\<close>

theorem ended_thread_is_dead:
  assumes "calm_os E own" "booted s0" "reachable E s0 s"
    and "lib_call E m" "m s = Some (Stop End_Thread t)"
  shows "\<exists>xs ds. live_list t xs \<and> dead_list t ds \<and> run t \<in> set ds \<and> run t \<notin> set xs"
proof -
  have "at_stage own Loose s" by (rule calm_os.reachable_stage [OF assms(1-3)])
  then have "ended own End_Thread t"
    using calm_os.lib_call_keeps [OF assms(1,4)] assms(5) unfolding keeps_def valid_def by blast
  then obtain xs ds where "directory own t xs ds {}" "run t \<in> set ds" by (auto simp: ended_def at_stage_def)
  then show ?thesis by (intro exI [of _ xs] exI [of _ ds]) (auto simp: directory_def lists_ok_def)
qed

theorem ended_thread_is_dead_witness:
  "\<exists>s t xs ds. reachable demo_os demo_fresh s \<and> pthread_exit demo_os 7 s = Some (Stop End_Thread t) \<and>
     live_list t xs \<and> dead_list t ds \<and> run t \<in> set ds \<and> run t \<notin> set xs"
proof -
  obtain s t where s: "reachable demo_os demo_fresh s" "inited s" "live_list s [1000]" "thread_dead s = NULL"
      "run s = 1000" "threads s 1000 = Some t" and t: "th_attr t = pthread_attr_default" "th_cleanup t = NULL"
      "specific_data t = NULL" "parent_thread t = NULL"
    using demo_first_call by blast
  have "lists_ok s [1000] []" using s(3,4) by (simp add: lists_ok_def dead_list_def)
  from exit_run [OF demo_plain s(2) this s(5) [symmetric] _ s(6), of "[]" "\<lambda>_. NULL" 7] t obtain u where
    "pthread_exit demo_os 7 s = bindM (DosSleep demo_os 1) (\<lambda>rc. stopM End_Thread) u"
    by (auto simp: pthread_attr_default_def spec_ok_def)
  then have e: "pthread_exit demo_os 7 s = Some (Stop End_Thread u)" by (simp add: stopM_def)
  then have "ignoring (pthread_exit demo_os 7) s = Some (Stop End_Thread u)"
    by (simp add: ignoring_def seqM_def bindM_def)
  moreover have "lib_call demo_os (ignoring (pthread_exit demo_os 7))" by (rule lib_call.intros)
  ultimately show ?thesis
    using ended_thread_is_dead [OF calm_demo.calm_os_axioms demo_fresh_booted s(1)] s(1) e by blast
qed

text \<open>
  C31: In every reachable state the calls of a registered thread that search the list of live threads return, whatever thread they
  are asked for.
\<close>

theorem searches_return:
  assumes "calm_os E own" "booted s0" "reachable E s0 s" "inited s"
  shows "(\<exists>r t. pthread_getprio E p s = Some (Ret r t)) \<and> (\<exists>r t. pthread_setprio E p prio s = Some (Ret r t)) \<and>
    (\<exists>r t. pthread_resume_np E p s = Some (Ret r t))"
proof -
  obtain xs where live: "live_list s xs"
    using reachable_directory [OF assms(1-3)] by (auto simp: directory_def lists_ok_def)
  show ?thesis
    using getprio_run [OF assms(4) live] setprio_returns [OF assms(4) live] resume_returns [OF assms(4) live] by simp
qed

theorem searches_return_witness:
  "\<exists>s. reachable demo_os demo_fresh s \<and> (\<exists>r t. pthread_getprio demo_os 555 s = Some (Ret r t)) \<and>
     (\<exists>r t. pthread_setprio demo_os 1000 70 s = Some (Ret r t)) \<and> (\<exists>r t. pthread_resume_np demo_os 1000 s = Some (Ret r t))"
proof -
  obtain s where s: "reachable demo_os demo_fresh s" "inited s" using demo_first_call by blast
  then show ?thesis
    using searches_return [OF calm_demo.calm_os_axioms demo_fresh_booted s] by blast
qed

end
