(* ===== verification/Unions.thy ===== *)
theory Unions
  imports System
begin

text \<open>
  Type safety of \<^verbatim>\<open>union pthread_wait_data\<close>.  The state of a thread is the tag of the union: \<^verbatim>\<open>pthread_kill\<close>,
  \<^verbatim>\<open>uthread_terminate\<close> and the emx signal handler read the member that the state of the thread calls for.  In every
  reachable state each structure has that member, and no call of the library reads another; but between the
  moment a new structure is put on the list and the moment its state is set the tag is not yet valid.
\<close>

section \<open>The tag\<close>

text \<open>A signal for a thread whose union does not have the member its state says is the fault that is excluded.\<close>

lemma kill_wrong_member:
  assumes "p \<noteq> NULL" "threads s p = Some t" "th_state t = PS_SLEEP_WAIT" "\<not> wait_ok t"
  shows "kill_deliver E p signo s = Some (Fault Bad_Union)"
  using assms by (cases "th_data t") (simp_all add: kill_deliver_def add_pending_def post_abort_def faultM_def)

text \<open>
  \<^verbatim>\<open>_thread_create2\<close> puts the structure on the list of live threads before it sets the state (and so does
  \<^verbatim>\<open>_thread_init\<close>).  Another thread that is scheduled in between finds a live thread whose state and union
  are what \<^verbatim>\<open>malloc\<close> left there, and a signal for it can go by the wrong member.
\<close>

lemma new_thread_exposed:
  assumes "p \<noteq> NULL" "threads s p = Some t"
  shows "\<exists>s' t'. create_enlist E p s = Some (Ret () s') \<and> thread_link_list s' = p \<and> threads s' p = Some t' \<and>
    th_state t' = th_state t \<and> th_data t' = th_data t \<and>
    (th_state t = PS_SLEEP_WAIT \<and> \<not> wait_ok t \<longrightarrow> kill_deliver E p signo s' = Some (Fault Bad_Union))"
proof -
  obtain s' t' where s': "create_enlist E p s = Some (Ret () s')" "thread_link_list s' = p" "threads s' p = Some t'"
    "th_state t' = th_state t" "th_data t' = th_data t"
    using assms by (simp add: create_enlist_def thread_kern_leave_crit_sec_def kcall_end)
  with kill_wrong_member [OF assms(1) s'(3)] show ?thesis by auto
qed

section \<open>Type safety\<close>

text \<open>
  C12: In every reachable state each thread structure has the member of the wait union that its state calls for, the mutex in
  \<^verbatim>\<open>PS_MUTEX_WAIT\<close>, the descriptor in \<^verbatim>\<open>PS_FDR_WAIT\<close> and \<^verbatim>\<open>PS_FDW_WAIT\<close>, the semaphore in \<^verbatim>\<open>PS_SELECT_WAIT\<close>,
  \<^verbatim>\<open>PS_SLEEP_WAIT\<close> and \<^verbatim>\<open>PS_SIGWAIT\<close>; and no call of the library, by any thread, reads a member that was not written last.
\<close>

theorem union_type_safe:
  assumes "calm_os E own" "booted s0" "reachable E s0 s"
  shows "(\<forall>p t. threads s p = Some t \<longrightarrow> fits (th_state t) (th_data t)) \<and>
    (\<forall>m. lib_call E m \<longrightarrow> m s \<noteq> Some (Fault Bad_Union))"
proof -
  have s: "at_stage own Loose s" by (rule calm_os.reachable_stage [OF assms])
  then have "waits_ok {} (threads s)" by (simp add: at_stage_def)
  moreover have "m s \<noteq> Some (Fault Bad_Union)" if "lib_call E m" for m
    using calm_os.lib_call_keeps [OF assms(1) that] s unfolding keeps_def valid_def by blast
  ultimately show ?thesis by (auto dest: waits_okD)
qed

theorem union_type_safe_witness:
  "\<exists>s t. reachable demo_os demo_fresh s \<and> threads s 1000 = Some t \<and> fits (th_state t) (th_data t) \<and>
     ignoring (pthread_kill demo_os 1000 14) s \<noteq> Some (Fault Bad_Union)"
proof -
  obtain s t where s: "reachable demo_os demo_fresh s" "threads s 1000 = Some t" using demo_first_call by blast
  moreover have "lib_call demo_os (ignoring (pthread_kill demo_os 1000 14))" by (rule lib_call.intros)
  ultimately show ?thesis
    using union_type_safe [OF calm_demo.calm_os_axioms demo_fresh_booted s(1)] by blast
qed

end
