(* ===== verification/Image.thy ===== *)
theory Image
  imports System
begin

text \<open>
  The definition unit \<^verbatim>\<open>pthread_private.c\<close>: with \<^verbatim>\<open>GLOBAL_PTHREAD_PRIVATE\<close> defined, \<^verbatim>\<open>pthread_private.h\<close> defines the
  globals of the library with their initial values.  Together with the two statics of other files they are what the
  loader puts into the state of a new process.  (The three default attribute objects are the constants
  \<open>pthread_attr_default\<close>, \<open>pthread_mutexattr_default\<close> and \<open>pthread_condattr_default\<close>: nothing writes to them.)
\<close>

section \<open>The image of a process\<close>

definition init_lists :: "'k world \<Rightarrow> 'k world" where
  "init_lists s = s\<lparr>thread_link_list := NULL, thread_initial := NULL, thread_dead := NULL\<rparr>"

definition init_signal_globals :: "'k world \<Rightarrow> 'k world" where
  "init_signal_globals s = s\<lparr>so_cancel := NULL, thread_critical := 0, signals_blocked := 0\<rparr>"

definition init_key_table :: "'k world \<Rightarrow> 'k world" where
  "init_key_table s = s\<lparr>key_table := (\<lambda>_. \<lparr>k_count = 0, k_destructor = NULL\<rparr>)\<rparr>"

definition init_doloaddll :: "'k world \<Rightarrow> 'k world" where
  "init_doloaddll s = s\<lparr>doloaddll := True\<rparr>"

definition process_image :: "'k world \<Rightarrow> 'k world" where
  "process_image s = init_doloaddll (init_key_table (init_signal_globals (init_lists s)))"

section \<open>What the first calls find\<close>

text \<open>The memory and the local storage of a new process hold no thread structure.\<close>

definition new_process :: "'k world \<Rightarrow> bool" where
  "new_process s \<longleftrightarrow> threads s = Map.empty \<and> (\<forall>u. threadstore s u = NULL) \<and> cur s = 1"

lemmas image_defs = process_image_def init_lists_def init_signal_globals_def init_key_table_def init_doloaddll_def

lemma booted_image: "new_process s \<Longrightarrow> booted (process_image s)"
  by (simp add: booted_def image_defs new_process_def)

lemma image_ready:
  assumes "new_process s"
  shows "run (process_image s) = NULL" "live_list (process_image s) []" "first_thread (process_image s)"
    "kern (process_image s) = kern s" "cur (process_image s) = 1"
  using assms by (simp_all add: image_defs new_process_def run_def live_list_def first_thread_def)

text \<open>Until \<^verbatim>\<open>SO32DLL\<close> is loaded a socket operation cannot be cancelled, and every key is free.\<close>

lemma image_defaults:
  "uthread_so_cancel E fd (process_image s) = Some (Ret EOPNOTSUPP (process_image s))"
  "k_count (key_table (process_image s) n) = 0"
  by (simp_all add: uthread_so_cancel_def thread_so_cancel_def image_defs retM_def bindM_def getM_def)

text \<open>
  C15: A new process starts without threads, and whatever its threads then call, its lists stay sound.  The first call of its
  initial thread makes that thread the only one on the list of live threads, and makes it the initial thread of the library.
\<close>

theorem image_starts:
  assumes "new_process s" and "fst (malloc E 1 (kern s)) = p" "p \<noteq> NULL"
  shows "\<exists>s' t. pthread_self E (process_image s) = Some (Ret p s') \<and> inited s' \<and> live_list s' [p] \<and> thread_dead s' = NULL \<and>
    threads s' = [p \<mapsto> t] \<and> th_state t = PS_RUNNING \<and> thread_initial s' = p \<and> reachable E (process_image s) s' \<and>
    (calm_os E own \<longrightarrow> (\<forall>u. reachable E (process_image s) u \<longrightarrow>
      (\<exists>xs ds. live_list u xs \<and> dead_list u ds \<and> set xs \<inter> set ds = {})))"
proof -
  note i = image_ready [OF assms(1)]
  obtain s' t where e: "pthread_self E (process_image s) = Some (Ret p s')"
    and s': "inited s'" "live_list s' [p]" "thread_dead s' = NULL" "threads s' = [p \<mapsto> t]" "th_state t = PS_RUNNING"
      "thread_initial s' = p"
    using self_run [OF i(1,2), of E p] assms i(3-5) by (fastforce simp: image_defs new_process_def)
  have "lib_call E (ignoring (pthread_self E))" by (rule lib_call.intros)
  moreover have "ignoring (pthread_self E) (process_image s) = Some (Ret () s')"
    by (simp add: ignoring_def seqM_run [where m = "pthread_self E", OF e] retM_def)
  ultimately have "reachable E (process_image s) s'" by (rule reachable.call [OF reachable.start])
  moreover have "\<exists>xs ds. live_list u xs \<and> dead_list u ds \<and> set xs \<inter> set ds = {}"
    if "calm_os E own" "reachable E (process_image s) u" for u
    using reachable_directory [OF that(1) booted_image [OF assms(1)] that(2)] by (auto simp: directory_def lists_ok_def)
  ultimately show ?thesis using e s' by blast
qed

theorem image_starts_witness:
  "\<exists>s' t ds. pthread_self demo_os (process_image demo_fresh) = Some (Ret 1000 s') \<and> live_list s' [1000] \<and>
     threads s' = [1000 \<mapsto> t] \<and> thread_initial s' = 1000 \<and> dead_list s' ds \<and> 1000 \<notin> set ds"
proof -
  have n: "new_process demo_fresh" by (simp add: new_process_def) (simp add: demo_fresh_def)
  have m: "fst (malloc demo_os 1 (kern demo_fresh)) = 1000" "(1000::addr) \<noteq> NULL" by (simp_all add: demo_fresh_ok)
  from image_starts [OF n m, where own = demo_own] obtain s' t where
    s: "pthread_self demo_os (process_image demo_fresh) = Some (Ret 1000 s')" "live_list s' [1000]" "threads s' = [1000 \<mapsto> t]"
      "thread_initial s' = 1000" "thread_dead s' = NULL" by blast
  from s(5) have "dead_list s' []" by (simp add: dead_list_def)
  with s show ?thesis by fastforce
qed

end
