(* ===== verification/Info.thy ===== *)
theory Info
  imports Dl Locking
begin

text \<open>
  The dump of all threads: \<^verbatim>\<open>_thread_dump_info\<close> of \<^verbatim>\<open>uthread_info.c\<close>, which writes the lists of live and dead threads
  and the table of file descriptor locks to a file.  The file is in no makefile: it uses \<^verbatim>\<open>_thread_fd_table\<close>,
  \<^verbatim>\<open>_thread_dtablesize\<close> and the calls \<^verbatim>\<open>_thread_sys_open\<close>, \<^verbatim>\<open>_thread_sys_write\<close>, \<^verbatim>\<open>_thread_sys_close\<close> of the
  original library, which nothing here declares.  They are the parameter \<open>D\<close>, with the text \<^verbatim>\<open>%p\<close> gives for a pointer.
  The lines are formatted in an array of 128 bytes; a longer one is the fault \<open>Out_Of_Bounds\<close>.
\<close>

section \<open>The names of the states\<close>

record s_thread_info =
  ti_state :: pthread_state
  ti_name :: string

definition thread_info :: "s_thread_info list" where
  "thread_info =
     [\<lparr>ti_state = PS_RUNNING, ti_name = ''Running''\<rparr>,
      \<lparr>ti_state = PS_SIGTHREAD, ti_name = ''Waiting on signal thread''\<rparr>,
      \<lparr>ti_state = PS_MUTEX_WAIT, ti_name = ''Waiting on a mutex''\<rparr>,
      \<lparr>ti_state = PS_COND_WAIT, ti_name = ''Waiting on a condition variable''\<rparr>,
      \<lparr>ti_state = PS_FDLR_WAIT, ti_name = ''Waiting for a file read lock''\<rparr>,
      \<lparr>ti_state = PS_FDLW_WAIT, ti_name = ''Waiting for a file write lock''\<rparr>,
      \<lparr>ti_state = PS_FDR_WAIT, ti_name = ''Waiting for read''\<rparr>,
      \<lparr>ti_state = PS_FDW_WAIT, ti_name = ''Waitingfor write''\<rparr>,
      \<lparr>ti_state = PS_SELECT_WAIT, ti_name = ''Waiting on select''\<rparr>,
      \<lparr>ti_state = PS_SLEEP_WAIT, ti_name = ''Sleeping''\<rparr>,
      \<lparr>ti_state = PS_WAIT_WAIT, ti_name = ''Waiting process''\<rparr>,
      \<lparr>ti_state = PS_SIGWAIT, ti_name = ''Waiting for a signal''\<rparr>,
      \<lparr>ti_state = PS_JOIN, ti_name = ''Waiting to join''\<rparr>,
      \<lparr>ti_state = PS_SUSPENDED, ti_name = ''Suspended''\<rparr>,
      \<lparr>ti_state = PS_DEAD, ti_name = ''Dead''\<rparr>,
      \<lparr>ti_state = PS_STATE_MAX, ti_name = ''Not a real state!''\<rparr>]"

text \<open>\<^verbatim>\<open>for (j = 0; j < (number of entries) - 1; j++) if (thread_info[j].state == pthread->state) break;\<close>\<close>

function info_loop :: "pthread_state \<Rightarrow> nat \<Rightarrow> nat" where
  "info_loop st j =
     (if j < length thread_info - 1 then if ti_state (thread_info ! j) = st then j else info_loop st (j + 1)
      else j)"
  by pat_completeness auto

termination by (relation "measure (\<lambda>(st, j). length thread_info - j)") auto

declare info_loop.simps [simp del]

definition state_name :: "pthread_state \<Rightarrow> string" where
  "state_name st = ti_name (thread_info ! info_loop st 0)"

section \<open>The dump\<close>

text \<open>\<^verbatim>\<open>struct fd_table_entry\<close> of \<^verbatim>\<open>pthread_private.h\<close>.\<close>

record fd_table_entry =
  fe_r_queue :: pthread_queue
  fe_w_queue :: pthread_queue
  fe_r_owner :: addr
  fe_w_owner :: addr
  fe_r_fname :: string
  fe_r_lineno :: int
  fe_w_fname :: string
  fe_w_lineno :: int
  fe_r_lockcount :: int
  fe_w_lockcount :: int
  fe_flags :: int

record 'k dump_env =
  sys_open :: "string \<Rightarrow> u32 \<Rightarrow> u32 \<Rightarrow> tid \<Rightarrow> 'k \<Rightarrow> int \<times> 'k"
  sys_write :: "int \<Rightarrow> string \<Rightarrow> tid \<Rightarrow> 'k \<Rightarrow> int \<times> 'k"
  sys_close :: "int \<Rightarrow> tid \<Rightarrow> 'k \<Rightarrow> int \<times> 'k"
  fd_table :: "'k \<Rightarrow> fd_table_entry option list"
  dtablesize :: nat
  show_pointer :: "addr \<Rightarrow> string"

text \<open>The flags of \<^verbatim>\<open>sys/fcntl.h\<close> and the directive \<^verbatim>\<open>%3d\<close>.\<close>

definition O_RDWR :: u32 where
  "O_RDWR = 0x02"

definition O_APPEND :: u32 where
  "O_APPEND = 0x08"

definition O_CREAT :: u32 where
  "O_CREAT = 0x0200"

definition decimal3 :: "int \<Rightarrow> string" where
  "decimal3 i = replicate (3 - length (decimal i)) (CHR '' '') @ decimal i"

abbreviation newline :: string where
  "newline \<equiv> [CHR 0x0A]"

definition emit :: "'k dump_env \<Rightarrow> int \<Rightarrow> string \<Rightarrow> (unit, 'k world) prog" where
  "emit D fd line =
     (if length line < 128 then seqM (kcall (sys_write D fd line)) (retM ()) else faultM Out_Of_Bounds)"

definition fd_entry :: "'k dump_env \<Rightarrow> int \<Rightarrow> (fd_table_entry, 'k world) prog" where
  "fd_entry D i =
     bindM (getM (\<lambda>s. fd_table D (kern s))) (\<lambda>table.
     if i < 0 \<or> int (length table) \<le> i then faultM Out_Of_Bounds
     else case table ! nat i of None \<Rightarrow> faultM Null_Deref | Some e \<Rightarrow> retM e)"

text \<open>The lines: \<open>at f l\<close> is \<^verbatim>\<open>[%s:%d]\<close>.\<close>

definition at_line :: "string \<Rightarrow> int \<Rightarrow> string" where
  "at_line fname lineno = ''['' @ fname @ '':'' @ decimal lineno @ '']''"

definition thread_line :: "'k dump_env \<Rightarrow> addr \<Rightarrow> pthread \<Rightarrow> string" where
  "thread_line D p t =
     ''--------------------'' @ newline @ ''Thread '' @ show_pointer D p @ '' prio '' @ decimal3 (pthread_priority t) @
     '' state '' @ state_name (th_state t) @ '' '' @ at_line (th_fname t) (th_lineno t) @ newline"

definition dead_line :: "'k dump_env \<Rightarrow> addr \<Rightarrow> pthread \<Rightarrow> string" where
  "dead_line D p t =
     ''Thread '' @ show_pointer D p @ '' prio '' @ decimal3 (pthread_priority t) @ '' '' @
     at_line (th_fname t) (th_lineno t) @ newline"

definition owner_line :: "'k dump_env \<Rightarrow> fd_table_entry \<Rightarrow> string" where
  "owner_line D e =
     ''owner '' @ show_pointer D (fe_r_owner e) @ ''r/'' @ show_pointer D (fe_w_owner e) @ ''w'' @ newline"

definition fd_line :: "'k dump_env \<Rightarrow> nat \<Rightarrow> fd_table_entry \<Rightarrow> string" where
  "fd_line D i e =
     ''fd['' @ decimal3 (int i) @ ''] read owner '' @ show_pointer D (fe_r_owner e) @ '' count '' @
     decimal (fe_r_lockcount e) @ '' '' @ at_line (fe_r_fname e) (fe_r_lineno e) @ newline @ ''        write owner '' @
     show_pointer D (fe_w_owner e) @ '' count '' @ decimal (fe_w_lockcount e) @ '' '' @
     at_line (fe_w_fname e) (fe_w_lineno e) @ newline"

definition active_header :: string where
  "active_header = newline @ newline @ ''============='' @ newline @ ''ACTIVE THREADS'' @ newline @ newline"

definition no_dead_header :: string where
  "no_dead_header = newline @ newline @ ''THERE ARE NO DEAD THREADS'' @ newline"

definition dead_header :: string where
  "dead_header = newline @ newline @ ''DEAD THREADS'' @ newline @ newline"

definition table_header :: string where
  "table_header = newline @ newline @ ''============='' @ newline @ ''FILE DESCRIPTOR TABLE'' @ newline @ newline"

text \<open>The lock details of a thread that waits for a file descriptor.\<close>

definition dump_fd_wait :: "'k dump_env \<Rightarrow> int \<Rightarrow> pthread \<Rightarrow> (unit, 'k world) prog" where
  "dump_fd_wait D fd t =
     (if th_state t \<in> {PS_FDLR_WAIT, PS_FDLW_WAIT, PS_FDR_WAIT, PS_FDW_WAIT}
      then case th_data t of
             W_Fd n branch fname \<Rightarrow>
               seqM (emit D fd (''fd '' @ decimal n @ at_line fname branch))
              (bindM (fd_entry D n) (\<lambda>e. emit D fd (owner_line D e)))
           | _ \<Rightarrow> faultM Bad_Union
      else retM ())"

definition dump_thread :: "'k dump_env \<Rightarrow> int \<Rightarrow> addr \<Rightarrow> pthread \<Rightarrow> (unit, 'k world) prog" where
  "dump_thread D fd p t =
     seqM (emit D fd (thread_line D p t))
    (bindM thread_run (\<lambda>self.
     seqM (whenM (p = self) (emit D fd (''This is the running thread'' @ newline)))
    (bindM (getM thread_initial) (\<lambda>initial.
     seqM (whenM (p = initial) (emit D fd (''This is the initial thread'' @ newline)))
          (dump_fd_wait D fd t)))))"

text \<open>\<^verbatim>\<open>for (pthread = list; pthread != NULL; pthread = pthread->nxt)\<close>\<close>

partial_function (option) dump_list ::
  "(addr \<Rightarrow> pthread \<Rightarrow> (unit, 'k world) prog) \<Rightarrow> addr \<Rightarrow> 'k world \<Rightarrow> (unit, 'k world) res option" where
  "dump_list visit p s =
     (if p = NULL then retM () s
      else bindM (load threads p) (\<lambda>t. seqM (visit p t) (\<lambda>s. dump_list visit (nxt t) s)) s)"

declare dump_list.simps [code]

definition dump_fd :: "'k dump_env \<Rightarrow> int \<Rightarrow> nat \<Rightarrow> (unit, 'k world) prog" where
  "dump_fd D fd i =
     bindM (getM (\<lambda>s. fd_table D (kern s))) (\<lambda>table.
     if length table \<le> i then faultM Out_Of_Bounds
     else case table ! i of None \<Rightarrow> retM () | Some e \<Rightarrow> emit D fd (fd_line D i e))"

definition thread_dump_info :: "'k os \<Rightarrow> 'k dump_env \<Rightarrow> (unit, 'k world) prog" where
  "thread_dump_info E D =
     seqM (PTHREAD_INIT E)
    (bindM (kcall (sys_open D ''/tmp/uthread.dump'' (O_RDWR OR O_CREAT OR O_APPEND) 0x1b6)) (\<lambda>fd.
     if fd < 0 then retM ()
     else
       seqM (emit D fd active_header)
      (bindM (getM thread_link_list) (\<lambda>first.
       seqM (dump_list (dump_thread D fd) first)
      (bindM (getM thread_dead) (\<lambda>dead.
       seqM (if dead = NULL then emit D fd no_dead_header
             else seqM (emit D fd dead_header) (dump_list (\<lambda>p t. emit D fd (dead_line D p t)) dead))
      (seqM (emit D fd table_header)
      (seqM (forM [0..<dtablesize D] (dump_fd D fd))
      (seqM (kcall (sys_close D fd)) (retM ()))))))))))"

section \<open>What the dump holds\<close>

text \<open>The table has an entry for each state, so that the search ends at the name of the state.\<close>

lemma state_found: "info_loop st 0 < length thread_info \<and> ti_state (thread_info ! info_loop st 0) = st"
  by (cases st) (simp_all add: info_loop.simps thread_info_def)

text \<open>The lines of one thread, and of the whole dump.\<close>

definition wait_lines :: "'k dump_env \<Rightarrow> fd_table_entry option list \<Rightarrow> pthread \<Rightarrow> string list" where
  "wait_lines D table t =
     (if th_state t \<in> {PS_FDLR_WAIT, PS_FDLW_WAIT, PS_FDR_WAIT, PS_FDW_WAIT}
      then [''fd '' @ decimal (w_fd (th_data t)) @ at_line (w_fname (th_data t)) (w_branch (th_data t)),
            owner_line D (the (table ! nat (w_fd (th_data t))))]
      else [])"

definition thread_lines :: "'k dump_env \<Rightarrow> 'k world \<Rightarrow> addr \<Rightarrow> string list" where
  "thread_lines D s p =
     [thread_line D p (the (threads s p))] @
     (if p = run s then [''This is the running thread'' @ newline] else []) @
     (if p = thread_initial s then [''This is the initial thread'' @ newline] else []) @
     wait_lines D (fd_table D (kern s)) (the (threads s p))"

definition table_lines :: "'k dump_env \<Rightarrow> fd_table_entry option list \<Rightarrow> nat \<Rightarrow> string list" where
  "table_lines D table i = (case table ! i of None \<Rightarrow> [] | Some e \<Rightarrow> [fd_line D i e])"

definition dump_lines :: "'k dump_env \<Rightarrow> 'k world \<Rightarrow> addr list \<Rightarrow> addr list \<Rightarrow> string list" where
  "dump_lines D s xs ds =
     [active_header] @ concat (map (thread_lines D s) xs) @
     (if ds = [] then [no_dead_header]
      else dead_header # map (\<lambda>p. dead_line D p (the (threads s p))) ds) @
     [table_header] @ concat (map (table_lines D (fd_table D (kern s))) [0..<dtablesize D])"

text \<open>The state after some lines have been written.\<close>

definition written :: "'k dump_env \<Rightarrow> int \<Rightarrow> string list \<Rightarrow> 'k world \<Rightarrow> 'k world" where
  "written D fd ls s = s\<lparr>kern := fold (\<lambda>l k. snd (sys_write D fd l (cur s) k)) ls (kern s)\<rparr>"

lemma written_sel [simp]:
  "threads (written D fd ls s) = threads s" "run (written D fd ls s) = run s" "cur (written D fd ls s) = cur s"
  "thread_link_list (written D fd ls s) = thread_link_list s" "thread_dead (written D fd ls s) = thread_dead s"
  "thread_initial (written D fd ls s) = thread_initial s"
  by (simp_all add: written_def)

lemma emit_written: "length l < 128 \<Longrightarrow> emit D fd l (written D fd ls s) = Some (Ret () (written D fd (ls @ [l]) s))"
  by (simp add: emit_def written_def kst_def retM_def)

lemma emit_seq [simp]: "length l < 128 \<Longrightarrow> seqM (emit D fd l) n (written D fd ls s) = n (written D fd (ls @ [l]) s)"
  by (rule seqM_run) (rule emit_written)

definition keeps_table :: "'k dump_env \<Rightarrow> bool" where
  "keeps_table D \<longleftrightarrow> (\<forall>fd l u k. fd_table D (snd (sys_write D fd l u k)) = fd_table D k)"

lemma written_table [simp]: "keeps_table D \<Longrightarrow> fd_table D (kern (written D fd ls s)) = fd_table D (kern s)"
proof -
  assume "keeps_table D"
  then have "fd_table D (fold (\<lambda>l k. snd (sys_write D fd l u k)) ls k) = fd_table D k" for u k
    by (induction ls arbitrary: k) (simp_all add: keeps_table_def)
  then show ?thesis by (simp add: written_def)
qed

text \<open>A loop over a list of threads writes the lines of one after the other.\<close>

lemma dump_list_run:
  assumes "\<And>x t ls. x \<in> set xs \<Longrightarrow> threads s x = Some t \<Longrightarrow>
      visit x t (written D fd ls s) = Some (Ret () (written D fd (ls @ lines x) s))"
    and "chain (nlink (threads s)) p xs"
  shows "dump_list visit p (written D fd ls s) = Some (Ret () (written D fd (ls @ concat (map lines xs)) s))"
  using assms
proof (induction xs arbitrary: p ls)
  case Nil
  then show ?case by (subst dump_list.simps) (simp add: retM_def)
next
  case (Cons x xs)
  then obtain t where t: "p = x" "x \<noteq> NULL" "threads s x = Some t" "chain (nlink (threads s)) (nxt t) xs"
    by (auto simp: nlink_Some)
  have "dump_list visit (nxt t) (written D fd (ls @ lines x) s) =
    Some (Ret () (written D fd ((ls @ lines x) @ concat (map lines xs)) s))"
    by (rule Cons.IH) (use Cons.prems(1) t(4) in auto)
  moreover have "visit x t (written D fd ls s) = Some (Ret () (written D fd (ls @ lines x) s))"
    using Cons.prems(1) t(3) by simp
  ultimately show ?case using t(1-3) by (subst dump_list.simps) (simp add: seqM_run [where m = "visit x t"])
qed

text \<open>
  When the lines fit: every line has less than 128 bytes, and a thread that waits for a descriptor waits for one
  whose number is in its union and which the table has an entry for.
\<close>

definition dumpable :: "'k dump_env \<Rightarrow> 'k world \<Rightarrow> pthread \<Rightarrow> bool" where
  "dumpable D s t \<longleftrightarrow> th_state t \<in> {PS_FDLR_WAIT, PS_FDLW_WAIT, PS_FDR_WAIT, PS_FDW_WAIT} \<longrightarrow>
     (\<exists>n br fn e. th_data t = W_Fd n br fn \<and> 0 \<le> n \<and> nat n < length (fd_table D (kern s)) \<and>
        fd_table D (kern s) ! nat n = Some e)"

definition fitting :: "string list \<Rightarrow> bool" where
  "fitting ls \<longleftrightarrow> (\<forall>l\<in>set ls. length l < 128)"

lemma fitting_simps [simp]:
  "fitting []" "fitting (l # ls) \<longleftrightarrow> length l < 128 \<and> fitting ls" "fitting (ls @ ls') \<longleftrightarrow> fitting ls \<and> fitting ls'"
  by (auto simp: fitting_def)

lemma fitting_concat: "fitting (concat (map f xs)) \<Longrightarrow> x \<in> set xs \<Longrightarrow> fitting (f x)"
  by (auto simp: fitting_def)

lemma fd_wait_run:
  assumes "keeps_table D" "dumpable D s t" "fitting (wait_lines D (fd_table D (kern s)) t)"
  shows "dump_fd_wait D fd t (written D fd ls s) =
    Some (Ret () (written D fd (ls @ wait_lines D (fd_table D (kern s)) t) s))"
proof (cases "th_state t \<in> {PS_FDLR_WAIT, PS_FDLW_WAIT, PS_FDR_WAIT, PS_FDW_WAIT}")
  case True
  with assms(2) obtain n br fn e where e: "th_data t = W_Fd n br fn" "0 \<le> n" "nat n < length (fd_table D (kern s))"
    "fd_table D (kern s) ! nat n = Some e" unfolding dumpable_def by blast
  then have "\<not> int (length (fd_table D (kern s))) \<le> n" by linarith
  with e assms(1) have "fd_entry D n (written D fd ls s) = Some (Ret e (written D fd ls s))" for ls
    by (simp add: fd_entry_def retM_def)
  with True e assms(1,3) show ?thesis
    by (simp add: dump_fd_wait_def wait_lines_def emit_written bindM_run [where m = "fd_entry D n"])
qed (simp add: dump_fd_wait_def wait_lines_def retM_def)

lemma dump_thread_run:
  assumes "keeps_table D" "threads s p = Some t" "dumpable D s t" "fitting (thread_lines D s p)"
  shows "dump_thread D fd p t (written D fd ls s) = Some (Ret () (written D fd (ls @ thread_lines D s p) s))"
proof -
  note w = fd_wait_run [OF assms(1,3)]
  show ?thesis
    using assms(2,4)
    by (cases "p = run s"; cases "p = thread_initial s") (simp_all add: dump_thread_def thread_lines_def w)
qed

lemma dump_table_run:
  assumes "keeps_table D" "n \<le> length (fd_table D (kern s))"
    "fitting (concat (map (table_lines D (fd_table D (kern s))) [0..<n]))"
  shows "forM [0..<n] (dump_fd D fd) (written D fd ls s) =
    Some (Ret () (written D fd (ls @ concat (map (table_lines D (fd_table D (kern s))) [0..<n])) s))"
proof -
  have one: "dump_fd D fd i (written D fd ls s) = Some (Ret () (written D fd (ls @ table_lines D (fd_table D (kern s)) i) s))"
    if "i < n" for i ls
  proof -
    have "fitting (table_lines D (fd_table D (kern s)) i)" using fitting_concat [OF assms(3)] that by simp
    with that assms(1,2) show ?thesis
      by (cases "fd_table D (kern s) ! i") (simp_all add: dump_fd_def table_lines_def emit_written retM_def)
  qed
  have "forM is (dump_fd D fd) (written D fd ls s) =
    Some (Ret () (written D fd (ls @ concat (map (table_lines D (fd_table D (kern s))) is)) s))"
    if "\<forall>i\<in>set is. i < n" for "is" ls
    using that by (induction "is" arbitrary: ls) (simp_all add: retM_def seqM_run [where m = "dump_fd D fd j" for j, OF one])
  from this [of "[0..<n]" ls] show ?thesis by auto
qed

lemma written_closed:
  "(written D fd ls s)\<lparr>kern := kst (sys_close D fd) (written D fd ls s)\<rparr> =
    s\<lparr>kern := snd (sys_close D fd (cur s) (kern (written D fd ls s)))\<rparr>"
  by (simp add: written_def kst_def)

text \<open>
  \<^verbatim>\<open>_thread_dump_info\<close> terminates and writes exactly one record for each thread of the list of live threads, in the
  order of the list and with the name of its state, then one for each dead thread, then the locks of each descriptor in use,
  and closes the file; it changes nothing else.  The file can be opened, the lines fit into the array, and the
  threads that wait for a descriptor have one in the union.
\<close>

lemma dump_writes_all:
  assumes "inited s" "live_list s xs" "dead_list s ds" "keeps_table D"
    and fd: "sys_open D ''/tmp/uthread.dump'' (O_RDWR OR O_CREAT OR O_APPEND) 0x1b6 (cur s) (kern s) = (fd, k)" "0 \<le> fd"
    and "dtablesize D \<le> length (fd_table D k)"
    and "\<forall>p\<in>set xs. \<forall>t. threads s p = Some t \<longrightarrow> dumpable D (s\<lparr>kern := k\<rparr>) t"
    and "fitting (dump_lines D (s\<lparr>kern := k\<rparr>) xs ds)"
  shows "thread_dump_info E D s = Some (Ret () (s\<lparr>kern := snd (sys_close D fd (cur s)
      (kern (written D fd (dump_lines D (s\<lparr>kern := k\<rparr>) xs ds) (s\<lparr>kern := k\<rparr>))))\<rparr>)) \<and>
    (\<forall>st. ti_state (thread_info ! info_loop st 0) = st)"
proof -
  let ?s = "s\<lparr>kern := k\<rparr>"
  let ?dead = "\<lambda>p t. emit D fd (dead_line D p t)"
  let ?table = "concat (map (table_lines D (fd_table D k)) [0..<dtablesize D])"
  have f: "fitting (concat (map (thread_lines D ?s) xs))" "fitting ?table"
    "ds \<noteq> [] \<Longrightarrow> fitting (map (\<lambda>p. dead_line D p (the (threads s p))) ds)"
    using assms(9) by (auto simp: dump_lines_def)
  have opened: "kcall (sys_open D ''/tmp/uthread.dump'' (O_RDWR OR O_CREAT OR O_APPEND) 0x1b6) s = Some (Ret fd ?s)"
    using fd(1) by (simp add: kcall_end kres_def kst_def)
  have start: "written D fd [] ?s = ?s" by (simp add: written_def)
  have live: "dump_list (dump_thread D fd) (thread_link_list s) (written D fd ls ?s) =
    Some (Ret () (written D fd (ls @ concat (map (thread_lines D ?s) xs)) ?s))" for ls
    by (rule dump_list_run [OF dump_thread_run])
       (use assms(2,4,8) fitting_concat [OF f(1)] in \<open>auto simp: live_list_def\<close>)
  have dead: "dump_list ?dead (thread_dead s) (written D fd ls ?s) =
    Some (Ret () (written D fd (ls @ concat (map (\<lambda>p. [dead_line D p (the (threads s p))]) ds)) ?s))" if "ds \<noteq> []" for ls
    by (rule dump_list_run)
       (use assms(3) f(3) [OF that] in \<open>auto simp: dead_list_def fitting_def intro!: emit_written\<close>)
  have table: "forM [0..<dtablesize D] (dump_fd D fd) (written D fd ls ?s) = Some (Ret () (written D fd (ls @ ?table) ?s))" for ls
    using dump_table_run [OF assms(4), of "dtablesize D" ?s fd ls] assms(7) f(2) by simp
  have head: "length active_header < 128" "length no_dead_header < 128" "length dead_header < 128" "length table_header < 128"
    by (simp_all add: active_header_def no_dead_header_def dead_header_def table_header_def)
  have nil: "thread_dead s = NULL \<longleftrightarrow> ds = []"
    using assms(3) by (cases ds) (auto simp: dead_list_def)
  have "thread_dump_info E D s =
    seqM (emit D fd active_header)
      (bindM (getM thread_link_list) (\<lambda>first.
       seqM (dump_list (dump_thread D fd) first)
      (bindM (getM thread_dead) (\<lambda>dead.
       seqM (if dead = NULL then emit D fd no_dead_header
             else seqM (emit D fd dead_header) (dump_list ?dead dead))
      (seqM (emit D fd table_header)
      (seqM (forM [0..<dtablesize D] (dump_fd D fd))
      (seqM (kcall (sys_close D fd)) (retM ())))))))) (written D fd [] ?s)"
    unfolding thread_dump_info_def PTHREAD_INIT_run [OF assms(1)]
      bindM_run [where m = "kcall (sys_open D path flags mode)" for path flags mode, OF opened] start
    using fd(2) by simp
  also have "\<dots> = Some (Ret () (s\<lparr>kern := snd (sys_close D fd (cur s)
      (kern (written D fd (dump_lines D ?s xs ds) ?s)))\<rparr>))"
    using nil
    by (cases "ds = []")
       (simp_all add: head seqM_run [where m = "dump_list (dump_thread D fd) (thread_link_list s)", OF live] seqM_seq
          seqM_run [where m = "dump_list ?dead (thread_dead s)", OF dead]
          seqM_run [where m = "forM [0..<dtablesize D] (dump_fd D fd)", OF table] written_closed retM_def dump_lines_def concat_map_singleton)
  finally show ?thesis using state_found by blast
qed

text \<open>The demo process with a table of two descriptors, one of them in use; of a line written the length is logged.\<close>

definition demo_dump :: "demo_kern dump_env" where
  "demo_dump =
     \<lparr>sys_open = (\<lambda>path flags mode t k. (7, k)),
      sys_write = (\<lambda>fd line t k. (int (length line), k\<lparr>calls := calls k @ [(nat fd, length line)]\<rparr>)),
      sys_close = (\<lambda>fd t k. (0, k)),
      fd_table = (\<lambda>k. [None, Some \<lparr>fe_r_queue = \<lparr>q_next = 0, q_last = 0, q_data = 0\<rparr>,
        fe_w_queue = \<lparr>q_next = 0, q_last = 0, q_data = 0\<rparr>, fe_r_owner = 10, fe_w_owner = 0,
        fe_r_fname = ''a.c'', fe_r_lineno = 12, fe_w_fname = ''b.c'', fe_w_lineno = -1,
        fe_r_lockcount = 1, fe_w_lockcount = 0, fe_flags = 0\<rparr>]),
      dtablesize = 2, show_pointer = digits\<rparr>"

definition demo_reading :: "demo_kern world" where
  "demo_reading = demo_world\<lparr>threads := [10 \<mapsto> demo_thread, 20 \<mapsto> demo_thread\<lparr>th_self := 2, threadid := 2, nxt := 10,
     th_state := PS_FDR_WAIT, th_data := W_Fd 1 22 ''uthread_read.c''\<rparr>]\<rparr>"

lemma demo_reading_lengths:
  "map length (dump_lines demo_dump demo_reading [20, 10] []) = [32, 68, 23, 13, 59, 27, 27, 28, 39, 78]"
  by code_simp

lemma demo_reading_fits: "fitting (dump_lines demo_dump demo_reading [20, 10] [])"
proof -
  have f: "fitting ls \<longleftrightarrow> (\<forall>n\<in>set (map length ls). n < 128)" for ls by (simp add: fitting_def)
  show ?thesis by (simp only: f demo_reading_lengths) simp
qed

lemma demo_dump_close: "snd (sys_close demo_dump fd u k) = k"
  by (simp add: demo_dump_def)

lemma demo_fold_lengths:
  "calls (fold (\<lambda>l k. snd (sys_write demo_dump 7 l u k)) ls k) = calls k @ map (\<lambda>n. (7, n)) (map length ls)"
  by (induction ls arbitrary: k) (simp_all add: demo_dump_def)

lemma dump_writes_all_witness:
  "\<exists>s. thread_dump_info demo_os demo_dump demo_reading = Some (Ret () s) \<and>
     calls (kern s) = [(7, 32), (7, 68), (7, 23), (7, 13), (7, 59), (7, 27), (7, 27), (7, 28), (7, 39), (7, 78)]"
proof -
  have w: "inited demo_reading" "live_list demo_reading [20, 10]" "dead_list demo_reading []" "kern demo_reading = demo_kern0"
    by (simp_all add: demo_reading_def inited_def live_list_def dead_list_def nlink_def)
  have k: "demo_reading\<lparr>kern := demo_kern0\<rparr> = demo_reading" using kern_upd_id [of demo_reading] w(4) by simp
  have d: "keeps_table demo_dump" "sys_open demo_dump p f m u j = (7, j)" "dtablesize demo_dump \<le> length (fd_table demo_dump j)"
    for p f m u j by (simp_all add: demo_dump_def keeps_table_def)
  have t: "\<forall>p\<in>set [20, 10]. \<forall>t. threads demo_reading p = Some t \<longrightarrow> dumpable demo_dump (demo_reading\<lparr>kern := demo_kern0\<rparr>) t"
    by (auto simp: demo_reading_def dumpable_def demo_dump_def)
  note dump_writes_all [OF w(1-3) d(1), of 7 demo_kern0 demo_os, OF _ _ d(3) t, unfolded k, OF _ _ demo_reading_fits]
  then have "thread_dump_info demo_os demo_dump demo_reading = Some (Ret () (demo_reading\<lparr>kern := snd (sys_close demo_dump 7
      (cur demo_reading) (kern (written demo_dump 7 (dump_lines demo_dump demo_reading [20, 10] []) demo_reading)))\<rparr>))"
    using w(4) d(2) by simp
  then show ?thesis
    by (simp add: written_def demo_fold_lengths demo_reading_lengths w(4) demo_dump_close)
qed

section \<open>What goes wrong\<close>

text \<open>
  \<^verbatim>\<open>locking\<close> puts its caller into \<^verbatim>\<open>PS_FDLR_WAIT\<close> or \<^verbatim>\<open>PS_FDLW_WAIT\<close> without writing the union, so that the dump takes
  the number of the descriptor from whatever the thread waited for before.
\<close>

lemma dump_lock_wait:
  assumes "\<forall>n br fn. th_data t \<noteq> W_Fd n br fn"
  shows "dump_fd_wait D fd (t\<lparr>th_state := lock_state_of locktype\<rparr>) s = Some (Fault Bad_Union)"
  using assms by (cases "th_data t") (simp_all add: dump_fd_wait_def lock_state_of_def faultM_def)

text \<open>A file name of some 60 bytes in the structure of a thread overruns the array the line is formatted in.\<close>

lemma dump_overrun:
  assumes "128 \<le> length (thread_line D p t)"
  shows "dump_thread D fd p t s = Some (Fault Out_Of_Bounds)"
  using assms by (simp add: dump_thread_def emit_def faultM_def seqM_def bindM_def)

end
