(* ===== verification/Tests.thy ===== *)
theory Tests
  imports MutexConc
begin

text \<open>
  The repository's own tests of mutexes, \<^verbatim>\<open>tests/test_pthread_mutex.c\<close> and \<^verbatim>\<open>tests/p_bench_mutex.c\<close>, as programs that call
  the library: what they expect of it holds, for every system that grants a free semaphore.  The messages they print
  are left out.  Of the test with a second thread, \<^verbatim>\<open>test_contention_lock\<close>, the last section shows on the interleaved
  model that it relies on an order nothing enforces.
\<close>

definition OK :: int where
  "OK = 0"

definition NOTOK :: int where
  "NOTOK = -1"

section \<open>The tests of one thread\<close>

text \<open>\<^verbatim>\<open>if (call) return(NOTOK);\<close> and the same for a call that has to give an error.\<close>

definition expect :: "(int \<Rightarrow> bool) \<Rightarrow> (int, 's) prog \<Rightarrow> (int, 's) prog \<Rightarrow> (int, 's) prog" where
  "expect good call rest = bindM call (\<lambda>r. if good r then rest else retM NOTOK)"

definition test_nocontention_lock :: "'k os \<Rightarrow> addr \<Rightarrow> (int, 'k world) prog" where
  "test_nocontention_lock E mutex =
     expect (\<lambda>r. r = 0) (pthread_mutex_lock E mutex)
    (expect (\<lambda>r. r = 0) (pthread_mutex_unlock E mutex)
    (retM OK))"

definition test_debug_double_lock :: "'k os \<Rightarrow> addr \<Rightarrow> (int, 'k world) prog" where
  "test_debug_double_lock E mutex =
     expect (\<lambda>r. r = 0) (pthread_mutex_lock E mutex)
    (expect (\<lambda>r. r = EDEADLK) (pthread_mutex_lock E mutex)
    (expect (\<lambda>r. r = 0) (pthread_mutex_unlock E mutex)
    (retM OK)))"

definition test_debug_double_unlock :: "'k os \<Rightarrow> addr \<Rightarrow> (int, 'k world) prog" where
  "test_debug_double_unlock E mutex =
     expect (\<lambda>r. r = 0) (pthread_mutex_lock E mutex)
    (expect (\<lambda>r. r = 0) (pthread_mutex_unlock E mutex)
    (expect (\<lambda>r. r = EPERM) (pthread_mutex_unlock E mutex)
    (retM OK)))"

definition test_nocontention_trylock :: "'k os \<Rightarrow> addr \<Rightarrow> (int, 'k world) prog" where
  "test_nocontention_trylock E mutex =
     expect (\<lambda>r. r = 0) (pthread_mutex_trylock E mutex)
    (expect (\<lambda>r. r = 0) (pthread_mutex_unlock E mutex)
    (retM OK))"

text \<open>The loop of \<^verbatim>\<open>p_bench_mutex.c\<close>, which ignores what the calls return.\<close>

definition bench_loop :: "'k os \<Rightarrow> addr \<Rightarrow> nat \<Rightarrow> (unit, 'k world) prog" where
  "bench_loop E lock count =
     forM [0..<count] (\<lambda>i. seqM (pthread_mutex_lock E lock) (seqM (pthread_mutex_unlock E lock) (retM ())))"

section \<open>They pass\<close>

text \<open>A test passes when it returns \<^verbatim>\<open>OK\<close> and leaves the mutex free for the next one.\<close>

definition passes :: "('s \<Rightarrow> bool) \<Rightarrow> (int, 's) prog \<Rightarrow> bool" where
  "passes P test \<longleftrightarrow> (\<forall>s. P s \<longrightarrow> (\<exists>t. test s = Some (Ret OK t) \<and> P t))"

lemma expect_run:
  assumes "\<And>s. P s \<Longrightarrow> \<exists>r t. call s = Some (Ret r t) \<and> good r \<and> Q t"
    and "\<And>s. Q s \<Longrightarrow> \<exists>t. rest s = Some (Ret OK t) \<and> R t"
    and "P s"
  shows "\<exists>t. expect good call rest s = Some (Ret OK t) \<and> R t"
proof -
  from assms(1) [OF assms(3)] obtain r u where u: "call s = Some (Ret r u)" "good r" "Q u" by blast
  with assms(2) [OF u(3)] show ?thesis by (simp add: expect_def bindM_run [where m = call, OF u(1)])
qed

lemma ok_run: "R s \<Longrightarrow> \<exists>t. retM OK s = Some (Ret OK t) \<and> R t"
  by (simp add: retM_def)

lemma relock_run:
  "has_lock E own MUTEX_TYPE_FAST mutex h s \<Longrightarrow>
     \<exists>r t. pthread_mutex_lock E mutex s = Some (Ret r t) \<and> r = EDEADLK \<and> has_lock E own MUTEX_TYPE_FAST mutex h t"
  using relock_deadlk by fastforce

lemma unlock_free_run:
  assumes "may_lock E own ty mutex h s"
  shows "\<exists>r t. pthread_mutex_unlock E mutex s = Some (Ret r t) \<and> r = EPERM \<and> may_lock E own ty mutex h t"
proof -
  from assms obtain pm m where q: "quiet s" and m: "mutex_at s mutex pm m" "m_owner m = NULL"
    by (auto simp: may_lock_def mutex_free_def)
  then have "m_owner m \<noteq> run s" by (auto elim: quietE)
  from unlock_not_owner [OF q m(1) this] m(2) assms show ?thesis
    by (auto simp: may_lock_def mutex_free_def mutex_at_def)
qed

lemmas fast_runs = fm.lock_avail fm.unlock_returns fm_try.try_avail

text \<open>
  The tests of \<^verbatim>\<open>test_pthread_mutex.c\<close> that use one thread pass on every free fast mutex and leave it free: locking and
  unlocking, locking twice is refused with \<^verbatim>\<open>EDEADLK\<close>, unlocking twice with \<^verbatim>\<open>EPERM\<close>, trying to lock; and the benchmark loop
  ends for every count.
\<close>

lemma mutex_tests_pass:
  shows "passes (may_lock E own MUTEX_TYPE_FAST mutex h) (test_nocontention_lock E mutex) \<and>
    passes (may_lock E own MUTEX_TYPE_FAST mutex h) (test_debug_double_lock E mutex) \<and>
    passes (may_lock E own MUTEX_TYPE_FAST mutex h) (test_debug_double_unlock E mutex) \<and>
    passes (may_lock E own MUTEX_TYPE_FAST mutex h) (test_nocontention_trylock E mutex) \<and>
    passes (may_lock E own MUTEX_TYPE_FAST mutex h) (seqM (bench_loop E mutex count) (retM OK))"
proof -
  let ?free = "may_lock E own MUTEX_TYPE_FAST mutex h" and ?held = "has_lock E own MUTEX_TYPE_FAST mutex h"
  have lock: "?free s \<Longrightarrow> \<exists>r t. pthread_mutex_lock E mutex s = Some (Ret r t) \<and> r = 0 \<and> ?held t"
    and trylk: "?free s \<Longrightarrow> \<exists>r t. pthread_mutex_trylock E mutex s = Some (Ret r t) \<and> r = 0 \<and> ?held t"
    and unlock: "?held s \<Longrightarrow> \<exists>r t. pthread_mutex_unlock E mutex s = Some (Ret r t) \<and> r = 0 \<and> ?free t" for s
    using fast_runs by metis+
  note hf = expect_run [where P = ?held and Q = ?free and R = ?free] and fh = expect_run [where P = ?free and Q = ?held and R = ?free]
    and ff = expect_run [where P = ?free and Q = ?free and R = ?free] and hh = expect_run [where P = ?held and Q = ?held and R = ?free]
  have "\<exists>t. bench_loop E mutex count s = Some (Ret () t) \<and> ?free t" if "?free s" for s
  proof -
    have "?free s \<Longrightarrow> \<exists>t. forM is (\<lambda>i. seqM (pthread_mutex_lock E mutex)
        (seqM (pthread_mutex_unlock E mutex) (retM ()))) s = Some (Ret () t) \<and> ?free t" for "is" :: "nat list" and s
    proof (induction "is" arbitrary: s)
      case (Cons i "is")
      from lock [OF Cons.prems] unlock obtain u t where
        "pthread_mutex_lock E mutex s = Some (Ret 0 u)" "pthread_mutex_unlock E mutex u = Some (Ret 0 t)" "?free t" by metis
      with Cons.IH [of t] show ?case by (simp add: seqM_def bindM_def retM_def)
    qed (simp add: retM_def)
    with that show ?thesis unfolding bench_loop_def by blast
  qed
  then have "passes ?free (seqM (bench_loop E mutex count) (retM OK))"
    unfolding passes_def by (metis ok_run seqM_run)
  moreover have "passes ?free (test_nocontention_lock E mutex)"
    unfolding passes_def test_nocontention_lock_def
    by (intro allI impI) (rule fh [OF lock hf [OF unlock ok_run]])
  moreover have "passes ?free (test_nocontention_trylock E mutex)"
    unfolding passes_def test_nocontention_trylock_def
    by (intro allI impI) (rule fh [OF trylk hf [OF unlock ok_run]])
  moreover have "passes ?free (test_debug_double_lock E mutex)"
    unfolding passes_def test_debug_double_lock_def
    by (intro allI impI) (rule fh [OF lock hh [OF relock_run hf [OF unlock ok_run]]])
  moreover have "passes ?free (test_debug_double_unlock E mutex)"
    unfolding passes_def test_debug_double_unlock_def
    by (intro allI impI) (rule fh [OF lock hf [OF unlock ff [OF unlock_free_run ok_run]]])
  ultimately show ?thesis by blast
qed

lemma mutex_tests_pass_witness:
  "\<exists>t u. test_debug_double_lock demo_os 30 demo_world = Some (Ret OK t) \<and>
     test_debug_double_unlock demo_os 30 t = Some (Ret OK u) \<and> may_lock demo_os (\<lambda>k. sem k 7) MUTEX_TYPE_FAST 30 7 u"
proof -
  let ?free = "may_lock demo_os (\<lambda>k. sem k 7) MUTEX_TYPE_FAST 30 7"
  have p: "passes ?free (test_debug_double_lock demo_os 30)" "passes ?free (test_debug_double_unlock demo_os 30)"
    by (simp_all only: mutex_tests_pass)
  obtain t where t: "test_debug_double_lock demo_os 30 demo_world = Some (Ret OK t)" "?free t"
    using p(1) demo_may_lock(1) unfolding passes_def by metis
  moreover obtain u where "test_debug_double_unlock demo_os 30 t = Some (Ret OK u)" "?free u"
    using p(2) t(2) unfolding passes_def by metis
  ultimately show ?thesis by blast
qed

section \<open>The test with two threads\<close>

text \<open>
  \<^verbatim>\<open>test_contention_lock\<close> unlocks the mutex a second thread \<open>u\<close> waits for, locks it again and expects that the other thread has been
  inside meanwhile.  Nothing makes the thread that unlocks wait: it can be inside again while \<open>u\<close> still waits.
\<close>

definition contend :: "addr \<Rightarrow> addr \<Rightarrow> place \<Rightarrow> addr \<Rightarrow> addr option \<Rightarrow> lock_state" where
  "contend t u pl a b =
     \<lparr>owner_field = a, sem_owner = b, place_of = ((\<lambda>_. Outside)(u := L_Requesting))(t := pl)\<rparr>"

lemma relock_overtakes:
  assumes "t \<noteq> NULL" "u \<noteq> NULL" "t \<noteq> u"
  shows "lock_run lock_start (contend t u Inside t (Some t)) \<and>
    lock_run (contend t u Inside t (Some t)) (contend t u Outside NULL None) \<and>
    lock_run (contend t u Outside NULL None) (contend t u Inside t (Some t))"
proof -
  note step = lock_run.step
  have c: "contend t u pl a b = \<lparr>owner_field = a, sem_owner = b, place_of = ((\<lambda>_. Outside)(u := L_Requesting))(t := pl)\<rparr>"
    for pl a b by (simp add: contend_def)
  have into: "lock_run (contend t u Outside NULL None) (contend t u Inside t (Some t))"
  proof -
    have "lock_run (contend t u Outside NULL None) (contend t u L_Requesting NULL None)"
      by (rule step [OF lock_run.stop]) (use lock_step.check [of t "contend t u Outside NULL None"] assms in \<open>simp add: c\<close>)
    then have "lock_run (contend t u Outside NULL None) (contend t u L_Granted NULL (Some t))"
      by (rule step) (use lock_step.request [of t "contend t u L_Requesting NULL None"] assms in \<open>simp add: c\<close>)
    then show ?thesis
      by (rule step) (use lock_step.own [of t "contend t u L_Granted NULL (Some t)"] assms in \<open>simp add: c\<close>)
  qed
  have out: "lock_run (contend t u Inside t (Some t)) (contend t u Outside NULL None)"
  proof -
    have "lock_run (contend t u Inside t (Some t)) (contend t u U_Checked t (Some t))"
      by (rule step [OF lock_run.stop]) (use lock_step.unlock [of t "contend t u Inside t (Some t)"] assms in \<open>simp add: c\<close>)
    then have "lock_run (contend t u Inside t (Some t)) (contend t u U_Cleared NULL (Some t))"
      by (rule step) (use lock_step.clear [of t "contend t u U_Checked t (Some t)"] assms in \<open>simp add: c\<close>)
    then show ?thesis
      by (rule step) (use lock_step.release [of t "contend t u U_Cleared NULL (Some t)"] assms in \<open>simp add: c\<close>)
  qed
  have first: "lock_run lock_start (contend t u Outside NULL None)"
    by (rule step [OF lock_run.stop])
       (use lock_step.check [of u lock_start] assms in \<open>simp add: c lock_start_def fun_upd_twist fun_upd_idem\<close>)
  have trans: "lock_run a b \<Longrightarrow> lock_run d a \<Longrightarrow> lock_run d b" for a b d
    by (induction rule: lock_run.induct) (auto intro: step)
  show ?thesis using trans [OF into first] out into by blast
qed

end
