(* ===== verification/SigSets.thy ===== *)
theory SigSets
  imports SigSpec
begin

text \<open>
  The mask of a thread as a set of signals.  \<^verbatim>\<open>pthread_sigmask\<close> works on words with a bit for each signal; what it
  promises is about sets: union, difference and replacement.
\<close>

section \<open>The abstraction\<close>

definition sig_set :: "(int \<Rightarrow> nat) \<Rightarrow> u32 \<Rightarrow> int set" where
  "sig_set b v = {n. 0 < n \<and> n < int NSIG \<and> bit v (b n)}"

definition mask_spec :: "int \<Rightarrow> int set \<Rightarrow> int set \<Rightarrow> int set" where
  "mask_spec how B S = (if how = SIG_BLOCK then B \<union> S else if how = SIG_UNBLOCK then B - S else S)"

definition mask_word :: "int \<Rightarrow> u32 \<Rightarrow> u32 \<Rightarrow> u32" where
  "mask_word how v w = (if how = SIG_BLOCK then v OR w else if how = SIG_UNBLOCK then v AND NOT w else w)"

lemma sig_set_ops:
  assumes "sig_bits E b"
  shows "sig_set b (v OR w) = sig_set b v \<union> sig_set b w" "sig_set b (v AND w) = sig_set b v \<inter> sig_set b w"
    "sig_set b (v AND NOT w) = sig_set b v - sig_set b w"
  using assms by (auto simp: sig_set_def bit_simps sig_bits_def)

lemma sig_set_mask:
  "sig_bits E b \<Longrightarrow> sig_set b (mask_word how v w) = mask_spec how (sig_set b v) (sig_set b w)"
  by (simp add: mask_word_def mask_spec_def sig_set_ops(1,3))

text \<open>With no signal pending there is nothing to deliver.\<close>

lemma deliver_nothing:
  assumes "p \<noteq> NULL" "threads s p = Some t" "sig_pending (tp t) = 0"
  shows "deliver_now E p s = Some (Ret () (s\<lparr>threads := (threads s)(p := Some (t\<lparr>pend := 0\<rparr>))\<rparr>))"
  using assms by (simp add: deliver_now_def sys_deliver_pending_signals_def)
    (subst deliver_loop.simps, simp add: retM_def)

section \<open>The calls\<close>

lemma sigmask_run:
  assumes i: "inited s" and t: "threads s (run s) = Some t" "sig_pending (tp t) = 0"
    and how: "how \<in> {SIG_BLOCK, SIG_UNBLOCK, SIG_SETMASK}" and iset: "iset \<noteq> NULL" "sigsets s iset = Some w"
    and oset: "oset = NULL \<or> sigsets s oset = Some v0"
  shows "\<exists>x. pthread_sigmask E how iset oset s = Some (Ret 0 (s\<lparr>
    sigsets := if oset = NULL then sigsets s else (sigsets s)(oset := Some (sig_blocked (tp t))),
    kern := kst (libc_sigprocmask E how iset) s,
    threads := (threads s)(run s := Some (t\<lparr>tp := (tp t)\<lparr>sig_blocked :=
      set_blocked E (mask_word how (sig_blocked (tp t)) w)\<rparr>, pend := x\<rparr>))\<rparr>))"
proof -
  have r: "run s \<noteq> NULL" using i by (simp add: inited_def)
  let ?t = "t\<lparr>tp := (tp t)\<lparr>sig_blocked := set_blocked E (mask_word how (sig_blocked (tp t)) w)\<rparr>\<rparr>"
  let ?h = "if oset = NULL then sigsets s else (sigsets s)(oset := Some (sig_blocked (tp t)))"
  let ?s = "s\<lparr>threads := (threads s)(run s := Some ?t), sigsets := ?h, kern := kst (libc_sigprocmask E how iset) s\<rparr>"
  have "pthread_sigmask E how iset oset s
      = seqM (whenM (signals_blocked s = 0) (deliver_now E (run s))) (retM 0) ?s"
    using how oset
    by (cases "oset = NULL")
       (auto simp: pthread_sigmask_def Let_def mask_word_def i r t(1) iset run_simps)
  moreover have "deliver_now E (run s) ?s = Some (Ret () (?s\<lparr>threads := (threads ?s)(run s := Some (?t\<lparr>pend := 0\<rparr>))\<rparr>))"
    by (rule deliver_nothing) (simp_all add: r t(2))
  ultimately show ?thesis
    by (cases "signals_blocked s = 0"; cases "oset = NULL")
       (auto simp: seqM_run [where m = "deliver_now E (run s)"] retM_def
          intro!: exI [of _ "if signals_blocked s = 0 then 0 else pend t"])
qed

text \<open>Calls with a set to take from and a place for the old set, which can be the null pointer.\<close>

definition mask_calls :: "'k os \<Rightarrow> (int \<times> addr \<times> addr) list \<Rightarrow> (unit, 'k world) prog" where
  "mask_calls E cs = forM cs (\<lambda>(how, iset, oset). seqM (pthread_sigmask E how iset oset) (retM ()))"

definition mask_args :: "'k world \<Rightarrow> (int \<times> addr \<times> addr) list \<Rightarrow> bool" where
  "mask_args s cs \<longleftrightarrow>
     (\<forall>(how, iset, oset)\<in>set cs. how \<in> {SIG_BLOCK, SIG_UNBLOCK, SIG_SETMASK} \<and> iset \<noteq> NULL \<and> sigsets s iset \<noteq> None \<and>
        (oset \<noteq> NULL \<longrightarrow> sigsets s oset \<noteq> None \<and> oset \<notin> (fst \<circ> snd) ` set cs)) \<and>
     distinct (filter (\<lambda>p. p \<noteq> NULL) (map (snd \<circ> snd) cs))"

text \<open>What the calls promise: the set of blocked signals after each of them, \<open>never\<close> being those that cannot be blocked.\<close>

definition masks_spec :: "(int \<Rightarrow> nat) \<Rightarrow> u32 \<Rightarrow> (addr \<Rightarrow> u32 option) \<Rightarrow> (int \<times> addr \<times> addr) list \<Rightarrow> int set \<Rightarrow> int set" where
  "masks_spec b never h cs B =
     fold (\<lambda>(how, iset, oset) B. mask_spec how B (sig_set b (the (h iset))) - sig_set b never) cs B"

lemma masks_spec_cong:
  "(\<And>how iset oset. (how, iset, oset) \<in> set cs \<Longrightarrow> h iset = g iset) \<Longrightarrow> masks_spec b never h cs = masks_spec b never g cs"
  unfolding masks_spec_def by (intro ext fold_cong) auto

lemma mask_args_Cons:
  assumes "mask_args s ((how, iset, oset) # cs)" and "u = s \<or> oset \<noteq> NULL \<and> sigsets u = (sigsets s)(oset := Some v)"
  shows "mask_args u cs" "(how', iset', oset') \<in> set cs \<Longrightarrow> sigsets u iset' = sigsets s iset'"
    "(how', iset', oset') \<in> set cs \<Longrightarrow> oset \<noteq> NULL \<Longrightarrow> oset' \<noteq> oset"
  using assms by (auto simp: mask_args_def image_iff Ball_def split: if_splits) (metis (no_types, lifting))+

text \<open>
  C27: A thread with no signal pending that calls \<^verbatim>\<open>pthread_sigmask\<close> any number of times ends with the mask that union, difference and
  replacement of sets give, less the signals that cannot be blocked.  Each call that has a place for the old set, apart from
  the others' sets, leaves there the set that was blocked before it, and no signal becomes pending.
\<close>

theorem mask_calls_refine:
  assumes b: "sig_bits E b" and never: "\<forall>v. set_blocked E v = v AND NOT never"
    and "inited s" "threads s (run s) = Some t" "sig_pending (tp t) = 0" and "mask_args s cs"
  shows "\<exists>s' t'. mask_calls E cs s = Some (Ret () s') \<and>
    threads s' (run s) = Some t' \<and> sig_pending (tp t') = 0 \<and>
    sig_set b (sig_blocked (tp t')) = masks_spec b never (sigsets s) cs (sig_set b (sig_blocked (tp t))) \<and>
    (\<forall>i how iset oset. i < length cs \<and> cs ! i = (how, iset, oset) \<and> oset \<noteq> NULL \<longrightarrow>
       (\<exists>w. sigsets s' oset = Some w \<and>
          sig_set b w = masks_spec b never (sigsets s) (take i cs) (sig_set b (sig_blocked (tp t))))) \<and>
    (\<forall>p. p \<notin> (snd \<circ> snd) ` set cs \<longrightarrow> sigsets s' p = sigsets s p)"
  using assms(3-6)
proof (induction cs arbitrary: s t)
  case Nil
  then show ?case by (simp add: mask_calls_def masks_spec_def retM_def)
next
  case (Cons c cs)
  obtain how iset oset where c: "c = (how, iset, oset)" by (cases c)
  with Cons.prems(4) obtain w where w: "how \<in> {SIG_BLOCK, SIG_UNBLOCK, SIG_SETMASK}" "iset \<noteq> NULL" "sigsets s iset = Some w"
    and o: "oset = NULL \<or> (\<exists>v. sigsets s oset = Some v)" by (auto simp: mask_args_def)
  then obtain v0 where v0: "oset = NULL \<or> sigsets s oset = Some v0" by auto
  let ?old = "sig_blocked (tp t)"
  define v where "v = mask_word how ?old w AND NOT never"
  define g where "g = (if oset = NULL then sigsets s else (sigsets s)(oset := Some ?old))"
  obtain x where run1: "pthread_sigmask E how iset oset s = Some (Ret 0 (s\<lparr>sigsets := g, kern := kst (libc_sigprocmask E how iset) s,
      threads := (threads s)(run s := Some (t\<lparr>tp := (tp t)\<lparr>sig_blocked := v\<rparr>, pend := x\<rparr>))\<rparr>))"
    using sigmask_run [OF Cons.prems(1-3) w v0, of E] never by (auto simp: v_def g_def)
  let ?t = "t\<lparr>tp := (tp t)\<lparr>sig_blocked := v\<rparr>, pend := x\<rparr>"
  let ?s = "s\<lparr>sigsets := g, kern := kst (libc_sigprocmask E how iset) s, threads := (threads s)(run s := Some ?t)\<rparr>"
  have v: "sig_set b v = mask_spec how (sig_set b ?old) (sig_set b w) - sig_set b never"
    by (simp only: v_def sig_set_ops(3) [OF b] sig_set_mask [OF b])
  let ?u = "s\<lparr>sigsets := g\<rparr>"
  have u: "?u = s \<or> oset \<noteq> NULL \<and> sigsets ?u = (sigsets s)(oset := Some ?old)" by (simp add: g_def)
  note A = mask_args_Cons [OF Cons.prems(4) [unfolded c] u]
  have spec: "masks_spec b never g xs = masks_spec b never (sigsets s) xs" if "set xs \<subseteq> set cs" for xs
    using A(2) that by (intro masks_spec_cong) auto
  have args: "mask_args ?s cs" using A(1) by (simp add: mask_args_def)
  obtain s' t' where IH: "mask_calls E cs ?s = Some (Ret () s')" "threads s' (run s) = Some t'" "sig_pending (tp t') = 0"
    "sig_set b (sig_blocked (tp t')) = masks_spec b never g cs (sig_set b v)"
    "\<And>i how iset oset. i < length cs \<Longrightarrow> cs ! i = (how, iset, oset) \<Longrightarrow> oset \<noteq> NULL \<Longrightarrow>
       \<exists>w. sigsets s' oset = Some w \<and> sig_set b w = masks_spec b never g (take i cs) (sig_set b v)"
    "\<And>p. p \<notin> (snd \<circ> snd) ` set cs \<Longrightarrow> sigsets s' p = g p"
    using Cons.IH [of ?s ?t, OF _ _ _ args] Cons.prems(1,3) by (simp add: inited_def run_def) metis
  have "mask_calls E (c # cs) s = Some (Ret () s')"
    using IH(1) by (simp add: mask_calls_def c seqM_seq seqM_run [where m = "pthread_sigmask E how iset oset", OF run1])
  moreover have "sig_set b (sig_blocked (tp t')) = masks_spec b never (sigsets s) (c # cs) (sig_set b ?old)"
    using IH(4) w(3) spec [of cs] by (simp add: masks_spec_def c v)
  moreover have "\<exists>w. sigsets s' o' = Some w \<and>
      sig_set b w = masks_spec b never (sigsets s) (take i (c # cs)) (sig_set b ?old)"
    if i: "i < length (c # cs)" "(c # cs) ! i = (h', i', o')" "o' \<noteq> NULL" for i h' i' o'
  proof (cases i)
    case 0
    then have "o' \<notin> (snd \<circ> snd) ` set cs" using i c by (auto dest: A(3))
    then show ?thesis using IH(6) [of o'] 0 i c by (simp add: g_def masks_spec_def)
  next
    case (Suc j)
    then obtain w' where "sigsets s' o' = Some w'" "sig_set b w' = masks_spec b never g (take j cs) (sig_set b v)"
      using IH(5) [of j h' i' o'] i by auto
    then show ?thesis using Suc w(3) spec [OF set_take_subset, of j] by (simp add: masks_spec_def c v)
  qed
  moreover have "sigsets s' p = sigsets s p" if "p \<notin> (snd \<circ> snd) ` set (c # cs)" for p
    using IH(6) [of p] that c by (auto simp: g_def)
  ultimately show ?case using IH(2,3) by blast
qed

text \<open>The demo process blocks signals 2 and 14 and lets 2 through again, keeping what was blocked before; 9 cannot be blocked.\<close>

lemma demo_never: "\<forall>v. set_blocked demo_os v = v AND NOT (push_bit 9 1)"
  by (simp add: demo_os_def)

definition demo_masks :: "demo_kern world" where
  "demo_masks = demo_world\<lparr>sigsets := [70 \<mapsto> 0x4204, 71 \<mapsto> 0x4, 72 \<mapsto> 0]\<rparr>"

theorem mask_calls_refine_witness:
  "\<exists>s t w. mask_calls demo_os [(SIG_SETMASK, 70, NULL), (SIG_UNBLOCK, 71, 72)] demo_masks = Some (Ret () s) \<and>
    threads s 10 = Some t \<and> sig_set nat (sig_blocked (tp t)) = {14} \<and> sigsets s 72 = Some w \<and> sig_set nat w = {2, 14}"
proof -
  have s: "inited demo_masks" "run demo_masks = 10" "threads demo_masks 10 = Some demo_thread"
    "sig_pending (tp demo_thread) = 0" "sigsets demo_masks = [70 \<mapsto> 0x4204, 71 \<mapsto> 0x4, 72 \<mapsto> 0]"
    by (simp_all add: demo_masks_def inited_def demo_thread_def)
  have e: "sig_set nat v = set (filter (\<lambda>n. bit v (nat n)) [1..int NSIG - 1])" for v
    by (auto simp: sig_set_def)
  have u: "[1..int NSIG - 1] = [1,2,3,4,5,6,7,8,9,10,11,12,13,14,15,16,17,18,19,20,21]"
    by (simp add: upto.simps)
  have b: "sig_set nat 0x4204 = {2, 9, 14}" "sig_set nat 0x4 = {2}" "sig_set nat 0x200 = {9}"
    unfolding e u by (simp_all add: bit_numeral_rec)
  let ?cs = "[(SIG_SETMASK, 70, NULL), (SIG_UNBLOCK, 71, 72)] :: (int \<times> addr \<times> addr) list" and ?B = "sig_set nat (sig_blocked (tp demo_thread))"
  have f: "masks_spec nat (push_bit 9 1) (sigsets demo_masks) ?cs ?B = {14}"
    "masks_spec nat (push_bit 9 1) (sigsets demo_masks) (take 1 ?cs) ?B = {2, 14}"
    by (auto simp: masks_spec_def s b mask_spec_def)
  have c: "mask_args demo_masks ?cs" by (simp add: mask_args_def s)
  from mask_calls_refine [OF demo_sig_bits demo_never s(1) _ s(4) c, unfolded s(2), OF s(3)] obtain s' t' where
    s': "mask_calls demo_os ?cs demo_masks = Some (Ret () s')" "threads s' 10 = Some t'"
      "sig_set nat (sig_blocked (tp t')) = {14}"
    and r: "\<And>i how iset oset. i < length ?cs \<Longrightarrow> ?cs ! i = (how, iset, oset) \<Longrightarrow> oset \<noteq> NULL \<Longrightarrow>
       (\<exists>w. sigsets s' oset = Some w \<and>
          sig_set nat w = masks_spec nat (push_bit 9 1) (sigsets demo_masks) (take i ?cs) ?B)"
    unfolding f(1) by blast
  from r [of 1 SIG_UNBLOCK 71 72] obtain w where "sigsets s' 72 = Some w" "sig_set nat w = {2, 14}"
    unfolding f(2) by auto
  with s' show ?thesis by blast
qed

end
