(* ===== verification/DlSingle.thy ===== *)
theory DlSingle
  imports Dl
begin

text \<open>
  The single-threaded build of \<^verbatim>\<open>dl_dlopen.c\<close>, \<^verbatim>\<open>dl_dlsym.c\<close>, \<^verbatim>\<open>dl_dlerror.c\<close> and \<^verbatim>\<open>dl_dlclose.c\<close>.  Where
  \<^verbatim>\<open>_THREAD_SAFE\<close> is not defined, \<^verbatim>\<open>DL_USE_PTHREADS\<close> is empty and \<^verbatim>\<open>dlerrorstr\<close> is an array of the process instead of the
  one in the thread structure.  A process of this build has the state \<open>dl_world\<close>; its only thread has the number 1.
\<close>

section \<open>The functions without threads\<close>

record 'k dl_world =
  dl_kern :: 'k
  dl_errno :: int
  dlerrorstr :: string

definition dl_call :: "(tid \<Rightarrow> 'k \<Rightarrow> 'a \<times> 'k) \<Rightarrow> ('a, 'k dl_world) prog" where
  "dl_call f = (\<lambda>z. let (x, k) = f 1 (dl_kern z) in Some (Ret x (z\<lparr>dl_kern := k\<rparr>)))"

definition dl_set_errno :: "int \<Rightarrow> (unit, 'k dl_world) prog" where
  "dl_set_errno e = modM (\<lambda>z. z\<lparr>dl_errno := e\<rparr>)"

definition set_dlerrorstr :: "string \<Rightarrow> (unit, 'k dl_world) prog" where
  "set_dlerrorstr m =
     (if length m < dlerror_size then modM (\<lambda>z. z\<lparr>dlerrorstr := m\<rparr>) else faultM Out_Of_Bounds)"

definition st_dlopen :: "'k os \<Rightarrow> string \<Rightarrow> int \<Rightarrow> (addr, 'k dl_world) prog" where
  "st_dlopen E dlname flags =
     bindM (dl_call (DosLoadModule E 79 dlname)) (\<lambda>(rc, pszmodule, handle).
     if rc \<noteq> 0
     then seqM (dl_set_errno (load_errno rc))
         (seqM (set_dlerrorstr (if pszmodule \<noteq> [] then loading_msg (load_errno rc) pszmodule
                                else opening_msg (load_errno rc) dlname))
          (retM NULL))
     else retM handle)"

definition st_dlsym :: "'k os \<Rightarrow> addr \<Rightarrow> string \<Rightarrow> (addr, 'k dl_world) prog" where
  "st_dlsym E handle fnname =
     bindM (dl_call (DosQueryProcAddr E handle fnname)) (\<lambda>(rc, func).
     if rc \<noteq> 0
     then seqM (if rc = ERROR_INVALID_HANDLE
                then seqM (set_dlerrorstr (handle_msg (to_int handle))) (dl_set_errno EINVAL)
                else bindM (dl_call (DosQueryModuleName E handle 79)) (\<lambda>(rc, pszmodule).
                     seqM (set_dlerrorstr (function_msg pszmodule fnname)) (dl_set_errno ENOSYS)))
         (retM NULL)
     else retM func)"

definition st_dlerror :: "(string, 'k dl_world) prog" where
  "st_dlerror = bindM (getM dlerrorstr) retM"

definition st_dlclose :: "'k os \<Rightarrow> addr \<Rightarrow> (unit, 'k dl_world) prog" where
  "st_dlclose E handle = seqM (dl_call (DosFreeModule E handle)) (retM ())"

section \<open>The two builds agree\<close>

text \<open>What a process of one thread shows of the state of the threaded build.\<close>

definition dl_view :: "'k world \<Rightarrow> 'k dl_world" where
  "dl_view s = \<lparr>dl_kern = kern s, dl_errno = errnos s (cur s),
     dlerrorstr = (case threads s (run s) of None \<Rightarrow> [] | Some t \<Rightarrow> th_dlerror t)\<rparr>"

primrec through :: "('s \<Rightarrow> 'z) \<Rightarrow> ('a, 's) res \<Rightarrow> ('a, 'z) res" where
  "through v (Ret x t) = Ret x (v t)"
| "through v (Stop e t) = Stop e (v t)"
| "through v (Fault e) = Fault e"

definition agree :: "('a, 'k world) prog \<Rightarrow> ('a, 'k dl_world) prog \<Rightarrow> 'k world \<Rightarrow> bool" where
  "agree m n s \<longleftrightarrow> map_option (through dl_view) (m s) = n (dl_view s)"

lemma dl_call_run:
  "bindM (dl_call f) g z = g (fst (f 1 (dl_kern z))) (z\<lparr>dl_kern := snd (f 1 (dl_kern z))\<rparr>)"
  "seqM (dl_call f) n z = n (z\<lparr>dl_kern := snd (f 1 (dl_kern z))\<rparr>)"
  by (simp_all add: dl_call_def bindM_def seqM_def split: prod.split)

lemma dl_view_upd:
  "dl_view (s\<lparr>kern := k\<rparr>) = (dl_view s)\<lparr>dl_kern := k\<rparr>"
  "dl_view (with_errno e s) = (dl_view s)\<lparr>dl_errno := e\<rparr>"
  by (simp_all add: dl_view_def)

text \<open>The steps of the two builds, one after the other.\<close>

lemma agree_call:
  assumes "cur s = 1" and "\<And>x k. f 1 (kern s) = (x, k) \<Longrightarrow> agree (m x) (n x) (s\<lparr>kern := k\<rparr>)"
  shows "agree (bindM (kcall f) m) (bindM (dl_call f) n) s"
proof -
  obtain x k where x: "f 1 (kern s) = (x, k)" by fastforce
  from assms(2) [OF x] show ?thesis
    using assms(1) x by (simp add: agree_def dl_call_run kres_def kst_def dl_view_upd) (simp add: dl_view_def)
qed

lemma agree_errno:
  "agree m n (with_errno e s) \<Longrightarrow> agree (seqM (set_errno e) m) (seqM (dl_set_errno e) n) s"
  by (simp add: agree_def dl_set_errno_def dl_view_upd)

lemma agree_message:
  assumes "run s = p" "p \<noteq> NULL" "threads s p \<noteq> None"
    and "\<And>u. agree m n (s\<lparr>threads := (threads s)(p := Some u)\<rparr>)"
  shows "agree (seqM (set_dlerror p msg) m) (seqM (set_dlerrorstr msg) n) s"
proof (cases "length msg < dlerror_size")
  case True
  obtain t where t: "threads s p = Some t" using assms(3) by auto
  have "dl_view (s\<lparr>threads := (threads s)(p := Some (t\<lparr>th_dlerror := msg\<rparr>))\<rparr>) = (dl_view s)\<lparr>dlerrorstr := msg\<rparr>"
    using assms(1) by (simp add: dl_view_def)
  with True assms(4) [of "t\<lparr>th_dlerror := msg\<rparr>"] show ?thesis
    by (simp add: agree_def set_dlerrorstr_def set_dlerror_run [OF assms(2) t])
qed (simp add: agree_def set_dlerror_def set_dlerrorstr_def faultM_def seqM_def bindM_def)

lemma agree_ret: "agree (retM x) (retM x) s"
  by (simp add: agree_def retM_def)

lemma agree_self: "inited s \<Longrightarrow> agree (f (run s)) n s \<Longrightarrow> agree (bindM (pthread_self E) f) n s"
  by (simp add: agree_def)

lemma builds_agree:
  assumes "inited s" and "threads s (run s) = Some t" and "cur s = 1"
  shows "agree (dlopen E dlname flags) (st_dlopen E dlname flags) s \<and>
    agree (dlsym E handle fnname) (st_dlsym E handle fnname) s \<and>
    agree (dlerror E) st_dlerror s \<and> agree (dlclose E handle) (st_dlclose E handle) s"
proof (intro conjI)
  have r: "run s \<noteq> NULL" using assms(1) by (simp add: inited_def)
  show "agree (dlopen E dlname flags) (st_dlopen E dlname flags) s"
    unfolding dlopen_def load_module_def st_dlopen_def
    by (rule agree_self [OF assms(1)], rule agree_call [OF assms(3)])
       (use r assms(2) in \<open>auto intro!: agree_errno agree_message agree_ret\<close>)
  show "agree (dlerror E) st_dlerror s"
    using assms r by (simp add: agree_def dlerror_def st_dlerror_def retM_def) (simp add: dl_view_def)
  show "agree (dlclose E handle) (st_dlclose E handle) s"
    using assms(3) by (simp add: agree_def dlclose_def st_dlclose_def dl_call_run retM_def dl_view_upd kst_def) (simp add: dl_view_def)
  show "agree (dlsym E handle fnname) (st_dlsym E handle fnname) s"
    unfolding dlsym_def find_symbol_def st_dlsym_def
    by (rule agree_self [OF assms(1)], rule agree_call [OF assms(3)])
       (use r assms in \<open>auto simp: seqM_seq seqM_bind intro!: agree_call agree_errno agree_message agree_ret\<close>)
qed

section \<open>What the functions report\<close>

text \<open>The state after a failed call: the answer of the system, \<^verbatim>\<open>errno\<close> and the message of the calling thread.\<close>

definition told :: "int \<Rightarrow> string \<Rightarrow> 'k \<Rightarrow> 'k world \<Rightarrow> 'k world" where
  "told e m k s = s\<lparr>kern := k, errnos := (errnos s)(cur s := e),
     threads := (threads s)(run s := map_option (\<lambda>t. t\<lparr>th_dlerror := m\<rparr>) (threads s (run s)))\<rparr>"

text \<open>The errors of \<^verbatim>\<open>DosLoadModule\<close> and what \<^verbatim>\<open>errno\<close> they become; any other becomes \<^verbatim>\<open>ENOEXEC\<close>.\<close>

definition load_errors :: "(apiret \<times> int) list" where
  "load_errors = [(2, ENOENT), (3, ENOENT), (4, ENFILE), (5, EACCES), (8, ENOMEM), (26, ENOENT), (32, EBUSY), (33, EBUSY),
     (36, EBUSY), (95, EINTR), (108, EBUSY), (123, ENAMETOOLONG)]"

lemma load_errno_table: "load_errno rc = (case map_of load_errors rc of Some e \<Rightarrow> e | None \<Rightarrow> ENOEXEC)"
  by (simp add: load_errno_def load_errors_def)

lemma set_dlerror_told:
  assumes "inited s" "threads s (run s) = Some t"
  shows "seqM (set_dlerror (run s) m) n (s\<lparr>kern := k, errnos := (errnos s)(cur s := e)\<rparr>) =
      (if length m < 128 then n (told e m k s) else Some (Fault Out_Of_Bounds))"
    and "seqM (set_dlerror (run s) m) (seqM (set_errno e) n) (s\<lparr>kern := k\<rparr>) =
      (if length m < 128 then n (told e m k s) else Some (Fault Out_Of_Bounds))"
proof -
  have r: "run s \<noteq> NULL" using assms(1) by (simp add: inited_def)
  have "told e m k s = s\<lparr>kern := k, threads := (threads s)(run s := Some (t\<lparr>th_dlerror := m\<rparr>)), errnos := (errnos s)(cur s := e)\<rparr>"
    using assms(2) by (simp add: told_def)
  then show "seqM (set_dlerror (run s) m) (seqM (set_errno e) n) (s\<lparr>kern := k\<rparr>) =
      (if length m < 128 then n (told e m k s) else Some (Fault Out_Of_Bounds))"
    using r assms(2) by (simp add: set_dlerror_def dlerror_size_def run_simps faultM_def)
  show "seqM (set_dlerror (run s) m) n (s\<lparr>kern := k, errnos := (errnos s)(cur s := e)\<rparr>) =
      (if length m < 128 then n (told e m k s) else Some (Fault Out_Of_Bounds))"
    using r assms(2) by (simp add: set_dlerror_def dlerror_size_def run_simps faultM_def told_def)
qed

lemma open_message:
  "''error '' @ decimal e @ (if m = [] then '' opening module '' @ quoted name else '' loading module '' @ quoted m) =
     (if m = [] then opening_msg e name else loading_msg e m)"
  by (simp add: opening_msg_def loading_msg_def)

text \<open>
  C35: \<^verbatim>\<open>dlopen\<close> returns the handle of the system, or NULL with \<^verbatim>\<open>errno\<close> by the table of error numbers and a message that has this number
  and the name of the module the system says is missing, or else the name asked for.  \<^verbatim>\<open>dlsym\<close> returns the
  function, or NULL with \<^verbatim>\<open>EINVAL\<close> and the handle, or with \<^verbatim>\<open>ENOSYS\<close> and a message in which the two names are exchanged: it says
  that there is no function of the module's name in a module of the function's name.  A message of 128 characters or more overruns
  the buffer.  \<^verbatim>\<open>dlerror\<close> then gives the message of the calling thread, and no other thread's is changed; \<^verbatim>\<open>dlclose\<close>
  frees the module.  In a process of one thread the functions as built without threads return and leave the same.
\<close>

theorem dl_reports:
  assumes "inited s" and "threads s (run s) = Some t"
  shows "(\<forall>name flags rc m h k. DosLoadModule E 79 name (cur s) (kern s) = ((rc, m, h), k) \<longrightarrow>
      dlopen E name flags s = (if rc = 0 then Some (Ret h (s\<lparr>kern := k\<rparr>))
        else let e = (case map_of load_errors rc of Some e \<Rightarrow> e | None \<Rightarrow> ENOEXEC);
            msg = ''error '' @ decimal e @ (if m = [] then '' opening module '' @ quoted name else '' loading module '' @ quoted m)
          in if length msg < 128 then Some (Ret NULL (told e msg k s)) else Some (Fault Out_Of_Bounds))) \<and>
    (\<forall>handle fn rc f k rc' m k'. DosQueryProcAddr E handle fn (cur s) (kern s) = ((rc, f), k) \<and>
        DosQueryModuleName E handle 79 (cur s) k = ((rc', m), k') \<longrightarrow>
      dlsym E handle fn s = (if rc = 0 then Some (Ret f (s\<lparr>kern := k\<rparr>))
        else let (e, msg, k) = (if rc = 6 then (EINVAL, ''invalid module handle '' @ decimal (to_int handle), k)
            else (ENOSYS, ''no function '' @ quoted m @ '' in module '' @ quoted fn, k'))
          in if length msg < 128 then Some (Ret NULL (told e msg k s)) else Some (Fault Out_Of_Bounds))) \<and>
    (\<forall>e msg k. dlerror E (told e msg k s) = Some (Ret msg (told e msg k s)) \<and>
      (\<forall>p. p \<noteq> run s \<longrightarrow> threads (told e msg k s) p = threads s p)) \<and>
    (\<forall>handle. dlclose E handle s = Some (Ret () (s\<lparr>kern := snd (DosFreeModule E handle (cur s) (kern s))\<rparr>))) \<and>
    (cur s = 1 \<longrightarrow> (\<forall>name flags handle fn. agree (dlopen E name flags) (st_dlopen E name flags) s \<and>
      agree (dlsym E handle fn) (st_dlsym E handle fn) s \<and> agree (dlerror E) st_dlerror s \<and>
      agree (dlclose E handle) (st_dlclose E handle) s))"
proof (intro conjI allI impI)
  have r: "run s \<noteq> NULL" "inited s" using assms(1) by (auto simp: inited_def)
  show "dlopen E name flags s = (if rc = 0 then Some (Ret h (s\<lparr>kern := k\<rparr>))
        else let e = (case map_of load_errors rc of Some e \<Rightarrow> e | None \<Rightarrow> ENOEXEC);
            msg = ''error '' @ decimal e @ (if m = [] then '' opening module '' @ quoted name else '' loading module '' @ quoted m)
          in if length msg < 128 then Some (Ret NULL (told e msg k s)) else Some (Fault Out_Of_Bounds))"
    if "DosLoadModule E 79 name (cur s) (kern s) = ((rc, m, h), k)" for name flags rc m h k
    unfolding open_message load_errno_table [symmetric]
    using r that by (simp add: dlopen_def load_module_def kres_def kst_def set_dlerror_told [OF assms] Let_def retM_def)
  show "dlsym E handle fn s = (if rc = 0 then Some (Ret f (s\<lparr>kern := k\<rparr>))
        else let (e, msg, k) = (if rc = 6 then (EINVAL, ''invalid module handle '' @ decimal (to_int handle), k)
            else (ENOSYS, ''no function '' @ quoted m @ '' in module '' @ quoted fn, k'))
          in if length msg < 128 then Some (Ret NULL (told e msg k s)) else Some (Fault Out_Of_Bounds))"
    if "DosQueryProcAddr E handle fn (cur s) (kern s) = ((rc, f), k) \<and> DosQueryModuleName E handle 79 (cur s) k = ((rc', m), k')"
    for handle fn rc f k rc' m k'
    unfolding handle_msg_def [symmetric] function_msg_def [symmetric]
    using r that by (simp add: dlsym_def find_symbol_def kres_def kst_def set_dlerror_told [OF assms] seqM_bind seqM_seq retM_def)
  show "dlerror E (told e msg k s) = Some (Ret msg (told e msg k s))" for e msg k
    using r assms(2) by (simp add: dlerror_def told_def inited_def run_def retM_def)
  show "threads (told e msg k s) p = threads s p" if "p \<noteq> run s" for e msg k p
    using that by (simp add: told_def)
  show "dlclose E handle s = Some (Ret () (s\<lparr>kern := snd (DosFreeModule E handle (cur s) (kern s))\<rparr>))" for handle
    by (simp add: dlclose_def retM_def kst_def)
qed (use builds_agree [OF assms] in blast)+

theorem dl_reports_witness:
  "dlopen demo_os ''X'' 0 demo_world = Some (Ret NULL (told ENOENT (''error 2 opening module '' @ quoted ''X'') demo_kern0 demo_world)) \<and>
   dlsym demo_os 1 ''f'' demo_world =
     Some (Ret NULL (told ENOSYS (''no function '' @ quoted ''MOD'' @ '' in module '' @ quoted ''f'') demo_kern0 demo_world)) \<and>
   agree (dlopen demo_os ''X'' 0) (st_dlopen demo_os ''X'' 0) demo_world"
proof -
  note R = dl_reports [of demo_world demo_thread demo_os, simplified]
  have "decimal 2 = ''2''" by code_simp
  then show ?thesis using R by (simp add: load_errors_def quoted_def)
qed

end
