(* ===== verification/CondConc.thy ===== *)
theory CondConc
  imports Cond MutexConc
begin

text \<open>
  Threads that wait on one condition variable, signal it and broadcast at the same time.  \<open>Cond\<close> runs a call of one thread from
  beginning to end; here the calls are cut at their accesses to shared data, which are the mutex (whose pieces are those
  of \<open>MutexConc\<close>), the count \<^verbatim>\<open>c_onwait\<close> and the event semaphore, and the pieces of different threads interleave in any order.
  \<^verbatim>\<open>(*cond)->c_onwait++\<close> is two pieces, a read and a write.  The functions of \<open>Cond\<close> are shown to take these pieces one by one.
\<close>

section \<open>Steps\<close>

text \<open>
  Where a thread is in \<^verbatim>\<open>pthread_cond_wait\<close> or \<^verbatim>\<open>pthread_cond_timedwait\<close>: with the count read, before the mutex is given up,
  before the wait, in the wait, on its way to take the mutex again, with the mutex, or with a wait that failed; then with
  the count read for its decrement.  \<open>C_Post n\<close> is \<^verbatim>\<open>pthread_cond_broadcast\<close> with \<open>n\<close> posts to go.
\<close>

datatype cond_place = C_Idle | C_Count u32 | C_Unlock | C_Wait | C_Blocked | C_Relock | C_Locked | C_Failed |
  C_Uncount u32 | C_Post u32

record cond_state =
  mutex_part :: lock_state
  on_wait :: u32
  posted :: nat
  cond_place_of :: "addr \<Rightarrow> cond_place"

text \<open>
  The event is created with \<^verbatim>\<open>0x0800\<close>: each post releases one thread, and a post that finds no thread waiting is kept for the next.
  \<open>many\<close> says whether the semaphore keeps more than one such post; the theorems say what they need of it.
\<close>

definition keep_post :: "bool \<Rightarrow> nat \<Rightarrow> nat" where
  "keep_post many n = (if many then n + 1 else 1)"

inductive post_step :: "bool \<Rightarrow> cond_state \<Rightarrow> cond_state \<Rightarrow> bool" for many where
  wake: "cond_place_of s u = C_Blocked \<Longrightarrow>
    post_step many s (s\<lparr>cond_place_of := (cond_place_of s)(u := C_Relock)\<rparr>)"
| keep: "\<forall>u. cond_place_of s u \<noteq> C_Blocked \<Longrightarrow> post_step many s (s\<lparr>posted := keep_post many (posted s)\<rparr>)"

text \<open>Where the pieces of the mutex calls belong: to the application, and to the two calls inside a wait.\<close>

definition uses_mutex :: "cond_place \<Rightarrow> place \<Rightarrow> bool" where
  "uses_mutex c p \<longleftrightarrow> c = C_Idle \<or> c = C_Unlock \<and> p \<noteq> Outside \<or> c = C_Relock \<and> p \<noteq> Inside"

text \<open>
  \<open>T\<close> are the threads of the process and \<open>Q\<close> those whose wait can end otherwise than by a post: with a timeout, or with an error.
  The caller of a wait holds the mutex, as POSIX demands.
\<close>

inductive cond_step :: "addr set \<Rightarrow> addr set \<Rightarrow> bool \<Rightarrow> addr \<Rightarrow> cond_state \<Rightarrow> cond_state \<Rightarrow> bool" for T Q many where
  mutex: "t \<in> T \<Longrightarrow> uses_mutex (cond_place_of s t) (place_of (mutex_part s) t) \<Longrightarrow> lock_step t (mutex_part s) l \<Longrightarrow>
    cond_step T Q many t s (s\<lparr>mutex_part := l\<rparr>)"
| read_inc: "t \<in> T \<Longrightarrow> cond_place_of s t = C_Idle \<Longrightarrow> place_of (mutex_part s) t = Inside \<Longrightarrow>
    cond_step T Q many t s (s\<lparr>cond_place_of := (cond_place_of s)(t := C_Count (on_wait s))\<rparr>)"
| write_inc: "t \<in> T \<Longrightarrow> cond_place_of s t = C_Count n \<Longrightarrow>
    cond_step T Q many t s (s\<lparr>on_wait := n + 1, cond_place_of := (cond_place_of s)(t := C_Unlock)\<rparr>)"
| unlocked: "t \<in> T \<Longrightarrow> cond_place_of s t = C_Unlock \<Longrightarrow> place_of (mutex_part s) t = Outside \<Longrightarrow>
    cond_step T Q many t s (s\<lparr>cond_place_of := (cond_place_of s)(t := C_Wait)\<rparr>)"
| pass: "t \<in> T \<Longrightarrow> cond_place_of s t = C_Wait \<Longrightarrow> 0 < posted s \<Longrightarrow>
    cond_step T Q many t s (s\<lparr>posted := posted s - 1, cond_place_of := (cond_place_of s)(t := C_Relock)\<rparr>)"
| block: "t \<in> T \<Longrightarrow> cond_place_of s t = C_Wait \<Longrightarrow> posted s = 0 \<Longrightarrow>
    cond_step T Q many t s (s\<lparr>cond_place_of := (cond_place_of s)(t := C_Blocked)\<rparr>)"
| fail: "t \<in> T \<Longrightarrow> t \<in> Q \<Longrightarrow> cond_place_of s t = C_Blocked \<Longrightarrow>
    cond_step T Q many t s (s\<lparr>cond_place_of := (cond_place_of s)(t := C_Failed)\<rparr>)"
| locked: "t \<in> T \<Longrightarrow> cond_place_of s t = C_Relock \<Longrightarrow> place_of (mutex_part s) t = Inside \<Longrightarrow>
    cond_step T Q many t s (s\<lparr>cond_place_of := (cond_place_of s)(t := C_Locked)\<rparr>)"
| read_dec: "t \<in> T \<Longrightarrow> cond_place_of s t = C_Locked \<or> cond_place_of s t = C_Failed \<Longrightarrow>
    cond_step T Q many t s (s\<lparr>cond_place_of := (cond_place_of s)(t := C_Uncount (on_wait s))\<rparr>)"
| write_dec: "t \<in> T \<Longrightarrow> cond_place_of s t = C_Uncount n \<Longrightarrow>
    cond_step T Q many t s (s\<lparr>on_wait := n - 1, cond_place_of := (cond_place_of s)(t := C_Idle)\<rparr>)"
| signal: "t \<in> T \<Longrightarrow> cond_place_of s t = C_Idle \<Longrightarrow> place_of (mutex_part s) t \<in> {Outside, Inside} \<Longrightarrow> post_step many s u \<Longrightarrow> cond_step T Q many t s u"
| broadcast: "t \<in> T \<Longrightarrow> cond_place_of s t = C_Idle \<Longrightarrow> place_of (mutex_part s) t \<in> {Outside, Inside} \<Longrightarrow>
    cond_step T Q many t s (s\<lparr>cond_place_of := (cond_place_of s)(t := C_Post (on_wait s))\<rparr>)"
| post: "t \<in> T \<Longrightarrow> cond_place_of s t = C_Post n \<Longrightarrow> n \<noteq> 0 \<Longrightarrow>
    post_step many (s\<lparr>cond_place_of := (cond_place_of s)(t := C_Post (n - 1))\<rparr>) u \<Longrightarrow> cond_step T Q many t s u"
| posted_all: "t \<in> T \<Longrightarrow> cond_place_of s t = C_Post 0 \<Longrightarrow>
    cond_step T Q many t s (s\<lparr>cond_place_of := (cond_place_of s)(t := C_Idle)\<rparr>)"

inductive cond_run :: "addr set \<Rightarrow> addr set \<Rightarrow> bool \<Rightarrow> cond_state \<Rightarrow> cond_state \<Rightarrow> bool" for T Q many where
  stop: "cond_run T Q many s s"
| step: "cond_run T Q many s u \<Longrightarrow> cond_step T Q many t u v \<Longrightarrow> cond_run T Q many s v"

definition cond_start :: cond_state where
  "cond_start = \<lparr>mutex_part = lock_start, on_wait = 0, posted = 0, cond_place_of = (\<lambda>_. C_Idle)\<rparr>"

section \<open>Invariants\<close>

text \<open>The places in which a thread is counted, and those in which it must have the mutex.\<close>

fun is_waiting :: "cond_place \<Rightarrow> bool" where
  "is_waiting C_Idle = False"
| "is_waiting (C_Count n) = False"
| "is_waiting (C_Post n) = False"
| "is_waiting c = True"

fun count_read :: "cond_place \<Rightarrow> u32 option" where
  "count_read (C_Count n) = Some n"
| "count_read (C_Uncount n) = Some n"
| "count_read c = None"

definition holds_mutex :: "cond_place \<Rightarrow> bool" where
  "holds_mutex c \<longleftrightarrow> c = C_Locked \<or> count_read c \<noteq> None"

definition waiters :: "cond_state \<Rightarrow> addr set" where
  "waiters s = {t. is_waiting (cond_place_of s t)}"

definition cond_inv :: "addr set \<Rightarrow> cond_state \<Rightarrow> bool" where
  "cond_inv T s \<longleftrightarrow> lock_inv (mutex_part s) \<and>
     (\<forall>t. t \<notin> T \<longrightarrow> cond_place_of s t = C_Idle) \<and>
     (\<forall>t. cond_place_of s t \<noteq> C_Failed) \<and>
     (\<forall>t. holds_mutex (cond_place_of s t) \<longrightarrow> place_of (mutex_part s) t = Inside) \<and>
     (\<forall>t n. count_read (cond_place_of s t) = Some n \<longrightarrow> n = on_wait s) \<and>
     on_wait s = of_nat (card (waiters s))"

lemma lock_step_other: "lock_step t s u \<Longrightarrow> v \<noteq> t \<Longrightarrow> place_of u v = place_of s v"
  by (induction rule: lock_step.induct) simp_all

lemma inside_once: "lock_inv s \<Longrightarrow> place_of s t = Inside \<Longrightarrow> place_of s u = Inside \<Longrightarrow> t = u"
  using lock_invD(1) [of s t] lock_invD(1) [of s u] by (simp add: places)

lemma cond_invD:
  assumes "cond_inv T s"
  shows "lock_inv (mutex_part s)" "t \<notin> T \<Longrightarrow> cond_place_of s t = C_Idle" "cond_place_of s t \<noteq> C_Failed"
    "holds_mutex (cond_place_of s t) \<Longrightarrow> place_of (mutex_part s) t = Inside"
    "count_read (cond_place_of s t) = Some n \<Longrightarrow> n = on_wait s" "on_wait s = of_nat (card (waiters s))"
  using assms unfolding cond_inv_def by blast+

lemma cond_invI:
  assumes "lock_inv (mutex_part s)" "\<And>t. t \<notin> T \<Longrightarrow> cond_place_of s t = C_Idle" "\<And>t. cond_place_of s t \<noteq> C_Failed"
    "\<And>t. holds_mutex (cond_place_of s t) \<Longrightarrow> place_of (mutex_part s) t = Inside"
    "\<And>t n. count_read (cond_place_of s t) = Some n \<Longrightarrow> n = on_wait s" "on_wait s = of_nat (card (waiters s))"
  shows "cond_inv T s"
  using assms unfolding cond_inv_def by blast

lemma cond_inv_start: "cond_inv T cond_start"
  by (simp add: cond_inv_def cond_start_def lock_inv_start waiters_def holds_mutex_def)


lemma cond_inv_posted [simp]: "cond_inv T (posted_update f s) = cond_inv T s"
  by (simp add: cond_inv_def waiters_def)

lemma waiters_at [simp]:
  "waiters (s\<lparr>cond_place_of := (cond_place_of s)(t := c)\<rparr>) =
     (if is_waiting c then insert t (waiters s) else waiters s - {t})"
  "waiters (s\<lparr>on_wait := n, cond_place_of := (cond_place_of s)(t := c)\<rparr>) =
     (if is_waiting c then insert t (waiters s) else waiters s - {t})"
  "waiters (mutex_part_update f s) = waiters s" "waiters (posted_update g s) = waiters s"
  unfolding waiters_def by auto

lemma waiters_finite: "finite T \<Longrightarrow> cond_inv T s \<Longrightarrow> finite (waiters s) \<and> waiters s \<subseteq> T"
  by (metis (mono_tags, lifting) cond_invD(2) finite_subset is_waiting.simps(1) mem_Collect_eq subsetI waiters_def)

text \<open>A thread that moves from one place to another of the same kind.\<close>

lemma cond_inv_place:
  assumes "cond_inv T s" "t \<in> T" "c \<noteq> C_Failed" "is_waiting c = is_waiting (cond_place_of s t)"
    and "holds_mutex c \<Longrightarrow> place_of (mutex_part s) t = Inside" "\<And>n. count_read c = Some n \<Longrightarrow> n = on_wait s"
  shows "cond_inv T (s\<lparr>cond_place_of := (cond_place_of s)(t := c)\<rparr>)"
proof -
  have "waiters (s\<lparr>cond_place_of := (cond_place_of s)(t := c)\<rparr>) = waiters s"
    using assms(4) by (auto simp: waiters_def)
  then show ?thesis
    using assms(2-) cond_invD [OF assms(1)] by (intro cond_invI) (auto simp del: waiters_at split: if_split_asm)
qed

lemma post_keeps_inv: "post_step many s u \<Longrightarrow> cond_inv T s \<Longrightarrow> cond_inv T u"
proof (induction rule: post_step.induct)
  case (wake s u)
  have "u \<in> T" using cond_invD(2) [OF wake(2), of u] wake(1) by fastforce
  then show ?case using wake by (intro cond_inv_place) (auto simp: holds_mutex_def)
qed simp

text \<open>A thread that has read the count is the only one that has, as it has the mutex.\<close>

lemma count_read_once:
  "cond_inv T s \<Longrightarrow> count_read (cond_place_of s t) = Some n \<Longrightarrow> count_read (cond_place_of s u) = Some m \<Longrightarrow> t = u"
  by (rule inside_once [OF cond_invD(1)]) (auto intro!: cond_invD(4) simp: holds_mutex_def)

lemma cond_inv_written:
  assumes i: "cond_inv T s" "t \<in> T" "count_read (cond_place_of s t) = Some n"
    and c: "c \<noteq> C_Failed" "\<not> holds_mutex c"
    and w: "m = of_nat (card (if is_waiting c then insert t (waiters s) else waiters s - {t}))"
  shows "cond_inv T (s\<lparr>on_wait := m, cond_place_of := (cond_place_of s)(t := c)\<rparr>)"
proof -
  have "count_read (cond_place_of s u) = None" if "u \<noteq> t" for u
    using count_read_once [OF i(1,3), of u] that by (cases "count_read (cond_place_of s u)") auto
  moreover have "count_read c = None" using c(2) by (simp add: holds_mutex_def)
  ultimately show ?thesis
    using i(2) c w cond_invD [OF i(1)] by (intro cond_invI) (auto split: if_split_asm)
qed

lemma mutex_keeps_inv:
  assumes "cond_inv T s" "uses_mutex (cond_place_of s t) (place_of (mutex_part s) t)" "lock_step t (mutex_part s) l"
  shows "cond_inv T (s\<lparr>mutex_part := l\<rparr>)"
proof -
  have "\<not> holds_mutex (cond_place_of s t)" using assms(2) by (auto simp: uses_mutex_def holds_mutex_def)
  then have "holds_mutex (cond_place_of s u) \<Longrightarrow> place_of l u = Inside" for u
    using lock_step_other [OF assms(3), of u] cond_invD(4) [OF assms(1), of u] by (cases "u = t") auto
  then show ?thesis
    using cond_invD [OF assms(1)] lock_inv_step [OF assms(3) cond_invD(1) [OF assms(1)]] by (intro cond_invI) auto
qed

lemma cond_inv_step:
  assumes T: "finite T" and "cond_step T {} many t s u" "cond_inv T s"
  shows "cond_inv T u"
  using assms(2,3)
proof (induction rule: cond_step.induct)
  case (mutex t s l)
  then show ?case using mutex_keeps_inv by blast
next
  case (write_inc t s n)
  note i = write_inc(3)
  have t: "t \<notin> waiters s" "n = on_wait s" using write_inc(2) cond_invD(5) [OF i, of t] by (simp_all add: waiters_def)
  have "n + 1 = of_nat (card (insert t (waiters s)))"
    using t cond_invD(6) [OF i] waiters_finite [OF T i] by (simp add: card_insert_if)
  with write_inc show ?case by (intro cond_inv_written [where n = n]) (simp_all add: holds_mutex_def)
next
  case (write_dec t s n)
  note i = write_dec(3)
  have t: "t \<in> waiters s" "n = on_wait s" using write_dec(2) cond_invD(5) [OF i, of t] by (simp_all add: waiters_def)
  then have "card (waiters s) = Suc (card (waiters s - {t}))"
    using waiters_finite [OF T i] card_Suc_Diff1 [of "waiters s" t] by simp
  then have "n - 1 = of_nat (card (waiters s - {t}))" using t cond_invD(6) [OF i] by simp
  with write_dec show ?case by (intro cond_inv_written [where n = n]) (simp_all add: holds_mutex_def)
next
  case (signal t s u)
  then show ?case using post_keeps_inv by blast
next
  case (post t s n u)
  have "cond_inv T (s\<lparr>cond_place_of := (cond_place_of s)(t := C_Post (n - 1))\<rparr>)"
    using post by (intro cond_inv_place) (auto simp: holds_mutex_def)
  with post(4) show ?case by (rule post_keeps_inv)
next
  case (read_dec t s)
  then show ?case
    using cond_invD(3,4) [OF read_dec(3), of t] by (intro cond_inv_place) (auto simp: holds_mutex_def)
next
  case (pass t s)
  then have "cond_inv T ((posted_update (\<lambda>_. posted s - 1) s)\<lparr>cond_place_of := (cond_place_of s)(t := C_Relock)\<rparr>)"
    using cond_inv_place [of T "posted_update (\<lambda>_. posted s - 1) s" t C_Relock] by (auto simp: holds_mutex_def)
  then show ?case by simp
qed (auto intro!: cond_inv_place simp: holds_mutex_def)

lemma cond_inv_run: "cond_run T {} many s u \<Longrightarrow> finite T \<Longrightarrow> cond_inv T s \<Longrightarrow> cond_inv T u"
  by (induction rule: cond_run.induct) (auto intro: cond_inv_step)

section \<open>No wakeup is lost\<close>

text \<open>A thread is blocked only while no post is kept: a post before the wait is not lost.\<close>

definition post_free :: "cond_state \<Rightarrow> bool" where
  "post_free s \<longleftrightarrow> 0 < posted s \<longrightarrow> (\<forall>u. cond_place_of s u \<noteq> C_Blocked)"

lemma post_free_at:
  "c \<noteq> C_Blocked \<Longrightarrow> post_free s \<Longrightarrow> post_free (s\<lparr>cond_place_of := (cond_place_of s)(t := c)\<rparr>)"
  by (simp add: post_free_def)

lemma post_step_free: "post_step many s u \<Longrightarrow> post_free s \<Longrightarrow> post_free u"
  by (induction rule: post_step.induct) (auto simp: post_free_def)

lemma post_free_step: "cond_step T Q many t s u \<Longrightarrow> post_free s \<Longrightarrow> post_free u"
proof (induction rule: cond_step.induct)
  case (signal t s u)
  then show ?case using post_step_free by blast
next
  case (post t s n u)
  then show ?case by (auto intro: post_step_free post_free_at)
qed (auto simp: post_free_def)

lemma post_free_run: "cond_run T Q many s u \<Longrightarrow> post_free s \<Longrightarrow> post_free u"
  by (induction rule: cond_run.induct) (auto intro: post_free_step)

lemma post_free_start: "post_free cond_start"
  by (simp add: post_free_def cond_start_def)

section \<open>A broadcast reaches every thread\<close>

text \<open>The threads that are counted and have not been woken.\<close>

definition is_pending :: "cond_place \<Rightarrow> bool" where
  "is_pending c \<longleftrightarrow> c = C_Unlock \<or> c = C_Wait \<or> c = C_Blocked"

definition pending :: "cond_state \<Rightarrow> addr set" where
  "pending s = {t. is_pending (cond_place_of s t)}"

text \<open>While a thread that holds the mutex posts, there is a post to come or kept for each of them.\<close>

definition enough_posts :: "cond_state \<Rightarrow> bool" where
  "enough_posts s \<longleftrightarrow> (\<forall>t n. cond_place_of s t = C_Post n \<longrightarrow> place_of (mutex_part s) t = Inside \<longrightarrow>
     card (pending s) \<le> unat n + posted s)"

lemma pending_waits: "cond_inv T s \<Longrightarrow> finite T \<Longrightarrow> finite (pending s) \<and> pending s \<subseteq> waiters s"
proof
  show "pending s \<subseteq> waiters s" by (auto simp: pending_def waiters_def is_pending_def)
  then show "cond_inv T s \<Longrightarrow> finite T \<Longrightarrow> finite (pending s)" using waiters_finite finite_subset by blast
qed

lemma pending_at:
  "cond_place_of u = (cond_place_of s)(t := c) \<Longrightarrow>
     pending u = (if is_pending c then insert t (pending s) else pending s - {t})"
  by (auto simp: pending_def)

lemma pending_same: "cond_place_of u = cond_place_of s \<Longrightarrow> pending u = pending s"
  by (simp add: pending_def)

text \<open>A post, and the use of a post, keep the balance.\<close>

lemma post_balance:
  assumes "post_step True s u" "finite (pending s)"
  shows "card (pending u) + posted s + 1 \<le> card (pending s) + posted u \<and>
    mutex_part u = mutex_part s \<and> (cond_place_of u t = C_Post n \<longleftrightarrow> cond_place_of s t = C_Post n)"
  using assms
proof (induction rule: post_step.induct)
  case (wake s v)
  let ?u = "s\<lparr>cond_place_of := (cond_place_of s)(v := C_Relock)\<rparr>"
  have "v \<in> pending s" using wake(1) by (simp add: pending_def is_pending_def)
  moreover have "pending ?u = pending s - {v}" by (subst pending_at [where s = s and t = v and c = C_Relock]) (simp_all add: is_pending_def)
  ultimately show ?case using card_Suc_Diff1 [OF wake(2)] wake(1) by simp
next
  case (keep s)
  then show ?case by (simp add: keep_post_def pending_same [of "posted_update f s" s for f])
qed

lemma enough_mono:
  assumes "enough_posts s" "card (pending u) + posted s \<le> card (pending s) + posted u"
    and "\<And>t n. cond_place_of u t = C_Post n \<Longrightarrow> place_of (mutex_part u) t = Inside \<Longrightarrow>
      cond_place_of s t = C_Post n \<and> place_of (mutex_part s) t = Inside"
  shows "enough_posts u"
  unfolding enough_posts_def
proof (intro allI impI)
  fix t n
  assume "cond_place_of u t = C_Post n" "place_of (mutex_part u) t = Inside"
  then have "card (pending s) \<le> unat n + posted s" using assms(1,3) unfolding enough_posts_def by blast
  with assms(2) show "card (pending u) \<le> unat n + posted u" by linarith
qed

text \<open>A thread that moves on without the balance.\<close>

lemma enough_place:
  assumes "enough_posts s" "finite (pending s)" "is_pending c \<longrightarrow> is_pending (cond_place_of s t)" "\<forall>n. c \<noteq> C_Post n"
  shows "enough_posts (s\<lparr>cond_place_of := (cond_place_of s)(t := c)\<rparr>)"
    "enough_posts (s\<lparr>on_wait := m, cond_place_of := (cond_place_of s)(t := c)\<rparr>)"
proof -
  have "card (pending u) \<le> card (pending s)" if "cond_place_of u = (cond_place_of s)(t := c)" for u
    using pending_at [OF that] assms(2,3) card_Diff1_le [of "pending s" t] by (auto simp: pending_def insert_absorb)
  with assms(1,4) show "enough_posts (s\<lparr>cond_place_of := (cond_place_of s)(t := c)\<rparr>)"
    "enough_posts (s\<lparr>on_wait := m, cond_place_of := (cond_place_of s)(t := c)\<rparr>)"
    by (auto intro!: enough_mono [OF assms(1)] split: if_split_asm)
qed

lemma enough_step:
  assumes T: "finite T" "card T < 2 ^ 32" and "cond_step T {} True v s u" "cond_inv T s" "enough_posts s"
  shows "enough_posts u"
  using assms(3-5)
proof (induction rule: cond_step.induct)
  case (mutex v s l)
  have "place_of l t = Inside \<Longrightarrow> cond_place_of s t = C_Post n \<Longrightarrow> place_of (mutex_part s) t = Inside" for t n
    using mutex(2) lock_step_other [OF mutex(3), of t] by (cases "t = v") (auto simp: uses_mutex_def)
  then show ?case by (intro enough_mono [OF mutex(5)]) (auto simp: pending_def)
next
  case (write_inc v s n)
  have "place_of (mutex_part s) v = Inside"
    using cond_invD(4) [OF write_inc(3), of v] write_inc(2) by (simp add: holds_mutex_def)
  then have "place_of (mutex_part s) t \<noteq> Inside" if "t \<noteq> v" for t
    using inside_once [OF cond_invD(1) [OF write_inc(3)], of t v] that by blast
  then show ?case by (simp add: enough_posts_def)
next
  case (pass v s)
  let ?u = "s\<lparr>posted := posted s - 1, cond_place_of := (cond_place_of s)(v := C_Relock)\<rparr>"
  have "v \<in> pending s" using pass(2) by (simp add: pending_def is_pending_def)
  moreover have "pending ?u = pending s - {v}"
    by (subst pending_at [where s = s and t = v and c = C_Relock]) (simp_all add: is_pending_def)
  ultimately have "card (pending ?u) + 1 = card (pending s)"
    using card_Suc_Diff1 [of "pending s" v] pending_waits [OF pass(4) T(1)] by simp
  then show ?case using pass(3) by (intro enough_mono [OF pass(5)]) (auto split: if_split_asm)
next
  case (signal v s u)
  have b: "card (pending u) + posted s + 1 \<le> card (pending s) + posted u" "mutex_part u = mutex_part s"
    "\<And>t m. cond_place_of u t = C_Post m \<longleftrightarrow> cond_place_of s t = C_Post m"
    using post_balance [OF signal(4)] pending_waits [OF signal(5) T(1)] by auto
  then show ?case by (intro enough_mono [OF signal(6)]) auto
next
  case (broadcast v s)
  let ?u = "s\<lparr>cond_place_of := (cond_place_of s)(v := C_Post (on_wait s))\<rparr>"
  have p: "pending ?u = pending s" using broadcast(2) by (auto simp: pending_def is_pending_def)
  note w = waiters_finite [OF T(1) broadcast(4)]
  have "card (waiters s) < 2 ^ 32" using card_mono [OF T(1), of "waiters s"] w T(2) by linarith
  then have "unat (on_wait s) = card (waiters s)"
    using cond_invD(6) [OF broadcast(4)] by (simp add: unat_of_nat take_bit_nat_eq_self)
  then have "card (pending s) \<le> unat (on_wait s)"
    using card_mono [of "waiters s" "pending s"] w pending_waits [OF broadcast(4) T(1)] by simp
  then show ?case using broadcast(5) p by (simp add: enough_posts_def)
next
  case (post v s n u)
  let ?s = "s\<lparr>cond_place_of := (cond_place_of s)(v := C_Post (n - 1))\<rparr>"
  have p: "pending ?s = pending s" using post(2) by (auto simp: pending_def is_pending_def)
  have b: "card (pending u) + posted s + 1 \<le> card (pending s) + posted u" "mutex_part u = mutex_part s"
    "\<And>t m. cond_place_of u t = C_Post m \<longleftrightarrow> cond_place_of ?s t = C_Post m"
    using post_balance [OF post(4)] pending_waits [OF post(5) T(1)] unfolding p by auto
  have "unat n = unat (n - 1) + 1" using post(3) unat_minus_one [of n] unat_gt_0 [of n] by linarith
  note m = this
  show ?case unfolding enough_posts_def
  proof (intro allI impI)
    fix t k
    assume k: "cond_place_of u t = C_Post k" "place_of (mutex_part u) t = Inside"
    have "card (pending s) \<le> unat k + 1 + posted s \<and> (t = v \<or> card (pending s) \<le> unat k + posted s)"
    proof (cases "t = v")
      case True
      then have "card (pending s) \<le> unat n + posted s" "k = n - 1"
        using post(2,6) b(2) b(3) [of t k] k unfolding enough_posts_def by auto
      with True m show ?thesis by simp
    next
      case False
      then have "card (pending s) \<le> unat k + posted s"
        using post(6) b(2) b(3) [of t k] k unfolding enough_posts_def by auto
      then show ?thesis by simp
    qed
    with b(1) show "card (pending u) \<le> unat k + posted u" by linarith
  qed
qed (use pending_waits [OF _ T(1)] in \<open>auto intro!: enough_place simp: is_pending_def\<close>)

lemma enough_run:
  "cond_run T {} True s u \<Longrightarrow> finite T \<Longrightarrow> card T < 2 ^ 32 \<Longrightarrow> cond_inv T s \<and> enough_posts s \<Longrightarrow> cond_inv T u \<and> enough_posts u"
  by (induction rule: cond_run.induct) (blast intro: cond_inv_step enough_step)+

section \<open>A broadcast wakes the threads that are blocked\<close>

text \<open>Runs all of whose states have a property, and the states in which \<open>t\<close> is at its posts.\<close>

inductive cond_during :: "addr set \<Rightarrow> addr set \<Rightarrow> bool \<Rightarrow> (cond_state \<Rightarrow> bool) \<Rightarrow> cond_state \<Rightarrow> cond_state \<Rightarrow> bool"
  for T Q many P where
  stop: "P s \<Longrightarrow> cond_during T Q many P s s"
| step: "cond_during T Q many P s u \<Longrightarrow> cond_step T Q many t u v \<Longrightarrow> P v \<Longrightarrow> cond_during T Q many P s v"

definition posting :: "addr \<Rightarrow> cond_state \<Rightarrow> bool" where
  "posting t s \<longleftrightarrow> (\<exists>n. cond_place_of s t = C_Post n)"

lemma during_run: "cond_during T Q many P s u \<Longrightarrow> cond_run T Q many r s \<Longrightarrow> cond_run T Q many r u"
  by (induction rule: cond_during.induct) (auto intro: cond_run.step)

text \<open>
  \<open>B\<close> are the threads blocked when \<open>t\<close> begins to post.  While it posts they cannot get past the mutex, and as long as one of them is
  blocked there is a post to come for every thread that is counted and not woken.
\<close>

definition bcast_inv :: "addr set \<Rightarrow> addr \<Rightarrow> addr set \<Rightarrow> cond_state \<Rightarrow> bool" where
  "bcast_inv T t B s \<longleftrightarrow> cond_inv T s \<and> place_of (mutex_part s) t = Inside \<and>
     (\<forall>v\<in>B. cond_place_of s v = C_Blocked \<or> cond_place_of s v = C_Relock) \<and>
     (\<forall>n. cond_place_of s t = C_Post n \<longrightarrow> (\<forall>v\<in>B. cond_place_of s v \<noteq> C_Blocked) \<or> card (pending s) \<le> unat n)"

lemma bcast_invD:
  assumes "bcast_inv T t B s"
  shows "cond_inv T s" "place_of (mutex_part s) t = Inside"
    "v \<in> B \<Longrightarrow> cond_place_of s v = C_Blocked \<or> cond_place_of s v = C_Relock"
    "cond_place_of s t = C_Post n \<Longrightarrow> v \<in> B \<Longrightarrow> cond_place_of s v = C_Blocked \<Longrightarrow> card (pending s) \<le> unat n"
  using assms unfolding bcast_inv_def by blast+

text \<open>A step that lets no thread of \<open>B\<close> block and no thread become pending keeps it.\<close>

lemma bcast_mono:
  assumes i: "bcast_inv T t B s" and "cond_inv T u" "place_of (mutex_part u) t = Inside"
    and B: "\<And>v. v \<in> B \<Longrightarrow> cond_place_of u v = cond_place_of s v \<or> cond_place_of u v = C_Relock"
    and n: "\<And>n. cond_place_of u t = C_Post n \<Longrightarrow> \<exists>m. cond_place_of s t = C_Post m \<and>
      ((\<forall>v\<in>B. cond_place_of u v \<noteq> C_Blocked) \<or> card (pending u) + unat m \<le> card (pending s) + unat n)"
  shows "bcast_inv T t B u"
  unfolding bcast_inv_def
proof (intro conjI ballI allI impI)
  fix v assume "v \<in> B"
  then show "cond_place_of u v = C_Blocked \<or> cond_place_of u v = C_Relock" using B bcast_invD(3) [OF i] by metis
next
  fix n assume "cond_place_of u t = C_Post n"
  then obtain m where m: "cond_place_of s t = C_Post m"
    "(\<forall>v\<in>B. cond_place_of u v \<noteq> C_Blocked) \<or> card (pending u) + unat m \<le> card (pending s) + unat n" using n by blast
  show "(\<forall>v\<in>B. cond_place_of u v \<noteq> C_Blocked) \<or> card (pending u) \<le> unat n"
  proof (cases "\<forall>v\<in>B. cond_place_of u v \<noteq> C_Blocked")
    case False
    then obtain v where v: "v \<in> B" "cond_place_of u v = C_Blocked" by blast
    then have "cond_place_of s v = C_Blocked" using B [OF v(1)] by auto
    then have "card (pending s) \<le> unat m" using bcast_invD(4) [OF i m(1) v(1)] by blast
    with m(2) False show ?thesis by linarith
  qed simp
qed (use assms(2,3) in auto)

text \<open>A thread that is neither of \<open>B\<close> nor the one that posts.\<close>

lemma bcast_place:
  assumes i: "bcast_inv T t B s" and w: "cond_inv T u" "mutex_part u = mutex_part s"
    and p: "cond_place_of u = (cond_place_of s)(w := c)" "is_pending c \<longrightarrow> is_pending (cond_place_of s w)"
    and c: "\<forall>n. w = t \<longrightarrow> c \<noteq> C_Post n" "w \<in> B \<longrightarrow> c = C_Relock" and f: "finite (pending s)"
  shows "bcast_inv T t B u"
proof (rule bcast_mono [OF i w(1)])
  show "place_of (mutex_part u) t = Inside" using bcast_invD(2) [OF i] w(2) by simp
  show "\<And>v. v \<in> B \<Longrightarrow> cond_place_of u v = cond_place_of s v \<or> cond_place_of u v = C_Relock" using p(1) c(2) by auto
  have "card (pending u) \<le> card (pending s)"
    using pending_at [OF p(1)] p(2) card_Diff1_le [of "pending s" w] by (auto simp: pending_def insert_absorb)
  then show "\<exists>m. cond_place_of s t = C_Post m \<and>
      ((\<forall>v\<in>B. cond_place_of u v \<noteq> C_Blocked) \<or> card (pending u) + unat m \<le> card (pending s) + unat n)"
    if "cond_place_of u t = C_Post n" for n
    using that c(1) p(1) by (cases "w = t") auto
qed

lemma bcast_step:
  assumes T: "finite T" and st: "cond_step T {} many w s u" and i: "bcast_inv T t B s" and pt: "posting t s" "posting t u"
  shows "bcast_inv T t B u"
proof -
  note D = bcast_invD [OF i] and I = bcast_invD(1) [OF i]
  have u: "cond_inv T u" by (rule cond_inv_step [OF T st I])
  have f: "finite (pending s)" using pending_waits [OF I T] by simp
  have only: "w = t" if "place_of (mutex_part s) w = Inside" for w by (rule inside_once [OF cond_invD(1) [OF I] that D(2)])
  have held: "w = t" if "holds_mutex (cond_place_of s w)" for w using cond_invD(4) [OF I that] by (rule only)
  note move = bcast_place [OF i u _ _ _ _ _ f]
  from st show ?thesis
  proof cases
    case (mutex l)
    have "w \<noteq> t" using pt(1) mutex(3) by (auto simp: posting_def uses_mutex_def)
    then have "place_of l t = Inside" using lock_step_other [OF mutex(4)] D(2) by metis
    with mutex(1) show ?thesis by (intro bcast_mono [OF i u]) (simp_all add: pending_def)
  next
    case read_inc
    with only [of w] pt show ?thesis by (auto simp: posting_def)
  next
    case (write_inc n)
    with held [of w] pt show ?thesis by (auto simp: posting_def holds_mutex_def)
  next
    case unlocked
    then have "w \<notin> B" using D(3) [of w] by auto
    with unlocked show ?thesis by (intro move [where w = w and c = C_Wait]) (auto simp: is_pending_def)
  next
    case pass
    then show ?thesis by (intro move [where w = w and c = C_Relock]) (auto simp: is_pending_def)
  next
    case block
    then have "w \<notin> B" using D(3) [of w] by auto
    with block show ?thesis by (intro move [where w = w and c = C_Blocked]) (auto simp: is_pending_def)
  next
    case fail
    then show ?thesis by simp
  next
    case locked
    with only [of w] pt show ?thesis by (auto simp: posting_def)
  next
    case read_dec
    with held [of w] cond_invD(3) [OF I, of w] pt show ?thesis by (auto simp: posting_def holds_mutex_def)
  next
    case (write_dec n)
    with held [of w] pt show ?thesis by (auto simp: posting_def holds_mutex_def)
  next
    case signal
    from signal(4) show ?thesis
    proof cases
      case (wake v)
      with pt show ?thesis by (intro move [where w = v and c = C_Relock]) (auto simp: is_pending_def)
    next
      case keep
      then show ?thesis by (intro bcast_mono [OF i u]) (auto simp: D(2))
    qed
  next
    case broadcast
    then have "w \<notin> B" "w \<noteq> t" using D(3) [of w] pt(1) by (auto simp: posting_def)
    with broadcast show ?thesis by (intro move [where w = w and c = "C_Post (on_wait s)"]) (auto simp: is_pending_def)
  next
    case (post n)
    let ?s = "s\<lparr>cond_place_of := (cond_place_of s)(w := C_Post (n - 1))\<rparr>"
    have wB: "w \<notin> B" using post(2) D(3) [of w] by auto
    have p: "pending ?s = pending s" using post(2) by (auto simp: pending_def is_pending_def)
    have n: "unat n = unat (n - 1) + 1" using post(3) unat_minus_one [of n] unat_gt_0 [of n] by linarith
    from post(4) show ?thesis
    proof cases
      case (wake v)
      have v: "v \<in> pending s" "v \<noteq> w" using wake(2) p by (auto simp: pending_def is_pending_def split: if_splits)
      have "pending u = pending ?s - {v}"
        unfolding wake(1) by (subst pending_at [where s = ?s and t = v and c = C_Relock]) (simp_all add: is_pending_def)
      then have "card (pending u) + 1 = card (pending s)" using card_Suc_Diff1 [OF f v(1)] p by simp
      then show ?thesis
        using wake wB v(2) post(2) n D(2) by (intro bcast_mono [OF i u]) (auto split: if_splits)
    next
      case keep
      then show ?thesis using post(2) wB by (intro bcast_mono [OF i u]) (auto simp: D(2) split: if_splits)
    qed
  next
    case posted_all
    then have "w \<noteq> t" using pt(2) by (auto simp: posting_def)
    moreover have "w \<notin> B" using D(3) [of w] posted_all by auto
    ultimately show ?thesis using posted_all by (intro move [where w = w and c = C_Idle]) (auto simp: is_pending_def)
  qed
qed

lemma bcast_during:
  "cond_during T {} many (posting t) s u \<Longrightarrow> finite T \<Longrightarrow> bcast_inv T t B s \<Longrightarrow> bcast_inv T t B u \<and> posting t u"
proof (induction rule: cond_during.induct)
  case (step s u w v)
  then show ?case using bcast_step [of T many w u v t B] by blast
qed simp

text \<open>The invariant holds when the thread has read the count.\<close>

lemma bcast_begins:
  assumes T: "finite T" "card T < 2 ^ 32" and i: "cond_inv T r" and t: "cond_place_of r t = C_Idle" "place_of (mutex_part r) t = Inside"
    and st: "cond_step T {} many t r s" "posting t s"
  shows "bcast_inv T t {v. cond_place_of r v = C_Blocked} s"
proof -
  have s: "cond_inv T s" by (rule cond_inv_step [OF T(1) st(1) i])
  have e: "s = r\<lparr>cond_place_of := (cond_place_of r)(t := C_Post (on_wait r))\<rparr>"
    using st(1)
  proof cases
    case signal
    from signal(4) st(2) t(1) show ?thesis by cases (auto simp: posting_def split: if_splits)
  qed (use t(1) st(2) in \<open>auto simp: posting_def\<close>)
  have p: "pending s = pending r" using t(1) by (auto simp: e pending_def is_pending_def)
  note w = waiters_finite [OF T(1) i]
  have "card (waiters r) < 2 ^ 32" using card_mono [OF T(1), of "waiters r"] w T(2) by linarith
  then have "unat (on_wait r) = card (waiters r)"
    using cond_invD(6) [OF i] by (simp add: unat_of_nat take_bit_nat_eq_self)
  then have "card (pending s) \<le> unat (on_wait r)"
    using card_mono [of "waiters r" "pending r"] w pending_waits [OF i T(1)] p by simp
  with s t show ?thesis by (auto simp: bcast_inv_def e)
qed

section \<open>Paths\<close>

abbreviation cond_st :: "addr \<Rightarrow> addr option \<Rightarrow> (addr \<Rightarrow> place) \<Rightarrow> u32 \<Rightarrow> nat \<Rightarrow> (addr \<Rightarrow> cond_place) \<Rightarrow> cond_state" where
  "cond_st a b pl n k cp \<equiv>
     \<lparr>mutex_part = \<lparr>owner_field = a, sem_owner = b, place_of = pl\<rparr>, on_wait = n, posted = k, cond_place_of = cp\<rparr>"

lemma cond_run_trans: "cond_run T Q many b c \<Longrightarrow> cond_run T Q many a b \<Longrightarrow> cond_run T Q many a c"
  by (induction rule: cond_run.induct) (auto intro: cond_run.step)

lemma then_step: "cond_run T Q many s u \<Longrightarrow> cond_step T Q many t u v \<Longrightarrow> v = w \<Longrightarrow> cond_run T Q many s w"
  by (auto intro: cond_run.step)

text \<open>Locking the free mutex, and unlocking it, in a place that uses the mutex.\<close>

lemma cond_lock_path:
  assumes "t \<in> T" "t \<noteq> NULL" "pl t = Outside" "cp t = C_Idle \<or> cp t = C_Relock"
  shows "cond_run T Q many (cond_st NULL None pl n k cp) (cond_st t (Some t) (pl(t := Inside)) n k cp)"
proof -
  let ?s = "cond_st NULL None pl n k cp"
  have "cond_run T Q many ?s (cond_st NULL None (pl(t := L_Requesting)) n k cp)"
    by (rule then_step [OF cond_run.stop cond_step.mutex [OF assms(1) _ lock_step.check]])
       (use assms in \<open>auto simp: uses_mutex_def\<close>)
  then have "cond_run T Q many ?s (cond_st NULL (Some t) (pl(t := L_Granted)) n k cp)"
    by (rule then_step [OF _ cond_step.mutex [OF assms(1) _ lock_step.request]])
       (use assms in \<open>auto simp: uses_mutex_def\<close>)
  then show ?thesis
    by (rule then_step [OF _ cond_step.mutex [OF assms(1) _ lock_step.own]])
       (use assms in \<open>auto simp: uses_mutex_def\<close>)
qed

lemma cond_unlock_path:
  assumes "t \<in> T" "t \<noteq> NULL" "pl t = Inside" "cp t = C_Idle \<or> cp t = C_Unlock"
  shows "cond_run T Q many (cond_st t b pl n k cp) (cond_st NULL None (pl(t := Outside)) n k cp)"
proof -
  let ?s = "cond_st t b pl n k cp"
  have "cond_run T Q many ?s (cond_st t b (pl(t := U_Checked)) n k cp)"
    by (rule then_step [OF cond_run.stop cond_step.mutex [OF assms(1) _ lock_step.unlock]])
       (use assms in \<open>auto simp: uses_mutex_def\<close>)
  then have "cond_run T Q many ?s (cond_st NULL b (pl(t := U_Cleared)) n k cp)"
    by (rule then_step [OF _ cond_step.mutex [OF assms(1) _ lock_step.clear]])
       (use assms in \<open>auto simp: uses_mutex_def\<close>)
  then show ?thesis
    by (rule then_step [OF _ cond_step.mutex [OF assms(1) _ lock_step.release]])
       (use assms in \<open>auto simp: uses_mutex_def\<close>)
qed

text \<open>A wait up to the event.\<close>

lemma cond_enter_path:
  assumes "t \<in> T" "t \<noteq> NULL" "pl t = Inside" "cp t = C_Idle"
  shows "cond_run T Q many (cond_st t b pl n k cp) (cond_st NULL None (pl(t := Outside)) (n + 1) k (cp(t := C_Wait)))"
proof -
  let ?s = "cond_st t b pl n k cp"
  have "cond_run T Q many ?s (cond_st t b pl n k (cp(t := C_Count n)))"
    by (rule then_step [OF cond_run.stop cond_step.read_inc [OF assms(1)]]) (use assms in auto)
  then have u: "cond_run T Q many ?s (cond_st t b pl (n + 1) k (cp(t := C_Unlock)))"
    by (rule then_step [OF _ cond_step.write_inc [OF assms(1)]]) auto
  have "cond_run T Q many ?s (cond_st NULL None (pl(t := Outside)) (n + 1) k (cp(t := C_Unlock)))"
    by (rule cond_run_trans [OF cond_unlock_path [where pl = pl and t = t, OF assms(1-3)] u]) simp
  then show ?thesis
    by (rule then_step [OF _ cond_step.unlocked [OF assms(1)]]) auto
qed

text \<open>A thread that finds the mutex free and is blocked in its wait.\<close>

lemma cond_block_path:
  assumes "t \<in> T" "t \<noteq> NULL" "pl t = Outside" "cp t = C_Idle"
  shows "cond_run T Q many (cond_st NULL None pl n k cp) (cond_st NULL None pl (n + 1) k (cp(t := C_Wait)))"
    "cond_run T Q many (cond_st NULL None pl n 0 cp) (cond_st NULL None pl (n + 1) 0 (cp(t := C_Blocked)))"
proof -
  have w: "cond_run T Q many (cond_st NULL None pl n k cp) (cond_st NULL None pl (n + 1) k (cp(t := C_Wait)))" for k
    using cond_run_trans [OF cond_enter_path [of t T "pl(t := Inside)" cp] cond_lock_path [of t T pl cp]] assms
    by (simp add: fun_upd_idem)
  then show "cond_run T Q many (cond_st NULL None pl n k cp) (cond_st NULL None pl (n + 1) k (cp(t := C_Wait)))" .
  show "cond_run T Q many (cond_st NULL None pl n 0 cp) (cond_st NULL None pl (n + 1) 0 (cp(t := C_Blocked)))"
    by (rule then_step [OF w cond_step.block [OF assms(1)]]) auto
qed

section \<open>The functions take the steps\<close>

text \<open>
  The event as the library creates it: \<open>ps\<close> is the number of posts it keeps and \<open>wt\<close> the threads that wait for it.  A post
  releases one thread that waits, or is kept when there is none; a wait that finds a post takes it and returns.
\<close>

definition cond_event ::
  "'k os \<Rightarrow> hev \<Rightarrow> ('k \<Rightarrow> (tid \<times> nat) option) \<Rightarrow> ('k \<Rightarrow> nat) \<Rightarrow> ('k \<Rightarrow> tid set) \<Rightarrow> bool \<Rightarrow> bool" where
  "cond_event E ev own ps wt many \<longleftrightarrow>
     (\<forall>t k. own (snd (DosPostEventSem E ev t k)) = own k \<and>
        (if wt k = {} then wt (snd (DosPostEventSem E ev t k)) = {} \<and> ps (snd (DosPostEventSem E ev t k)) = keep_post many (ps k)
         else ps (snd (DosPostEventSem E ev t k)) = ps k \<and> (\<exists>v\<in>wt k. wt (snd (DosPostEventSem E ev t k)) = wt k - {v}))) \<and>
     (\<forall>tmo s. 0 < ps (kern s) \<longrightarrow> (\<exists>k. DosWaitEventSem E ev tmo s = Some (Ret 0 (s\<lparr>kern := k\<rparr>)) \<and>
        ps k = ps (kern s) - 1 \<and> own k = own (kern s)))"

text \<open>What the steps see of a state of the process, and that the blocked threads are those that wait for the event.\<close>

definition cond_view :: "('k \<Rightarrow> (tid \<times> nat) option) \<Rightarrow> ('k \<Rightarrow> nat) \<Rightarrow> addr \<Rightarrow> addr \<Rightarrow> 'k world \<Rightarrow>
  (addr \<Rightarrow> place) \<Rightarrow> (addr \<Rightarrow> cond_place) \<Rightarrow> cond_state" where
  "cond_view own ps mutex cond s pl cp =
     \<lparr>mutex_part = lock_view own mutex s pl,
      on_wait = (case ptrs s cond of None \<Rightarrow> 0
                | Some pc \<Rightarrow> (case conds s pc of None \<Rightarrow> 0 | Some c \<Rightarrow> c_onwait c)),
      posted = ps (kern s), cond_place_of = cp\<rparr>"

definition blocked_as :: "('k \<Rightarrow> tid set) \<Rightarrow> 'k world \<Rightarrow> (addr \<Rightarrow> cond_place) \<Rightarrow> bool" where
  "blocked_as wt s cp \<longleftrightarrow> inj_on (threadstore s) (wt (kern s)) \<and>
     (\<forall>u. cp u = C_Blocked \<longleftrightarrow> u \<in> threadstore s ` wt (kern s))"

lemma blocked_as_place:
  "blocked_as wt s cp \<Longrightarrow> cp t \<noteq> C_Blocked \<Longrightarrow> c \<noteq> C_Blocked \<Longrightarrow> blocked_as wt s (cp(t := c))"
  unfolding blocked_as_def by (metis fun_upd_apply)

lemma cond_view_at:
  "cond_at s cond pc c \<Longrightarrow> cond_view own ps mutex cond s pl cp =
     \<lparr>mutex_part = lock_view own mutex s pl, on_wait = c_onwait c, posted = ps (kern s), cond_place_of = cp\<rparr>"
  by (simp add: cond_view_def cond_at_def)

lemma cond_view_sel [simp]:
  "cond_place_of (cond_view own ps mutex cond s pl cp) = cp" "posted (cond_view own ps mutex cond s pl cp) = ps (kern s)"
  "mutex_part (cond_view own ps mutex cond s pl cp) = lock_view own mutex s pl"
  "(cond_view own ps mutex cond s pl cp)\<lparr>cond_place_of := cp'\<rparr> = cond_view own ps mutex cond s pl cp'"
  by (simp_all add: cond_view_def)

lemma lock_view_place [simp]: "place_of (lock_view own mutex s pl) = pl"
  by (simp add: lock_view_def)

lemma lock_view_same:
  "ptrs u = ptrs s \<Longrightarrow> mutexes u = mutexes s \<Longrightarrow> own (kern u) = own (kern s) \<Longrightarrow> threadstore u = threadstore s \<Longrightarrow>
     lock_view own mutex u pl = lock_view own mutex s pl"
  by (simp add: lock_view_def split: option.split)

text \<open>One post is one step of posting.\<close>

lemma post_piece:
  assumes ev: "cond_event E ev own ps wt many" and b: "blocked_as wt s cp"
    and u: "u = s\<lparr>kern := snd (DosPostEventSem E ev t (kern s))\<rparr>"
  shows "\<exists>cp'. blocked_as wt u cp' \<and> (\<forall>w. cp w \<noteq> C_Blocked \<longrightarrow> cp' w = cp w) \<and>
    post_step many (cond_view own ps mutex cond s pl cp) (cond_view own ps mutex cond u pl cp')"
proof -
  note P = ev [unfolded cond_event_def, THEN conjunct1, rule_format, of t "kern s"]
  have l: "lock_view own mutex u pl = lock_view own mutex s pl" by (rule lock_view_same) (use P u in simp_all)
  show ?thesis
  proof (cases "wt (kern s) = {}")
    case True
    with P u have k: "wt (kern u) = {}" "ps (kern u) = keep_post many (ps (kern s))" by simp_all
    have "cond_view own ps mutex cond u pl cp = (cond_view own ps mutex cond s pl cp)\<lparr>posted := keep_post many (ps (kern s))\<rparr>"
      using l k u by (simp add: cond_view_def split: option.split)
    then have "post_step many (cond_view own ps mutex cond s pl cp) (cond_view own ps mutex cond u pl cp)"
      using post_step.keep [of "cond_view own ps mutex cond s pl cp" many] b True by (simp add: blocked_as_def)
    moreover have "blocked_as wt u cp" using b True k by (simp add: blocked_as_def)
    ultimately show ?thesis by blast
  next
    case False
    with P u obtain v where v: "v \<in> wt (kern s)" "wt (kern u) = wt (kern s) - {v}" "ps (kern u) = ps (kern s)" by auto
    let ?cp = "cp(threadstore s v := C_Relock)"
    have i: "inj_on (threadstore s) (wt (kern s))" and cpb: "cp w = C_Blocked \<longleftrightarrow> w \<in> threadstore s ` wt (kern s)" for w
      using b by (simp_all add: blocked_as_def)
    have "threadstore s ` (wt (kern s) - {v}) = threadstore s ` wt (kern s) - {threadstore s v}"
      using inj_on_image_set_diff [OF i, of "wt (kern s)" "{v}"] v(1) by auto
    then have "blocked_as wt u ?cp"
      using cpb inj_on_diff [OF i, of "{v}"] v(2) u by (auto simp: blocked_as_def)
    moreover have "post_step many (cond_view own ps mutex cond s pl cp) (cond_view own ps mutex cond s pl ?cp)"
      using post_step.wake [of "cond_view own ps mutex cond s pl cp" "threadstore s v" many] cpb v(1) by simp
    moreover have "cond_view own ps mutex cond u pl ?cp = cond_view own ps mutex cond s pl ?cp"
      using l v(3) u by (simp add: cond_view_def split: option.split)
    moreover have "\<forall>w. cp w \<noteq> C_Blocked \<longrightarrow> ?cp w = cp w" using cpb v(1) by auto
    ultimately show ?thesis by metis
  qed
qed

text \<open>The states of a broadcast: after \<open>i\<close> posts.\<close>

definition after_posts :: "'k os \<Rightarrow> hev \<Rightarrow> 'k world \<Rightarrow> nat \<Rightarrow> 'k world" where
  "after_posts E ev s i = s\<lparr>kern := ((\<lambda>k. snd (DosPostEventSem E ev (cur s) k)) ^^ i) (kern s)\<rparr>"

lemma after_posts_Suc: "after_posts E ev s (Suc i) =
    (after_posts E ev s i)\<lparr>kern := snd (DosPostEventSem E ev (cur s) (kern (after_posts E ev s i)))\<rparr>"
  by (simp add: after_posts_def)

lemma posts_pieces:
  assumes ev: "cond_event E ev own ps wt many" and b: "blocked_as wt s cp" and t: "t \<in> T" "cp t = C_Post n"
  shows "i \<le> unat n \<Longrightarrow> \<exists>cps. cps 0 = cp \<and> (\<forall>j\<le>i. blocked_as wt (after_posts E ev s j) (cps j) \<and> cps j t = C_Post (n - of_nat j)) \<and>
    (\<forall>j<i. cond_step T Q many t (cond_view own ps mutex cond (after_posts E ev s j) pl (cps j))
       (cond_view own ps mutex cond (after_posts E ev s (Suc j)) pl (cps (Suc j))))"
proof (induction i)
  case 0
  show ?case using b t(2) by (intro exI [of _ "\<lambda>_. cp"]) (simp add: after_posts_def)
next
  case (Suc i)
  then obtain cps where c: "cps 0 = cp" "\<And>j. j \<le> i \<Longrightarrow> blocked_as wt (after_posts E ev s j) (cps j) \<and> cps j t = C_Post (n - of_nat j)"
    "\<And>j. j < i \<Longrightarrow> cond_step T Q many t (cond_view own ps mutex cond (after_posts E ev s j) pl (cps j))
       (cond_view own ps mutex cond (after_posts E ev s (Suc j)) pl (cps (Suc j)))"
    by auto
  let ?s = "after_posts E ev s i" and ?m = "n - of_nat i"
  let ?cp = "(cps i)(t := C_Post (?m - 1))"
  have "unat n < 2 ^ 32" using unsigned_less [of n] by simp
  then have "unat (of_nat i :: u32) = i" using Suc.prems by (simp add: unat_of_nat take_bit_nat_eq_self)
  then have "?m \<noteq> 0" using Suc.prems by auto
  have "\<not> cps i t = C_Blocked" using c(2) [of i] by simp
  then have "blocked_as wt ?s ?cp" using c(2) [of i] by (intro blocked_as_place) simp_all
  from post_piece [OF ev this after_posts_Suc, of mutex cond pl] obtain cp' where cp': "blocked_as wt (after_posts E ev s (Suc i)) cp'"
    "cp' t = C_Post (?m - 1)"
    "post_step many (cond_view own ps mutex cond ?s pl ?cp) (cond_view own ps mutex cond (after_posts E ev s (Suc i)) pl cp')"
    by (metis cond_place.distinct fun_upd_same)
  have "cond_step T Q many t (cond_view own ps mutex cond ?s pl (cps i)) (cond_view own ps mutex cond (after_posts E ev s (Suc i)) pl cp')"
    by (rule cond_step.post [OF t(1), where n = ?m]) (use c(2) [of i] \<open>?m \<noteq> 0\<close> cp'(3) in simp_all)
  then show ?case
    using c cp' by (intro exI [of _ "cps(Suc i := cp')"]) (auto simp: le_Suc_eq less_Suc_eq algebra_simps)
qed

text \<open>A signal is one post, and a broadcast reads the count and makes so many.\<close>

lemma signal_piece:
  assumes ev: "cond_event E (c_event c) own ps wt many" and c: "cond_at s cond pc c" "c_type c = COND_TYPE_FAST"
    and t: "run s \<in> T" "pl (run s) \<in> {Outside, Inside}" "cp (run s) = C_Idle" and b: "blocked_as wt s cp"
  defines "u \<equiv> after_posts E (c_event c) s 1"
  shows "\<exists>cp'. pthread_cond_signal E cond s = Some (Ret 0 u) \<and> blocked_as wt u cp' \<and>
    post_step many (cond_view own ps mutex cond s pl cp) (cond_view own ps mutex cond u pl cp') \<and>
    cond_step T Q many (run s) (cond_view own ps mutex cond s pl cp) (cond_view own ps mutex cond u pl cp')"
proof -
  have u: "u = s\<lparr>kern := snd (DosPostEventSem E (c_event c) (cur s) (kern s))\<rparr>" by (simp add: u_def after_posts_def)
  from post_piece [OF ev b u, of mutex cond pl] obtain cp' where "blocked_as wt u cp'"
    "post_step many (cond_view own ps mutex cond s pl cp) (cond_view own ps mutex cond u pl cp')" by blast
  moreover have "pthread_cond_signal E cond s = Some (Ret 0 u)" using broadcast_posts_each_waiter [OF c, of E] by (simp add: u)
  ultimately show ?thesis using t by (intro exI [of _ cp']) (auto intro!: cond_step.signal)
qed

lemma broadcast_pieces:
  assumes ev: "cond_event E (c_event c) own ps wt many" and c: "cond_at s cond pc c" "c_type c = COND_TYPE_FAST"
    and t: "run s \<in> T" "pl (run s) \<in> {Outside, Inside}" "cp (run s) = C_Idle" and b: "blocked_as wt s cp"
  defines "w \<equiv> after_posts E (c_event c) s" and "n \<equiv> unat (c_onwait c)"
  shows "\<exists>cps. pthread_cond_broadcast E cond s = Some (Ret 0 (w n)) \<and> blocked_as wt (w n) (cps n) \<and>
    cond_step T Q many (run s) (cond_view own ps mutex cond s pl cp) (cond_view own ps mutex cond (w 0) pl (cps 0)) \<and>
    cps 0 (run s) = C_Post (c_onwait c) \<and>
    (\<forall>i<n. cond_step T Q many (run s) (cond_view own ps mutex cond (w i) pl (cps i))
       (cond_view own ps mutex cond (w (Suc i)) pl (cps (Suc i)))) \<and>
    cond_step T Q many (run s) (cond_view own ps mutex cond (w n) pl (cps n))
      (cond_view own ps mutex cond (w n) pl ((cps n)(run s := C_Idle)))"
proof -
  have w0: "w 0 = s" by (simp add: w_def after_posts_def)
  let ?cp = "cp(run s := C_Post (c_onwait c))"
  have "blocked_as wt s ?cp" using b t(3) by (intro blocked_as_place) simp_all
  from posts_pieces [OF ev this t(1) fun_upd_same order_refl, where mutex = mutex and cond = cond and pl = pl] obtain cps where
    cps: "cps 0 = ?cp" "blocked_as wt (w n) (cps n)" "cps n (run s) = C_Post (c_onwait c - of_nat n)"
    "\<forall>i<n. cond_step T Q many (run s) (cond_view own ps mutex cond (w i) pl (cps i))
       (cond_view own ps mutex cond (w (Suc i)) pl (cps (Suc i)))"
    unfolding w_def n_def by blast
  have "c_onwait c - of_nat n = 0" by (simp add: n_def)
  then have "cond_step T Q many (run s) (cond_view own ps mutex cond (w n) pl (cps n))
      (cond_view own ps mutex cond (w n) pl ((cps n)(run s := C_Idle)))"
    using cond_step.posted_all [OF t(1), of "cond_view own ps mutex cond (w n) pl (cps n)" Q many] cps(3) by simp
  moreover have "cond_step T Q many (run s) (cond_view own ps mutex cond s pl cp) (cond_view own ps mutex cond (w 0) pl (cps 0))"
    using cond_step.broadcast [OF t(1), of "cond_view own ps mutex cond s pl cp" Q many] t(2,3)
    by (simp add: w0 cps(1)) (simp add: cond_view_at [OF c(1)])
  moreover have "pthread_cond_broadcast E cond s = Some (Ret 0 (w n))"
    using broadcast_posts_each_waiter [OF c, of E] by (simp add: w_def n_def after_posts_def)
  ultimately show ?thesis using cps by (intro exI [of _ cps]) simp
qed

text \<open>The states a wait goes through by its own accesses: counted, waiting, and off the count again.\<close>

definition cond_counted :: "'k world \<Rightarrow> addr \<Rightarrow> pthread_cond \<Rightarrow> 'k world" where
  "cond_counted s pc c = s\<lparr>conds := (conds s)(pc := Some (c\<lparr>c_onwait := c_onwait c + 1\<rparr>))\<rparr>"

definition cond_waiting :: "'k world \<Rightarrow> addr \<Rightarrow> 'k world" where
  "cond_waiting s cond = s\<lparr>threads := (threads s)(run s := map_option
     (\<lambda>t. t\<lparr>th_data := W_Cond cond, th_state := PS_COND_WAIT\<rparr>) (threads s (run s)))\<rparr>"

definition uncounted :: "'k world \<Rightarrow> addr \<Rightarrow> pthread_cond \<Rightarrow> 'k world" where
  "uncounted s pc c = s\<lparr>conds := (conds s)(pc := Some (c\<lparr>c_onwait := c_onwait c - 1\<rparr>))\<rparr>"

lemma wait_by_run:
  assumes q: "quiet s" "mutex \<noteq> NULL" and c: "cond_at s cond pc c" "c_type c = COND_TYPE_FAST"
    and u: "unlock mutex (cond_counted s pc c) = Some (Ret r s1)" "run s1 = run s" "threads s1 (run s) \<noteq> None" "cond_at s1 cond pc c1"
    and w: "DosWaitEventSem E (c_event c1) SEM_INDEFINITE_WAIT (cond_waiting s1 cond) = Some (Ret 0 s2)"
      "run s2 = run s" "threads s2 (run s) \<noteq> None"
    and l: "lock mutex (resumed s2) = Some (Ret 0 s3)" "quiet s3" "run s3 = run s" "cond_at s3 cond pc c3"
  shows "pthread_cond_wait_by unlock lock E cond mutex s = Some (Ret 0 (uncounted s3 pc c3))"
proof -
  from q obtain t where t: "run s \<noteq> NULL" "inited s" by (auto elim: quietE)
  obtain t1 t2 where tt: "threads s1 (run s) = Some t1" "threads s2 (run s) = Some t2" using u(3) w(3) by auto
  have c0: "cond_at (cond_counted s pc c) cond pc (c\<lparr>c_onwait := c_onwait c + 1\<rparr>)" using cond_at_new [OF c(1)] by (simp add: cond_counted_def)
  have u0: "unlock mutex (s\<lparr>conds := (conds s)(pc := Some (c\<lparr>c_onwait := c_onwait c + 1\<rparr>))\<rparr>) = Some (Ret r s1)"
    using u(1) by (simp add: cond_counted_def)
  have w0: "DosWaitEventSem E (c_event c1) SEM_INDEFINITE_WAIT
      (s1\<lparr>threads := (threads s1)(run s := Some (t1\<lparr>th_data := W_Cond cond, th_state := PS_COND_WAIT\<rparr>))\<rparr>) = Some (Ret 0 s2)"
    using w(1) tt u(2) by (simp add: cond_waiting_def)
  have l0: "lock mutex (s2\<lparr>threads := (threads s2)(run s := Some (t2\<lparr>th_state := PS_RUNNING\<rparr>))\<rparr>) = Some (Ret 0 s3)"
    using l(1) tt w(2) by (simp add: resumed_def)
  have c1: "cond_at (s1\<lparr>threads := g\<rparr>) cond pc c1" for g using u(4) by simp
  have q3: "quiet (uncounted s3 pc c3)" "run (uncounted s3 pc c3) = run s" using l(2,3) by (simp_all add: uncounted_def)
  show ?thesis
    using cond_at_nonnull [OF c(1)] q(2) c(2) t tt c0
    by (simp add: deliver_quiet_at [OF q3(1) q3(2) [symmetric], unfolded uncounted_def] uncounted_def pthread_cond_wait_by_def cond_block_by_def cond_at_read [OF c(1)] cond_at_write [OF c(1)]
        cond_at_read [OF c0 [unfolded cond_counted_def]] cond_at_read [OF c1] bindM_assoc bindM_seq seqM_bind seqM_seq
        bindM_run [where m = "unlock mutex", OF u0] bindM_run [where m = "DosWaitEventSem E (c_event c1) SEM_INDEFINITE_WAIT", OF w0]
        bindM_run [where m = "lock mutex", OF l0] cond_at_write [OF l(4)] retM_def)
qed

text \<open>The steps of a wait before the unlock, before and at the event, and after the mutex is taken again.\<close>

lemma wait_pieces:
  assumes c: "cond_at s cond pc c" and t: "run s \<in> T" "pl (run s) = Inside" "cp (run s) = C_Idle"
    and s1: "cond_at s1 cond pc c1" "pl1 (run s) = Outside" "cp1 (run s) = C_Unlock"
    and s3: "cond_at s3 cond pc c3" "pl3 (run s) = Inside" "cp3 (run s) = C_Relock"
  shows "successively (cond_step T Q many (run s)) [cond_view own ps mutex cond s pl cp,
      cond_view own ps mutex cond s pl (cp(run s := C_Count (c_onwait c))),
      cond_view own ps mutex cond (cond_counted s pc c) pl (cp(run s := C_Unlock))]"
    and "cond_step T Q many (run s) (cond_view own ps mutex cond s1 pl1 cp1)
      (cond_view own ps mutex cond (cond_waiting s1 cond) pl1 (cp1(run s := C_Wait)))"
    and "successively (cond_step T Q many (run s)) [cond_view own ps mutex cond s3 pl3 cp3,
      cond_view own ps mutex cond s3 pl3 (cp3(run s := C_Locked)),
      cond_view own ps mutex cond s3 pl3 (cp3(run s := C_Uncount (c_onwait c3))),
      cond_view own ps mutex cond (uncounted s3 pc c3) pl3 (cp3(run s := C_Idle))]"
proof -
  have v0: "cond_at (cond_counted s pc c) cond pc (c\<lparr>c_onwait := c_onwait c + 1\<rparr>)"
    using cond_at_new [OF c] by (simp add: cond_counted_def)
  have v3: "cond_at (uncounted s3 pc c3) cond pc (c3\<lparr>c_onwait := c_onwait c3 - 1\<rparr>)"
    using cond_at_new [OF s3(1)] by (simp add: uncounted_def)
  have v1: "cond_at (cond_waiting s1 cond) cond pc c1" using s1(1) by (simp add: cond_waiting_def)
  have l: "lock_view own mutex (cond_counted s pc c) pl = lock_view own mutex s pl"
    "lock_view own mutex (uncounted s3 pc c3) pl3 = lock_view own mutex s3 pl3"
    "lock_view own mutex (cond_waiting s1 cond) pl1 = lock_view own mutex s1 pl1"
    by (rule lock_view_same; simp add: cond_counted_def uncounted_def cond_waiting_def)+
  have k: "kern (cond_counted s pc c) = kern s" "kern (uncounted s3 pc c3) = kern s3" "kern (cond_waiting s1 cond) = kern s1"
    by (simp_all add: cond_counted_def uncounted_def cond_waiting_def)
  show "successively (cond_step T Q many (run s)) [cond_view own ps mutex cond s pl cp,
      cond_view own ps mutex cond s pl (cp(run s := C_Count (c_onwait c))),
      cond_view own ps mutex cond (cond_counted s pc c) pl (cp(run s := C_Unlock))]"
    using cond_step.read_inc [OF t(1), of "cond_view own ps mutex cond s pl cp" Q many]
      cond_step.write_inc [OF t(1), of "cond_view own ps mutex cond s pl (cp(run s := C_Count (c_onwait c)))" "c_onwait c" Q many] t(2,3)
    by (simp add: cond_view_at [OF c] cond_view_at [OF v0] l k)
  show "cond_step T Q many (run s) (cond_view own ps mutex cond s1 pl1 cp1)
      (cond_view own ps mutex cond (cond_waiting s1 cond) pl1 (cp1(run s := C_Wait)))"
    using cond_step.unlocked [OF t(1), of "cond_view own ps mutex cond s1 pl1 cp1" Q many] s1(2,3)
    by (simp add: cond_view_at [OF s1(1)] cond_view_at [OF v1] l k)
  show "successively (cond_step T Q many (run s)) [cond_view own ps mutex cond s3 pl3 cp3,
      cond_view own ps mutex cond s3 pl3 (cp3(run s := C_Locked)),
      cond_view own ps mutex cond s3 pl3 (cp3(run s := C_Uncount (c_onwait c3))),
      cond_view own ps mutex cond (uncounted s3 pc c3) pl3 (cp3(run s := C_Idle))]"
    using cond_step.locked [OF t(1), of "cond_view own ps mutex cond s3 pl3 cp3" Q many]
      cond_step.read_dec [OF t(1), of "cond_view own ps mutex cond s3 pl3 (cp3(run s := C_Locked))" Q many]
      cond_step.write_dec [OF t(1), of "cond_view own ps mutex cond s3 pl3 (cp3(run s := C_Uncount (c_onwait c3)))" "c_onwait c3" Q many] s3(2,3)
    by (simp add: cond_view_at [OF s3(1)] cond_view_at [OF v3] l k)
qed

text \<open>At the event a wait takes a post that is kept, and is blocked when there is none.\<close>

lemma event_piece:
  assumes ev: "cond_event E (c_event c) own ps wt many" and t: "t \<in> T" "cp t = C_Wait"
    and w: "DosWaitEventSem E (c_event c) tmo s = Some (Ret 0 s2)"
  shows "cond_step T Q many t (cond_view own ps mutex cond s pl cp)
    (if 0 < ps (kern s) then cond_view own ps mutex cond s2 pl (cp(t := C_Relock)) else cond_view own ps mutex cond s pl (cp(t := C_Blocked)))"
proof (cases "0 < ps (kern s)")
  case True
  then obtain k where k: "s2 = s\<lparr>kern := k\<rparr>" "ps k = ps (kern s) - 1" "own k = own (kern s)"
    using ev [unfolded cond_event_def, THEN conjunct2, rule_format, OF True, of tmo] w by auto
  have l: "lock_view own mutex s2 pl = lock_view own mutex s pl" by (rule lock_view_same) (simp_all add: k)
  show ?thesis
    using cond_step.pass [OF t(1), of "cond_view own ps mutex cond s pl cp" Q many] True t(2) l k
    by (simp add: cond_view_def cong: option.case_cong)
next
  case False
  then show ?thesis using cond_step.block [OF t(1), of "cond_view own ps mutex cond s pl cp" Q many] t(2) by simp
qed

section \<open>Properties\<close>

text \<open>
  C6: In every interleaving of waits that end by a post, signals and broadcasts, \<^verbatim>\<open>c_onwait\<close> is the number of threads in
  \<^verbatim>\<open>pthread_cond_wait\<close>: its increments and decrements, which are not atomic, never overwrite each other, because the mutex is held
  for each.  And no thread is blocked while the event keeps a post, so that a signal between the unlock and the wait is not lost.
\<close>

theorem waiters_counted:
  assumes "cond_run T {} many cond_start s" "finite T"
  shows "finite (waiters s) \<and> on_wait s = of_nat (card (waiters s)) \<and>
    (\<forall>t u. count_read (cond_place_of s t) \<noteq> None \<and> count_read (cond_place_of s u) \<noteq> None \<longrightarrow> t = u) \<and>
    (0 < posted s \<longrightarrow> (\<forall>u. cond_place_of s u \<noteq> C_Blocked))"
proof -
  have i: "cond_inv T s" using assms by (intro cond_inv_run [OF _ _ cond_inv_start])
  moreover have "post_free s" using assms(1) post_free_start by (rule post_free_run)
  ultimately show ?thesis
    using waiters_finite [OF assms(2) i] cond_invD(6) [OF i] count_read_once [OF i] by (auto simp: post_free_def)
qed

lemma two_blocked:
  "cond_run {1, 2, 3} Q many cond_start
     (cond_st NULL None (\<lambda>_. Outside) 2 0 ((\<lambda>_. C_Idle)(1 := C_Blocked, 2 := C_Blocked)))"
  using cond_run_trans [OF cond_block_path(2) [of 2 "{1, 2, 3}" "\<lambda>_. Outside" "(\<lambda>_. C_Idle)(1 := C_Blocked)" Q many "0 + 1"]
      cond_block_path(2) [of 1 "{1, 2, 3}" "\<lambda>_. Outside" "\<lambda>_. C_Idle" Q many 0]]
  by (simp add: cond_start_def lock_start_def)

theorem waiters_counted_witness:
  "\<exists>s. cond_run {1, 2, 3} {} True cond_start s \<and> waiters s = {1, 2} \<and> on_wait s = of_nat (card (waiters s))"
proof -
  let ?s = "cond_st NULL None (\<lambda>_. Outside) 2 0 ((\<lambda>_. C_Idle)(1 := C_Blocked, 2 := C_Blocked))"
  have "waiters ?s = {1, 2}" by (auto simp: waiters_def)
  with waiters_counted [OF two_blocked] two_blocked show ?thesis by (intro exI [of _ ?s]) simp
qed

text \<open>
  C7: A broadcast by a thread that holds the mutex wakes, by its last post, every thread that was blocked when it read the count,
  however its posts interleave with the other threads and however many posts the event keeps.  The threads it counted
  that had not reached their wait are sure to be released too if the event keeps every post that finds no thread: then none is
  blocked in the end and the event keeps a post for each of them.  All this for waits that end by a post only; what fails
  otherwise is shown in the last section.
\<close>

theorem broadcast_wakes_all:
  assumes "finite T" "card T < 2 ^ 32" and r: "cond_run T {} many cond_start r"
    and t: "cond_place_of r t = C_Idle" "place_of (mutex_part r) t = Inside"
    and begins: "cond_step T {} many t r s" "posting t s"
    and posts: "cond_during T {} many (posting t) s u" and ends: "cond_place_of u t = C_Post 0"
  shows "(\<forall>v. cond_place_of r v = C_Blocked \<longrightarrow> cond_place_of u v = C_Relock) \<and>
    (many \<longrightarrow> (\<forall>v. cond_place_of u v \<noteq> C_Blocked) \<and> card (pending u) \<le> posted u)"
proof -
  let ?B = "{v. cond_place_of r v = C_Blocked}"
  have "cond_inv T r" by (rule cond_inv_run [OF r assms(1) cond_inv_start])
  then have b: "bcast_inv T t ?B u"
    using bcast_during [OF posts assms(1) bcast_begins [OF assms(1,2) _ t begins]] by blast
  note i = bcast_invD(1) [OF b]
  have run: "cond_run T {} many cond_start u" by (rule during_run [OF posts cond_run.step [OF r begins(1)]])
  have "cond_place_of u v = C_Relock" if "v \<in> ?B" for v
  proof (rule ccontr)
    assume "cond_place_of u v \<noteq> C_Relock"
    then have v: "cond_place_of u v = C_Blocked" using bcast_invD(3) [OF b that] by blast
    then have "card (pending u) = 0" using bcast_invD(4) [OF b ends that] by simp
    moreover have "v \<in> pending u" using v by (simp add: pending_def is_pending_def)
    ultimately show False using pending_waits [OF i assms(1)] by auto
  qed
  moreover have "(\<forall>v. cond_place_of u v \<noteq> C_Blocked) \<and> card (pending u) \<le> posted u" if many
  proof -
    have "enough_posts cond_start" by (simp add: enough_posts_def cond_start_def)
    then have "enough_posts u" using enough_run [of T cond_start u] run that assms(1,2) cond_inv_start by auto
    then have p: "card (pending u) \<le> posted u"
      using ends bcast_invD(2) [OF b] unfolding enough_posts_def by (metis add_0 unat_0)
    then have "\<not> 0 < posted u \<Longrightarrow> pending u = {}" using pending_waits [OF i assms(1)] by simp
    moreover have "post_free u" using run post_free_start by (rule post_free_run)
    ultimately have "cond_place_of u v \<noteq> C_Blocked" for v
      unfolding post_free_def by (cases "0 < posted u") (auto simp: pending_def is_pending_def)
    with p show ?thesis by blast
  qed
  ultimately show ?thesis by blast
qed

text \<open>A third thread takes the mutex and broadcasts.\<close>

lemma cond_broadcast_path:
  assumes "t \<in> T" "t \<noteq> NULL" "pl t = Outside" "cp t = C_Idle"
    and "cond_run T Q many s (cond_st NULL None pl n k cp)"
  shows "cond_run T Q many s (cond_st t (Some t) (pl(t := Inside)) n k (cp(t := C_Post n)))"
  by (rule then_step [OF cond_run_trans [OF cond_lock_path [where pl = pl and cp = cp and t = t] assms(5)] cond_step.broadcast [OF assms(1)]])
     (use assms in auto)

text \<open>Two threads are blocked; the third broadcasts, over an event that keeps one post only.\<close>

theorem broadcast_wakes_all_witness:
  "\<exists>r s u. cond_run {1, 2, 3} {} False cond_start r \<and> cond_place_of r 1 = C_Blocked \<and> cond_place_of r 2 = C_Blocked \<and>
     cond_during {1, 2, 3} {} False (posting 3) s u \<and> cond_place_of u 1 = C_Relock \<and> cond_place_of u 2 = C_Relock"
proof -
  let ?cp = "(\<lambda>_. C_Idle)(1 := C_Blocked, 2 := C_Blocked)" and ?T = "{1, 2, 3} :: addr set"
  let ?st = "cond_st 3 (Some 3) ((\<lambda>_. Outside)(3 := Inside)) 2 0"
  have r: "cond_run ?T {} False cond_start (?st ?cp)"
    by (rule cond_run_trans [OF cond_lock_path [where t = 3] two_blocked]) auto
  have s: "cond_step ?T {} False 3 (?st ?cp) (?st (?cp(3 := C_Post 2)))"
    using cond_step.broadcast [of 3 ?T "?st ?cp" "{}" False] by simp
  have "cond_step ?T {} False 3 (?st (?cp(3 := C_Post 2))) (?st (?cp(1 := C_Relock, 3 := C_Post 1)))"
    by (rule cond_step.post [where n = 2], simp, simp, simp)
       (use post_step.wake [of "?st (?cp(3 := C_Post 1))" 1 False] in \<open>simp add: fun_upd_twist\<close>)
  moreover have "cond_step ?T {} False 3 (?st (?cp(1 := C_Relock, 3 := C_Post 1))) (?st (?cp(1 := C_Relock, 2 := C_Relock, 3 := C_Post 0)))"
    by (rule cond_step.post [where n = 1], simp, simp, simp)
       (use post_step.wake [of "?st (?cp(1 := C_Relock, 3 := C_Post 0))" 2 False] in \<open>simp add: fun_upd_twist\<close>)
  ultimately have d: "cond_during ?T {} False (posting 3) (?st (?cp(3 := C_Post 2))) (?st (?cp(1 := C_Relock, 2 := C_Relock, 3 := C_Post 0)))"
    by (intro cond_during.step [OF cond_during.step [OF cond_during.stop]]) (simp_all add: posting_def)
  show ?thesis
    using broadcast_wakes_all [OF _ _ r _ _ s _ d] r d
    by (intro exI [of _ "?st ?cp"] exI [of _ "?st (?cp(3 := C_Post 2))"] exI [of _ "?st (?cp(1 := C_Relock, 2 := C_Relock, 3 := C_Post 0))"])
       (simp add: posting_def)
qed

text \<open>
  C8: The functions take the interleaved steps, one by one, in the states in which they make their calls.
  \<^verbatim>\<open>pthread_cond_signal\<close> makes one post, a step which wakes a blocked thread or is kept; \<^verbatim>\<open>pthread_cond_broadcast\<close> reads the count and
  then makes so many posts, one step each.  \<^verbatim>\<open>pthread_cond_wait\<close>, whatever its calls of unlock and lock do, reads and writes the count,
  then unlocks, then waits, where it takes a post that is kept or is blocked, then locks, and then reads and writes the count
  again; each call is made in the state that the one before has left and the steps in between have led to.  (The steps of the unlock
  and the lock are those of the functions of the mutex.)  This is for a fast condition variable and a wait that ends by a post.
\<close>

theorem cond_calls_are_paths:
  assumes ev: "cond_event E (c_event c) own ps wt many" and b: "blocked_as wt s cp"
    and q: "quiet s" "mutex \<noteq> NULL" and c: "cond_at s cond pc c" "c_type c = COND_TYPE_FAST"
    and t: "run s \<in> T" "pl (run s) = Inside" "cp (run s) = C_Idle"
    and u: "unlock mutex (cond_counted s pc c) = Some (Ret r s1)" "run s1 = run s" "threads s1 (run s) \<noteq> None"
      "cond_at s1 cond pc c1" "c_event c1 = c_event c" "pl1 (run s) = Outside" "cp1 (run s) = C_Unlock"
    and w: "DosWaitEventSem E (c_event c) SEM_INDEFINITE_WAIT (cond_waiting s1 cond) = Some (Ret 0 s2)"
      "run s2 = run s" "threads s2 (run s) \<noteq> None"
    and l: "lock mutex (resumed s2) = Some (Ret 0 s3)" "quiet s3" "run s3 = run s"
      "cond_at s3 cond pc c3" "pl3 (run s) = Inside" "cp3 (run s) = C_Relock"
  shows "(let v = after_posts E (c_event c) s 1 in
     \<exists>cp'. pthread_cond_signal E cond s = Some (Ret 0 v) \<and> blocked_as wt v cp' \<and>
      post_step many (cond_view own ps mutex cond s pl cp) (cond_view own ps mutex cond v pl cp') \<and>
      cond_step T Q many (run s) (cond_view own ps mutex cond s pl cp) (cond_view own ps mutex cond v pl cp')) \<and>
    (let n = unat (c_onwait c); w = after_posts E (c_event c) s in
     \<exists>cps. pthread_cond_broadcast E cond s = Some (Ret 0 (w n)) \<and> blocked_as wt (w n) (cps n) \<and>
      cond_step T Q many (run s) (cond_view own ps mutex cond s pl cp) (cond_view own ps mutex cond (w 0) pl (cps 0)) \<and>
      cps 0 (run s) = C_Post (c_onwait c) \<and>
      (\<forall>i<n. cond_step T Q many (run s) (cond_view own ps mutex cond (w i) pl (cps i))
         (cond_view own ps mutex cond (w (Suc i)) pl (cps (Suc i)))) \<and>
      cond_step T Q many (run s) (cond_view own ps mutex cond (w n) pl (cps n))
        (cond_view own ps mutex cond (w n) pl ((cps n)(run s := C_Idle)))) \<and>
    pthread_cond_wait_by unlock lock E cond mutex s = Some (Ret 0 (uncounted s3 pc c3)) \<and>
    successively (cond_step T Q many (run s)) [cond_view own ps mutex cond s pl cp,
      cond_view own ps mutex cond s pl (cp(run s := C_Count (c_onwait c))),
      cond_view own ps mutex cond (cond_counted s pc c) pl (cp(run s := C_Unlock))] \<and>
    successively (cond_step T Q many (run s)) [cond_view own ps mutex cond s1 pl1 cp1,
      cond_view own ps mutex cond (cond_waiting s1 cond) pl1 (cp1(run s := C_Wait)),
      if 0 < ps (kern s1) then cond_view own ps mutex cond s2 pl1 (cp1(run s := C_Relock))
      else cond_view own ps mutex cond (cond_waiting s1 cond) pl1 (cp1(run s := C_Blocked))] \<and>
    successively (cond_step T Q many (run s)) [cond_view own ps mutex cond s3 pl3 cp3,
      cond_view own ps mutex cond s3 pl3 (cp3(run s := C_Locked)),
      cond_view own ps mutex cond s3 pl3 (cp3(run s := C_Uncount (c_onwait c3))),
      cond_view own ps mutex cond (uncounted s3 pc c3) pl3 (cp3(run s := C_Idle))]"
proof -
  note W = wait_pieces [where pl = pl and cp = cp and ?pl1.0 = pl1 and ?cp1.0 = cp1 and ?pl3.0 = pl3 and ?cp3.0 = cp3,
      OF c(1) t u(4,6,7) l(4-6)]
  have k: "kern (cond_waiting s1 cond) = kern s1" by (simp add: cond_waiting_def)
  have e: "cond_step T Q many (run s) (cond_view own ps mutex cond (cond_waiting s1 cond) pl1 (cp1(run s := C_Wait)))
    (if 0 < ps (kern s1) then cond_view own ps mutex cond s2 pl1 (cp1(run s := C_Relock))
      else cond_view own ps mutex cond (cond_waiting s1 cond) pl1 (cp1(run s := C_Blocked)))"
    using event_piece [where pl = pl1 and cp = "cp1(run s := C_Wait)" and Q = Q and mutex = mutex and cond = cond, OF ev t(1) _ w(1)] unfolding k fun_upd_upd by simp
  have w': "DosWaitEventSem E (c_event c1) SEM_INDEFINITE_WAIT (cond_waiting s1 cond) = Some (Ret 0 s2)" by (simp add: u(5) w(1))
  show ?thesis
  proof (intro conjI)
    show "pthread_cond_wait_by unlock lock E cond mutex s = Some (Ret 0 (uncounted s3 pc c3))"
      by (rule wait_by_run [where unlock = unlock and lock = lock, OF q c u(1-4) w' w(2,3) l(1-4)])
    show "let v = after_posts E (c_event c) s 1 in
     \<exists>cp'. pthread_cond_signal E cond s = Some (Ret 0 v) \<and> blocked_as wt v cp' \<and>
      post_step many (cond_view own ps mutex cond s pl cp) (cond_view own ps mutex cond v pl cp') \<and>
      cond_step T Q many (run s) (cond_view own ps mutex cond s pl cp) (cond_view own ps mutex cond v pl cp')"
      unfolding Let_def by (rule signal_piece [OF ev c t(1) _ t(3) b]) (simp add: t(2))
    show "let n = unat (c_onwait c); w = after_posts E (c_event c) s in
     \<exists>cps. pthread_cond_broadcast E cond s = Some (Ret 0 (w n)) \<and> blocked_as wt (w n) (cps n) \<and>
      cond_step T Q many (run s) (cond_view own ps mutex cond s pl cp) (cond_view own ps mutex cond (w 0) pl (cps 0)) \<and>
      cps 0 (run s) = C_Post (c_onwait c) \<and>
      (\<forall>i<n. cond_step T Q many (run s) (cond_view own ps mutex cond (w i) pl (cps i))
         (cond_view own ps mutex cond (w (Suc i)) pl (cps (Suc i)))) \<and>
      cond_step T Q many (run s) (cond_view own ps mutex cond (w n) pl (cps n))
        (cond_view own ps mutex cond (w n) pl ((cps n)(run s := C_Idle)))"
      unfolding Let_def by (rule broadcast_pieces [OF ev c t(1) _ t(3) b]) (simp add: t(2))
  qed (use W e in simp_all)
qed


lemma demo_cond_event: "cond_event demo_os 8 (\<lambda>k. sem k 7) (\<lambda>k. posts k 8) (\<lambda>_. {}) True"
  by (auto simp: cond_event_def keep_post_def demo_wait_def Let_def)

theorem cond_calls_are_paths_witness:
  "\<exists>s1 (s2 :: demo_kern world) t. pthread_cond_signal demo_os 32 demo_posted = Some (Ret 0 (after_posts demo_os 8 demo_posted 1)) \<and>
     pthread_cond_wait demo_os 32 30 demo_posted = Some (Ret 0 t) \<and>
     pthread_mutex_unlock demo_os 30 (cond_counted demo_posted 42 demo_cond) = Some (Ret 0 s1) \<and>
     successively (cond_step {10} {} True 10) [cond_view (\<lambda>k. sem k 7) (\<lambda>k. posts k 8) 30 32 s1 (\<lambda>_. Outside) ((\<lambda>_. C_Idle)(10 := C_Unlock)),
       cond_view (\<lambda>k. sem k 7) (\<lambda>k. posts k 8) 30 32 (cond_waiting s1 32) (\<lambda>_. Outside) ((\<lambda>_. C_Idle)(10 := C_Wait)),
       cond_view (\<lambda>k. sem k 7) (\<lambda>k. posts k 8) 30 32 s2 (\<lambda>_. Outside) ((\<lambda>_. C_Idle)(10 := C_Relock))]"
proof -
  let ?m = "demo_mutex\<lparr>m_owner := 10\<rparr>" and ?own = "\<lambda>k. sem k 7" and ?c = "demo_cond\<lparr>c_onwait := 1\<rparr>"
  let ?begun = "cond_counted demo_posted 42 demo_cond" and ?idle = "\<lambda>_. C_Idle"
  let ?s1 = "?begun\<lparr>mutexes := (mutexes demo_posted)(40 := Some demo_mutex),
    kern := kst (DosReleaseMutexSem demo_os 7) demo_posted\<rparr>"
  let ?s2 = "(cond_waiting ?s1 32)\<lparr>kern := (kern ?s1)\<lparr>posts := (posts (kern ?s1))(8 := 0)\<rparr>\<rparr>"
  obtain th where th: "threads demo_posted 10 = Some th" by (rule quietE [OF demo_posted_facts(3)]) simp
  have u: "pthread_mutex_unlock demo_os 30 ?begun = Some (Ret 0 ?s1)"
    using unlock_owner [of ?begun 30 40 ?m demo_os] demo_posted_facts(4) by (simp add: cond_counted_def) (simp add: demo_mutex_def)
  have k: "sem (kern ?s1) 7 = None" "posts (kern ?s1) 8 = 1"
    by (simp_all add: demo_posted_def kst_def demo_release_def)
  have s1: "run ?s1 = 10" "threads ?s1 10 \<noteq> None" "quiet ?s1" "mutex_at ?s1 30 40 demo_mutex" "cond_at ?s1 32 42 ?c"
    using th cond_at_new [of demo_posted 32 42 demo_cond ?c] by (simp_all add: cond_counted_def mutex_at_def demo_posted_def demo_holding_def cond_at_def)
  have w: "DosWaitEventSem demo_os 8 SEM_INDEFINITE_WAIT (cond_waiting ?s1 32) = Some (Ret 0 ?s2)"
    using k(2) by (simp add: demo_wait_def Let_def cond_waiting_def)
  have "quiet ?s2" using s1(3) by (auto simp: cond_waiting_def quiet_def split: option.splits)
  then have "may_lock demo_os ?own MUTEX_TYPE_FAST 30 7 (resumed ?s2)"
    using s1(4) k(1) demo_mutex_sem [of 7] by (intro resumed_may_lock) (simp add: may_lock_def mutex_free_def cond_waiting_def mutex_at_def)
  from may_lock_lock_state [OF this] obtain k3 g where
    l: "pthread_mutex_lock demo_os 30 (resumed ?s2) = Some (Ret 0 ((back_from (resumed ?s2) 30 k3)\<lparr>mutexes := g\<rparr>))" by blast
  let ?s3 = "(back_from (resumed ?s2) 30 k3)\<lparr>mutexes := g\<rparr>"
  have s3: "quiet ?s3" "run ?s3 = 10" "cond_at ?s3 32 42 ?c" using \<open>quiet ?s2\<close> s1 by (simp_all add: cond_waiting_def)
  have s2: "run ?s2 = 10" "threads ?s2 10 \<noteq> None" using s1(1,2) by (simp_all add: cond_waiting_def)
  have b: "blocked_as (\<lambda>_. {}) demo_posted ?idle" by (simp add: blocked_as_def)
  note P = cond_calls_are_paths [where s = demo_posted and c = demo_cond and cond = 32 and mutex = 30 and pc = 42 and T = "{10}" and Q = "{}"
      and cp = ?idle and pl = "(\<lambda>_. Outside)(10 := Inside)" and unlock = "pthread_mutex_unlock demo_os" and lock = "pthread_mutex_lock demo_os"
      and ?c1.0 = ?c and ?c3.0 = ?c and ?pl1.0 = "\<lambda>_. Outside" and ?cp1.0 = "?idle(10 := C_Unlock)"
      and ?pl3.0 = "(\<lambda>_. Outside)(10 := Inside)" and ?cp3.0 = "?idle(10 := C_Relock)" and ?s1.0 = ?s1 and ?s2.0 = ?s2 and ?s3.0 = ?s3 and r = 0,
      unfolded demo_posted_facts(1) demo_cond_sel, OF demo_cond_event b demo_posted_facts(3) _ demo_posted_facts(5) _ _ _ _ u s1(1,2,5) _ _ _ w s2 l s3]
  from P have "pthread_cond_signal demo_os 32 demo_posted = Some (Ret 0 (after_posts demo_os 8 demo_posted 1))"
    by (simp add: Let_def)
  moreover have "pthread_cond_wait demo_os 32 30 demo_posted = Some (Ret 0 (uncounted ?s3 42 ?c))"
    using P by (simp add: pthread_cond_wait_def)
  moreover note u
  moreover from P k(2) have "successively (cond_step {10} {} True 10)
      [cond_view ?own (\<lambda>k. posts k 8) 30 32 ?s1 (\<lambda>_. Outside) (?idle(10 := C_Unlock)),
       cond_view ?own (\<lambda>k. posts k 8) 30 32 (cond_waiting ?s1 32) (\<lambda>_. Outside) (?idle(10 := C_Wait)),
       cond_view ?own (\<lambda>k. posts k 8) 30 32 ?s2 (\<lambda>_. Outside) (?idle(10 := C_Relock))]" by simp
  ultimately show ?thesis by - (intro exI conjI, assumption+)
qed

section \<open>What goes wrong\<close>

text \<open>
  If the event keeps one post only, a broadcast can pass a thread by: of two threads that have given up the mutex and not yet
  reached their wait, one finds the post and the other is blocked.
\<close>

lemma broadcast_misses:
  "\<exists>s. cond_run {1, 2, 3} {} False cond_start s \<and> cond_place_of s 3 = C_Post 0 \<and> place_of (mutex_part s) 3 = Inside \<and>
     cond_place_of s 2 = C_Blocked \<and> posted s = 0"
proof -
  let ?T = "{1, 2, 3} :: addr set" and ?cp = "(\<lambda>_. C_Idle)(1 := C_Wait, 2 := C_Wait)"
  let ?st = "cond_st 3 (Some 3) ((\<lambda>_. Outside)(3 := Inside)) 2"
  have "cond_run ?T {} False cond_start (cond_st NULL None (\<lambda>_. Outside) 2 0 ?cp)"
    using cond_run_trans [OF cond_block_path(1) [of 2 ?T "\<lambda>_. Outside" "(\<lambda>_. C_Idle)(1 := C_Wait)" "{}" False "0 + 1" 0]
        cond_block_path(1) [of 1 ?T "\<lambda>_. Outside" "\<lambda>_. C_Idle" "{}" False 0 0]]
    by (simp add: cond_start_def lock_start_def)
  then have "cond_run ?T {} False cond_start (?st 0 (?cp(3 := C_Post 2)))"
    by (rule cond_broadcast_path [rotated 4]) auto
  then have "cond_run ?T {} False cond_start (?st 1 (?cp(3 := C_Post 1)))"
    by (rule then_step [OF _ cond_step.post [where t = 3 and n = 2, OF _ _ _ post_step.keep]]) (auto simp: keep_post_def)
  then have "cond_run ?T {} False cond_start (?st 1 (?cp(3 := C_Post 0)))"
    by (rule then_step [OF _ cond_step.post [where t = 3 and n = 1, OF _ _ _ post_step.keep]]) (auto simp: keep_post_def)
  then have "cond_run ?T {} False cond_start (?st 0 (?cp(1 := C_Relock, 3 := C_Post 0)))"
    by (rule then_step [OF _ cond_step.pass [where t = 1]]) (auto simp: fun_upd_twist)
  then have "cond_run ?T {} False cond_start (?st 0 (?cp(1 := C_Relock, 2 := C_Blocked, 3 := C_Post 0)))"
    by (rule then_step [OF _ cond_step.block [where t = 2]]) (auto simp: fun_upd_twist)
  then show ?thesis by - (rule exI, rule conjI, assumption, simp)
qed

text \<open>
  A wait that times out takes itself off the count without the mutex.  Its decrement can overwrite the increment of a thread that
  begins to wait: then the count is 0 while that thread is blocked, and a broadcast makes no post.
\<close>

lemma timeout_loses_waiter:
  "\<exists>s. cond_run {1, 2, 3} {1} many cond_start s \<and> cond_place_of s 2 = C_Blocked \<and> on_wait s = 0 \<and>
     cond_place_of s 3 = C_Post 0 \<and> place_of (mutex_part s) 3 = Inside"
proof -
  let ?T = "{1, 2, 3} :: addr set" and ?st = "cond_st NULL None (\<lambda>_. Outside)" and ?cp = "\<lambda>c. (\<lambda>_. C_Idle)(1 := c)"
  have "cond_run ?T {1} many cond_start (?st 1 0 (?cp C_Blocked))"
    using cond_block_path(2) [of 1 ?T "\<lambda>_. Outside" "\<lambda>_. C_Idle" "{1}" many 0] by (simp add: cond_start_def lock_start_def)
  then have "cond_run ?T {1} many cond_start (?st 1 0 (?cp C_Failed))"
    by (rule then_step [OF _ cond_step.fail [where t = 1]]) auto
  then have r: "cond_run ?T {1} many cond_start (?st 1 0 (?cp (C_Uncount 1)))"
    by (rule then_step [OF _ cond_step.read_dec [where t = 1]]) auto
  have "cond_run ?T {1} many cond_start (?st 2 0 ((?cp (C_Uncount 1))(2 := C_Blocked)))"
    using cond_run_trans [OF cond_block_path(2) [of 2 ?T "\<lambda>_. Outside" "?cp (C_Uncount 1)" "{1}" many 1] r] by simp
  then have "cond_run ?T {1} many cond_start (?st 0 0 ((?cp C_Idle)(2 := C_Blocked)))"
    by (rule then_step [OF _ cond_step.write_dec [where t = 1 and n = 1]]) (auto simp: fun_upd_twist)
  then have "cond_run ?T {1} many cond_start
      (cond_st 3 (Some 3) ((\<lambda>_. Outside)(3 := Inside)) 0 0 ((?cp C_Idle)(2 := C_Blocked, 3 := C_Post 0)))"
    by (rule cond_broadcast_path [rotated 4]) auto
  then show ?thesis by - (rule exI, rule conjI, assumption, simp)
qed

end
