(* ===== verification/Lifecycle.thy ===== *)
theory Lifecycle
  imports Create
begin

text \<open>
  The life of a thread, from its creation to the join: \<^verbatim>\<open>_thread_create2\<close> of \<^verbatim>\<open>uthread_create.c\<close>, the start routine,
  \<^verbatim>\<open>pthread_exit\<close> and \<^verbatim>\<open>pthread_join\<close> in one piece, as the test \<^verbatim>\<open>tests/test_pthread_join.c\<close> uses them with a thread that has
  ended before it is joined.
\<close>

text \<open>What ends the thread does not go on.\<close>

lemma seqM_ended:
  assumes "m s = bindM f (\<lambda>r. stopM e) t"
  shows "seqM m n s = bindM f (\<lambda>r. stopM e) t"
  using assms by (simp add: seqM_def bindM_def stopM_def split: option.splits res.splits)

lemma dead_list_new:
  assumes "dead_list s ds" "threads s p = None" "threads s' = (threads s)(p := Some t)" "thread_dead s' = thread_dead s"
  shows "dead_list s' ds \<and> p \<notin> set ds"
proof -
  have "p \<notin> set ds"
    using chain_alloc [of "nlink (threads s)" "thread_dead s" ds p] assms(1,2) by (auto simp: dead_list_def nlink_def)
  with assms show ?thesis by (simp add: dead_list_def nlink_upd)
qed

text \<open>
  C18: A thread that is created, runs its start routine and returns from it leaves the lists as they were but for itself, which is then
  the first of the dead threads; and \<^verbatim>\<open>pthread_join\<close> of any registered thread returns 0 for it and stores what the start
  routine returned.  The start routine \<open>f\<close> returns \<open>v\<close> and leaves the library's data alone; the thread is not created detached
  or suspended.
\<close>

theorem created_thread_joined:
  assumes u: "cur s \<noteq> 1" "cur s \<noteq> 0"
    and m: "kres (malloc E) s = p" "p \<noteq> NULL" "threads s p = None"
    and i: "ci \<noteq> NULL" "creations s ci = Some info" "ci_parent info = NULL"
    and a: "ref_attr s (ci_attr info) = Some a" "cleanup_attr a = NULL" "at_flags a AND PTHREAD_DETACHED = 0"
    and c: "ci_creator info \<noteq> NULL" "threads s (ci_creator info) = Some ct"
      "0 \<le> at_prio (th_attr ct)" "at_prio (th_attr ct) \<le> 126"
    and f: "at_flags a AND PTHREAD_INHERIT_SCHED = 0" "at_suspend a \<noteq> PTHREAD_CREATE_SUSPENDED"
    and l: "lists_ok s xs ds" and plain: "plain_calls E effect"
    and run: "\<And>s. call_fun E (ci_start_routine info) (ci_start_arg info) s =
      Some (Ret v (s\<lparr>kern := effect (ci_start_routine info) (ci_start_arg info) (cur s) (kern s)\<rparr>))"
    and j: "joiner \<noteq> cur s" "inited (s\<lparr>cur := joiner\<rparr>)" "ret \<noteq> NULL" "ptrs s ret = Some w"
  shows "\<exists>s1 s2. thread_create2 E ci argp s = bindM (DosSleep E 1) (\<lambda>rc. stopM End_Thread) s1 \<and>
    lists_ok s1 xs (p # ds) \<and>
    pthread_join E p ret (s1\<lparr>cur := joiner\<rparr>) = Some (Ret 0 s2) \<and> ptrs s2 = (ptrs s)(ret := Some v)"
proof -
  have live: "live_list s xs" and dead: "dead_list s ds" and dj: "set xs \<inter> set ds = {}"
    using l by (simp_all add: lists_ok_def)
  from create2_run [OF u m i a(1) c f live, of argp] obtain s' t where
    e: "thread_create2 E ci argp s = bindM (call_fun E (ci_start_routine info) (ci_start_arg info)) (\<lambda>v.
        seqM (pthread_exit E v) (thread_exit ''uthread_create.c'' 127 ''Thread has resumed after exit'')) s'"
    and s': "threads s' = (threads s)(p := Some t)" "live_list s' (p # xs)" "run s' = p" "inited s'" "cur s' = cur s"
      "threadstore s' = (threadstore s)(cur s := p)" "same_rest s s'"
    and t: "th_cleanup t = NULL" "specific_data t = NULL" "parent_thread t = NULL" "th_attr t = a" by blast
  let ?s = "s'\<lparr>kern := effect (ci_start_routine info) (ci_start_arg info) (cur s') (kern s')\<rparr>"
  have np: "p \<notin> set xs" using live_list_alloc [OF live, of p] m(3) by auto
  have "dead_list s' ds \<and> p \<notin> set ds"
    using s'(7) by (intro dead_list_new [OF dead m(3) s'(1)]) (simp add: same_rest_def)
  then have lists: "lists_ok ?s (p # xs) ds"
    using s'(2) dj by (simp add: lists_ok_def live_list_def dead_list_def)
  have o: "inited ?s" "p = run ?s" "p \<in> set (p # xs)" "threads ?s p = Some t" "cleanup_attr (th_attr t) = NULL"
    "handler_list (cleanups ?s) (th_cleanup t) []" "spec_ok ?s t (\<lambda>_. NULL)" "\<not> detached t"
    "inited (?s\<lparr>cur := joiner\<rparr>)" "ptrs ?s ret = Some w"
    using s' t a j by (simp_all add: spec_ok_def detached_def same_rest_def inited_def run_def)
  from exit_then_join [OF plain o(1) lists o(2-5) t(3) o(6-9) j(3) o(10), of v] obtain s1 s2 where
    x: "pthread_exit E v ?s = bindM (DosSleep E 1) (\<lambda>rc. stopM End_Thread) s1" "lists_ok s1 xs (p # ds)"
      "pthread_join E p ret (s1\<lparr>cur := joiner\<rparr>) = Some (Ret 0 s2)" "ptrs s2 = (ptrs s)(ret := Some v)"
    using s'(7) np by (auto simp: same_rest_def)
  have "thread_create2 E ci argp s = bindM (DosSleep E 1) (\<lambda>rc. stopM End_Thread) s1"
    unfolding e bindM_run [where m = "call_fun E (ci_start_routine info) (ci_start_arg info)", OF run]
    by (rule seqM_ended [where m = "pthread_exit E v", OF x(1)])
  with x show ?thesis by blast
qed

theorem created_thread_joined_witness:
  "\<exists>s1 s2. thread_create2 demo_os 90 95 demo_creating = bindM (DosSleep demo_os 1) (\<lambda>rc. stopM End_Thread) s1 \<and>
     lists_ok s1 [20, 10] [1000] \<and> pthread_join demo_os 1000 30 (s1\<lparr>cur := 1\<rparr>) = Some (Ret 0 s2) \<and>
     ptrs demo_creating 30 = Some 40 \<and> ptrs s2 30 = Some NULL"
proof -
  let ?i = "\<lparr>ci_newthread = NULL, ci_parent = NULL, ci_creator = 10, ci_attr = Default_Attr,
      ci_start_routine = 55, ci_start_arg = 66, ci_ack = 100\<rparr>"
  have s: "cur demo_creating = 5" "kres (malloc demo_os) demo_creating = 1000" "threads demo_creating 1000 = None"
    "creations demo_creating 90 = Some ?i" "threads demo_creating 10 = Some demo_thread" "ptrs demo_creating 30 = Some 40"
    "inited (demo_creating\<lparr>cur := 1\<rparr>)"
    by (simp_all add: demo_creating_def kres_def inited_def run_def)
  have l: "lists_ok demo_creating [20, 10] []"
    by (simp add: demo_creating_def lists_ok_def live_list_def dead_list_def nlink_def)
  have a: "ref_attr demo_creating (ci_attr ?i) = Some pthread_attr_default" "cleanup_attr pthread_attr_default = NULL"
    "at_flags pthread_attr_default AND PTHREAD_DETACHED = 0" "at_flags pthread_attr_default AND PTHREAD_INHERIT_SCHED = 0"
    "at_suspend pthread_attr_default \<noteq> PTHREAD_CREATE_SUSPENDED" "th_attr demo_thread = pthread_attr_default"
    "0 \<le> at_prio pthread_attr_default" "at_prio pthread_attr_default \<le> 126"
    by (simp_all add: ref_attr_def pthread_attr_default_def PTHREAD_CREATE_RUNNING_def PTHREAD_CREATE_SUSPENDED_def
        PTHREAD_DEFAULT_PRIORITY_def)
  from created_thread_joined [where s = demo_creating and E = demo_os and ci = 90 and info = ?i and joiner = 1 and ret = 30
      and w = 40 and argp = 95 and v = NULL and p = 1000 and a = pthread_attr_default and ct = demo_thread and xs = "[20, 10]"
      and ds = "[]" and effect = "\<lambda>f x u k. k\<lparr>calls := calls k @ [(f, x)]\<rparr>"]
  show ?thesis using s l a demo_plain by (simp add: demo_call_def) fastforce
qed

end
