(* ===== verification/MutexProgress.thy ===== *)
theory MutexProgress
  imports MutexConc
begin

text \<open>
  Progress of the interleaved locks and unlocks of \<open>MutexConc\<close>: a thread that asks for the
  mutex can always still get it, because whoever has the semaphore has at most four steps of its
  own to the release, and none of them can be refused.
\<close>

section \<open>The holder reaches its release\<close>

text \<open>How many steps of its own a thread in this place is from giving the semaphore back.\<close>

fun to_release :: "place \<Rightarrow> nat" where
  "to_release L_Granted = 4"
| "to_release Inside = 3"
| "to_release U_Checked = 2"
| "to_release U_Cleared = 1"
| "to_release p = 0"

text \<open>\<open>solo t n s u\<close>: thread \<open>t\<close> alone takes \<open>s\<close> to \<open>u\<close>, in \<open>n\<close> steps.\<close>

inductive solo :: "addr \<Rightarrow> nat \<Rightarrow> lock_state \<Rightarrow> lock_state \<Rightarrow> bool" where
  here: "solo t 0 s s"
| go: "lock_step t s u \<Longrightarrow> solo t n u v \<Longrightarrow> solo t (Suc n) s v"

lemma lock_run_step_first: "lock_run u v \<Longrightarrow> lock_step t s u \<Longrightarrow> lock_run s v"
  by (induction rule: lock_run.induct) (auto intro: lock_run.intros)

lemma lock_run_append: "lock_run u v \<Longrightarrow> lock_run s u \<Longrightarrow> lock_run s v"
  by (induction rule: lock_run.induct) (auto intro: lock_run.step)

lemma solo_run: "solo t n s u \<Longrightarrow> lock_run s u"
  by (induction rule: solo.induct) (auto intro: lock_run.stop lock_run_step_first)

lemma owns_sem_to_release: "owns_sem p \<longleftrightarrow> 0 < to_release p"
  by (cases p) (simp_all add: places)

text \<open>Only the threads in a place take part: \<^verbatim>\<open>NULL\<close> is no thread.\<close>

lemma real_step: "lock_step t s u \<Longrightarrow> place_of s NULL = Outside \<Longrightarrow> place_of u NULL = Outside"
  by (auto elim!: lock_stepE)

lemma real_run: "lock_run s u \<Longrightarrow> place_of s NULL = Outside \<Longrightarrow> place_of u NULL = Outside"
  by (induction rule: lock_run.induct) (auto dest: real_step)

lemma one_closer:
  assumes inv: "lock_inv s" and t: "t \<noteq> NULL" "owns_sem (place_of s t)"
  shows "\<exists>u. lock_step t s u \<and> to_release (place_of u t) = to_release (place_of s t) - 1 \<and>
    (\<forall>x. x \<noteq> t \<longrightarrow> place_of u x = place_of s x)"
proof (cases "place_of s t")
  case L_Granted
  with lock_step.own [OF t(1) L_Granted] show ?thesis by (intro exI conjI) auto
next
  case Inside
  then have "owner_field s = t" using lock_invD(2) [OF inv, of t] by (simp add: places)
  with Inside lock_step.unlock [OF t(1), of s] show ?thesis by (intro exI conjI) auto
next
  case U_Checked
  with lock_step.clear [OF t(1) U_Checked] show ?thesis by (intro exI conjI) auto
next
  case U_Cleared
  with lock_step.release [OF t(1) U_Cleared] show ?thesis by (intro exI conjI) auto
qed (use t in \<open>auto simp: places\<close>)

lemma holder_releases:
  assumes "lock_inv s" and "t \<noteq> NULL"
  shows "\<exists>u. solo t (to_release (place_of s t)) s u \<and> lock_inv u \<and> \<not> owns_sem (place_of u t) \<and>
    (\<forall>x. x \<noteq> t \<longrightarrow> place_of u x = place_of s x)"
  using assms(1)
proof (induction "to_release (place_of s t)" arbitrary: s)
  case 0
  then have "\<not> owns_sem (place_of s t)" by (simp add: owns_sem_to_release)
  with 0 show ?case by (auto intro: solo.here)
next
  case (Suc n)
  then have "owns_sem (place_of s t)" by (simp add: owns_sem_to_release)
  from one_closer [OF Suc.prems assms(2) this] obtain v where
    v: "lock_step t s v" "to_release (place_of v t) = n" "\<forall>x. x \<noteq> t \<longrightarrow> place_of v x = place_of s x"
    using Suc.hyps(2) by auto
  from Suc.hyps(1) [OF v(2) [symmetric] lock_inv_step [OF v(1) Suc.prems]] obtain u where
    u: "solo t n v u" "lock_inv u" "\<not> owns_sem (place_of u t)" "\<forall>x. x \<noteq> t \<longrightarrow> place_of u x = place_of v x"
    using v(2) by auto
  have "solo t (to_release (place_of s t)) s u"
    using solo.go [OF v(1) u(1)] Suc.hyps(2) by simp
  with u v show ?case by auto
qed

lemma to_release_le: "to_release p \<le> 4"
  by (cases p) simp_all

section \<open>Property\<close>

text \<open>The steps of a thread that is waiting, once the semaphore is free.\<close>

lemma enters:
  assumes "t \<noteq> NULL" "place_of s t = L_Requesting" "sem_owner s = None"
  shows "\<exists>u. solo t 2 s u \<and> place_of u t = Inside"
proof -
  let ?v = "s\<lparr>sem_owner := Some t, place_of := (place_of s)(t := L_Granted)\<rparr>"
  let ?u = "?v\<lparr>owner_field := t, place_of := (place_of ?v)(t := Inside)\<rparr>"
  have "lock_step t ?v ?u" using assms by (intro lock_step.own) simp_all
  moreover have "lock_step t s ?v" using assms by (rule lock_step.request)
  ultimately have "solo t (Suc (Suc 0)) s ?u" by (blast intro: solo.intros)
  then show ?thesis by (intro exI [of _ ?u]) (simp add: numeral_2_eq_2)
qed

text \<open>C5: No thread is shut out of the mutex for ever by the state it finds: from every state that
  locks and unlocks can reach, a thread that is requesting the semaphore gets inside once the
  thread that has it, if any, takes at most four steps on its own way to the release and the requester two.
  The library never leaves the semaphore owned by a thread that cannot go on to release it.\<close>

theorem mutex_never_stuck:
  assumes run: "lock_run lock_start s" and t: "place_of s t = L_Requesting"
  shows "\<exists>h n u v. n \<le> 4 \<and> solo h n s u \<and> solo t 2 u v \<and> place_of v t = Inside \<and>
    (sem_owner s = None \<longrightarrow> n = 0) \<and> (\<forall>x. sem_owner s = Some x \<longrightarrow> h = x) \<and> lock_run lock_start v"
proof -
  have inv: "lock_inv s" by (rule lock_inv_run [OF run lock_inv_start])
  have null: "place_of s NULL = Outside" using real_run [OF run] by (simp add: lock_start_def)
  with t have nn: "t \<noteq> NULL" by (intro notI) simp
  define h where "h = (case sem_owner s of None \<Rightarrow> t | Some x \<Rightarrow> x)"
  have h: "h \<noteq> NULL"
    using lock_invD(1) [OF inv, of NULL] null nn by (auto simp: h_def places split: option.splits)
  from holder_releases [OF inv h] obtain u where
    u: "solo h (to_release (place_of s h)) s u" "lock_inv u" "\<not> owns_sem (place_of u h)"
      "\<forall>x. x \<noteq> h \<longrightarrow> place_of u x = place_of s x" by blast
  have zero: "to_release (place_of s h) = 0" if "sem_owner s = None"
    using that t by (simp add: h_def)
  have ph: "place_of u t = L_Requesting"
  proof (cases "h = t")
    case True
    then have "sem_owner s = None"
      using lock_invD(1) [OF inv, of t] t by (auto simp: h_def places split: option.splits)
    with zero u(1) t show ?thesis by (auto elim: solo.cases)
  next
    case False
    with u(4) t show ?thesis by simp
  qed
  have "sem_owner u = None"
  proof (rule ccontr)
    assume "sem_owner u \<noteq> None"
    then obtain x where x: "sem_owner u = Some x" by auto
    then have "owns_sem (place_of u x)" using lock_invD(1) [OF u(2), of x] by simp
    with u(3) have "x \<noteq> h" by auto
    with u(4) \<open>owns_sem (place_of u x)\<close> have "owns_sem (place_of s x)" by simp
    then have "sem_owner s = Some x" using lock_invD(1) [OF inv, of x] by simp
    with \<open>x \<noteq> h\<close> show False by (simp add: h_def)
  qed
  from enters [OF nn ph this] obtain v where v: "solo t 2 u v" "place_of v t = Inside" by blast
  have "lock_run lock_start v"
    by (rule lock_run_append [OF solo_run [OF v(1)] lock_run_append [OF solo_run [OF u(1)] run]])
  moreover have "\<forall>x. sem_owner s = Some x \<longrightarrow> h = x" by (simp add: h_def)
  ultimately show ?thesis using to_release_le u(1) v zero
    by (intro exI [of _ h] exI [of _ "to_release (place_of s h)"] exI [of _ u] exI [of _ v] conjI) simp_all
qed

theorem mutex_never_stuck_witness:
  "\<exists>s h n u v. place_of s 10 = Inside \<and> place_of s 20 = L_Requesting \<and> n \<le> 4 \<and> solo h n s u \<and> solo 20 2 u v \<and>
     place_of v 20 = Inside \<and> h = 10"
proof -
  let ?a = "\<lparr>owner_field = 10, sem_owner = Some 10, place_of = (\<lambda>_. Outside)(10 := Inside)\<rparr>"
  let ?s = "?a\<lparr>place_of := (place_of ?a)(20 := L_Requesting)\<rparr>"
  have "lock_run lock_start ?a"
    using lock_path [of 10 "\<lambda>_. Outside"] by (simp add: lock_start_def)
  moreover have "lock_step 20 ?a ?s" by (rule lock_step.check) simp_all
  ultimately have r: "lock_run lock_start ?s" by (rule lock_run.step)
  have "place_of ?s 20 = L_Requesting" "place_of ?s 10 = Inside" "sem_owner ?s = Some 10" by simp_all
  then show ?thesis using mutex_never_stuck [OF r, of 20] by (intro exI [of _ ?s]) auto
qed

end
