(* ===== verification/SigConc.thy ===== *)
theory SigConc
  imports SigSpec
begin

text \<open>
  Threads that send signals to one thread while it looks for them.  \<open>SigCalls\<close> and \<open>Delivery\<close> run
  a call of one thread from beginning to end; here \<^verbatim>\<open>pthread_kill\<close> and the delivery at the end of the
  target's own calls are cut at their accesses to shared data, the target's set of pending signals, its count
  \<^verbatim>\<open>sig_pending\<close> and the count \<^verbatim>\<open>_signals_blocked\<close> of the process, and the pieces interleave in any order.

  The target is not the initial thread of the process, to which \<^verbatim>\<open>pthread_kill\<close> sends by \<^verbatim>\<open>kill\<close>.
\<close>

section \<open>Steps\<close>

text \<open>
  Where a sender is in \<^verbatim>\<open>pthread_kill\<close>: outside, with a value of \<^verbatim>\<open>_signals_blocked\<close> it has read and not yet written back,
  in the section, past the \<^verbatim>\<open>switch\<close> on the state it has seen, with the signal added to the set, and at the end of the section.
\<close>

datatype sender_place =
    S_Out
  | S_Entering int int
  | S_In int
  | S_Seen pthread_state int
  | S_Added pthread_state int
  | S_Done

text \<open>
  Where the target is: in other code, past the test of its count, in \<^verbatim>\<open>pthread_signal\<close> after it unblocked a signal, in
  \<^verbatim>\<open>pthread_sigmask\<close> after it stored the mask, in the loop of \<^verbatim>\<open>_sys_deliver_pending_signals\<close> at a signal,
  in \<^verbatim>\<open>uthread_deliver_signal\<close> before it clears the signal, with the set read and not yet written back, in the
  wait of \<^verbatim>\<open>pthread_pause\<close>, and after it.
\<close>

datatype target_place =
    T_Out
  | T_Tested
  | T_Acked
  | T_Masked
  | T_Scan int
  | T_Found int
  | T_Loaded int u32
  | T_Asleep
  | T_Awake

text \<open>
  Of the state of the process, what these steps share: the target's \<^verbatim>\<open>tp\<close>, its count, \<^verbatim>\<open>_signals_blocked\<close>, its state, and whether the
  event of its wait is posted.  \<open>sc_due\<close> is no data of the program: it is the set of the signals that have been added and not
  handled since, what a set of pending signals has to be.
\<close>

record sig_state =
  sc_data :: thread_data
  sc_count :: int
  sc_blocked :: int
  sc_state :: pthread_state
  sc_event :: bool
  sc_target :: target_place
  sc_sender :: "addr \<Rightarrow> sender_place"
  sc_due :: "int set"

text \<open>
  What the threads may do beyond sending, delivering and acknowledging: the target waits in \<^verbatim>\<open>pthread_pause\<close>; the target changes
  its mask by \<^verbatim>\<open>pthread_sigmask\<close>; the statements \<^verbatim>\<open>tp->sig_pending &= ~mask\<close> and \<^verbatim>\<open>_signals_blocked++\<close> are
  a read and a write with room for other threads between them.
\<close>

datatype hazard = Waits | Masks | Torn_Set | Torn_Count

definition added :: "'k os \<Rightarrow> int \<Rightarrow> thread_data \<Rightarrow> thread_data" where
  "added E n d = d\<lparr>sig_pending := sig_pending d OR sigmask E n\<rparr>"

text \<open>The signal is cleared; its handler leaves the mask as it was or, with \<^verbatim>\<open>SA_ACK\<close>, the signal blocked.\<close>

definition cleared :: "'k os \<Rightarrow> int \<Rightarrow> u32 \<Rightarrow> u32 \<Rightarrow> thread_data \<Rightarrow> thread_data" where
  "cleared E n w v d = d\<lparr>sig_pending := w AND NOT (sigmask E n), sig_blocked := sig_blocked d OR v\<rparr>"

inductive sig_step :: "'k os \<Rightarrow> hazard set \<Rightarrow> sig_state \<Rightarrow> sig_state \<Rightarrow> bool" for E H where
  enter: "sc_sender s p = S_Out \<Longrightarrow> 0 \<le> n \<Longrightarrow> n < int NSIG \<Longrightarrow>
    sig_step E H s (s\<lparr>sc_blocked := sc_blocked s + 1, sc_sender := (sc_sender s)(p := S_In n)\<rparr>)"
| enter_load: "Torn_Count \<in> H \<Longrightarrow> sc_sender s p = S_Out \<Longrightarrow> 0 \<le> n \<Longrightarrow> n < int NSIG \<Longrightarrow>
    sig_step E H s (s\<lparr>sc_sender := (sc_sender s)(p := S_Entering n (sc_blocked s))\<rparr>)"
| enter_store: "sc_sender s p = S_Entering n k \<Longrightarrow>
    sig_step E H s (s\<lparr>sc_blocked := k + 1, sc_sender := (sc_sender s)(p := S_In n)\<rparr>)"
| look: "sc_sender s p = S_In n \<Longrightarrow> 0 < n \<Longrightarrow> sys_sig_valid n \<Longrightarrow> sa_handler (signals (sc_data s) (nat n)) \<noteq> SIG_IGN \<Longrightarrow>
    sig_step E H s (s\<lparr>sc_sender := (sc_sender s)(p := S_Seen (sc_state s) n)\<rparr>)"
| ignored: "sc_sender s p = S_In n \<Longrightarrow>
    \<not> (0 < n \<and> sys_sig_valid n \<and> sa_handler (signals (sc_data s) (nat n)) \<noteq> SIG_IGN) \<Longrightarrow>
    sig_step E H s (s\<lparr>sc_sender := (sc_sender s)(p := S_Done)\<rparr>)"
| add: "sc_sender s p = S_Seen st n \<Longrightarrow>
    sig_step E H s (s\<lparr>sc_data := added E n (sc_data s), sc_sender := (sc_sender s)(p := S_Added st n),
      sc_due := insert n (sc_due s)\<rparr>)"
| tally: "sc_sender s p = S_Added st n \<Longrightarrow> st \<noteq> PS_SIGWAIT \<Longrightarrow>
    sig_step E H s (s\<lparr>sc_count := sc_count s + 1, sc_sender := (sc_sender s)(p := S_Done)\<rparr>)"
| post: "sc_sender s p = S_Added PS_SIGWAIT n \<Longrightarrow>
    sig_step E H s (s\<lparr>sc_event := sc_event s \<or> sc_target s = T_Asleep, sc_sender := (sc_sender s)(p := S_Done)\<rparr>)"
| leave: "sc_sender s p = S_Done \<Longrightarrow>
    sig_step E H s (s\<lparr>sc_blocked := sc_blocked s - 1, sc_sender := (sc_sender s)(p := S_Out)\<rparr>)"
| test: "sc_target s = T_Out \<Longrightarrow> sc_count s \<noteq> 0 \<Longrightarrow> sc_blocked s = 0 \<Longrightarrow> sig_step E H s (s\<lparr>sc_target := T_Tested\<rparr>)"
| reset: "sc_target s = T_Tested \<Longrightarrow> sig_step E H s (s\<lparr>sc_count := 0, sc_target := T_Scan 1\<rparr>)"
| skip: "sc_target s = T_Scan m \<Longrightarrow> m < int NSIG \<Longrightarrow> sig_pending (sc_data s) AND NOT (sig_blocked (sc_data s)) \<noteq> 0 \<Longrightarrow>
    sig_pending (sc_data s) AND NOT (sig_blocked (sc_data s)) AND sigmask E m = 0 \<Longrightarrow>
    sig_step E H s (s\<lparr>sc_target := T_Scan (m + 1)\<rparr>)"
| found: "sc_target s = T_Scan m \<Longrightarrow> m < int NSIG \<Longrightarrow>
    sig_pending (sc_data s) AND NOT (sig_blocked (sc_data s)) AND sigmask E m \<noteq> 0 \<Longrightarrow>
    sig_step E H s (s\<lparr>sc_target := T_Found m\<rparr>)"
| clear: "sc_target s = T_Found m \<Longrightarrow> v = 0 \<or> v = sigmask E m \<Longrightarrow>
    sig_step E H s (s\<lparr>sc_data := cleared E m (sig_pending (sc_data s)) v (sc_data s), sc_target := T_Scan 1,
      sc_due := sc_due s - {m}\<rparr>)"
| clear_load: "Torn_Set \<in> H \<Longrightarrow> sc_target s = T_Found m \<Longrightarrow>
    sig_step E H s (s\<lparr>sc_target := T_Loaded m (sig_pending (sc_data s))\<rparr>)"
| clear_store: "sc_target s = T_Loaded m w \<Longrightarrow> v = 0 \<or> v = sigmask E m \<Longrightarrow>
    sig_step E H s (s\<lparr>sc_data := cleared E m w v (sc_data s), sc_target := T_Scan 1,
      sc_due := sc_due s - {m}\<rparr>)"
| finish: "sc_target s = T_Scan m \<Longrightarrow> int NSIG \<le> m \<or> sig_pending (sc_data s) AND NOT (sig_blocked (sc_data s)) = 0 \<Longrightarrow>
    sig_step E H s (s\<lparr>sc_target := T_Out\<rparr>)"
| ack: "sc_target s = T_Out \<Longrightarrow> 0 < n \<Longrightarrow> n < int NSIG \<Longrightarrow>
    sig_step E H s (s\<lparr>sc_data := (sc_data s)\<lparr>sig_blocked := sig_blocked (sc_data s) AND NOT (sigmask E n)\<rparr>,
      sc_target := T_Acked\<rparr>)"
| acked_count: "sc_target s = T_Acked \<Longrightarrow> sc_blocked s \<noteq> 0 \<Longrightarrow>
    sig_step E H s (s\<lparr>sc_count := sc_count s + 1, sc_target := T_Out\<rparr>)"
| acked_go: "sc_target s = T_Acked \<Longrightarrow> sc_blocked s = 0 \<Longrightarrow> sig_step E H s (s\<lparr>sc_target := T_Tested\<rparr>)"
| mask: "Masks \<in> H \<Longrightarrow> sc_target s = T_Out \<Longrightarrow>
    sig_step E H s (s\<lparr>sc_data := (sc_data s)\<lparr>sig_blocked := set_blocked E v\<rparr>, sc_target := T_Masked\<rparr>)"
| masked_go: "sc_target s = T_Masked \<Longrightarrow> sc_blocked s = 0 \<Longrightarrow> sig_step E H s (s\<lparr>sc_target := T_Tested\<rparr>)"
| masked_end: "sc_target s = T_Masked \<Longrightarrow> sc_blocked s \<noteq> 0 \<Longrightarrow> sig_step E H s (s\<lparr>sc_target := T_Out\<rparr>)"
| pause: "Waits \<in> H \<Longrightarrow> sc_target s = T_Out \<Longrightarrow>
    sig_step E H s (s\<lparr>sc_event := False, sc_state := PS_SIGWAIT, sc_target := T_Asleep\<rparr>)"
| wake: "sc_target s = T_Asleep \<Longrightarrow> sc_event s \<Longrightarrow> sig_step E H s (s\<lparr>sc_target := T_Awake\<rparr>)"
| resume: "sc_target s = T_Awake \<Longrightarrow> sig_step E H s (s\<lparr>sc_state := PS_RUNNING, sc_target := T_Tested\<rparr>)"

inductive sig_run :: "'k os \<Rightarrow> hazard set \<Rightarrow> sig_state \<Rightarrow> sig_state \<Rightarrow> bool" for E H where
  stop: "sig_run E H s s"
| step: "sig_run E H s u \<Longrightarrow> sig_step E H u v \<Longrightarrow> sig_run E H s v"

text \<open>A running target without pending signals and no sender.\<close>

definition sig_start :: "(nat \<Rightarrow> sigact) \<Rightarrow> u32 \<Rightarrow> sig_state" where
  "sig_start acts blk =
     \<lparr>sc_data = \<lparr>signals = acts, sig_pending = 0, sig_blocked = blk\<rparr>, sc_count = 0, sc_blocked = 0,
      sc_state = PS_RUNNING, sc_event = False, sc_target = T_Out, sc_sender = (\<lambda>_. S_Out), sc_due = {}\<rparr>"

definition all_out :: "sig_state \<Rightarrow> bool" where
  "all_out s \<longleftrightarrow> sc_target s = T_Out \<and> (\<forall>p. sc_sender s p = S_Out)"

section \<open>The shape of the states without hazards\<close>

text \<open>The senders in the section and what a sender may have seen; where the target can be.\<close>

definition sending :: "sig_state \<Rightarrow> addr set" where
  "sending s = {p. sc_sender s p \<noteq> S_Out}"

fun sender_ok :: "sender_place \<Rightarrow> bool" where
  "sender_ok (S_Entering n k) = False"
| "sender_ok (S_In n) = (0 \<le> n \<and> n < int NSIG)"
| "sender_ok (S_Seen st n) = (st = PS_RUNNING \<and> 0 < n \<and> n < int NSIG)"
| "sender_ok (S_Added st n) = (st = PS_RUNNING \<and> 0 < n \<and> n < int NSIG)"
| "sender_ok p = True"

fun target_ok :: "target_place \<Rightarrow> bool" where
  "target_ok (T_Scan m) = (0 < m)"
| "target_ok (T_Found m) = (0 < m \<and> m < int NSIG)"
| "target_ok T_Out = True"
| "target_ok T_Tested = True"
| "target_ok T_Acked = True"
| "target_ok p = False"

definition sig_shape :: "sig_state \<Rightarrow> bool" where
  "sig_shape s \<longleftrightarrow> 0 \<le> sc_count s \<and> finite (sending s) \<and> sc_blocked s = int (card (sending s)) \<and>
     sc_state s = PS_RUNNING \<and> target_ok (sc_target s) \<and> (\<forall>p. sender_ok (sc_sender s p))"

lemma sig_shapeD:
  assumes "sig_shape s"
  shows "0 \<le> sc_count s" "finite (sending s)" "sc_blocked s = int (card (sending s))"
    "sc_state s = PS_RUNNING" "target_ok (sc_target s)" "\<And>p. sender_ok (sc_sender s p)"
  using assms unfolding sig_shape_def by blast+

text \<open>A step that moves one sender, and one that moves the target.\<close>

lemma sending_upd:
  "sending (s\<lparr>sc_sender := (sc_sender s)(p := x)\<rparr>) = (if x = S_Out then sending s - {p} else insert p (sending s))"
  by (auto simp: sending_def)

lemma shape_sender:
  assumes s: "sig_shape s" and x: "sender_ok x" and u: "0 \<le> sc_count u" "sc_state u = sc_state s" "sc_target u = sc_target s"
    "sc_sender u = (sc_sender s)(p := x)"
    "sc_blocked u = sc_blocked s + (if x = S_Out then -1 else 0) + (if sc_sender s p = S_Out then 1 else 0)"
    and one: "\<not> (x = S_Out \<and> sc_sender s p = S_Out)"
  shows "sig_shape u"
proof -
  note S = sig_shapeD [OF s]
  have set: "sending u = (if x = S_Out then sending s - {p} else insert p (sending s))"
    using u(4) by (auto simp: sending_def)
  have mem: "p \<in> sending s \<longleftrightarrow> sc_sender s p \<noteq> S_Out" by (simp add: sending_def)
  have "int (card (sending u)) = sc_blocked u"
  proof (cases "x = S_Out")
    case True
    with one mem have "p \<in> sending s" by simp
    then have "int (card (sending s - {p})) = int (card (sending s)) - 1"
      using S(2) card_Suc_Diff1 [of "sending s" p] by linarith
    with True u(5) S(3) set one show ?thesis by simp
  next
    case False
    with u(5) S(2,3) set mem show ?thesis by (auto simp: card_insert_if)
  qed
  moreover have "finite (sending u)" using set S(2) by simp
  ultimately show ?thesis using S(4,5,6) u x by (simp add: sig_shape_def)
qed

lemma shape_target:
  assumes "sig_shape s" "0 \<le> sc_count u" "sc_state u = sc_state s" "target_ok (sc_target u)"
    "sc_sender u = sc_sender s" "sc_blocked u = sc_blocked s"
  shows "sig_shape u"
  using assms by (simp add: sig_shape_def sending_def)

lemma sig_shape_step: "sig_step E {} s u \<Longrightarrow> sig_shape s \<Longrightarrow> sig_shape u"
proof (induction rule: sig_step.induct)
  case (enter s p n)
  then show ?case using sig_shapeD [OF enter(4)] by - (rule shape_sender [of s "S_In n" _ p], simp_all)
next
  case (enter_store s p n k)
  then show ?case using sig_shapeD(6) [OF enter_store(2), of p] by simp
next
  case (look s p n)
  then show ?case using sig_shapeD [OF look(5)] sig_shapeD(6) [OF look(5), of p]
    by - (rule shape_sender [of s "S_Seen PS_RUNNING n" _ p], simp_all)
next
  case (ignored s p n)
  then show ?case using sig_shapeD [OF ignored(3)] by - (rule shape_sender [of s S_Done _ p], simp_all)
next
  case (add s p st n)
  then show ?case using sig_shapeD [OF add(2)] sig_shapeD(6) [OF add(2), of p]
    by - (rule shape_sender [of s "S_Added st n" _ p], simp_all)
next
  case (tally s p st n)
  then show ?case using sig_shapeD [OF tally(3)] by - (rule shape_sender [of s S_Done _ p], simp_all)
next
  case (post s p n)
  then show ?case using sig_shapeD(6) [OF post(2), of p] by simp
next
  case (leave s p)
  then show ?case using sig_shapeD [OF leave(2)] by - (rule shape_sender [of s S_Out _ p], simp_all)
next
  case (skip s m)
  then show ?case using sig_shapeD [OF skip(5)] by - (rule shape_target [of s], simp_all)
next
  case (found s m)
  then show ?case using sig_shapeD [OF found(4)] by - (rule shape_target [of s], simp_all)
next
  case (clear_store s m w v)
  then show ?case using sig_shapeD(5) [OF clear_store(3)] by simp
next
  case (masked_go s)
  then show ?case using sig_shapeD(5) [OF masked_go(3)] by simp
next
  case (masked_end s)
  then show ?case using sig_shapeD(5) [OF masked_end(3)] by simp
next
  case (wake s)
  then show ?case using sig_shapeD(5) [OF wake(3)] by simp
next
  case (resume s)
  then show ?case using sig_shapeD(5) [OF resume(2)] by simp
qed (auto simp: sig_shape_def sending_def)

lemma sig_shape_start: "sig_shape (sig_start acts blk)"
  by (simp add: sig_shape_def sig_start_def sending_def)

section \<open>No signal is lost\<close>

text \<open>
  Why a signal that the target would take now is going to be taken: the count says so, or a sender has yet to
  count it, or the target is about to look for signals, or it is looking and has not come past this one.
\<close>

definition coming :: "sig_state \<Rightarrow> int \<Rightarrow> bool" where
  "coming s n \<longleftrightarrow> sc_count s \<noteq> 0 \<or> (\<exists>p. sc_sender s p = S_Added PS_RUNNING n) \<or>
     (case sc_target s of T_Tested \<Rightarrow> True | T_Acked \<Rightarrow> True | T_Found m \<Rightarrow> True | T_Scan m \<Rightarrow> m \<le> n | _ \<Rightarrow> False)"

definition all_coming :: "(int \<Rightarrow> nat) \<Rightarrow> sig_state \<Rightarrow> bool" where
  "all_coming b s \<longleftrightarrow> (\<forall>n. 0 < n \<longrightarrow> n < int NSIG \<longrightarrow> takes b (sc_data s) n \<longrightarrow> coming s n)"

lemma all_comingI:
  "(\<And>n. 0 < n \<Longrightarrow> n < int NSIG \<Longrightarrow> takes b (sc_data s) n \<Longrightarrow> coming s n) \<Longrightarrow> all_coming b s"
  by (simp add: all_coming_def)

lemma all_comingD:
  "all_coming b s \<Longrightarrow> 0 < n \<Longrightarrow> n < int NSIG \<Longrightarrow> takes b (sc_data s) n \<Longrightarrow> coming s n"
  by (simp add: all_coming_def)

lemma takes_added:
  assumes "sig_bits E b" and "0 < n" "n < int NSIG" and "0 < m" "m < int NSIG"
  shows "takes b (added E n d) m \<longleftrightarrow> takes b d m \<or> m = n \<and> \<not> bit (sig_blocked d) (b n)"
  using takes_raised [OF assms, of "undefined\<lparr>tp := d\<rparr>"] by (simp add: raised_def added_def)

lemma all_coming_scan: "sc_target s = T_Scan 1 \<Longrightarrow> all_coming b s"
  by (auto simp: all_coming_def coming_def)

text \<open>A step of a sender other than adding and counting, and the count itself.\<close>

lemma coming_keep:
  assumes "coming s n" "sc_count u = sc_count s" "sc_target u = sc_target s"
    "sc_sender u = (sc_sender s)(p := x)" "sc_sender s p \<noteq> S_Added PS_RUNNING n"
  shows "coming u n"
  using assms unfolding coming_def by (metis fun_upd_other)

lemma coming_sender:
  assumes "all_coming b s" "sc_data u = sc_data s" "sc_count u = sc_count s" "sc_target u = sc_target s"
    "sc_sender u = (sc_sender s)(p := x)" "\<And>n. sc_sender s p \<noteq> S_Added PS_RUNNING n"
  shows "all_coming b u"
proof (rule all_comingI)
  fix n assume "0 < n" "n < int NSIG" "takes b (sc_data u) n"
  with all_comingD [OF assms(1)] assms(2) have "coming s n" by simp
  then show "coming u n" using assms(3-6) by (rule coming_keep)
qed

lemma all_coming_step:
  assumes b: "sig_bits E b"
  shows "sig_step E {} s u \<Longrightarrow> sig_shape s \<Longrightarrow> all_coming b s \<Longrightarrow> all_coming b u"
proof (induction rule: sig_step.induct)
  case (enter s p n)
  then show ?case by - (rule coming_sender [of b s _ p "S_In n"], simp_all)
next
  case (enter_store s p n k)
  then show ?case using sig_shapeD(6) [OF enter_store(2), of p] by simp
next
  case (look s p n)
  then show ?case by - (rule coming_sender [of b s _ p "S_Seen (sc_state s) n"], simp_all)
next
  case (ignored s p n)
  then show ?case by - (rule coming_sender [of b s _ p S_Done], simp_all)
next
  case (add s p st n)
  let ?u = "s\<lparr>sc_data := added E n (sc_data s), sc_sender := (sc_sender s)(p := S_Added st n),
    sc_due := insert n (sc_due s)\<rparr>"
  have n: "0 < n" "n < int NSIG" "st = PS_RUNNING" using sig_shapeD(6) [OF add(2), of p] add(1) by simp_all
  show ?case
  proof (rule all_comingI)
    fix m assume m: "0 < m" "m < int NSIG" "takes b (sc_data ?u) m"
    then consider "m = n" | "takes b (sc_data s) m" using takes_added [OF b n(1,2), of m] by auto
    then show "coming ?u m"
    proof cases
      case 1
      then show ?thesis using n(3) by (auto simp: coming_def)
    next
      case 2
      from all_comingD [OF add(3) m(1,2) 2] show ?thesis
        by (rule coming_keep [where p = p and x = "S_Added st n"]) (simp_all add: add(1))
    qed
  qed
next
  case (tally s p st n)
  have "sc_count s + 1 \<noteq> 0" using sig_shapeD(1) [OF tally(3)] by simp
  then show ?case by (auto simp: all_coming_def coming_def)
next
  case (post s p n)
  then show ?case using sig_shapeD(6) [OF post(2), of p] by simp
next
  case (leave s p)
  then show ?case by - (rule coming_sender [of b s _ p S_Out], simp_all)
next
  case (skip s m)
  have m: "0 < m" using sig_shapeD(5) [OF skip(5)] skip(1) by simp
  show ?case
  proof (rule all_comingI)
    fix n assume n: "0 < n" "n < int NSIG" "takes b (sc_data (s\<lparr>sc_target := T_Scan (m + 1)\<rparr>)) n"
    then have "n \<noteq> m" using takes_iff [OF b m skip(2), of "sc_data s"] skip(4) by auto
    with all_comingD [OF skip(6) n(1,2)] n(3) skip(1) show "coming (s\<lparr>sc_target := T_Scan (m + 1)\<rparr>) n"
      by (auto simp: coming_def)
  qed
next
  case (clear_store s m w v)
  then show ?case using sig_shapeD(5) [OF clear_store(3)] by simp
next
  case (finish s m)
  show ?case
  proof (rule all_comingI)
    fix n assume n: "0 < n" "n < int NSIG" "takes b (sc_data (s\<lparr>sc_target := T_Out\<rparr>)) n"
    then have "b n < 32" using b by (simp add: sig_bits_def)
    then have "sig_pending (sc_data s) AND NOT (sig_blocked (sc_data s)) \<noteq> 0"
      using takes_nonzero [of b "sc_data s" n] n(3) by simp
    with finish(2) have "int NSIG \<le> m" by simp
    with all_comingD [OF finish(4) n(1,2)] n finish(1) show "coming (s\<lparr>sc_target := T_Out\<rparr>) n"
      by (auto simp: coming_def)
  qed
next
  case (acked_count s)
  have "sc_count s + 1 \<noteq> 0" using sig_shapeD(1) [OF acked_count(3)] by simp
  then show ?case by (auto simp: all_coming_def coming_def)
next
  case (masked_go s)
  then show ?case using sig_shapeD(5) [OF masked_go(3)] by simp
next
  case (masked_end s)
  then show ?case using sig_shapeD(5) [OF masked_end(3)] by simp
next
  case (wake s)
  then show ?case using sig_shapeD(5) [OF wake(3)] by simp
next
  case (resume s)
  then show ?case using sig_shapeD(5) [OF resume(2)] by simp
qed (auto simp: all_coming_def coming_def)

text \<open>As long as the set is cleared in one piece it is the set of the signals that are due.\<close>

definition due_set :: "(int \<Rightarrow> nat) \<Rightarrow> sig_state \<Rightarrow> bool" where
  "due_set b s \<longleftrightarrow> (\<forall>n. 0 < n \<longrightarrow> n < int NSIG \<longrightarrow> (bit (sig_pending (sc_data s)) (b n) \<longleftrightarrow> n \<in> sc_due s))"

lemma due_set_step:
  assumes b: "sig_bits E b"
  shows "sig_step E {} s u \<Longrightarrow> sig_shape s \<Longrightarrow> due_set b s \<Longrightarrow> due_set b u"
proof (induction rule: sig_step.induct)
  case (add s p st n)
  have n: "0 < n" "n < int NSIG" using sig_shapeD(6) [OF add(2), of p] add(1) by simp_all
  have "b m < 32 \<and> (b m = b n \<longleftrightarrow> m = n)" if "0 < m" "m < int NSIG" for m
    using b n that by (auto simp: sig_bits_def inj_on_def)
  then show ?case using add(3) bit_sigmask [OF b n] by (auto simp: due_set_def added_def bit_simps)
next
  case (clear s m v)
  have m: "0 < m" "m < int NSIG" using sig_shapeD(5) [OF clear(3)] clear(1) by simp_all
  have "b n < 32 \<and> (b n = b m \<longleftrightarrow> n = m)" if "0 < n" "n < int NSIG" for n
    using b m that by (auto simp: sig_bits_def inj_on_def)
  then show ?case using clear(4) bit_sigmask [OF b m] by (auto simp: due_set_def cleared_def bit_simps)
next
  case (clear_store s m w v)
  then show ?case using sig_shapeD(5) [OF clear_store(3)] by simp
qed (auto simp: due_set_def)

lemma due_set_start: "due_set b (sig_start acts blk)"
  by (simp add: due_set_def sig_start_def)

lemma all_coming_start: "all_coming b (sig_start acts blk)"
  by (simp add: all_coming_def takes_def sig_start_def)

lemma sig_inv_run:
  assumes b: "sig_bits E b"
  shows "sig_run E {} s u \<Longrightarrow> sig_shape s \<and> all_coming b s \<and> due_set b s \<Longrightarrow> sig_shape u \<and> all_coming b u \<and> due_set b u"
  by (induction rule: sig_run.induct)
     (use sig_shape_step all_coming_step [OF b] due_set_step [OF b] in blast)+

lemmas sig_inv_start = sig_shape_start all_coming_start due_set_start

section \<open>Calls as paths\<close>

lemma sig_run_one: "sig_step E H s u \<Longrightarrow> sig_run E H s u"
  by (rule sig_run.step [OF sig_run.stop])

lemma sig_run_more: "sig_run E H s u \<Longrightarrow> sig_step E H u v \<Longrightarrow> v = w \<Longrightarrow> sig_run E H s w"
  by (auto intro: sig_run.step)

lemma sig_run_append: "sig_run E H u v \<Longrightarrow> sig_run E H s u \<Longrightarrow> sig_run E H s v"
  by (induction rule: sig_run.induct) (auto intro: sig_run.step)

lemma send_run:
  assumes "sc_sender s p = S_Out" "sc_state s \<noteq> PS_SIGWAIT"
    and "0 < n" "n < int NSIG" "sys_sig_valid n" "sa_handler (signals (sc_data s) (nat n)) \<noteq> SIG_IGN"
  shows "sig_run E H s (s\<lparr>sc_data := added E n (sc_data s), sc_count := sc_count s + 1, sc_due := insert n (sc_due s)\<rparr>)"
proof -
  note more = sig_run_more and q = fun_upd_idem
  have "sig_run E H s (s\<lparr>sc_blocked := sc_blocked s + 1, sc_sender := (sc_sender s)(p := S_In n)\<rparr>)" (is "sig_run E H s ?a")
    using assms by (intro sig_run_one sig_step.enter) simp_all
  then have "sig_run E H s (?a\<lparr>sc_sender := (sc_sender s)(p := S_Seen (sc_state s) n)\<rparr>)" (is "sig_run E H s ?b")
    by (rule more) (rule sig_step.look [of _ p n], use assms in simp_all)
  then have "sig_run E H s (?b\<lparr>sc_data := added E n (sc_data s), sc_due := insert n (sc_due s),
      sc_sender := (sc_sender s)(p := S_Added (sc_state s) n)\<rparr>)" (is "sig_run E H s ?c")
    by (rule more) (rule sig_step.add [of _ p "sc_state s" n], use assms in simp_all)
  then have "sig_run E H s (?c\<lparr>sc_count := sc_count s + 1, sc_sender := (sc_sender s)(p := S_Done)\<rparr>)" (is "sig_run E H s ?d")
    by (rule more) (rule sig_step.tally [of _ p "sc_state s" n], use assms in simp_all)
  then show ?thesis
    by (rule more) (rule sig_step.leave [of _ p], use assms in \<open>simp_all add: fun_upd_idem\<close>)
qed

lemma scan_run:
  assumes b: "sig_bits E b" and n: "takes b (sc_data s) n" "n < int NSIG"
  shows "0 < m \<Longrightarrow> m \<le> n \<Longrightarrow> (\<And>i. m \<le> i \<Longrightarrow> i < n \<Longrightarrow> \<not> takes b (sc_data s) i) \<Longrightarrow>
    sig_run E H (s\<lparr>sc_target := T_Scan m\<rparr>) (s\<lparr>sc_target := T_Found n\<rparr>)"
proof (induction "nat (n - m)" arbitrary: m)
  case 0
  then have "m = n" "0 < n" by simp_all
  then show ?case using takes_iff [OF b, of n "sc_data s"] n
    by (intro sig_run_more [OF sig_run.stop sig_step.found [of _ n]]) simp_all
next
  case (Suc k)
  then have m: "0 < m" "m < n" "\<not> takes b (sc_data s) m" by simp_all
  have "b n < 32" using b n m by (simp add: sig_bits_def)
  then have "sig_run E H (s\<lparr>sc_target := T_Scan m\<rparr>) (s\<lparr>sc_target := T_Scan (m + 1)\<rparr>)"
    using takes_iff [OF b, of m "sc_data s"] takes_nonzero [OF n(1)] n m
    by (intro sig_run_more [OF sig_run.stop sig_step.skip [of _ m]]) simp_all
  moreover have "sig_run E H (s\<lparr>sc_target := T_Scan (m + 1)\<rparr>) (s\<lparr>sc_target := T_Found n\<rparr>)"
    using Suc by (intro Suc.hyps(1)) simp_all
  ultimately show ?case using sig_run_append by blast
qed

lemma scan_end:
  assumes b: "sig_bits E b" and n: "taking b (sc_data s) = []"
  shows "0 < m \<Longrightarrow> m \<le> int NSIG \<Longrightarrow> sig_run E H (s\<lparr>sc_target := T_Scan m\<rparr>) (s\<lparr>sc_target := T_Out\<rparr>)"
proof (induction "nat (int NSIG - m)" arbitrary: m)
  case 0
  then show ?case by (intro sig_run_more [OF sig_run.stop sig_step.finish [of _ m]]) simp_all
next
  case (Suc k)
  then have m: "0 < m" "m < int NSIG" by simp_all
  have "m \<notin> set (taking b (sc_data s))" by (simp add: n)
  then have z: "sig_pending (sc_data s) AND NOT (sig_blocked (sc_data s)) AND sigmask E m = 0"
    using takes_iff [OF b m, of "sc_data s"] m by (auto simp: set_taking)
  show ?case
  proof (cases "sig_pending (sc_data s) AND NOT (sig_blocked (sc_data s)) = 0")
    case True
    then show ?thesis by (intro sig_run_more [OF sig_run.stop sig_step.finish [of _ m]]) simp_all
  next
    case False
    then have "sig_run E H (s\<lparr>sc_target := T_Scan m\<rparr>) (s\<lparr>sc_target := T_Scan (m + 1)\<rparr>)"
      using m z by (intro sig_run_more [OF sig_run.stop sig_step.skip [of _ m]]) simp_all
    moreover have "sig_run E H (s\<lparr>sc_target := T_Scan (m + 1)\<rparr>) (s\<lparr>sc_target := T_Out\<rparr>)"
      using Suc.hyps(2) m by (intro Suc.hyps(1)) simp_all
    ultimately show ?thesis using sig_run_append by blast
  qed
qed

lemma cleared_acked: "cleared E n (sig_pending d) (sigmask E n) d = acked E n d"
  by (simp add: cleared_def acked_def)

lemma deliver_path:
  assumes b: "sig_bits E b"
  shows "taking b (sc_data s) = ns \<Longrightarrow>
    sig_run E H (s\<lparr>sc_target := T_Scan 1\<rparr>)
      (s\<lparr>sc_target := T_Out, sc_data := fold (acked E) ns (sc_data s), sc_due := sc_due s - set ns\<rparr>)"
proof (induction ns arbitrary: s)
  case Nil
  then show ?case using scan_end [OF b Nil, of 1 H] by simp
next
  case (Cons n ns)
  note h = taking_head [OF Cons.prems]
  let ?u = "s\<lparr>sc_data := acked E n (sc_data s), sc_due := sc_due s - {n}\<rparr>"
  have "sig_run E H (s\<lparr>sc_target := T_Scan 1\<rparr>) (s\<lparr>sc_target := T_Found n\<rparr>)"
    using h by (intro scan_run [OF b h(3,2)]) simp_all
  then have "sig_run E H (s\<lparr>sc_target := T_Scan 1\<rparr>) (?u\<lparr>sc_target := T_Scan 1\<rparr>)"
    by (rule sig_run_more) (rule sig_step.clear [of _ n "sigmask E n"], simp_all add: cleared_acked)
  moreover have "sig_run E H (?u\<lparr>sc_target := T_Scan 1\<rparr>)
      (?u\<lparr>sc_target := T_Out, sc_data := fold (acked E) ns (sc_data ?u), sc_due := sc_due ?u - set ns\<rparr>)"
    using taking_acked [OF b Cons.prems] by (intro Cons.IH) simp
  moreover have "sc_due s - {n} - set ns = sc_due s - set (n # ns)" by auto
  ultimately show ?case using sig_run_append by fastforce
qed

text \<open>What the steps see of a state of the process in which the target's structure is at \<open>p\<close>.\<close>

definition sig_view ::
  "addr \<Rightarrow> 'k world \<Rightarrow> bool \<Rightarrow> target_place \<Rightarrow> (addr \<Rightarrow> sender_place) \<Rightarrow> int set \<Rightarrow> sig_state" where
  "sig_view p w ev tg sd due =
     (let t = the (threads w p)
      in \<lparr>sc_data = tp t, sc_count = pend t, sc_blocked = signals_blocked w, sc_state = th_state t,
          sc_event = ev, sc_target = tg, sc_sender = sd, sc_due = due\<rparr>)"

lemma check_delivers:
  assumes "sig_bits E b" and "plain_handlers E c" and "p \<noteq> NULL" and "threads w p = Some t"
    and "\<forall>n\<in>set (taking b (tp t)). caught (tp t) n" and "pend t \<noteq> 0" and "signals_blocked w = 0"
  shows "deliver_if_pending E p w = Some (Ret () (after_delivery E c p (t\<lparr>pend := 0\<rparr>) (taking b (tp t)) w))"
  using assms deliver_now_run [OF assms(1-5)] by (simp add: deliver_if_pending_def run_simps)

text \<open>
  The other calls the steps stand for: \<^verbatim>\<open>pthread_signal\<close> with \<^verbatim>\<open>SIG_ACK\<close>, by a handler that lets its signal through again, and
  \<^verbatim>\<open>pthread_sigmask\<close>, here while another thread is in \<^verbatim>\<open>pthread_kill\<close>.
\<close>

lemma ack_path:
  assumes b: "sig_bits E b" and c: "plain_handlers E c" and s: "inited s" "threads s (run s) = Some t"
    and n: "0 < n" "n < int NSIG" "n \<noteq> SIGKILL" "sys_sig_valid n"
  defines "d \<equiv> (tp t)\<lparr>sig_blocked := sig_blocked (tp t) AND NOT (sigmask E n)\<rparr>"
  assumes h: "\<forall>m\<in>set (taking b d). caught d m"
  shows "\<exists>u r due'. pthread_signal E n SIG_ACK s = Some (Ret r u) \<and>
    sig_run E {} (sig_view (run s) s ev T_Out sd due) (sig_view (run s) u ev T_Out sd due')"
proof -
  let ?v = "sig_view (run s) s ev T_Out sd due"
  let ?s = "s\<lparr>threads := (threads s)(run s := Some (t\<lparr>tp := d\<rparr>))\<rparr>"
  have r: "run s \<noteq> NULL" using s(1) by (simp add: inited_def)
  have v: "sc_data ?v = tp t" "sc_target ?v = T_Out" "sc_count ?v = pend t" "sc_blocked ?v = signals_blocked s" "sc_due ?v = due"
    using s by (simp_all add: sig_view_def)
  have ack: "sig_run E {} ?v (?v\<lparr>sc_data := d, sc_target := T_Acked\<rparr>)"
    by (rule sig_run_more [OF sig_run.stop]) (rule sig_step.ack [of _ n], use v n in \<open>simp_all add: d_def\<close>)
  have bad: "\<not> (n < 1 \<or> n \<ge> int NSIG \<or> n = SIGKILL \<or> \<not> sys_sig_valid n)" using n by simp
  show ?thesis
  proof (cases "signals_blocked s = 0")
    case False
    let ?u = "s\<lparr>threads := (threads s)(run s := Some (t\<lparr>tp := d, pend := pend t + 1\<rparr>))\<rparr>"
    have "\<exists>x. pthread_signal E n SIG_ACK s = Some (Ret x ?u)"
      using bad False s r by (simp add: pthread_signal_def count_pending_def run_simps d_def retM_def)
    moreover have "sig_run E {} ?v (sig_view (run s) ?u ev T_Out sd due)"
      using ack by (rule sig_run_more) (rule sig_step.acked_count, use v False s in \<open>simp_all add: sig_view_def\<close>)
    ultimately show ?thesis by blast
  next
    case True
    let ?u = "after_delivery E c (run s) (t\<lparr>tp := d, pend := 0\<rparr>) (taking b d) ?s"
    have "deliver_now E (run s) ?s = Some (Ret () ?u)"
      using deliver_now_run [OF b c r, of ?s "t\<lparr>tp := d\<rparr>"] h by simp
    note del = seqM_run [where m = "deliver_now E (run s)", OF this]
    have call: "\<exists>x. pthread_signal E n SIG_ACK s = Some (Ret x ?u)"
      using bad True s r
      by (simp add: pthread_signal_def run_simps retM_def del flip: d_def) (simp add: after_delivery_def)
    have "sig_run E {} ?v (?v\<lparr>sc_data := d, sc_target := T_Tested\<rparr>)"
      using ack by (rule sig_run_more) (rule sig_step.acked_go, use v True in simp_all)
    then have scan: "sig_run E {} ?v (?v\<lparr>sc_data := d, sc_count := 0, sc_target := T_Scan 1\<rparr>)"
      by (rule sig_run_more) (rule sig_step.reset, simp_all)
    have "sig_run E {} (?v\<lparr>sc_data := d, sc_count := 0, sc_target := T_Scan 1\<rparr>) (?v\<lparr>sc_count := 0, sc_target := T_Out,
        sc_data := fold (acked E) (taking b d) d, sc_due := due - set (taking b d)\<rparr>)"
      using deliver_path [OF b, of "?v\<lparr>sc_data := d, sc_count := 0\<rparr>" _ "{}"] v by simp
    moreover have "?v\<lparr>sc_count := 0, sc_target := T_Out, sc_data := fold (acked E) (taking b d) d, sc_due := due - set (taking b d)\<rparr> =
        sig_view (run s) ?u ev T_Out sd (due - set (taking b d))"
      using s by (simp add: sig_view_def after_delivery_def)
    ultimately have "sig_run E {} (?v\<lparr>sc_data := d, sc_count := 0, sc_target := T_Scan 1\<rparr>)
        (sig_view (run s) ?u ev T_Out sd (due - set (taking b d)))" by (simp only:)
    from sig_run_append [OF this scan] call show ?thesis by blast
  qed
qed

lemma sigmask_path:
  assumes s: "inited s" "threads s (run s) = Some t" "iset \<noteq> NULL" "sigsets s iset = Some v" "signals_blocked s \<noteq> 0"
  shows "\<exists>u. pthread_sigmask E SIG_SETMASK iset NULL s = Some (Ret 0 u) \<and>
    sig_run E {Masks} (sig_view (run s) s ev T_Out sd due) (sig_view (run s) u ev T_Out sd due)"
proof -
  let ?v = "sig_view (run s) s ev T_Out sd due"
  let ?u = "s\<lparr>threads := (threads s)(run s := Some (t\<lparr>tp := (tp t)\<lparr>sig_blocked := set_blocked E v\<rparr>\<rparr>)),
    kern := kst (libc_sigprocmask E SIG_SETMASK iset) s\<rparr>"
  have r: "run s \<noteq> NULL" using s(1) by (simp add: inited_def)
  have "pthread_sigmask E SIG_SETMASK iset NULL s = Some (Ret 0 ?u)"
    using s r by (simp add: pthread_sigmask_def Let_def run_simps kst_def retM_def)
  moreover have "sig_run E {Masks} ?v (?v\<lparr>sc_data := (tp t)\<lparr>sig_blocked := set_blocked E v\<rparr>, sc_target := T_Masked\<rparr>)"
    by (rule sig_run_more [OF sig_run.stop]) (rule sig_step.mask [of _ _ _ v], use s in \<open>simp_all add: sig_view_def\<close>)
  then have "sig_run E {Masks} ?v (sig_view (run s) ?u ev T_Out sd due)"
    by (rule sig_run_more) (rule sig_step.masked_end, use s in \<open>simp_all add: sig_view_def\<close>)
  ultimately show ?thesis by blast
qed

section \<open>Properties\<close>

text \<open>C9: Signals are not lost between threads.  However sends by any number of threads interleave with the target's
  deliveries and acknowledgements, the target's set is exactly the set of the signals that are due, a signal it would take
  is on its way (counted, about to be counted, or ahead of the loop), and when all calls have ended the count is not 0 and
  \<^verbatim>\<open>_signals_blocked\<close> is 0, so that the check at the end of the target's next call runs the handler.\<close>

theorem no_signal_lost:
  assumes b: "sig_bits E b" and run: "sig_run E {} (sig_start acts blk) s" and n: "0 < n" "n < int NSIG"
  shows "(bit (sig_pending (sc_data s)) (b n) \<longleftrightarrow> n \<in> sc_due s) \<and>
    sc_blocked s = int (card (sending s)) \<and> (takes b (sc_data s) n \<longrightarrow> coming s n) \<and>
    (all_out s \<and> takes b (sc_data s) n \<longrightarrow> sc_count s \<noteq> 0 \<and> sc_blocked s = 0 \<and>
      (\<forall>w p t c. plain_handlers E c \<and> p \<noteq> NULL \<and> threads w p = Some t \<and> tp t = sc_data s \<and> pend t = sc_count s \<and>
         signals_blocked w = sc_blocked s \<and> (\<forall>m\<in>set (taking b (tp t)). caught (tp t) m) \<longrightarrow>
         n \<in> set (taking b (tp t)) \<and> (\<exists>w'. deliver_if_pending E p w = Some (Ret () w') \<and>
           kern w' = fold (\<lambda>m. c (catcher (tp t) m) m (cur w)) (taking b (tp t)) (kern w))))"
proof -
  have "sig_shape s \<and> all_coming b s \<and> due_set b s"
    by (rule sig_inv_run [OF b run]) (intro conjI sig_inv_start)
  then have I: "sig_shape s" "all_coming b s" "due_set b s" by blast+
  have out: "sc_count s \<noteq> 0 \<and> sc_blocked s = 0" if "all_out s" "takes b (sc_data s) n"
    using all_comingD [OF I(2) n that(2)] sig_shapeD(3) [OF I(1)] that(1)
    by (simp add: coming_def all_out_def sending_def)
  have next_check: "n \<in> set (taking b (tp t)) \<and> (\<exists>w'. deliver_if_pending E p w = Some (Ret () w') \<and>
      kern w' = fold (\<lambda>m. c (catcher (tp t) m) m (cur w)) (taking b (tp t)) (kern w))"
    if "all_out s" "takes b (sc_data s) n" "plain_handlers E c" "p \<noteq> NULL" "threads w p = Some t" "tp t = sc_data s"
      "pend t = sc_count s" "signals_blocked w = sc_blocked s" "\<forall>m\<in>set (taking b (tp t)). caught (tp t) m" for w p t c
    using out [OF that(1,2)] that n check_delivers [OF b that(3-5,9)]
    by (simp add: set_taking after_delivery_def)
  show ?thesis
    using I(3) n sig_shapeD(3) [OF I(1)] all_comingD [OF I(2) n] out next_check unfolding due_set_def by blast
qed

definition demo_acts :: "nat \<Rightarrow> sigact" where
  "demo_acts n = \<lparr>sa_handler = Handler (500 + n), sa_mask = 0, sa_flags = SA_ACK\<rparr>"

lemma demo_acts_sel [simp]: "sa_handler (demo_acts n) = Handler (500 + n)"
  by (simp add: demo_acts_def)

lemma valid_2: "sys_sig_valid 2"
  by (simp add: sys_sig_valid_def sys_sig_valid_table_def)

text \<open>Thread 10 has sent signal 2 to the thread at 20, which is outside.\<close>

definition demo_sent :: sig_state where
  "demo_sent = (sig_start demo_acts 0)\<lparr>sc_data := \<lparr>signals = demo_acts, sig_pending = 4, sig_blocked = 0\<rparr>,
     sc_count := 1, sc_due := {2}\<rparr>"

lemma demo_sent_run: "sig_run demo_os H (sig_start demo_acts 0) demo_sent"
  using send_run [of "sig_start demo_acts 0" 10 2 demo_os H] valid_2
  by (simp add: sig_start_def demo_sent_def added_def)

definition demo_hit :: pthread where
  "demo_hit = demo_thread\<lparr>threadid := 2, tp := \<lparr>signals = demo_acts, sig_pending = 4, sig_blocked = 0\<rparr>, pend := 1\<rparr>"

definition demo_called :: "addr \<Rightarrow> int \<Rightarrow> tid \<Rightarrow> demo_kern \<Rightarrow> demo_kern" where
  "demo_called f n t k = k\<lparr>calls := calls k @ [(f, nat n)]\<rparr>"

lemma demo_handlers: "plain_handlers demo_os demo_called"
  using demo_plain_handlers by (simp add: demo_called_def [abs_def])

lemma demo_hit_taking:
  "taking nat (tp demo_hit) = [2]" "takes nat (tp demo_hit) 2" "\<forall>m\<in>set (taking nat (tp demo_hit)). caught (tp demo_hit) m"
proof -
  have "takes nat (tp demo_hit) m \<longleftrightarrow> m = 2" if "0 < m" "m < int NSIG" for m
  proof -
    have "bit (4::u32) (nat m) \<longleftrightarrow> nat m = 2" using bit_push_bit_iff [of 2 "1::u32" "nat m"] by (auto simp: bit_1_iff)
    with that show ?thesis by (auto simp: takes_def demo_hit_def)
  qed
  then show two: "taking nat (tp demo_hit) = [2]" by (intro taking_only) simp_all
  show "takes nat (tp demo_hit) 2" by (simp add: takes_def demo_hit_def bit_numeral_rec)
  show "\<forall>m\<in>set (taking nat (tp demo_hit)). caught (tp demo_hit) m"
    unfolding two by (simp add: caught_def sig_info_def sig_info_table_def demo_acts_def demo_hit_def)
qed

theorem no_signal_lost_witness:
  "all_out demo_sent \<and> (\<exists>w'. deliver_if_pending demo_os 20 (demo_world\<lparr>threads := [20 \<mapsto> demo_hit]\<rparr>) = Some (Ret () w') \<and>
     calls (kern w') = [(502, 2)])"
proof -
  let ?w = "demo_world\<lparr>threads := [20 \<mapsto> demo_hit]\<rparr>"
  have o: "all_out demo_sent" by (simp add: all_out_def demo_sent_def sig_start_def)
  have d: "sc_data demo_sent = tp demo_hit" "sc_count demo_sent = pend demo_hit" "sc_blocked demo_sent = 0"
    by (simp_all add: demo_sent_def sig_start_def demo_hit_def)
  have "takes nat (sc_data demo_sent) 2" unfolding d by (rule demo_hit_taking(2))
  note check = no_signal_lost [OF demo_sig_bits demo_sent_run, of 2, THEN conjunct2, THEN conjunct2, THEN conjunct2, THEN mp,
      OF _ _ conjI [OF o this], THEN conjunct2, THEN conjunct2]
  have "\<exists>w'. deliver_if_pending demo_os 20 ?w = Some (Ret () w') \<and>
      kern w' = fold (\<lambda>m. demo_called (catcher (tp demo_hit) m) m (cur ?w)) (taking nat (tp demo_hit)) (kern ?w)"
    by (rule check [THEN spec [of _ ?w], THEN spec [of _ 20], THEN spec [of _ demo_hit], THEN spec [of _ demo_called],
          THEN mp, THEN conjunct2])
       (use demo_hit_taking(3) d demo_handlers in simp_all)
  then show ?thesis using o demo_hit_taking(1) by (auto simp: catcher_def demo_called_def demo_hit_def)
qed

text \<open>C10: The sequential functions refine the interleaved steps: \<^verbatim>\<open>pthread_kill\<close> of another running thread that is not the initial
  one is a path of the steps of its sender, and the check of the target's count with the handlers it runs is a path of the target's
  steps, whatever the places of the other threads.\<close>

theorem signal_calls_are_paths:
  assumes b: "sig_bits E b"
    and s: "quiet s" "live_list s xs" "p \<noteq> run s" "p \<in> set xs" "threads s p = Some t" "th_state t = PS_RUNNING"
      "threadid t \<noteq> 1" "0 < n" "n < int NSIG" "sys_sig_valid n" "sa_handler (signals (tp t) (nat n)) \<noteq> SIG_IGN"
      "sd (run s) = S_Out"
    and c: "plain_handlers E c" "p' \<noteq> NULL" "threads w p' = Some t'" "\<forall>m\<in>set (taking b (tp t')). caught (tp t') m"
      "pend t' \<noteq> 0" "signals_blocked w = 0"
  shows "(\<exists>u. pthread_kill E p n s = Some (Ret 0 u) \<and>
      sig_run E {} (sig_view p s ev tg sd due) (sig_view p u ev tg sd (insert n due))) \<and>
    (\<exists>u. deliver_if_pending E p' w = Some (Ret () u) \<and>
      sig_run E {} (sig_view p' w ev T_Out sd due) (sig_view p' u ev T_Out sd (due - set (taking b (tp t')))))"
proof (intro conjI)
  have "sig_run E {} (sig_view p s ev tg sd due) (sig_view p (unblocked E (counted E p n t s)) ev tg sd (insert n due))"
    using send_run [of "sig_view p s ev tg sd due" "run s" n E "{}"] s
    by (simp add: sig_view_def unblocked_def counted_def blocked_def raised_def added_def)
  with kill_runner [OF s(1-11)] show "\<exists>u. pthread_kill E p n s = Some (Ret 0 u) \<and>
      sig_run E {} (sig_view p s ev tg sd due) (sig_view p u ev tg sd (insert n due))" by blast
next
  let ?u = "after_delivery E c p' (t'\<lparr>pend := 0\<rparr>) (taking b (tp t')) w" and ?v = "sig_view p' w ev T_Out sd due"
  have v: "sc_data ?v = tp t'" "sc_target ?v = T_Out" "sc_count ?v = pend t'" "sc_blocked ?v = 0" "sc_due ?v = due"
    using c by (simp_all add: sig_view_def)
  have "sig_run E {} ?v (?v\<lparr>sc_target := T_Tested\<rparr>)"
    using v c(5) by (intro sig_run_one sig_step.test) simp_all
  then have "sig_run E {} ?v (?v\<lparr>sc_count := 0, sc_target := T_Scan 1\<rparr>)"
    by (rule sig_run_more) (rule sig_step.reset, simp_all)
  moreover have "sig_run E {} (?v\<lparr>sc_count := 0, sc_target := T_Scan 1\<rparr>) (?v\<lparr>sc_count := 0, sc_target := T_Out,
      sc_data := fold (acked E) (taking b (tp t')) (tp t'), sc_due := due - set (taking b (tp t'))\<rparr>)"
    using deliver_path [OF b, of "?v\<lparr>sc_count := 0\<rparr>" _ "{}"] v by simp
  moreover have "?v\<lparr>sc_count := 0, sc_target := T_Out, sc_data := fold (acked E) (taking b (tp t')) (tp t'),
      sc_due := due - set (taking b (tp t'))\<rparr> = sig_view p' ?u ev T_Out sd (due - set (taking b (tp t')))"
    using c(3) by (simp add: sig_view_def after_delivery_def)
  ultimately have "sig_run E {} ?v (sig_view p' ?u ev T_Out sd (due - set (taking b (tp t'))))"
    using sig_run_append by metis
  then show "\<exists>u. deliver_if_pending E p' w = Some (Ret () u) \<and>
      sig_run E {} ?v (sig_view p' u ev T_Out sd (due - set (taking b (tp t'))))"
    using check_delivers [OF b c] by blast
qed

theorem signal_calls_are_paths_witness:
  "\<exists>u v. pthread_kill demo_os 20 2 demo_world = Some (Ret 0 u) \<and>
     sig_run demo_os {} (sig_view 20 demo_world False T_Out (\<lambda>_. S_Out) {}) (sig_view 20 u False T_Out (\<lambda>_. S_Out) {2}) \<and>
     deliver_if_pending demo_os 20 (demo_world\<lparr>threads := [20 \<mapsto> demo_hit]\<rparr>) = Some (Ret () v)"
proof -
  have s: "quiet demo_world" "live_list demo_world [20, 10]" "20 \<noteq> run demo_world"
    by (simp_all add: quiet_def live_list_def nlink_def)
  have w: "threads (demo_world\<lparr>threads := [20 \<mapsto> demo_hit]\<rparr>) 20 = Some demo_hit" "pend demo_hit \<noteq> 0" by (simp_all add: demo_hit_def)
  show ?thesis
    using signal_calls_are_paths [OF demo_sig_bits s, of "demo_thread\<lparr>th_self := 2, threadid := 2, nxt := 10\<rparr>" 2 "\<lambda>_. S_Out"
        demo_called 20 "demo_world\<lparr>threads := [20 \<mapsto> demo_hit]\<rparr>" demo_hit False T_Out "{}"]
      valid_2 demo_handlers demo_hit_taking(3) w
    by (auto simp: default_sigact_def)
qed

section \<open>What the steps must not do\<close>

text \<open>With an interval between the read and the write of \<^verbatim>\<open>_signals_blocked++\<close> two senders can leave it at -1.\<close>

lemma blocked_miscounted:
  fixes p q :: addr
  assumes "p \<noteq> q" "Torn_Count \<in> H"
  shows "sig_run E H (sig_start acts blk) ((sig_start acts blk)\<lparr>sc_blocked := -1\<rparr>)"
proof -
  let ?s = "sig_start acts blk"
  note more = sig_run_more
  have s: "sc_sender ?s = (\<lambda>_. S_Out)" "sc_blocked ?s = 0" by (simp_all add: sig_start_def)
  have "sig_run E H ?s (?s\<lparr>sc_sender := (sc_sender ?s)(p := S_Entering 0 0)\<rparr>)" (is "sig_run E H ?s ?a")
    by (rule more [OF sig_run.stop]) (rule sig_step.enter_load [of _ _ p 0], use assms s in simp_all)
  then have "sig_run E H ?s (?a\<lparr>sc_sender := (sc_sender ?a)(q := S_Entering 0 0)\<rparr>)" (is "sig_run E H ?s ?b")
    by (rule more) (rule sig_step.enter_load [of _ _ q 0], use assms s in simp_all)
  then have "sig_run E H ?s (?b\<lparr>sc_blocked := 1, sc_sender := (sc_sender ?b)(p := S_In 0)\<rparr>)" (is "sig_run E H ?s ?c")
    by (rule more) (rule sig_step.enter_store [of _ p 0 0], use assms s in simp_all)
  then have "sig_run E H ?s (?c\<lparr>sc_sender := (sc_sender ?c)(q := S_In 0)\<rparr>)" (is "sig_run E H ?s ?d")
    by (rule more) (rule sig_step.enter_store [of _ q 0 0], use assms s in simp_all)
  then have "sig_run E H ?s (?d\<lparr>sc_sender := (sc_sender ?d)(p := S_Done)\<rparr>)" (is "sig_run E H ?s ?e")
    by (rule more) (rule sig_step.ignored [of _ p 0], use assms s in simp_all)
  then have "sig_run E H ?s (?e\<lparr>sc_sender := (sc_sender ?e)(q := S_Done)\<rparr>)" (is "sig_run E H ?s ?f")
    by (rule more) (rule sig_step.ignored [of _ q 0], use assms s in simp_all)
  then have "sig_run E H ?s (?f\<lparr>sc_blocked := 0, sc_sender := (sc_sender ?f)(p := S_Out)\<rparr>)" (is "sig_run E H ?s ?g")
    by (rule more) (rule sig_step.leave [of _ p], use assms s in simp_all)
  then show ?thesis
    by (rule more) (rule sig_step.leave [of _ q], use assms s in \<open>simp_all add: fun_upd_twist fun_upd_idem\<close>)
qed

text \<open>With an interval in \<^verbatim>\<open>tp->sig_pending &= ~mask\<close> the target overwrites what a sender adds.\<close>

lemma signal_overwritten:
  assumes b: "sig_bits E b" and H: "Torn_Set \<in> H" and nm: "m \<noteq> n"
    and n: "0 < n" "n < int NSIG" "sys_sig_valid n" "sa_handler (acts (nat n)) \<noteq> SIG_IGN"
    and m: "0 < m" "m < int NSIG" "sys_sig_valid m" "sa_handler (acts (nat m)) \<noteq> SIG_IGN"
  shows "sig_run E H (sig_start acts 0) ((sig_start acts 0)\<lparr>sc_count := 1, sc_due := {m}\<rparr>)"
proof -
  let ?s = "sig_start acts 0"
  let ?d = "added E n (sc_data ?s)"
  note more = sig_run_more and app = sig_run_append
  have tn: "takes b ?d i \<longleftrightarrow> i = n" if "0 < i" "i < int NSIG" for i
    using takes_added [OF b n(1,2) that] by (auto simp: takes_def sig_start_def)
  have r1: "sig_run E H ?s (?s\<lparr>sc_data := ?d, sc_count := 1, sc_due := {n}\<rparr>)" (is "sig_run E H ?s ?a")
    using send_run [of ?s 1 n E H] n by (simp add: sig_start_def)
  then have "sig_run E H ?s (?a\<lparr>sc_target := T_Tested\<rparr>)"
    by (rule more) (rule sig_step.test, simp_all add: sig_start_def)
  then have "sig_run E H ?s (?a\<lparr>sc_count := 0, sc_target := T_Scan 1\<rparr>)"
    by (rule more) (rule sig_step.reset, simp_all)
  moreover have "sig_run E H (?a\<lparr>sc_count := 0, sc_target := T_Scan 1\<rparr>) (?a\<lparr>sc_count := 0, sc_target := T_Found n\<rparr>)"
    using scan_run [OF b, of "?a\<lparr>sc_count := 0\<rparr>" n 1 H] tn n by simp
  ultimately have "sig_run E H ?s (?a\<lparr>sc_count := 0, sc_target := T_Found n\<rparr>)" using app by blast
  then have "sig_run E H ?s (?a\<lparr>sc_count := 0, sc_target := T_Loaded n (sigmask E n)\<rparr>)" (is "sig_run E H ?s ?b")
    by (rule more) (rule sig_step.clear_load [of _ _ n], use H in \<open>simp_all add: sig_start_def added_def\<close>)
  moreover have "sig_run E H ?b (?b\<lparr>sc_data := added E m ?d, sc_count := 1, sc_due := {m, n}\<rparr>)" (is "sig_run E H ?b ?c")
    using send_run [of ?b 1 m E H] m by (simp add: sig_start_def added_def)
  ultimately have "sig_run E H ?s ?c" using app by blast
  then have "sig_run E H ?s (?c\<lparr>sc_data := sc_data ?s, sc_target := T_Scan 1, sc_due := {m}\<rparr>)" (is "sig_run E H ?s ?e")
    by (rule more) (rule sig_step.clear_store [of _ n "sigmask E n" 0], use nm in \<open>auto simp: sig_start_def added_def cleared_def\<close>)
  then show ?thesis
    by (rule more) (rule sig_step.finish [of _ 1], simp_all add: sig_start_def)
qed

text \<open>A mask changed by \<^verbatim>\<open>pthread_sigmask\<close> while another thread is in the section is not followed by a delivery, and nothing is counted.\<close>

lemma unmasked_forgotten:
  assumes b: "sig_bits E b" and H: "Masks \<in> H"
    and n: "0 < n" "n < int NSIG" "sys_sig_valid n" "sa_handler (acts (nat n)) \<noteq> SIG_IGN"
  shows "sig_run E H (sig_start acts (sigmask E n)) ((sig_start acts (sigmask E n))\<lparr>
    sc_data := \<lparr>signals = acts, sig_pending = sigmask E n, sig_blocked = set_blocked E 0\<rparr>, sc_due := {n}\<rparr>)"
proof -
  let ?s = "sig_start acts (sigmask E n)"
  let ?d = "\<lparr>signals = acts, sig_pending = sigmask E n, sig_blocked = sigmask E n\<rparr>"
  note more = sig_run_more
  have none: "taking b ?d = []" by (simp add: taking_def takes_def filter_empty_conv)
  have "sig_run E H ?s (?s\<lparr>sc_data := ?d, sc_count := 1, sc_due := {n}\<rparr>)" (is "sig_run E H ?s ?a")
    using send_run [of ?s 1 n E H] n by (simp add: sig_start_def added_def)
  then have "sig_run E H ?s (?a\<lparr>sc_target := T_Tested\<rparr>)"
    by (rule more) (rule sig_step.test, simp_all add: sig_start_def)
  then have "sig_run E H ?s (?a\<lparr>sc_count := 0, sc_target := T_Scan 1\<rparr>)"
    by (rule more) (rule sig_step.reset, simp_all)
  moreover have "sig_run E H (?a\<lparr>sc_count := 0, sc_target := T_Scan 1\<rparr>) (?a\<lparr>sc_count := 0\<rparr>)"
    using scan_end [OF b, of "?a\<lparr>sc_count := 0\<rparr>" 1 H] none by (simp add: sig_start_def)
  ultimately have "sig_run E H ?s (?a\<lparr>sc_count := 0\<rparr>)" (is "sig_run E H ?s ?c") using sig_run_append by blast
  then have "sig_run E H ?s (?c\<lparr>sc_blocked := 1, sc_sender := (sc_sender ?s)(1 := S_In 0)\<rparr>)" (is "sig_run E H ?s ?e")
    by (rule more) (rule sig_step.enter [of _ 1 0], simp_all add: sig_start_def)
  then have "sig_run E H ?s (?e\<lparr>sc_data := ?d\<lparr>sig_blocked := set_blocked E 0\<rparr>, sc_target := T_Masked\<rparr>)" (is "sig_run E H ?s ?f")
    by (rule more) (rule sig_step.mask [of _ _ _ 0], use H in \<open>simp_all add: sig_start_def\<close>)
  then have "sig_run E H ?s (?f\<lparr>sc_target := T_Out\<rparr>)" (is "sig_run E H ?s ?g")
    by (rule more) (rule sig_step.masked_end, simp_all)
  then have "sig_run E H ?s (?g\<lparr>sc_sender := (sc_sender ?s)(1 := S_Done)\<rparr>)" (is "sig_run E H ?s ?h")
    by (rule more) (rule sig_step.ignored [of _ 1 0], simp_all add: sig_start_def)
  then show ?thesis
    by (rule more) (rule sig_step.leave [of _ 1], simp_all add: sig_start_def fun_upd_idem)
qed

text \<open>A sender that has seen the target running does not post the event of the wait the target begins meanwhile.\<close>

lemma pause_misses:
  assumes H: "Waits \<in> H"
    and n: "0 < n" "n < int NSIG" "sys_sig_valid n" "sa_handler (acts (nat n)) \<noteq> SIG_IGN"
  shows "sig_run E H (sig_start acts blk) ((sig_start acts blk)\<lparr>sc_data := added E n (sc_data (sig_start acts blk)),
    sc_count := 1, sc_due := {n}, sc_state := PS_SIGWAIT, sc_target := T_Asleep\<rparr>)"
proof -
  let ?s = "sig_start acts blk"
  note more = sig_run_more
  have "sig_run E H ?s (?s\<lparr>sc_blocked := 1, sc_sender := (sc_sender ?s)(1 := S_In n)\<rparr>)" (is "sig_run E H ?s ?a")
    by (rule more [OF sig_run.stop]) (rule sig_step.enter [of _ 1 n], use n in \<open>simp_all add: sig_start_def\<close>)
  then have "sig_run E H ?s (?a\<lparr>sc_sender := (sc_sender ?s)(1 := S_Seen PS_RUNNING n)\<rparr>)" (is "sig_run E H ?s ?c")
    by (rule more) (rule sig_step.look [of _ 1 n], use n in \<open>simp_all add: sig_start_def\<close>)
  then have "sig_run E H ?s (?c\<lparr>sc_state := PS_SIGWAIT, sc_target := T_Asleep\<rparr>)" (is "sig_run E H ?s ?e")
    by (rule more) (rule sig_step.pause, use H in \<open>simp_all add: sig_start_def\<close>)
  then have "sig_run E H ?s (?e\<lparr>sc_data := added E n (sc_data ?s), sc_due := {n},
      sc_sender := (sc_sender ?s)(1 := S_Added PS_RUNNING n)\<rparr>)" (is "sig_run E H ?s ?f")
    by (rule more) (rule sig_step.add [of _ 1 PS_RUNNING n], simp_all add: sig_start_def)
  then have "sig_run E H ?s (?f\<lparr>sc_count := 1, sc_sender := (sc_sender ?s)(1 := S_Done)\<rparr>)" (is "sig_run E H ?s ?g")
    by (rule more) (rule sig_step.tally [of _ 1 PS_RUNNING n], simp_all add: sig_start_def)
  then show ?thesis
    by (rule more) (rule sig_step.leave [of _ 1], simp_all add: sig_start_def fun_upd_idem)
qed

text \<open>C11: What the guarantee rests on.  If \<^verbatim>\<open>_signals_blocked++\<close> is not one access, two senders can leave it different from 0 for good,
  and no check delivers again; if clearing a signal is not one access, a signal sent meanwhile disappears from the set;
  if the target unblocks a signal by \<^verbatim>\<open>pthread_sigmask\<close> while another thread is in \<^verbatim>\<open>pthread_kill\<close>, the signal stays pending with the count at 0;
  and a target that begins \<^verbatim>\<open>pthread_pause\<close> after a sender has seen it running sleeps with the signal pending and its event not posted.\<close>

theorem signal_hazards:
  assumes b: "sig_bits E b" and nm: "m \<noteq> n"
    and n: "0 < n" "n < int NSIG" "sys_sig_valid n" "sa_handler (acts (nat n)) \<noteq> SIG_IGN"
    and m: "0 < m" "m < int NSIG" "sys_sig_valid m" "sa_handler (acts (nat m)) \<noteq> SIG_IGN"
    and free: "\<not> bit (set_blocked E 0) (b n)"
  shows "(\<exists>s. sig_run E {Torn_Count} (sig_start acts 0) s \<and> all_out s \<and> sc_blocked s \<noteq> 0) \<and>
    (\<exists>s. sig_run E {Torn_Set} (sig_start acts 0) s \<and> all_out s \<and> m \<in> sc_due s \<and> sig_pending (sc_data s) = 0) \<and>
    (\<exists>s. sig_run E {Masks} (sig_start acts (sigmask E n)) s \<and> all_out s \<and> n \<in> sc_due s \<and> takes b (sc_data s) n \<and>
       sc_count s = 0) \<and>
    (\<exists>s. sig_run E {Waits} (sig_start acts 0) s \<and> sc_target s = T_Asleep \<and> \<not> sc_event s \<and> n \<in> sc_due s \<and>
       takes b (sc_data s) n \<and> (\<forall>p. sc_sender s p = S_Out))"
proof (intro conjI)
  have bn: "bit (sigmask E n) (b n)" using bit_sigmask [OF b n(1,2)] by simp
  show "\<exists>s. sig_run E {Torn_Count} (sig_start acts 0) s \<and> all_out s \<and> sc_blocked s \<noteq> 0"
    by (intro exI conjI, rule blocked_miscounted [of 1 2]) (simp_all add: all_out_def sig_start_def)
  show "\<exists>s. sig_run E {Torn_Set} (sig_start acts 0) s \<and> all_out s \<and> m \<in> sc_due s \<and> sig_pending (sc_data s) = 0"
    by (intro exI conjI, rule signal_overwritten [where acts = acts, OF b _ nm n m]) (simp_all add: all_out_def sig_start_def)
  show "\<exists>s. sig_run E {Masks} (sig_start acts (sigmask E n)) s \<and> all_out s \<and> n \<in> sc_due s \<and> takes b (sc_data s) n \<and>
       sc_count s = 0"
    by (intro exI conjI, rule unmasked_forgotten [where acts = acts, OF b _ n])
       (use bn free in \<open>simp_all add: all_out_def sig_start_def takes_def\<close>)
  show "\<exists>s. sig_run E {Waits} (sig_start acts 0) s \<and> sc_target s = T_Asleep \<and> \<not> sc_event s \<and> n \<in> sc_due s \<and>
       takes b (sc_data s) n \<and> (\<forall>p. sc_sender s p = S_Out)"
    by (intro exI conjI, rule pause_misses [where acts = acts, OF _ n])
       (use bn in \<open>simp_all add: all_out_def sig_start_def takes_def added_def bit_simps\<close>)
qed

theorem signal_hazards_witness:
  "\<exists>s. sig_run demo_os {Waits} (sig_start demo_acts 0) s \<and> sc_target s = T_Asleep \<and> \<not> sc_event s \<and> 2 \<in> sc_due s"
proof -
  have "sys_sig_valid 3" by (simp add: sys_sig_valid_def sys_sig_valid_table_def)
  then show ?thesis
    using signal_hazards [OF demo_sig_bits, of 3 2 demo_acts] valid_2 by auto
qed

section \<open>A wait that begins with a signal pending\<close>

text \<open>
  \<^verbatim>\<open>pthread_sigsuspend\<close> does not look at the signals that are pending when it stores the new mask: it waits for a post of
  the event it has just created, and when none comes it does not return, whatever is pending and unblocked.
\<close>

lemma seqM_none: "m u = None \<Longrightarrow> seqM m f u = None"
  by (simp add: seqM_def bindM_def)

lemma sigsuspend_waits_anyway:
  assumes "inited s" "threads s (run s) = Some t" "maskp \<noteq> NULL" "sigsets s maskp = Some v"
    and "DosCreateEventSem E 0 (cur s) (kern s) = ((rc, ev), k)"
    and "DosWaitEventSem E ev SEM_INDEFINITE_WAIT (s\<lparr>kern := k, threads := (threads s)(run s := Some (t\<lparr>
           tp := (tp t)\<lparr>sig_blocked := set_blocked E v\<rparr>, th_data := W_Abort ev, th_state := PS_SIGWAIT\<rparr>))\<rparr>) = None"
  shows "pthread_sigsuspend E maskp s = None"
proof -
  have r: "run s \<noteq> NULL" using assms(1) by (simp add: inited_def)
  let ?s = "s\<lparr>threads := (threads s)(run s := Some (t\<lparr>tp := (tp t)\<lparr>sig_blocked := set_blocked E v\<rparr>\<rparr>))\<rparr>"
  have "pthread_pause E ?s = None"
    using assms r seqM_none [where m = "DosWaitEventSem E ev SEM_INDEFINITE_WAIT", OF assms(6)] by (simp add: pthread_pause_def begin_wait_def run_simps kres_def kst_def)
  then show ?thesis
    using assms(1-4) r seqM_none by (simp add: pthread_sigsuspend_def run_simps Let_def)
qed

lemma sigsuspend_waits_anyway_demo:
  "takes nat (tp demo_hit) 2 \<and>
   pthread_sigsuspend demo_os 70 (demo_world\<lparr>threads := (threads demo_world)(10 := Some demo_hit)\<rparr>) = None"
proof
  show "takes nat (tp demo_hit) 2" by (rule demo_hit_taking(2))
  show "pthread_sigsuspend demo_os 70 (demo_world\<lparr>threads := (threads demo_world)(10 := Some demo_hit)\<rparr>) = None"
    by (rule sigsuspend_waits_anyway [where t = demo_hit and v = 0 and rc = 0 and ev = 100 and k = "demo_kern0\<lparr>next_handle := 101\<rparr>"])
       (simp_all add: run_def demo_new_def demo_wait_def inited_def)
qed

end
