(* ===== verification/ListConc.thy ===== *)
theory ListConc
  imports Exit
begin

text \<open>
  A search of the list of live threads while other threads register and end.  Threads change the two lists in
  critical sections, in which no other thread of the process runs; but \<^verbatim>\<open>pthread_kill\<close>, \<^verbatim>\<open>pthread_join\<close>,
  \<^verbatim>\<open>pthread_getprio\<close>, \<^verbatim>\<open>pthread_setprio\<close>, \<^verbatim>\<open>pthread_suspend_np\<close> and \<^verbatim>\<open>pthread_resume_np\<close> walk the list of live
  threads outside of one, so that the changes come between any two steps of the walk.
\<close>

section \<open>Steps\<close>

text \<open>\<^verbatim>\<open>thread->nxt = _thread_link_list; _thread_link_list = thread;\<close> in one critical section.\<close>

definition link_thread :: "addr \<Rightarrow> pthread \<Rightarrow> 'k world \<Rightarrow> 'k world" where
  "link_thread p t s =
     s\<lparr>threads := (threads s)(p := Some (t\<lparr>nxt := thread_link_list s\<rparr>)), thread_link_list := p\<rparr>"

text \<open>
  The state of the process and the pointer of the search.  \<open>ends\<close> tells whether threads may end; an ending thread
  executes \<open>exit_bury\<close>, the critical section of \<^verbatim>\<open>pthread_exit\<close>.
\<close>

inductive search_step :: "'k os \<Rightarrow> bool \<Rightarrow> addr \<Rightarrow> 'k world \<times> addr \<Rightarrow> 'k world \<times> addr \<Rightarrow> bool" for E ends target where
  register: "p \<noteq> NULL \<Longrightarrow> threads s p = None \<Longrightarrow> search_step E ends target (s, q) (link_thread p t s, q)"
| bury: "ends \<Longrightarrow> live_list s xs \<Longrightarrow> p \<in> set xs \<Longrightarrow> threads s p = Some t \<Longrightarrow> parent_thread t = NULL \<Longrightarrow>
    exit_bury E p s = Some (Ret () s') \<Longrightarrow> search_step E ends target (s, q) (s', q)"
| walk: "q \<noteq> NULL \<Longrightarrow> q \<noteq> target \<Longrightarrow> threads s q = Some t \<Longrightarrow> search_step E ends target (s, q) (s, nxt t)"

inductive search_run :: "'k os \<Rightarrow> bool \<Rightarrow> addr \<Rightarrow> 'k world \<times> addr \<Rightarrow> 'k world \<times> addr \<Rightarrow> bool" for E ends target where
  stop: "search_run E ends target a a"
| step: "search_run E ends target a b \<Longrightarrow> search_step E ends target b c \<Longrightarrow> search_run E ends target a c"

text \<open>The condition of the loop is false.\<close>

definition search_over :: "addr \<Rightarrow> addr \<Rightarrow> bool" where
  "search_over target q \<longleftrightarrow> q = NULL \<or> q = target"

section \<open>The lists under the steps\<close>

lemma nlink_link: "nlink (threads (link_thread p t s)) = (nlink (threads s))(p := Some (thread_link_list s))"
  by (simp add: link_thread_def nlink_upd)

lemma unknown_not_listed: "chain (nlink (threads s)) q xs \<Longrightarrow> threads s p = None \<Longrightarrow> p \<notin> set xs"
  using chain_alloc nlink_None by metis

lemma lists_ok_link:
  assumes "lists_ok s xs ds" "p \<noteq> NULL" "threads s p = None"
  shows "lists_ok (link_thread p t s) (p # xs) ds"
proof -
  have l: "chain (nlink (threads s)) (thread_link_list s) xs" "chain (nlink (threads s)) (thread_dead s) ds"
    "set xs \<inter> set ds = {}" using assms(1) by (simp_all add: lists_ok_def live_list_def dead_list_def)
  have "p \<notin> set xs" "p \<notin> set ds" using unknown_not_listed l assms(3) by blast+
  then show ?thesis using l assms(2)
    by (simp add: lists_ok_def live_list_def dead_list_def nlink_link) (simp add: link_thread_def)
qed

text \<open>What ending threads do to the lists: the thread is moved, and nothing else is.\<close>

lemma lists_ok_bury:
  assumes l: "lists_ok s xs ds" and p: "p \<in> set xs" "threads s p = Some t" "parent_thread t = NULL"
    and b: "exit_bury E p s = Some (Ret () s')"
  shows "lists_ok s' (remove1 p xs) (p # ds)"
  using bury_run [OF l p, of E] b by auto

text \<open>The pointer of the search is always at the end or at a thread on one of the lists.\<close>

definition search_inv :: "'k world \<times> addr \<Rightarrow> bool" where
  "search_inv a \<longleftrightarrow> (\<exists>xs ds. lists_ok (fst a) xs ds \<and> (snd a = NULL \<or> snd a \<in> set xs \<or> snd a \<in> set ds))"

lemma chain_next:
  assumes "chain lk p xs" "q \<in> set xs" "lk q = Some n"
  shows "n = NULL \<or> n \<in> set xs"
proof -
  from assms(2) obtain ys zs where "xs = ys @ q # zs" by (meson split_list)
  with assms(1,3) show ?thesis by (cases zs) (auto simp: chain_append)
qed

lemma search_inv_step:
  "search_step E ends target a b \<Longrightarrow> search_inv a \<Longrightarrow> search_inv b"
proof (induction rule: search_step.induct)
  case (register p s q t)
  then obtain xs ds where i: "lists_ok s xs ds" "q = NULL \<or> q \<in> set xs \<or> q \<in> set ds" by (auto simp: search_inv_def)
  from lists_ok_link [OF this(1) register(1,2)] i(2) show ?case
    unfolding search_inv_def by (intro exI [of _ "p # xs"] exI [of _ ds]) auto
next
  case (bury s xs p t s' q)
  then obtain xs' ds where i: "lists_ok s xs' ds" "q = NULL \<or> q \<in> set xs' \<or> q \<in> set ds" by (auto simp: search_inv_def)
  then have x: "xs' = xs" using live_list_unique bury(2) by (auto simp: lists_ok_def)
  have "lists_ok s' (remove1 p xs) (p # ds)"
    by (rule lists_ok_bury [OF i(1) [unfolded x] bury(3-6)])
  moreover have "q = NULL \<or> q \<in> set (remove1 p xs) \<or> q \<in> set (p # ds)"
    using i(2) x by (cases "q = p") (auto simp: in_set_remove1)
  ultimately show ?case unfolding search_inv_def fst_conv snd_conv by blast
next
  case (walk q s t)
  then obtain xs ds where i: "lists_ok s xs ds" "q \<in> set xs \<or> q \<in> set ds" by (auto simp: search_inv_def)
  have "nlink (threads s) q = Some (nxt t)" using walk(3) by (simp add: nlink_def)
  with i chain_next have "nxt t = NULL \<or> nxt t \<in> set xs \<or> nxt t \<in> set ds"
    unfolding lists_ok_def live_list_def dead_list_def by metis
  with i(1) show ?case by (auto simp: search_inv_def)
qed

lemma search_inv_run: "search_run E ends target a b \<Longrightarrow> search_inv a \<Longrightarrow> search_inv b"
  by (induction rule: search_run.induct) (auto intro: search_inv_step)

text \<open>While no thread ends, what is left of the walk is the end of the list as it was when the search began.\<close>

definition on_course :: "addr \<Rightarrow> addr list \<Rightarrow> 'k world \<times> addr \<Rightarrow> bool" where
  "on_course target xs a \<longleftrightarrow>
     (\<exists>ys zs. xs = ys @ zs \<and> target \<notin> set ys \<and> chain (nlink (threads (fst a))) (snd a) zs)"

lemma on_course_step:
  "search_step E False target a b \<Longrightarrow> on_course target xs a \<Longrightarrow> on_course target xs b"
proof (induction rule: search_step.induct)
  case (register p s q t)
  then obtain ys zs where i: "xs = ys @ zs" "target \<notin> set ys" "chain (nlink (threads s)) q zs" by (auto simp: on_course_def)
  moreover have "p \<notin> set zs" using unknown_not_listed i(3) register(2) by blast
  ultimately have "chain (nlink (threads (link_thread p t s))) q zs" by (simp add: nlink_link)
  with i(1,2) show ?case unfolding on_course_def fst_conv snd_conv by blast
next
  case (walk q s t)
  then obtain ys zs where i: "xs = ys @ zs" "target \<notin> set ys" "chain (nlink (threads s)) q zs" by (auto simp: on_course_def)
  with walk obtain zs' where "zs = q # zs'" by (cases zs) auto
  with i walk show ?case
    unfolding on_course_def by (intro exI [of _ "ys @ [q]"] exI [of _ zs']) (auto simp: nlink_def)
qed simp

lemma on_course_run: "search_run E False target a b \<Longrightarrow> on_course target xs a \<Longrightarrow> on_course target xs b"
  by (induction rule: search_run.induct) (auto intro: on_course_step)

text \<open>Alone, the search of \<open>ThreadList\<close> is a run of these steps.\<close>

lemma search_run_first:
  "search_run E ends target b c \<Longrightarrow> search_step E ends target a b \<Longrightarrow> search_run E ends target a c"
  by (induction rule: search_run.induct) (auto intro: search_run.intros)

lemma find_thread_is_search:
  "chain (nlink (threads s)) p xs \<Longrightarrow>
    \<exists>r. find_thread p target s = Some (Ret r s) \<and> search_run E ends target (s, p) (s, r) \<and> search_over target r"
proof (induction xs arbitrary: p)
  case Nil
  then show ?case by (subst find_thread.simps) (auto simp: retM_def search_over_def intro: search_run.stop)
next
  case (Cons x xs)
  then obtain t where x: "p = x" "x \<noteq> NULL" "threads s x = Some t" "chain (nlink (threads s)) (nxt t) xs"
    by (auto simp: nlink_Some)
  show ?case
  proof (cases "x = target")
    case True
    with x show ?thesis by (subst find_thread.simps) (auto simp: retM_def search_over_def intro: search_run.stop)
  next
    case False
    from Cons.IH [OF x(4)] obtain r where
      r: "find_thread (nxt t) target s = Some (Ret r s)" "search_run E ends target (s, nxt t) (s, r)" "search_over target r" by blast
    have "find_thread p target s = Some (Ret r s)" using r(1) x False by (subst find_thread.simps) simp
    moreover have "search_run E ends target (s, p) (s, r)"
      using search_run_first [OF r(2) search_step.walk [of x target s t]] x False by simp
    ultimately show ?thesis using r(3) by blast
  qed
qed

section \<open>Properties\<close>

text \<open>C2: A search of the list of live threads that other threads' registrations and ends interrupt anywhere never
  reads through a pointer that is no thread: it is at the end or at a thread on the list of live or of dead threads, which
  stay well formed, and its next step is possible.  If no thread ends meanwhile, it finds its target exactly if the target was
  on the list when the search began.\<close>

theorem search_interleaved:
  assumes l: "lists_ok s xs ds" and run: "search_run E ends target (s, thread_link_list s) (u, q)"
  shows "(\<exists>xs' ds'. lists_ok u xs' ds' \<and> (q = NULL \<or> q \<in> set xs' \<or> q \<in> set ds')) \<and>
    (search_over target q \<or> (\<exists>t. threads u q = Some t \<and> search_step E ends target (u, q) (u, nxt t))) \<and>
    (\<not> ends \<and> target \<noteq> NULL \<and> search_over target q \<longrightarrow> (q = target \<longleftrightarrow> target \<in> set xs))"
proof (intro conjI impI)
  have c: "chain (nlink (threads s)) (thread_link_list s) xs" using l by (simp add: lists_ok_def live_list_def)
  have "search_inv (s, thread_link_list s)"
    using l c unfolding search_inv_def by (intro exI [of _ xs] exI [of _ ds]) (cases xs, auto)
  then have i: "search_inv (u, q)" by (rule search_inv_run [OF run])
  then show "\<exists>xs' ds'. lists_ok u xs' ds' \<and> (q = NULL \<or> q \<in> set xs' \<or> q \<in> set ds')" by (simp add: search_inv_def)
  from i have "q = NULL \<or> nlink (threads u) q \<noteq> None"
    unfolding search_inv_def lists_ok_def live_list_def dead_list_def using chain_alloc by fastforce
  then show "search_over target q \<or> (\<exists>t. threads u q = Some t \<and> search_step E ends target (u, q) (u, nxt t))"
    by (auto simp: search_over_def nlink_None intro: search_step.walk)
  assume a: "\<not> ends \<and> target \<noteq> NULL \<and> search_over target q"
  have "on_course target xs (s, thread_link_list s)"
    using c unfolding on_course_def by (intro exI [of _ "[]"] exI [of _ xs]) simp
  then have "on_course target xs (u, q)" using on_course_run run a by fastforce
  then obtain ys zs where "xs = ys @ zs" "target \<notin> set ys" "chain (nlink (threads u)) q zs" by (auto simp: on_course_def)
  with a show "q = target \<longleftrightarrow> target \<in> set xs"
    by (cases zs) (auto simp: search_over_def)
qed

lemma demo_lists: "lists_ok demo_world [20, 10] []"
  by (simp add: lists_ok_def live_list_def dead_list_def nlink_def)

theorem search_interleaved_witness:
  "\<exists>u xs' ds'. search_run demo_os False 10 (demo_world, 20) (u, 10) \<and> thread_link_list u = 99 \<and> lists_ok u xs' ds' \<and>
     (10 \<in> set xs' \<or> 10 \<in> set ds')"
proof -
  let ?u = "link_thread 99 demo_thread demo_world"
  note step = search_run.step
  have "search_run demo_os False 10 (demo_world, 20) (?u, 20)"
    by (rule step [OF search_run.stop]) (rule search_step.register, simp_all)
  moreover have "threads ?u 20 = Some (demo_thread\<lparr>th_self := 2, threadid := 2, nxt := 10\<rparr>)"
    by (simp add: link_thread_def)
  from search_step.walk [OF _ _ this, of 10 demo_os False]
  have "search_step demo_os False 10 (?u, 20) (?u, 10)" by simp
  ultimately have r: "search_run demo_os False 10 (demo_world, 20) (?u, 10)" by (rule step)
  have "thread_link_list ?u = 99" by (simp add: link_thread_def)
  then show ?thesis
    using search_interleaved [OF demo_lists, of demo_os False 10 ?u 10] r by auto
qed

section \<open>A thread that ends under the search\<close>

text \<open>
  When the thread the search stands at ends, its \<^verbatim>\<open>nxt\<close> becomes the head of the list of dead threads, and the search
  goes on there: it reports that a thread does not exist that is still on the list of live ones, and it finds threads that are dead.
\<close>

lemma search_strays:
  assumes l: "lists_ok s (a # xs) ds" and t: "threads s a = Some t" "parent_thread t = NULL" "a \<noteq> target"
  shows "thread_link_list s = a" "\<exists>u. search_run E True target (s, a) (u, thread_dead s) \<and> lists_ok u xs (a # ds)"
proof -
  have c: "live_list s (a # xs)" using l by (simp add: lists_ok_def)
  then show "thread_link_list s = a" by (simp add: live_list_def)
  have a: "a \<noteq> NULL" using c by (simp add: live_list_def)
  from bury_run [OF l _ t(1,2), of E] obtain h first s' where
    b: "exit_bury E a s = Some (Ret () s')" "lists_ok s' xs (a # ds)"
      "s' = unblocked E (s\<lparr>kern := kst (DosExitCritSec E) (s\<lparr>kern := kst (DosEnterCritSec E) s\<rparr>),
        threads := h(a := Some (t\<lparr>nxt := thread_dead s\<rparr>)), thread_link_list := first, thread_dead := a\<rparr>)" by auto
  have "search_step E True target (s, a) (s', a)"
    by (rule search_step.bury [OF _ c _ t(1,2) b(1)]) simp_all
  then have "search_run E True target (s, a) (s', a)" by (rule search_run.step [OF search_run.stop])
  moreover have "threads s' a = Some (t\<lparr>nxt := thread_dead s\<rparr>)" by (simp add: b(3) unblocked_def)
  from search_step.walk [OF a t(3) this, of E True] have "search_step E True target (s', a) (s', thread_dead s)" by simp
  ultimately have "search_run E True target (s, a) (s', thread_dead s)" by (rule search_run.step)
  with b(2) show "\<exists>u. search_run E True target (s, a) (u, thread_dead s) \<and> lists_ok u xs (a # ds)" by blast
qed

lemma search_misses_live:
  assumes "lists_ok s (a # xs) []" "threads s a = Some t" "parent_thread t = NULL" "target \<in> set xs"
  shows "\<exists>u. search_run E True target (s, thread_link_list s) (u, NULL) \<and> lists_ok u xs [a] \<and> target \<in> set xs"
proof -
  have "live_list s (a # xs)" using assms(1) by (simp add: lists_ok_def)
  then have "distinct (a # xs)" by (rule live_list_distinct)
  then have "a \<noteq> target" using assms(4) by auto
  moreover have "thread_dead s = NULL" using assms(1) by (simp add: lists_ok_def dead_list_def)
  ultimately show ?thesis using search_strays(1) [OF assms(1-3), of target] search_strays(2) [OF assms(1-3), of target E] assms(4) by auto
qed

lemma search_finds_dead:
  assumes "lists_ok s (a # xs) (d # ds)" "threads s a = Some t" "parent_thread t = NULL"
  shows "\<exists>u. search_run E True d (s, thread_link_list s) (u, d) \<and> lists_ok u xs (a # d # ds) \<and> d \<notin> set xs"
proof -
  have "a \<noteq> d" "d \<notin> set xs" "thread_dead s = d" using assms(1) by (auto simp: lists_ok_def dead_list_def)
  then show ?thesis using search_strays(1) [OF assms, of d] search_strays(2) [OF assms, of d E] by auto
qed

lemma search_misses_live_demo:
  "\<exists>u. search_run demo_os True 10 (demo_world, 20) (u, NULL) \<and> lists_ok u [10] [20]"
  using search_misses_live [OF demo_lists, of "demo_thread\<lparr>th_self := 2, threadid := 2, nxt := 10\<rparr>" 10 demo_os] by auto

end
