(* ===== verification/KeyConc.thy ===== *)
theory KeyConc
  imports Keys
begin

text \<open>
  Threads that create thread-specific keys at the same time.  \<^verbatim>\<open>pthread_key_create\<close> of \<^verbatim>\<open>uthread_spec.c\<close> enters no critical
  section: it tests the count of an entry, increments it and stores the destructor as three accesses to the table, between
  which other threads run.
\<close>

section \<open>Steps\<close>

text \<open>
  Where a thread is in its call: outside, before the test of an entry, past a test that found the entry unused, with the entry
  counted, with the key returned, or with \<^verbatim>\<open>EAGAIN\<close> returned.
\<close>

datatype key_place = K_Out | K_At nat | K_Free nat | K_Counted nat | K_Got nat | K_Full

record key_state =
  kc_table :: "nat \<Rightarrow> pthread_key"
  kc_place :: "addr \<Rightarrow> key_place"

text \<open>
  \<open>d t\<close> is the destructor thread \<open>t\<close> passes.  With \<open>whole\<close> the test and the increment are one access, which is how a
  critical section around the body of the loop would make them; the code has the steps without \<open>whole\<close>.
\<close>

inductive key_step :: "bool \<Rightarrow> (addr \<Rightarrow> addr) \<Rightarrow> key_state \<Rightarrow> key_state \<Rightarrow> bool" for whole d where
  enter: "kc_place s t = K_Out \<Longrightarrow> key_step whole d s (s\<lparr>kc_place := (kc_place s)(t := K_At 0)\<rparr>)"
| used: "kc_place s t = K_At k \<Longrightarrow> k < PTHREAD_KEYS_MAX \<Longrightarrow> k_count (kc_table s k) \<noteq> 0 \<Longrightarrow>
    key_step whole d s (s\<lparr>kc_place := (kc_place s)(t := K_At (k + 1))\<rparr>)"
| unused: "\<not> whole \<Longrightarrow> kc_place s t = K_At k \<Longrightarrow> k < PTHREAD_KEYS_MAX \<Longrightarrow> k_count (kc_table s k) = 0 \<Longrightarrow>
    key_step whole d s (s\<lparr>kc_place := (kc_place s)(t := K_Free k)\<rparr>)"
| count: "kc_place s t = K_Free k \<Longrightarrow>
    key_step whole d s (s\<lparr>kc_table := (kc_table s)(k := (kc_table s k)\<lparr>k_count := k_count (kc_table s k) + 1\<rparr>),
      kc_place := (kc_place s)(t := K_Counted k)\<rparr>)"
| claim: "whole \<Longrightarrow> kc_place s t = K_At k \<Longrightarrow> k < PTHREAD_KEYS_MAX \<Longrightarrow> k_count (kc_table s k) = 0 \<Longrightarrow>
    key_step whole d s (s\<lparr>kc_table := (kc_table s)(k := (kc_table s k)\<lparr>k_count := k_count (kc_table s k) + 1\<rparr>),
      kc_place := (kc_place s)(t := K_Counted k)\<rparr>)"
| store: "kc_place s t = K_Counted k \<Longrightarrow>
    key_step whole d s (s\<lparr>kc_table := (kc_table s)(k := (kc_table s k)\<lparr>k_destructor := d t\<rparr>),
      kc_place := (kc_place s)(t := K_Got k)\<rparr>)"
| full: "kc_place s t = K_At k \<Longrightarrow> PTHREAD_KEYS_MAX \<le> k \<Longrightarrow>
    key_step whole d s (s\<lparr>kc_place := (kc_place s)(t := K_Full)\<rparr>)"

inductive key_run :: "bool \<Rightarrow> (addr \<Rightarrow> addr) \<Rightarrow> key_state \<Rightarrow> key_state \<Rightarrow> bool" for whole d where
  stop: "key_run whole d s s"
| step: "key_run whole d s u \<Longrightarrow> key_step whole d u v \<Longrightarrow> key_run whole d s v"

definition key_start :: "(nat \<Rightarrow> pthread_key) \<Rightarrow> key_state" where
  "key_start kt = \<lparr>kc_table = kt, kc_place = (\<lambda>_. K_Out)\<rparr>"

section \<open>With the entry claimed in one access\<close>

fun claims :: "nat \<Rightarrow> key_place \<Rightarrow> bool" where
  "claims k (K_Counted j) = (j = k)"
| "claims k (K_Got j) = (j = k)"
| "claims k p = False"

text \<open>An entry is as it was at the beginning, or it was unused and exactly one thread has it.\<close>

definition key_inv :: "(nat \<Rightarrow> pthread_key) \<Rightarrow> (addr \<Rightarrow> addr) \<Rightarrow> key_state \<Rightarrow> bool" where
  "key_inv kt d s \<longleftrightarrow> (\<forall>t k. kc_place s t \<noteq> K_Free k) \<and>
     (\<forall>t u k. claims k (kc_place s t) \<longrightarrow> claims k (kc_place s u) \<longrightarrow> t = u) \<and>
     (\<forall>t k. claims k (kc_place s t) \<longrightarrow> k < PTHREAD_KEYS_MAX \<and> k_count (kt k) = 0 \<and> k_count (kc_table s k) = 1) \<and>
     (\<forall>t k. kc_place s t = K_Got k \<longrightarrow> k_destructor (kc_table s k) = d t) \<and>
     (\<forall>k. (\<forall>t. \<not> claims k (kc_place s t)) \<longrightarrow> kc_table s k = kt k)"

lemma key_invD:
  assumes "key_inv kt d s"
  shows "\<And>t k. kc_place s t \<noteq> K_Free k"
    "\<And>t u k. claims k (kc_place s t) \<Longrightarrow> claims k (kc_place s u) \<Longrightarrow> t = u"
    "\<And>t k. claims k (kc_place s t) \<Longrightarrow> k < PTHREAD_KEYS_MAX \<and> k_count (kt k) = 0 \<and> k_count (kc_table s k) = 1"
    "\<And>t k. kc_place s t = K_Got k \<Longrightarrow> k_destructor (kc_table s k) = d t"
    "\<And>k. (\<And>t. \<not> claims k (kc_place s t)) \<Longrightarrow> kc_table s k = kt k"
  using assms unfolding key_inv_def by blast+

lemma key_inv_start: "key_inv kt d (key_start kt)"
  by (simp add: key_inv_def key_start_def)

lemma key_invI:
  assumes "\<And>t k. kc_place s t \<noteq> K_Free k"
    and "\<And>t u k. claims k (kc_place s t) \<Longrightarrow> claims k (kc_place s u) \<Longrightarrow> t = u"
    and "\<And>t k. claims k (kc_place s t) \<Longrightarrow> k < PTHREAD_KEYS_MAX \<and> k_count (kt k) = 0 \<and> k_count (kc_table s k) = 1"
    and "\<And>t k. kc_place s t = K_Got k \<Longrightarrow> k_destructor (kc_table s k) = d t"
    and "\<And>k. (\<And>t. \<not> claims k (kc_place s t)) \<Longrightarrow> kc_table s k = kt k"
  shows "key_inv kt d s"
  unfolding key_inv_def using assms by blast

text \<open>A step between places without an entry.\<close>

lemma key_inv_move:
  assumes i: "key_inv kt d s" and p: "\<And>k. \<not> claims k (kc_place s t)" "\<And>k. \<not> claims k p" "\<And>k. p \<noteq> K_Free k"
  shows "key_inv kt d (s\<lparr>kc_place := (kc_place s)(t := p)\<rparr>)"
proof -
  let ?u = "s\<lparr>kc_place := (kc_place s)(t := p)\<rparr>"
  note I = key_invD [OF i]
  have c: "claims k (kc_place ?u x) \<longleftrightarrow> claims k (kc_place s x)" for k x using p by simp
  have g: "kc_place s x = K_Got k" if "kc_place ?u x = K_Got k" for k x
    using that p(2) [of k] by (cases "x = t") auto
  have f: "kc_place ?u x \<noteq> K_Free k" for k x using p(3) I(1) by simp
  have tab: "kc_table ?u = kc_table s" by simp
  show ?thesis
    by (rule key_invI, rule f) (unfold c tab, fact I(2), fact I(3), rule I(4), erule g, rule I(5), blast)
qed

text \<open>An unused entry is claimed, and its destructor stored.\<close>

lemma key_inv_claim:
  assumes i: "key_inv kt d s" and t: "kc_place s t = K_At k" "k < PTHREAD_KEYS_MAX" "k_count (kc_table s k) = 0"
  shows "key_inv kt d (s\<lparr>kc_table := (kc_table s)(k := (kc_table s k)\<lparr>k_count := k_count (kc_table s k) + 1\<rparr>),
    kc_place := (kc_place s)(t := K_Counted k)\<rparr>)" (is "key_inv kt d ?u")
proof -
  note I = key_invD [OF i]
  have free: "\<not> claims k (kc_place s x)" for x using I(3) [of k x] t(3) by auto
  have kt: "kc_table s k = kt k" using I(5) [OF free] .
  have c: "claims j (kc_place ?u x) \<longleftrightarrow> x = t \<and> j = k \<or> claims j (kc_place s x)" for j x using t(1) by auto
  have g: "kc_place ?u x = K_Got j \<Longrightarrow> kc_place s x = K_Got j \<and> j \<noteq> k" for j x
    using free [of x] by (auto split: if_splits)
  show ?thesis
  proof (rule key_invI)
    show "kc_place ?u x \<noteq> K_Free j" for x j using I(1) by simp
    show "x = y" if "claims j (kc_place ?u x)" "claims j (kc_place ?u y)" for x y j
      using that I(2) free unfolding c by blast
    show "j < PTHREAD_KEYS_MAX \<and> k_count (kt j) = 0 \<and> k_count (kc_table ?u j) = 1" if "claims j (kc_place ?u x)" for x j
      using that I(3) [of j x] t(2,3) kt free [of x] unfolding c by auto
    show "k_destructor (kc_table ?u j) = d x" if "kc_place ?u x = K_Got j" for x j
      using g [OF that] I(4) by auto
    show "kc_table ?u j = kt j" if "\<And>x. \<not> claims j (kc_place ?u x)" for j
    proof -
      have "j \<noteq> k" "\<not> claims j (kc_place s x)" for x using that unfolding c by blast+
      then show ?thesis using I(5) by simp
    qed
  qed
qed

lemma key_inv_store:
  assumes i: "key_inv kt d s" and t: "kc_place s t = K_Counted k"
  shows "key_inv kt d (s\<lparr>kc_table := (kc_table s)(k := (kc_table s k)\<lparr>k_destructor := d t\<rparr>),
    kc_place := (kc_place s)(t := K_Got k)\<rparr>)" (is "key_inv kt d ?u")
proof -
  note I = key_invD [OF i]
  have c: "claims j (kc_place ?u x) \<longleftrightarrow> claims j (kc_place s x)" for j x using t by simp
  have own: "x = t" if "claims k (kc_place s x)" for x using I(2) [OF that, of t] t by simp
  show ?thesis
  proof (rule key_invI)
    show "kc_place ?u x \<noteq> K_Free j" for x j using I(1) by simp
    show "x = y" if "claims j (kc_place ?u x)" "claims j (kc_place ?u y)" for x y j
      using that I(2) unfolding c by blast
    show "j < PTHREAD_KEYS_MAX \<and> k_count (kt j) = 0 \<and> k_count (kc_table ?u j) = 1" if "claims j (kc_place ?u x)" for x j
      using that I(3) [of j x] unfolding c by auto
    show "k_destructor (kc_table ?u j) = d x" if "kc_place ?u x = K_Got j" for x j
    proof (cases "x = t")
      case True
      with that show ?thesis by simp
    next
      case False
      with that have x: "kc_place s x = K_Got j" by simp
      then have "j \<noteq> k" using own [of x] False by auto
      with I(4) [OF x] show ?thesis by simp
    qed
    show "kc_table ?u j = kt j" if "\<And>x. \<not> claims j (kc_place ?u x)" for j
    proof -
      have n: "\<not> claims j (kc_place s x)" for x using that unfolding c by blast
      have "j \<noteq> k" using n [of t] t by auto
      then show ?thesis using I(5) [OF n] by simp
    qed
  qed
qed

lemma key_inv_step: "key_step True d s u \<Longrightarrow> key_inv kt d s \<Longrightarrow> key_inv kt d u"
proof (induction rule: key_step.induct)
  case (enter s t)
  then show ?case by - (rule key_inv_move, simp_all)
next
  case (used s t k)
  then show ?case by - (rule key_inv_move, simp_all)
next
  case (full s t k)
  then show ?case by - (rule key_inv_move, simp_all)
next
  case (count s t k)
  then show ?case using key_invD(1) [OF count(2)] by blast
next
  case (claim s t k)
  then show ?case by (intro key_inv_claim)
next
  case (store s t k)
  then show ?case by (intro key_inv_store)
qed simp

lemma key_inv_run: "key_run True d s u \<Longrightarrow> key_inv kt d s \<Longrightarrow> key_inv kt d u"
  by (induction rule: key_run.induct) (auto intro: key_inv_step)

section \<open>The calls as they are\<close>

lemma key_more: "key_run w d s u \<Longrightarrow> key_step w d u v \<Longrightarrow> v = x \<Longrightarrow> key_run w d s x"
  by (auto intro: key_run.step)

lemma key_run_append: "key_run w d u v \<Longrightarrow> key_run w d s u \<Longrightarrow> key_run w d s v"
  by (induction rule: key_run.induct) (auto intro: key_run.step)

text \<open>A thread walks over the used entries.\<close>

lemma walk_entries:
  "i \<le> first_free (kc_table s) \<Longrightarrow> j \<le> i \<Longrightarrow>
     key_run w d (s\<lparr>kc_place := (kc_place s)(t := K_At j)\<rparr>) (s\<lparr>kc_place := (kc_place s)(t := K_At i)\<rparr>)"
proof (induction i)
  case 0
  then show ?case by (simp add: key_run.stop)
next
  case (Suc i)
  show ?case
  proof (cases "j = Suc i")
    case True
    then show ?thesis by (simp add: key_run.stop)
  next
    case False
    with Suc.prems have i: "i < first_free (kc_table s)" "j \<le> i" by simp_all
    have "key_run w d (s\<lparr>kc_place := (kc_place s)(t := K_At j)\<rparr>) (s\<lparr>kc_place := (kc_place s)(t := K_At i)\<rparr>)"
      by (rule Suc.IH) (use i in simp_all)
    moreover have "i < PTHREAD_KEYS_MAX" using i(1) first_free_le [of "kc_table s"] by simp
    ultimately show ?thesis
      using first_free_least [OF i(1)] by (elim key_more) (rule key_step.used [of _ t i], simp_all add: fun_upd_def cong: if_cong)
  qed
qed

lemma enter_and_walk:
  assumes "kc_place s t = K_Out"
  shows "key_run w d s (s\<lparr>kc_place := (kc_place s)(t := K_At (first_free (kc_table s)))\<rparr>)"
proof -
  have "key_run w d s (s\<lparr>kc_place := (kc_place s)(t := K_At 0)\<rparr>)"
    by (rule key_more [OF key_run.stop]) (rule key_step.enter [of _ t], use assms in simp_all)
  with walk_entries [of "first_free (kc_table s)" s 0 w d t] show ?thesis using key_run_append by simp
qed

text \<open>What the steps see of a state of the process, and that \<^verbatim>\<open>pthread_key_create\<close> in one go is a path of them.\<close>

definition key_view :: "'k world \<Rightarrow> (addr \<Rightarrow> key_place) \<Rightarrow> key_state" where
  "key_view s pl = \<lparr>kc_table = key_table s, kc_place = pl\<rparr>"

lemma key_create_is_path:
  assumes "inited s" "key \<noteq> NULL" "ints s key = Some v" "pl t = K_Out" "d t = dtor"
  shows "\<exists>r u. pthread_key_create E key dtor s = Some (Ret r u) \<and>
    key_run False d (key_view s pl) (key_view u (pl(t := if r = 0 then K_Got (first_free (key_table s)) else K_Full)))"
proof -
  let ?k = "first_free (key_table s)" and ?v = "key_view s pl"
  note more = key_more
  have w: "key_run False d ?v (?v\<lparr>kc_place := pl(t := K_At ?k)\<rparr>)"
    using enter_and_walk [of ?v t False d] assms(4) by (simp add: key_view_def)
  note call = key_create_run [OF assms(1-3), of E dtor]
  show ?thesis
  proof (cases "?k < PTHREAD_KEYS_MAX")
    case True
    note z = first_free_free [OF True]
    from w have "key_run False d ?v (?v\<lparr>kc_place := pl(t := K_Free ?k)\<rparr>)"
      by (rule more) (rule key_step.unused [of _ _ t ?k], use True z in \<open>simp_all add: key_view_def\<close>)
    then have "key_run False d ?v (?v\<lparr>kc_table := (key_table s)(?k := (key_table s ?k)\<lparr>k_count := 1\<rparr>),
        kc_place := pl(t := K_Counted ?k)\<rparr>)"
      by (rule more) (rule key_step.count [of _ t ?k], use z in \<open>simp_all add: key_view_def\<close>)
    then have "key_run False d ?v (key_view (created s key dtor) (pl(t := K_Got ?k)))"
      by (rule more) (rule key_step.store [of _ t ?k], use True assms(5) in \<open>simp_all add: key_view_def created_def Let_def\<close>)
    with call True show ?thesis by auto
  next
    case False
    from w have "key_run False d ?v (key_view (created s key dtor) (pl(t := K_Full)))"
      by (rule more) (rule key_step.full [of _ t ?k], use False in \<open>simp_all add: key_view_def created_def Let_def\<close>)
    with call False show ?thesis by auto
  qed
qed

text \<open>Two threads that test the same entry before either counts itself.\<close>

lemma key_shared:
  fixes t u :: addr
  assumes "t \<noteq> u" and k: "first_free kt < PTHREAD_KEYS_MAX"
  defines "k \<equiv> first_free kt"
  shows "key_run False d (key_start kt) \<lparr>kc_table = kt(k := (kt k)\<lparr>k_count := 2, k_destructor := d u\<rparr>),
    kc_place = (\<lambda>_. K_Out)(t := K_Got k, u := K_Got k)\<rparr>"
proof -
  let ?s = "key_start kt" and ?o = "(\<lambda>_. K_Out) :: addr \<Rightarrow> key_place"
  note more = key_more
  have k': "k < PTHREAD_KEYS_MAX" "k_count (kt k) = 0" using k first_free_free by (simp_all add: k_def)
  have "key_run False d ?s (?s\<lparr>kc_place := ?o(t := K_At k)\<rparr>)"
    using enter_and_walk [of ?s t False d] by (simp add: key_start_def k_def)
  then have "key_run False d ?s (?s\<lparr>kc_place := ?o(t := K_Free k)\<rparr>)" (is "key_run False d ?s ?a")
    by (rule more) (rule key_step.unused [of _ _ t k], use k' in \<open>simp_all add: key_start_def\<close>)
  moreover have "key_run False d ?a (?a\<lparr>kc_place := ?o(t := K_Free k, u := K_At k)\<rparr>)"
    using enter_and_walk [of ?a u False d] assms(1) by (simp add: key_start_def k_def)
  ultimately have "key_run False d ?s (?s\<lparr>kc_place := ?o(t := K_Free k, u := K_At k)\<rparr>)"
    using key_run_append by simp
  then have "key_run False d ?s (?s\<lparr>kc_place := ?o(t := K_Free k, u := K_Free k)\<rparr>)"
    by (rule more) (rule key_step.unused [of _ _ u k], use k' in \<open>simp_all add: key_start_def\<close>)
  then have "key_run False d ?s (?s\<lparr>kc_table := kt(k := (kt k)\<lparr>k_count := 1\<rparr>),
      kc_place := ?o(t := K_Counted k, u := K_Free k)\<rparr>)"
    by (rule more) (rule key_step.count [of _ t k], use assms(1) k' in \<open>simp_all add: key_start_def fun_upd_twist\<close>)
  then have "key_run False d ?s (?s\<lparr>kc_table := kt(k := (kt k)\<lparr>k_count := 2\<rparr>),
      kc_place := ?o(t := K_Counted k, u := K_Counted k)\<rparr>)"
    by (rule more) (rule key_step.count [of _ u k], use assms(1) in \<open>simp_all add: key_start_def\<close>)
  then have "key_run False d ?s (?s\<lparr>kc_table := kt(k := (kt k)\<lparr>k_count := 2, k_destructor := d t\<rparr>),
      kc_place := ?o(t := K_Got k, u := K_Counted k)\<rparr>)"
    by (rule more) (rule key_step.store [of _ t k], use assms(1) in \<open>simp_all add: key_start_def fun_upd_twist\<close>)
  then show ?thesis
    by (rule more) (rule key_step.store [of _ u k], use assms(1) in \<open>simp_all add: key_start_def\<close>)
qed

section \<open>Property\<close>

text \<open>C26: If the test and the increment of an entry were one access, the threads that create keys at the same time would all get
  different keys, unused before, each with its own destructor and a count of 1.  As the code is, two threads can get the
  same key: the destructor of one is lost, and as the count is 2 no \<^verbatim>\<open>pthread_key_delete\<close> of the key succeeds.\<close>

theorem key_create_race:
  assumes tu: "t \<noteq> u" and k: "first_free kt < PTHREAD_KEYS_MAX"
  shows "(\<forall>s j. key_run True d (key_start kt) s \<and> kc_place s t = K_Got j \<longrightarrow>
      kc_place s u \<noteq> K_Got j \<and> k_count (kt j) = 0 \<and> k_count (kc_table s j) = 1 \<and> k_destructor (kc_table s j) = d t) \<and>
    (\<exists>s j. key_run False d (key_start kt) s \<and> kc_place s t = K_Got j \<and> kc_place s u = K_Got j \<and>
      k_destructor (kc_table s j) = d u \<and>
      (\<forall>E w. inited w \<and> key_table w = kc_table s \<longrightarrow>
        (\<exists>w'. pthread_key_delete E (int j) w = Some (Ret EBUSY w') \<and> key_table w' = key_table w)))"
proof (intro conjI allI impI)
  fix s j
  assume "key_run True d (key_start kt) s \<and> kc_place s t = K_Got j"
  then have r: "key_run True d (key_start kt) s" and j: "kc_place s t = K_Got j" by simp_all
  note I = key_invD [OF key_inv_run [OF r key_inv_start]]
  have c: "claims j (kc_place s t)" using j by simp
  show "kc_place s u \<noteq> K_Got j"
  proof
    assume "kc_place s u = K_Got j"
    then have "claims j (kc_place s u)" by simp
    with I(2) [OF c] tu show False by blast
  qed
  show "k_count (kt j) = 0" "k_count (kc_table s j) = 1" using I(3) [OF c] by simp_all
  show "k_destructor (kc_table s j) = d t" by (rule I(4) [OF j])
next
  let ?j = "first_free kt"
  let ?s = "\<lparr>kc_table = kt(?j := (kt ?j)\<lparr>k_count := 2, k_destructor := d u\<rparr>),
    kc_place = (\<lambda>_. K_Out)(t := K_Got ?j, u := K_Got ?j)\<rparr>"
  have "pthread_key_delete E (int ?j) w = Some (Ret EBUSY (unblocked E (blocked E w)))" if "inited w" "key_table w = kc_table ?s" for E w
    using key_delete_run [OF that(1), of "int ?j" E] that(2) k by simp
  moreover have "key_table (unblocked E (blocked E w)) = key_table w" for E and w :: "'b world" by (simp add: unblocked_def)
  ultimately have del: "\<forall>E w. inited w \<and> key_table w = kc_table ?s \<longrightarrow>
      (\<exists>w'. pthread_key_delete E (int ?j) w = Some (Ret EBUSY w') \<and> key_table w' = key_table w)"
    by blast
  show "\<exists>s j. key_run False d (key_start kt) s \<and> kc_place s t = K_Got j \<and> kc_place s u = K_Got j \<and>
      k_destructor (kc_table s j) = d u \<and>
      (\<forall>E w. inited w \<and> key_table w = kc_table s \<longrightarrow>
        (\<exists>w'. pthread_key_delete E (int j) w = Some (Ret EBUSY w') \<and> key_table w' = key_table w))"
  proof (intro exI [of _ ?s] exI [of _ ?j] conjI)
    show "key_run False d (key_start kt) ?s" by (rule key_shared [OF tu k])
    show "kc_place ?s t = K_Got ?j" "kc_place ?s u = K_Got ?j" "k_destructor (kc_table ?s ?j) = d u" using tu by simp_all
  qed (rule del)
qed

theorem key_create_race_witness:
  "\<exists>s j. key_run False (\<lambda>t. 700 + t) (key_start (key_table demo_world)) s \<and> kc_place s 10 = K_Got j \<and> kc_place s 20 = K_Got j \<and>
     k_destructor (kc_table s j) = 720"
proof -
  have "first_free (key_table demo_world) < PTHREAD_KEYS_MAX"
    by (simp add: first_free_def PTHREAD_KEYS_MAX_def upt_rec)
  from key_create_race [OF _ this, of 10 20 "\<lambda>t. 700 + t"] show ?thesis by fastforce
qed

end
