(* ===== verification/Contention.thy ===== *)
theory Contention
  imports MutexProgress
begin

text \<open>
  \<^verbatim>\<open>test_contention_lock\<close> and \<^verbatim>\<open>thread_contention\<close> of \<^verbatim>\<open>tests/test_pthread_mutex.c\<close>, the test of a mutex by two
  threads, in every interleaving: between their statements the two take the steps of locking and
  unlocking of \<open>MutexConc\<close>.  The messages are left out.
\<close>

section \<open>The two threads\<close>

text \<open>
  The statement the main thread is at; a failed lock or unlock returns \<^verbatim>\<open>NOTOK\<close> (\<open>M_Error\<close>), as does the check of the
  variable (\<open>M_Overtook\<close>), and the program exits when the thread cannot be created (\<open>M_Exit\<close>).
\<close>

datatype main_at =
    M_Lock
  | M_Zero
  | M_Create
  | M_Yield
  | M_One
  | M_Unlock
  | M_Relock
  | M_Check
  | M_Last
  | M_OK
  | M_Error
  | M_Exit
  | M_Overtook

datatype other_at =
    O_Unborn
  | O_Lock
  | O_Check
  | O_Set
  | O_Unlock
  | O_Exit
  | O_Error
  | O_Too_Early

record contest =
  locks :: lock_state
  variable :: int
  main_at :: main_at
  other_at :: other_at

text \<open>A piece of \<^verbatim>\<open>pthread_mutex_lock\<close> by a thread that is not inside, and of \<^verbatim>\<open>pthread_mutex_unlock\<close> by one that is.\<close>

definition locking :: "place \<Rightarrow> bool" where
  "locking p \<longleftrightarrow> p = L_Requesting \<or> p = L_Granted \<or> p = Inside"

definition unlocking :: "place \<Rightarrow> bool" where
  "unlocking p \<longleftrightarrow> p = U_Checked \<or> p = U_Cleared \<or> p = Outside"

definition lock_piece :: "addr \<Rightarrow> lock_state \<Rightarrow> lock_state \<Rightarrow> bool" where
  "lock_piece t s u \<longleftrightarrow> place_of s t \<noteq> Inside \<and> lock_step t s u \<and> place_of u t \<noteq> place_of s t \<and> locking (place_of u t)"

definition unlock_piece :: "addr \<Rightarrow> lock_state \<Rightarrow> lock_state \<Rightarrow> bool" where
  "unlock_piece t s u \<longleftrightarrow> place_of s t \<noteq> Outside \<and> lock_step t s u \<and> place_of u t \<noteq> place_of s t \<and> unlocking (place_of u t)"

text \<open>\<open>m\<close> is the main thread and \<open>u\<close> the one it creates.\<close>

inductive contest_step :: "addr \<Rightarrow> addr \<Rightarrow> contest \<Rightarrow> contest \<Rightarrow> bool" for m u where
  m_lock: "main_at s = M_Lock \<or> main_at s = M_Relock \<Longrightarrow> lock_piece m (locks s) l \<Longrightarrow>
    contest_step m u s (s\<lparr>locks := l\<rparr>)"
| m_deadlk: "main_at s = M_Lock \<or> main_at s = M_Relock \<Longrightarrow> place_of (locks s) m = Outside \<Longrightarrow> owner_field (locks s) = m \<Longrightarrow>
    contest_step m u s (s\<lparr>main_at := M_Error\<rparr>)"
| m_locked: "main_at s = M_Lock \<Longrightarrow> place_of (locks s) m = Inside \<Longrightarrow> contest_step m u s (s\<lparr>main_at := M_Zero\<rparr>)"
| m_zero: "main_at s = M_Zero \<Longrightarrow> contest_step m u s (s\<lparr>variable := 0, main_at := M_Create\<rparr>)"
| m_create: "main_at s = M_Create \<Longrightarrow> other_at s = O_Unborn \<Longrightarrow>
    contest_step m u s (s\<lparr>main_at := M_Yield, other_at := O_Lock\<rparr>)"
| m_no_thread: "main_at s = M_Create \<Longrightarrow> contest_step m u s (s\<lparr>main_at := M_Exit\<rparr>)"
| m_yield: "main_at s = M_Yield \<Longrightarrow> contest_step m u s (s\<lparr>main_at := M_One\<rparr>)"
| m_one: "main_at s = M_One \<Longrightarrow> contest_step m u s (s\<lparr>variable := 1, main_at := M_Unlock\<rparr>)"
| m_unlock: "main_at s = M_Unlock \<or> main_at s = M_Last \<Longrightarrow> unlock_piece m (locks s) l \<Longrightarrow>
    contest_step m u s (s\<lparr>locks := l\<rparr>)"
| m_eperm: "main_at s = M_Unlock \<or> main_at s = M_Last \<Longrightarrow> place_of (locks s) m = Inside \<Longrightarrow> owner_field (locks s) \<noteq> m \<Longrightarrow>
    contest_step m u s (s\<lparr>main_at := M_Error\<rparr>)"
| m_unlocked: "main_at s = M_Unlock \<Longrightarrow> place_of (locks s) m = Outside \<Longrightarrow> contest_step m u s (s\<lparr>main_at := M_Relock\<rparr>)"
| m_relocked: "main_at s = M_Relock \<Longrightarrow> place_of (locks s) m = Inside \<Longrightarrow> contest_step m u s (s\<lparr>main_at := M_Check\<rparr>)"
| m_check: "main_at s = M_Check \<Longrightarrow> contest_step m u s (s\<lparr>main_at := if variable s \<noteq> 2 then M_Overtook else M_Last\<rparr>)"
| m_ok: "main_at s = M_Last \<Longrightarrow> place_of (locks s) m = Outside \<Longrightarrow> contest_step m u s (s\<lparr>main_at := M_OK\<rparr>)"
| o_lock: "other_at s = O_Lock \<Longrightarrow> lock_piece u (locks s) l \<Longrightarrow> contest_step m u s (s\<lparr>locks := l\<rparr>)"
| o_deadlk: "other_at s = O_Lock \<Longrightarrow> place_of (locks s) u = Outside \<Longrightarrow> owner_field (locks s) = u \<Longrightarrow>
    contest_step m u s (s\<lparr>other_at := O_Error\<rparr>)"
| o_locked: "other_at s = O_Lock \<Longrightarrow> place_of (locks s) u = Inside \<Longrightarrow> contest_step m u s (s\<lparr>other_at := O_Check\<rparr>)"
| o_check: "other_at s = O_Check \<Longrightarrow>
    contest_step m u s (s\<lparr>other_at := if variable s \<noteq> 1 then O_Too_Early else O_Set\<rparr>)"
| o_set: "other_at s = O_Set \<Longrightarrow> contest_step m u s (s\<lparr>variable := 2, other_at := O_Unlock\<rparr>)"
| o_unlock: "other_at s = O_Unlock \<Longrightarrow> unlock_piece u (locks s) l \<Longrightarrow> contest_step m u s (s\<lparr>locks := l\<rparr>)"
| o_eperm: "other_at s = O_Unlock \<Longrightarrow> place_of (locks s) u = Inside \<Longrightarrow> owner_field (locks s) \<noteq> u \<Longrightarrow>
    contest_step m u s (s\<lparr>other_at := O_Error\<rparr>)"
| o_unlocked: "other_at s = O_Unlock \<Longrightarrow> place_of (locks s) u = Outside \<Longrightarrow> contest_step m u s (s\<lparr>other_at := O_Exit\<rparr>)"

inductive contest_run :: "addr \<Rightarrow> addr \<Rightarrow> contest \<Rightarrow> contest \<Rightarrow> bool" for m u where
  stop: "contest_run m u s s"
| step: "contest_run m u s v \<Longrightarrow> contest_step m u v w \<Longrightarrow> contest_run m u s w"

definition contest_start :: contest where
  "contest_start = \<lparr>locks = lock_start, variable = 0, main_at = M_Lock, other_at = O_Unborn\<rparr>"

section \<open>The invariant\<close>

text \<open>Which places a thread can be at by its statement: outside, on its way in, inside, on its way out.\<close>

fun main_place :: "main_at \<Rightarrow> place \<Rightarrow> bool" where
  "main_place M_Lock p = (p = Outside \<or> locking p)"
| "main_place M_Relock p = (p = Outside \<or> locking p)"
| "main_place M_Unlock p = (p = Inside \<or> unlocking p)"
| "main_place M_Last p = (p = Inside \<or> unlocking p)"
| "main_place M_OK p = (p = Outside)"
| "main_place M_Error p = False"
| "main_place st p = (p = Inside)"

fun other_place :: "other_at \<Rightarrow> place \<Rightarrow> bool" where
  "other_place O_Unborn p = (p = Outside)"
| "other_place O_Lock p = (p = Outside \<or> locking p)"
| "other_place O_Unlock p = (p = Inside \<or> unlocking p)"
| "other_place O_Exit p = (p = Outside)"
| "other_place O_Check p = (p = Inside)"
| "other_place O_Set p = (p = Inside)"
| "other_place st p = False"

text \<open>The value of the variable by the statements of both.\<close>

fun variable_ok :: "main_at \<Rightarrow> other_at \<Rightarrow> int \<Rightarrow> bool" where
  "variable_ok M_Lock ot v = (ot = O_Unborn)"
| "variable_ok M_Zero ot v = (ot = O_Unborn)"
| "variable_ok M_Create ot v = (ot = O_Unborn)"
| "variable_ok M_Yield ot v = (ot = O_Lock)"
| "variable_ok M_One ot v = (ot = O_Lock)"
| "variable_ok M_Exit ot v = (ot = O_Unborn)"
| "variable_ok M_Overtook ot v = (ot \<noteq> O_Unborn)"
| "variable_ok M_Last ot v = ((ot = O_Unlock \<or> ot = O_Exit) \<and> v = 2)"
| "variable_ok M_OK ot v = ((ot = O_Unlock \<or> ot = O_Exit) \<and> v = 2)"
| "variable_ok mt ot v = (ot \<noteq> O_Unborn \<and> v = (if ot = O_Unlock \<or> ot = O_Exit then 2 else 1))"

definition contest_inv :: "addr \<Rightarrow> addr \<Rightarrow> contest \<Rightarrow> bool" where
  "contest_inv m u s \<longleftrightarrow> lock_inv (locks s) \<and> main_place (main_at s) (place_of (locks s) m) \<and>
     other_place (other_at s) (place_of (locks s) u) \<and> variable_ok (main_at s) (other_at s) (variable s)"

lemma contest_invI:
  assumes "lock_inv (locks s)" "main_place (main_at s) (place_of (locks s) m)"
    "other_place (other_at s) (place_of (locks s) u)" "variable_ok (main_at s) (other_at s) (variable s)"
  shows "contest_inv m u s"
  using assms by (simp add: contest_inv_def)

lemma contest_invD:
  assumes "contest_inv m u s"
  shows "lock_inv (locks s)" "main_place (main_at s) (place_of (locks s) m)"
    "other_place (other_at s) (place_of (locks s) u)" "variable_ok (main_at s) (other_at s) (variable s)"
  using assms by (simp_all add: contest_inv_def)

lemma step_places: "lock_step t s l \<Longrightarrow> x \<noteq> t \<Longrightarrow> place_of l x = place_of s x"
  by (auto elim!: lock_stepE)

lemma piece_step:
  assumes "lock_piece t s l \<or> unlock_piece t s l"
  shows "lock_step t s l"
  using assms by (auto simp: lock_piece_def unlock_piece_def)

lemma one_inside:
  "lock_inv s \<Longrightarrow> m \<noteq> u \<Longrightarrow> place_of s m = Inside \<Longrightarrow> place_of s u \<noteq> Inside"
  using lock_invD(2) [of s m] lock_invD(2) [of s u] by (auto simp: places)

lemma inside_owner: "lock_inv s \<Longrightarrow> place_of s t = Inside \<Longrightarrow> owner_field s = t"
  using lock_invD(2) [of s t] by (simp add: places)

lemma outside_not_owner: "lock_inv s \<Longrightarrow> place_of s t = Outside \<Longrightarrow> t \<noteq> NULL \<Longrightarrow> owner_field s \<noteq> t"
  using lock_invD(2) [of s t] by (auto simp: places)

lemma contest_inv_start: "contest_inv m u contest_start"
  by (simp add: contest_inv_def contest_start_def lock_inv_start) (simp add: lock_start_def)

lemma contest_inv_piece:
  assumes i: "contest_inv m u s" and mu: "m \<noteq> u" and l: "lock_step t (locks s) l"
    and t: "t = m \<and> main_place (main_at s) (place_of l m) \<or> t = u \<and> other_place (other_at s) (place_of l u)"
  shows "contest_inv m u (s\<lparr>locks := l\<rparr>)"
  using contest_invD [OF i] lock_inv_step [OF l] step_places [OF l] t mu
  by (intro contest_invI) auto

lemma contest_inv_step:
  assumes mu: "m \<noteq> u" "m \<noteq> NULL" "u \<noteq> NULL"
  shows "contest_step m u s v \<Longrightarrow> contest_inv m u s \<Longrightarrow> contest_inv m u v"
proof (induction rule: contest_step.induct)
  case (m_lock s l)
  then show ?case
    by - (rule contest_inv_piece [OF _ mu(1), of _ m], auto simp: lock_piece_def)
next
  case (m_unlock s l)
  then show ?case
    by - (rule contest_inv_piece [OF _ mu(1), of _ m], auto simp: unlock_piece_def)
next
  case (o_lock s l)
  then show ?case
    by - (rule contest_inv_piece [OF _ mu(1), of _ u], auto simp: lock_piece_def)
next
  case (o_unlock s l)
  then show ?case
    by - (rule contest_inv_piece [OF _ mu(1), of _ u], auto simp: unlock_piece_def)
next
  case (m_deadlk s)
  then show ?case using outside_not_owner [OF contest_invD(1) [OF m_deadlk(4)] _ mu(2)] by blast
next
  case (m_eperm s)
  then show ?case using inside_owner [OF contest_invD(1) [OF m_eperm(4)]] by blast
next
  case (o_deadlk s)
  then show ?case using outside_not_owner [OF contest_invD(1) [OF o_deadlk(4)] _ mu(3)] by blast
next
  case (o_eperm s)
  then show ?case using inside_owner [OF contest_invD(1) [OF o_eperm(4)]] by blast
next
  case (o_locked s)
  note I = contest_invD [OF o_locked(3)]
  have "place_of (locks s) m \<noteq> Inside" using one_inside [OF I(1) mu(1)] o_locked(2) by blast
  then show ?case using I o_locked(1,2) by (cases "main_at s") (auto intro!: contest_invI)
next
  case (o_check s)
  note I = contest_invD [OF o_check(2)]
  have "place_of (locks s) m \<noteq> Inside" using one_inside [OF I(1) mu(1)] I(3) o_check(1) by auto
  then show ?case using I o_check(1) by (cases "main_at s") (auto intro!: contest_invI)
next
  case (o_set s)
  note I = contest_invD [OF o_set(2)]
  have "place_of (locks s) m \<noteq> Inside" using one_inside [OF I(1) mu(1)] I(3) o_set(1) by auto
  then show ?case using I o_set(1) by (cases "main_at s") (auto intro!: contest_invI simp: unlocking_def)
next
  case (o_unlocked s)
  then show ?case using contest_invD [OF o_unlocked(3)] by (cases "main_at s") (auto intro!: contest_invI)
next
  case (m_check s)
  then show ?case using contest_invD [OF m_check(2)] by (auto intro!: contest_invI split: if_splits)
qed (auto simp: contest_inv_def unlocking_def split: if_splits)

lemma contest_inv_run:
  assumes "m \<noteq> u" "m \<noteq> NULL" "u \<noteq> NULL"
  shows "contest_run m u s v \<Longrightarrow> contest_inv m u s \<Longrightarrow> contest_inv m u v"
  by (induction rule: contest_run.induct) (use contest_inv_step [OF assms] in blast)+

lemma contest_locks_step: "contest_step m u s v \<Longrightarrow> locks v = locks s \<or> (\<exists>t. lock_step t (locks s) (locks v))"
  by (induction rule: contest_step.induct) (auto simp: lock_piece_def unlock_piece_def)

lemma contest_locks_run: "contest_run m u s v \<Longrightarrow> lock_run lock_start (locks s) \<Longrightarrow> lock_run lock_start (locks v)"
  by (induction rule: contest_run.induct) (metis contest_locks_step lock_run.step)+

section \<open>Both outcomes can happen\<close>

abbreviation lst :: "addr \<Rightarrow> addr option \<Rightarrow> (addr \<Rightarrow> place) \<Rightarrow> lock_state" where
  "lst a b pl \<equiv> \<lparr>owner_field = a, sem_owner = b, place_of = pl\<rparr>"

lemma contest_run_append: "contest_run m u v w \<Longrightarrow> contest_run m u s v \<Longrightarrow> contest_run m u s w"
  by (induction rule: contest_run.induct) (auto intro: contest_run.step)

lemma contest_more: "contest_run m u s v \<Longrightarrow> contest_step m u v w \<Longrightarrow> w = x \<Longrightarrow> contest_run m u s x"
  by (auto intro: contest_run.step)

lemma lock_pieces:
  assumes "t \<noteq> NULL"
  shows "pl t = Outside \<Longrightarrow> lock_piece t (lst NULL None pl) (lst NULL None (pl(t := L_Requesting)))"
    and "lock_piece t (lst NULL None (pl(t := L_Requesting))) (lst NULL (Some t) (pl(t := L_Granted)))"
    and "lock_piece t (lst NULL (Some t) (pl(t := L_Granted))) (lst t (Some t) (pl(t := Inside)))"
    and "unlock_piece t (lst t (Some t) (pl(t := Inside))) (lst t (Some t) (pl(t := U_Checked)))"
    and "unlock_piece t (lst t (Some t) (pl(t := U_Checked))) (lst NULL (Some t) (pl(t := U_Cleared)))"
    and "unlock_piece t (lst NULL (Some t) (pl(t := U_Cleared))) (lst NULL None (pl(t := Outside)))"
  using assms lock_step.check [of t "lst NULL None pl"] lock_step.request [of t "lst NULL None (pl(t := L_Requesting))"]
    lock_step.own [of t "lst NULL (Some t) (pl(t := L_Granted))"] lock_step.unlock [of t "lst t (Some t) (pl(t := Inside))"]
    lock_step.clear [of t "lst t (Some t) (pl(t := U_Checked))"] lock_step.release [of t "lst NULL (Some t) (pl(t := U_Cleared))"]
  by (simp_all add: lock_piece_def unlock_piece_def locking_def unlocking_def)

text \<open>A call that is not disturbed, from its first to its last piece, of either thread.\<close>

lemma chain3:
  assumes "\<And>s l. P s \<Longrightarrow> piece (locks s) l \<Longrightarrow> contest_step m u s (s\<lparr>locks := l\<rparr>)"
    and "\<And>s l. P s \<Longrightarrow> P (s\<lparr>locks := l\<rparr>)"
    and "P s" "piece (locks s) a" "piece a b" "piece b c"
  shows "contest_run m u s (s\<lparr>locks := c\<rparr>)"
proof -
  have "contest_run m u s (s\<lparr>locks := a\<rparr>)" using assms by (intro contest_more [OF contest_run.stop]) auto
  then have "contest_run m u s (s\<lparr>locks := b\<rparr>)"
    by (rule contest_more) (rule assms(1) [of "s\<lparr>locks := a\<rparr>" b], use assms in auto)
  then show ?thesis
    by (rule contest_more) (rule assms(1) [of "s\<lparr>locks := b\<rparr>" c], use assms in auto)
qed

lemma main_goes_in:
  assumes "m \<noteq> NULL" "main_at s = M_Lock \<or> main_at s = M_Relock" "locks s = lst NULL None pl" "pl m = Outside"
  shows "contest_run m u s (s\<lparr>locks := lst m (Some m) (pl(m := Inside))\<rparr>)"
  by (rule chain3 [where P = "\<lambda>s. main_at s = M_Lock \<or> main_at s = M_Relock" and piece = "lock_piece m"])
     (use assms lock_pieces [OF assms(1), of pl] in \<open>auto intro: contest_step.m_lock\<close>)

lemma main_goes_out:
  assumes "m \<noteq> NULL" "main_at s = M_Unlock \<or> main_at s = M_Last" "locks s = lst m (Some m) (pl(m := Inside))"
  shows "contest_run m u s (s\<lparr>locks := lst NULL None (pl(m := Outside))\<rparr>)"
  by (rule chain3 [where P = "\<lambda>s. main_at s = M_Unlock \<or> main_at s = M_Last" and piece = "unlock_piece m"])
     (use assms lock_pieces [OF assms(1), of pl] in \<open>auto intro: contest_step.m_unlock\<close>)

lemma other_goes_in:
  assumes "u \<noteq> NULL" "other_at s = O_Lock" "locks s = lst NULL None pl" "pl u = Outside"
  shows "contest_run m u s (s\<lparr>locks := lst u (Some u) (pl(u := Inside))\<rparr>)"
  by (rule chain3 [where P = "\<lambda>s. other_at s = O_Lock" and piece = "lock_piece u"])
     (use assms lock_pieces [OF assms(1), of pl] in \<open>auto intro: contest_step.o_lock\<close>)

lemma other_goes_out:
  assumes "u \<noteq> NULL" "other_at s = O_Unlock" "locks s = lst u (Some u) (pl(u := Inside))"
  shows "contest_run m u s (s\<lparr>locks := lst NULL None (pl(u := Outside))\<rparr>)"
  by (rule chain3 [where P = "\<lambda>s. other_at s = O_Unlock" and piece = "unlock_piece u"])
     (use assms lock_pieces [OF assms(1), of pl] in \<open>auto intro: contest_step.o_unlock\<close>)

abbreviation contest_st :: "int \<Rightarrow> main_at \<Rightarrow> other_at \<Rightarrow> contest" where
  "contest_st v mt ot \<equiv> \<lparr>locks = lock_start, variable = v, main_at = mt, other_at = ot\<rparr>"

text \<open>Up to the end of the first unlock, with the created thread about to lock.\<close>

lemma contest_first:
  assumes m: "m \<noteq> NULL"
  shows "contest_run m u contest_start (contest_st 1 M_Relock O_Lock)"
proof -
  let ?in = "lst m (Some m) ((\<lambda>_. Outside)(m := Inside))"
  note more = contest_more
  have "contest_run m u contest_start (contest_start\<lparr>locks := ?in\<rparr>)"
    by (rule main_goes_in [OF m]) (simp_all add: contest_start_def lock_start_def)
  then have "contest_run m u contest_start (contest_start\<lparr>locks := ?in, main_at := M_Zero\<rparr>)"
    by (rule more) (rule contest_step.m_locked, simp_all add: contest_start_def)
  then have "contest_run m u contest_start (contest_start\<lparr>locks := ?in, main_at := M_Create\<rparr>)"
    by (rule more) (rule contest_step.m_zero, simp_all add: contest_start_def)
  then have "contest_run m u contest_start (contest_start\<lparr>locks := ?in, main_at := M_Yield, other_at := O_Lock\<rparr>)"
    by (rule more) (rule contest_step.m_create, simp_all add: contest_start_def)
  then have "contest_run m u contest_start (contest_start\<lparr>locks := ?in, main_at := M_One, other_at := O_Lock\<rparr>)"
    by (rule more) (rule contest_step.m_yield, simp_all)
  then have "contest_run m u contest_start (contest_start\<lparr>locks := ?in, variable := 1, main_at := M_Unlock, other_at := O_Lock\<rparr>)" (is "contest_run m u _ ?s")
    by (rule more) (rule contest_step.m_one, simp_all)
  moreover have "contest_run m u ?s (?s\<lparr>locks := lock_start\<rparr>)"
    using main_goes_out [OF m, of ?s "\<lambda>_. Outside"] by (simp add: lock_start_def fun_upd_idem)
  ultimately have "contest_run m u contest_start (?s\<lparr>locks := lock_start\<rparr>)" using contest_run_append by blast
  then show ?thesis
    by (rule more) (rule contest_step.m_unlocked, simp_all add: contest_start_def lock_start_def)
qed

text \<open>The main thread locks again before the created thread has been in.\<close>

lemma contest_overtaken:
  assumes m: "m \<noteq> NULL"
  shows "contest_run m u contest_start
    ((contest_st 1 M_Overtook O_Lock)\<lparr>locks := lst m (Some m) ((\<lambda>_. Outside)(m := Inside))\<rparr>)"
proof -
  let ?s = "contest_st 1 M_Relock O_Lock" and ?in = "lst m (Some m) ((\<lambda>_. Outside)(m := Inside))"
  have "contest_run m u ?s (?s\<lparr>locks := ?in\<rparr>)"
    by (rule main_goes_in [OF m]) (simp_all add: lock_start_def)
  then have "contest_run m u ?s (?s\<lparr>locks := ?in, main_at := M_Check\<rparr>)"
    by (rule contest_more) (rule contest_step.m_relocked, simp_all)
  then have "contest_run m u ?s (?s\<lparr>locks := ?in, main_at := M_Overtook\<rparr>)"
    by (rule contest_more) (rule contest_step.m_check, simp_all)
  then show ?thesis using contest_run_append [OF _ contest_first [OF m]] by simp
qed

text \<open>The created thread is first.\<close>

lemma contest_passes:
  assumes m: "m \<noteq> NULL" and u: "u \<noteq> NULL"
  shows "contest_run m u contest_start (contest_st 2 M_OK O_Exit)"
proof -
  note more = contest_more and app = contest_run_append
  let ?s = "contest_st 1 M_Relock O_Lock"
  let ?o = "lst u (Some u) ((\<lambda>_. Outside)(u := Inside))" and ?m = "lst m (Some m) ((\<lambda>_. Outside)(m := Inside))"
  have "contest_run m u ?s (?s\<lparr>locks := ?o\<rparr>)"
    by (rule other_goes_in [OF u]) (simp_all add: lock_start_def)
  then have "contest_run m u ?s (?s\<lparr>locks := ?o, other_at := O_Check\<rparr>)"
    by (rule more) (rule contest_step.o_locked, simp_all)
  then have "contest_run m u ?s (?s\<lparr>locks := ?o, other_at := O_Set\<rparr>)"
    by (rule more) (rule contest_step.o_check, simp_all)
  then have "contest_run m u ?s (?s\<lparr>locks := ?o, variable := 2, other_at := O_Unlock\<rparr>)" (is "contest_run m u ?s ?a")
    by (rule more) (rule contest_step.o_set, simp_all)
  moreover have "contest_run m u ?a (?a\<lparr>locks := lock_start\<rparr>)"
    using other_goes_out [OF u, of ?a "\<lambda>_. Outside"] by (simp add: lock_start_def fun_upd_idem)
  ultimately have "contest_run m u ?s (?a\<lparr>locks := lock_start\<rparr>)" using app by blast
  then have "contest_run m u ?s (contest_st 2 M_Relock O_Exit)" (is "contest_run m u ?s ?b")
    by (rule more) (rule contest_step.o_unlocked, simp_all add: lock_start_def)
  moreover have "contest_run m u ?b (?b\<lparr>locks := ?m\<rparr>)"
    by (rule main_goes_in [OF m]) (simp_all add: lock_start_def)
  ultimately have "contest_run m u ?s (?b\<lparr>locks := ?m\<rparr>)" using app by blast
  then have "contest_run m u ?s (?b\<lparr>locks := ?m, main_at := M_Check\<rparr>)"
    by (rule more) (rule contest_step.m_relocked, simp_all)
  then have "contest_run m u ?s (?b\<lparr>locks := ?m, main_at := M_Last\<rparr>)" (is "contest_run m u ?s ?c")
    by (rule more) (rule contest_step.m_check, simp_all)
  moreover have "contest_run m u ?c (?c\<lparr>locks := lock_start\<rparr>)"
    using main_goes_out [OF m, of ?c "\<lambda>_. Outside"] by (simp add: lock_start_def fun_upd_idem)
  ultimately have "contest_run m u ?s (?c\<lparr>locks := lock_start\<rparr>)" using app by blast
  then have "contest_run m u ?s (contest_st 2 M_OK O_Exit)"
    by (rule more) (rule contest_step.m_ok, simp_all add: lock_start_def)
  then show ?thesis using app [OF _ contest_first [OF m]] by blast
qed

section \<open>Property\<close>

text \<open>C23: In every interleaving of the two threads of \<^verbatim>\<open>test_contention_lock\<close> no lock or unlock fails and the created thread
  finds the variable at 1: the mutex keeps it out until the main thread has stored it and unlocked.  Unless the thread
  cannot be created, the test can only fail in the main thread's last check, exactly when that thread has locked the mutex again before the created one has;
  when it succeeds, the created thread has been inside.\<close>

theorem contention_test:
  assumes "contest_run m u contest_start s" and "m \<noteq> u" "m \<noteq> NULL" "u \<noteq> NULL"
  shows "main_at s \<noteq> M_Error \<and> other_at s \<noteq> O_Error \<and> other_at s \<noteq> O_Too_Early \<and>
    \<not> (place_of (locks s) m = Inside \<and> place_of (locks s) u = Inside) \<and>
    (main_at s = M_Check \<longrightarrow> (variable s = 2 \<longleftrightarrow> other_at s = O_Unlock \<or> other_at s = O_Exit)) \<and>
    (main_at s = M_OK \<longrightarrow> variable s = 2 \<and> (other_at s = O_Unlock \<or> other_at s = O_Exit))"
proof -
  have i: "contest_inv m u s" by (rule contest_inv_run [OF assms(2-4,1) contest_inv_start])
  note I = contest_invD [OF i]
  have "main_at s \<noteq> M_Error" "other_at s \<noteq> O_Error" "other_at s \<noteq> O_Too_Early" using I(2,3) by auto
  then show ?thesis using I(4) one_inside [OF I(1) assms(2)] by (auto split: if_splits)
qed

theorem contention_test_witness:
  "(\<exists>s. contest_run 10 20 contest_start s \<and> main_at s = M_OK \<and> variable s = 2) \<and>
   (\<exists>s. contest_run 10 20 contest_start s \<and> main_at s = M_Overtook \<and> other_at s \<noteq> O_Too_Early)"
proof -
  have ok: "contest_run 10 20 contest_start (contest_st 2 M_OK O_Exit)" by (rule contest_passes) simp_all
  let ?o = "(contest_st 1 M_Overtook O_Lock)\<lparr>locks := lst 10 (Some 10) ((\<lambda>_. Outside)(10 := Inside))\<rparr>"
  have over: "contest_run 10 20 contest_start ?o" by (rule contest_overtaken) simp
  show ?thesis
    using contention_test [OF ok] contention_test [OF over] ok over
    by (intro conjI exI [of _ "contest_st 2 M_OK O_Exit"] exI [of _ ?o]) simp_all
qed

end
