(* ===== verification/Times.thy ===== *)
theory Times
  imports Cond
begin

text \<open>
  The two conversions of \<^verbatim>\<open>sys/time.h\<close> between a \<^verbatim>\<open>struct timeval\<close>, what \<^verbatim>\<open>gettimeofday\<close> gives, and a
  \<^verbatim>\<open>struct timespec\<close>, what \<^verbatim>\<open>pthread_cond_timedwait\<close> takes.  Both are pairs of 32-bit words here, as
  in \<open>Cond\<close>: seconds and micro- or nanoseconds, read as signed.
\<close>

definition TIMEVAL_TO_TIMESPEC :: "u32 \<times> u32 \<Rightarrow> u32 \<times> u32" where
  "TIMEVAL_TO_TIMESPEC tv = (let (tv_sec, tv_usec) = tv in (tv_sec, tv_usec * 1000))"

definition TIMESPEC_TO_TIMEVAL :: "u32 \<times> u32 \<Rightarrow> u32 \<times> u32" where
  "TIMESPEC_TO_TIMEVAL ts = (let (tv_sec, tv_nsec) = ts in (tv_sec, sdiv32 tv_nsec 1000))"

lemma sint_times_1000:
  fixes u :: u32
  assumes "0 \<le> sint u" "sint u \<le> 2147483"
  shows "sint (u * 1000) = sint u * 1000"
proof -
  have "u * 1000 = (word_of_int (sint u) * word_of_int 1000 :: u32)" by simp
  also have "\<dots> = word_of_int (sint u * 1000)" by (simp only: wi_hom_syms)
  finally have "u * 1000 = word_of_int (sint u * 1000)" .
  then have "sint (u * 1000) = sint (word_of_int (sint u * 1000) :: u32)" by (rule arg_cong)
  also have "\<dots> = sint u * 1000" using assms by (intro sint32_of_int) simp_all
  finally show ?thesis .
qed

lemma sdiv32_1000: "0 \<le> sint n \<Longrightarrow> sdiv32 n 1000 = (word_of_int (sint n div 1000) :: u32)"
  by (simp add: sdiv32_def signed_divide_int_def sgn_if)

lemma micro_nano:
  fixes u :: u32
  assumes "0 \<le> sint u" "sint u \<le> 2147483"
  shows "sdiv32 (u * 1000) 1000 = u"
  using assms by (simp add: sdiv32_1000 sint_times_1000)

lemma nano_micro:
  fixes n :: u32
  assumes "0 \<le> sint n"
  shows "sdiv32 n 1000 * 1000 = word_of_int (sint n - sint n mod 1000)"
proof -
  have "sdiv32 n 1000 * 1000 = (word_of_int (sint n div 1000) * word_of_int 1000 :: u32)"
    using assms by (simp add: sdiv32_1000)
  also have "\<dots> = word_of_int (sint n div 1000 * 1000)" by (simp only: wi_hom_syms)
  finally show ?thesis by (simp add: minus_mod_eq_div_mult)
qed

text \<open>C1: Converting a time of day to a deadline and back gives it again, and a deadline converted to a time of day and back
  loses what is below a microsecond.  A deadline made from the present time by \<^verbatim>\<open>TIMEVAL_TO_TIMESPEC\<close>
  and \<open>k\<close> more seconds makes \<^verbatim>\<open>pthread_cond_timedwait\<close> wait exactly \<open>1000 * k\<close> milliseconds.  More than
  2147483 microseconds, which no normalised time has, overflow the product.\<close>

theorem time_conversions:
  assumes us: "0 \<le> sint us" "sint us < 1000000" and ns: "0 \<le> sint ns" "sint ns < 1000000000" and k: "k \<le> 2147482"
  shows "TIMESPEC_TO_TIMEVAL (TIMEVAL_TO_TIMESPEC (sec, us)) = (sec, us) \<and>
    TIMEVAL_TO_TIMESPEC (TIMESPEC_TO_TIMEVAL (sec, ns)) = (sec, word_of_int (sint ns - sint ns mod 1000)) \<and>
    sint (wait_timeout (fst (TIMEVAL_TO_TIMESPEC (sec, us)) + of_nat k, snd (TIMEVAL_TO_TIMESPEC (sec, us))) (sec, us)) =
      1000 * int k \<and>
    TIMESPEC_TO_TIMEVAL (TIMEVAL_TO_TIMESPEC (sec, 2147484)) \<noteq> (sec, 2147484)"
proof (intro conjI)
  show "TIMESPEC_TO_TIMEVAL (TIMEVAL_TO_TIMESPEC (sec, us)) = (sec, us)"
    using micro_nano us by (simp add: TIMESPEC_TO_TIMEVAL_def TIMEVAL_TO_TIMESPEC_def)
  show "TIMEVAL_TO_TIMESPEC (TIMESPEC_TO_TIMEVAL (sec, ns)) = (sec, word_of_int (sint ns - sint ns mod 1000))"
    using nano_micro ns by (simp add: TIMESPEC_TO_TIMEVAL_def TIMEVAL_TO_TIMESPEC_def)
  have "(word_of_int (int k) :: u32) * word_of_int 1000 = word_of_int (int k * 1000)" by (simp only: wi_hom_syms)
  then have w: "(of_nat k :: u32) * 1000 = word_of_int (int k * 1000)" by simp
  have "sint (word_of_int (int k * 1000) :: u32) = int k * 1000" using k by (intro sint32_of_int) simp_all
  then have "sint ((of_nat k :: u32) * 1000) = 1000 * int k" by (simp only: w mult.commute)
  moreover have "sdiv32 (sdiv32 (us * 1000) 1000 - us) 1000 = 0"
    using micro_nano us by (simp add: sdiv32_def)
  ultimately show "sint (wait_timeout (fst (TIMEVAL_TO_TIMESPEC (sec, us)) + of_nat k, snd (TIMEVAL_TO_TIMESPEC (sec, us))) (sec, us)) =
      1000 * int k"
    by (simp add: wait_timeout_def TIMEVAL_TO_TIMESPEC_def)
  show "TIMESPEC_TO_TIMEVAL (TIMEVAL_TO_TIMESPEC (sec, 2147484)) \<noteq> (sec, 2147484)"
    by (simp add: TIMESPEC_TO_TIMEVAL_def TIMEVAL_TO_TIMESPEC_def sdiv32_def)
qed

theorem time_conversions_witness:
  "TIMESPEC_TO_TIMEVAL (TIMEVAL_TO_TIMESPEC (1000, 250000)) = (1000, 250000) \<and>
   sint (wait_timeout (1005, 250000000) (1000, 250000)) = 5000"
  using time_conversions [of 250000 1999 5 1000] by (simp add: TIMEVAL_TO_TIMESPEC_def)

end
