(* ===== verification/Spec2Isabelle.thy ===== *)
theory Spec2Isabelle
  imports Prelude World Access Init Demo ThreadList Signals SigCalls Queue Mutex MutexSpec
    MutexConc Cond Keys Attrs Threads Exit Create Once Delivery SigSpec Terminate Locking Dl Alarm Select
    Register Stages Keep System Unions Image Info Tests SigSets DlSingle CondConc Lifecycle
    MutexProgress SigConc ListConc KeyConc Contention Times
begin

text \<open>
  A model of the POSIX threads library for OS/2 and emx in \<^verbatim>\<open>src/src/pthread\<close>, written in C by
  Antony Curtis after the FreeBSD \<^verbatim>\<open>libc_r\<close>, and theorems about it.

  \<^bold>\<open>The program.\<close>  The library puts POSIX threads on top of the threads of OS/2.  Each
  thread has a structure \<^verbatim>\<open>struct pthread\<close>, which the OS thread reaches through one word of
  thread-local storage (\<^verbatim>\<open>_thread_run\<close>).  The structures hang on two lists linked through
  \<^verbatim>\<open>nxt\<close>: live threads (\<^verbatim>\<open>_thread_link_list\<close>) and dead ones (\<^verbatim>\<open>_thread_dead\<close>).  A mutex is a
  structure with an owner, a count and an OS/2 mutex semaphore, a condition variable one with an event semaphore and
  a number of waiters.  Signals are not taken from the OS one by one but kept as two sets in each thread
  structure and delivered by the thread itself, at the end of most calls.

  \<^bold>\<open>How it is modelled.\<close>  \<open>Prelude\<close> has the programs: a C function is a function from a state to an
  optional outcome, which is a returned value with the new state, the end of the thread or of
  the process, or a fault (a null or wild pointer, an index out of bounds, the wrong member of
  a union); \<open>None\<close> is a call that does not return.  \<open>World\<close> has the state: one record with a heap for each
  type of structure, the globals of \<^verbatim>\<open>pthread_private.h\<close> and the OS thread that runs.  The structures are
  records with the fields of the source, machine words where the code masks or wraps.  OS/2 and
  the C library are the parameter \<open>E\<close>, a record \<open>os\<close> with one field for each service the
  library calls; they act on a component \<open>kern\<close> of the state of which the model knows nothing.  The
  services that can block or run other code take and give the whole state.  \<open>Access\<close> has reads and writes
  through addresses and the macros that block signals and enter critical sections.  The loops that follow pointers are
  \<open>partial_function (option)\<close>, so that not ending is \<open>None\<close>; there is no fuel, and a theorem that a call returns
  is about its value being \<open>Some\<close>.  What a call does is computed by the simplifier with the collection \<open>run_simps\<close>.

  \<^bold>\<open>The parts.\<close>
  \<^item> \<open>Init\<close>: \<^verbatim>\<open>uthread_self.c\<close>, \<^verbatim>\<open>uthread_seterrno.c\<close>, \<^verbatim>\<open>uthread_equal.c\<close>, \<^verbatim>\<open>pthread_init\<close> and the signal tables of
    \<^verbatim>\<open>uthread_init.c\<close>: how a thread gets its structure.  \<open>ThreadList\<close>: the two lists and the search on them.
  \<^item> \<open>Queue\<close>: \<^verbatim>\<open>uthread_queue.c\<close>.  The queue is a FIFO, stated once as the locale \<open>fifo\<close> and interpreted on
    the queue operations; removal keeps the order, and what it does to a thread on another queue.
  \<^item> \<open>Mutex\<close>, \<open>MutexSpec\<close>, \<open>MutexConc\<close>: \<^verbatim>\<open>uthread_mutex.c\<close>, \<^verbatim>\<open>uthread_mutexattr_prio.c\<close>.  The operations of one
    thread at a time satisfy the contract of the locales \<open>lock_contract\<close>, \<open>exclusive_lock\<close> and \<open>try_lock\<close>; the
    interleavings of several threads are a step relation, at the grain of accesses to the owner field and requests
    of the semaphore, in which at most one thread is inside.  Each branch of the functions is shown to take these steps one by one, in the
    states in which it makes its requests; so that the state of the release can be spoken of, the body of the unlock is the definition
    \<open>pthread_mutex_unlock_by\<close>, which has the release as an argument.  \<open>MutexProgress\<close>: a
    thread that requests the mutex can always still get it.
  \<^item> \<open>Cond\<close>: \<^verbatim>\<open>uthread_cond.c\<close>.  Waiting gives up the mutex and takes it again; the timeout in 32-bit arithmetic.
    \<open>CondConc\<close>: the interleavings of waits, signals and broadcasts, on top of those of the mutex; the count of waiting threads is
    exact as long as no wait fails, which breaks it, and a broadcast wakes every thread that was blocked when it began; it also
    releases those on their way to the wait if the event keeps every post.  The functions take the steps one by one; the body of the
    waits is \<open>cond_block_by\<close>, which has the unlock and the lock as arguments.  \<open>Times\<close>: the conversions of
    \<^verbatim>\<open>sys/time.h\<close>, with which deadlines are made.
  \<^item> \<open>Keys\<close>: \<^verbatim>\<open>uthread_spec.c\<close>.  The use count of a key is one more than the number of threads with a value for it; round trips of
    values; the destructors at thread exit, as far as the uninitialised \<^verbatim>\<open>specific_data_count\<close> lets them run.  \<open>KeyConc\<close>: threads that create keys at the same time, which can get the same key.
  \<^item> \<open>Attrs\<close>: the fifteen files of attribute objects, through the locales \<open>attribute_object\<close> and \<open>attribute_field\<close>,
    and \<^verbatim>\<open>pthread_attr_setschedpolicy\<close> of \<^verbatim>\<open>uthread_kern.c\<close>.
  \<^item> \<open>Threads\<close>: priorities, suspending and resuming, joining and detaching (\<^verbatim>\<open>uthread_getprio.c\<close>,
    \<^verbatim>\<open>uthread_setprio.c\<close>, \<^verbatim>\<open>uthread_suspend.c\<close>, \<^verbatim>\<open>uthread_resume.c\<close>, \<^verbatim>\<open>uthread_join.c\<close>, \<^verbatim>\<open>uthread_detach.c\<close>).
  \<^item> \<open>Exit\<close>: \<^verbatim>\<open>uthread_exit.c\<close>, \<^verbatim>\<open>uthread_clean.c\<close>, \<^verbatim>\<open>uthread_kern.c\<close>.  A thread that ends runs its handlers and
    destructors and moves from the live list to the dead list, where a join finds its value.
  \<^item> \<open>Create\<close>: \<^verbatim>\<open>uthread_create.c\<close>, the part of the creator (\<open>thread_create\<close>) and that of the new thread
    (\<open>thread_create2\<close>), which share a \<open>create_info\<close>.  \<open>Lifecycle\<close>: a thread from its creation over its exit to the join that gets its value.
  \<^item> \<open>Once\<close>: \<^verbatim>\<open>uthread_once.c\<close>.
  \<^item> \<open>Signals\<close>, \<open>SigCalls\<close>: delivery and termination of \<^verbatim>\<open>uthread_init.c\<close>, and the signal calls
    \<^verbatim>\<open>uthread_kill.c\<close>, \<^verbatim>\<open>uthread_sigmask.c\<close>, \<^verbatim>\<open>uthread_sigaction.c\<close>, \<^verbatim>\<open>uthread_signal.c\<close>, \<^verbatim>\<open>uthread_sigpending.c\<close>,
    \<^verbatim>\<open>uthread_sigsuspend.c\<close>, \<^verbatim>\<open>uthread_raise.c\<close>, \<^verbatim>\<open>uthread_pause.c\<close>, \<^verbatim>\<open>uthread_sleep.c\<close>, \<^verbatim>\<open>uthread_yield.c\<close>,
    \<^verbatim>\<open>uthread_read.c\<close>, \<^verbatim>\<open>uthread_write.c\<close>.  \<open>Delivery\<close>: the loop ends and runs each handler once, in ascending order.
    \<open>SigSpec\<close>: a blocked signal waits, actions round trip, \<^verbatim>\<open>pthread_kill\<close> wakes a sleeper, an interrupted sleep.
    \<open>Terminate\<close>: \<^verbatim>\<open>uthread_terminate\<close> ends the process and lets go of the threads it reaches, but of none that waits on a condition.  \<open>SigSets\<close>: the masks as sets, which
    \<^verbatim>\<open>pthread_sigmask\<close> joins, subtracts, replaces and reports.  \<open>SigConc\<close>: \<^verbatim>\<open>pthread_kill\<close> by any number of threads, cut at its accesses,
    interleaved with the delivery of its target.  No signal is lost as long as each update is one access and the target neither
    unmasks by \<^verbatim>\<open>pthread_sigmask\<close> nor waits in \<^verbatim>\<open>pthread_pause\<close>; a path that loses one is given for each of these.
  \<^item> \<open>Alarm\<close>: \<^verbatim>\<open>uthread_alarm.c\<close>, both sides: an alarm goes off, a cancelled one does not, and one set again too
    soon goes off at once.  \<open>Select\<close>: \<^verbatim>\<open>uthread_select.c\<close>, the call and its polling thread, from the call to what it reports, and what
    it does not: input on descriptor 0 alone.  \<open>Locking\<close>:
    \<^verbatim>\<open>uthread_locking.c\<close>.  \<open>Dl\<close>: \<^verbatim>\<open>uthread_dlopen.c\<close> and the \<^verbatim>\<open>dl_*.c\<close>;
    \<open>DlSingle\<close>: the single-threaded build of the latter, which has a state of its own; the results and messages of both.
  \<^item> \<open>Register\<close>: what the first call of a thread into the library does, and the arithmetic of the priority it starts with.
  \<^item> \<open>Stages\<close>, \<open>Keep\<close>, \<open>System\<close>: the directory of threads as an invariant of the process.  \<open>Stages\<close> says where a
    thread stands (not registered, live, dead, or with a structure on no list, as inside \<^verbatim>\<open>_thread_init\<close>,
    \<^verbatim>\<open>_thread_create2\<close> and \<^verbatim>\<open>pthread_exit\<close>) and has rules, one for each way to build a program, by which a
    function is shown to leave its caller where it stood; the locale \<open>calm_os\<close> says what the services have to keep in
    turn.  \<open>Keep\<close> goes through every function of the library.  \<open>System\<close> is the process as a transition system, in
    which any thread may call any function, threads are started and switched, and the application writes its own
    memory; in every reachable state the two lists are well formed and disjoint, each OS thread has a structure of its own
    on one of them or none, and the searches end.  The same invariant has the tag of each wait union, the state of the thread:
    \<open>Unions\<close> concludes that no call reads a member that was not written.  \<open>Image\<close> is \<^verbatim>\<open>pthread_private.c\<close>, the state a process starts in.
  \<^item> \<open>ListConc\<close>: a search of the live list, which takes no critical section, interleaved with threads that register and end.  It
    never leaves the two lists; it is right as long as no thread ends meanwhile, and strays when the one it stands at does.
  \<^item> \<open>Info\<close>: \<^verbatim>\<open>uthread_info.c\<close>, the dump of the lists.  It is in no makefile, and the file table and the system calls it uses,
    which nothing declares, are parameters.  \<open>Tests\<close>: the tests of mutexes in \<^verbatim>\<open>tests\<close> pass.
    \<open>Contention\<close>: the one of them that has two threads, in every interleaving on the steps of \<open>MutexConc\<close>.
  \<^item> \<open>Demo\<close> is a concrete instance of the OS services and a concrete process, on which the witnesses evaluate.

  \<^bold>\<open>Assumptions.\<close>  A theorem that rests on a service names what it needs of it as a hypothesis: that the OS grants a
  free semaphore, that an application's handler leaves the library's data alone, that \<^verbatim>\<open>malloc\<close> gives an unused address.  The calls
  other than those of \<open>MutexConc\<close>, \<open>CondConc\<close>, \<open>SigConc\<close>, \<open>ListConc\<close> and \<open>KeyConc\<close> are modelled as run by one thread; what other threads do meanwhile enters only through the blocking services.  \<open>System\<close> assumes of a blocking
  service or a callback what the theorems show of every call: that the directory is whole again when the caller goes on.

  \<^bold>\<open>Loops and bounds.\<close>  No loop of the model has fuel.  That a loop ends is proved by the length of a list
  (searches, cleanup handlers), by the number of threads still waiting (\<^verbatim>\<open>uthread_terminate\<close>), by the signals not yet
  taken (\<^verbatim>\<open>_sys_deliver_pending_signals\<close>) or by the number of rounds the environment is busy (locks, polls); that one does
  not end, as in \<^verbatim>\<open>pthread_mutex_destroy\<close> and in the poll for standard input, is proved by fixed-point
  induction.  Words have the width of the source; elsewhere integers are those of the source as long as they do not overflow there.

  \<^bold>\<open>Not modelled.\<close>  The messages \<^verbatim>\<open>uthread_terminate\<close> and the tests print; the branch of \<^verbatim>\<open>pthread_select\<close> under
  \<^verbatim>\<open>#else\<close>; the test programs other than those of mutexes, whose outcome is what they print or how long they take; and the
  headers of the emulated system, which but for the two conversions only declare (\<^verbatim>\<open>src/include/pthread.h\<close> is a copy of the library's
  header).  The calls other than those of mutexes and condition variables, the sending of signals, the searches of the list of live
  threads and the creation of keys are not interleaved step by step with other threads.
\<close>

end
